(* ===== verification/Prelude.thy ===== *)
theory Prelude
  imports Main "HOL-Library.Word" "HOL-Library.Monad_Syntax"
begin

text \<open>
  What every component of the development shares: the names of the machine types, raw memory
  blocks with bounds-checked copies (the \<open>memcpy\<close> and \<open>memmove\<close> of the C library), the errno
  values the code stores, the collections of facts the component proofs feed to the simplifier,
  and generic lemmas on words, lists and options.

  Machine integers are words of the width the code declares. An operation that would read or
  write outside a block is undefined behaviour in C++; here it is the value \<^term>\<open>None\<close>, so that a
  theorem saying an operation returns \<^term>\<open>Some\<close> also says it stays inside its memory.
\<close>

unbundle bit_operations_syntax

section \<open>Machine types\<close>

type_synonym byte = "8 word"
type_synonym uint16 = "16 word"
type_synonym uint32 = "32 word"
type_synonym uint64 = "64 word"
type_synonym size_t = "64 word"
type_synonym addr = nat

text \<open>The facts a component's proofs use to turn word arithmetic into arithmetic on \<^typ>\<open>nat\<close>.\<close>

named_theorems word_nat

lemma unat_diff_word [word_nat]: "y \<le> x \<Longrightarrow> unat (x - y) = unat x - unat y"
  for x y :: "'a::len word"
  by (rule unat_sub)

lemma unat_lt: "unat x < 2 ^ LENGTH('a)" for x :: "'a::len word"
  by (rule unsigned_less)

lemma unat_plus_word: "unat x + unat y < 2 ^ LENGTH('a) \<Longrightarrow> unat (x + y) = unat x + unat y"
  for x y :: "'a::len word"
  by (simp add: unat_word_ariths)

lemma word_le_unat: "x \<le> y \<longleftrightarrow> unat x \<le> unat y"
  for x y :: "'a::len word"
  by (rule word_le_nat_alt)

lemma word_less_unat: "x < y \<longleftrightarrow> unat x < unat y"
  for x y :: "'a::len word"
  by (rule word_less_nat_alt)

lemmas word_order_unat = word_le_unat word_less_unat

lemma sint_nonneg_small: "unat x < 2 ^ (LENGTH('a) - 1) \<Longrightarrow> sint x = int (unat x)"
  for x :: "'a::len word"
proof -
  assume "unat x < 2 ^ (LENGTH('a) - 1)"
  then have "int (unat x) < int (2 ^ (LENGTH('a) - 1))"
    by (simp only: of_nat_less_iff)
  then have "uint x < 2 ^ (LENGTH('a) - 1)"
    by simp
  moreover have "- (2 ^ (LENGTH('a) - 1)) \<le> uint x"
    by (rule order_trans [where y = 0]) simp_all
  ultimately show ?thesis
    by (simp add: sint_uint signed_take_bit_int_eq_self)
qed

lemma unat_push_bit_1: "n < LENGTH('a) \<Longrightarrow> unat (push_bit n 1 :: 'a::len word) = 2 ^ n"
proof -
  assume n: "n < LENGTH('a)"
  have "(push_bit n 1 :: 'a word) = of_nat (2 ^ n)"
    by (simp add: push_bit_eq_mult)
  then have "unat (push_bit n 1 :: 'a word) = 2 ^ n mod 2 ^ LENGTH('a)"
    by (simp only: unat_of_nat)
  also have "\<dots> = 2 ^ n"
    using n by (intro mod_less power_strict_increasing) simp_all
  finally show ?thesis .
qed

lemma unat_ucast_small: "unat w = n \<Longrightarrow> n < 2 ^ LENGTH('b) \<Longrightarrow> unat (ucast w :: 'b::len word) = n"
  for w :: "'a::len word"
  by (simp add: unsigned_ucast_eq take_bit_nat_eq_self)

section \<open>Memory blocks\<close>

text \<open>
  A block of raw memory is the list of its bytes. \<open>mem_get b off n\<close> reads \<open>n\<close> bytes at offset
  \<open>off\<close>, \<open>mem_put b off bs\<close> stores \<open>bs\<close> there; both are \<^term>\<open>None\<close> outside the block.
\<close>

definition mem_get :: "'a list \<Rightarrow> nat \<Rightarrow> nat \<Rightarrow> 'a list option" where
  "mem_get b off n = (if off + n \<le> length b then Some (take n (drop off b)) else None)"

definition mem_put :: "'a list \<Rightarrow> nat \<Rightarrow> 'a list \<Rightarrow> 'a list option" where
  "mem_put b off bs =
     (if off + length bs \<le> length b
      then Some (take off b @ bs @ drop (off + length bs) b) else None)"

lemma mem_get_Some [simp]: "off + n \<le> length b \<Longrightarrow> mem_get b off n = Some (take n (drop off b))"
  by (simp add: mem_get_def)

lemma mem_put_Some [simp]:
  "off + length bs \<le> length b \<Longrightarrow>
   mem_put b off bs = Some (take off b @ bs @ drop (off + length bs) b)"
  by (simp add: mem_put_def)

lemma mem_get_length: "mem_get b off n = Some bs \<Longrightarrow> length bs = n"
  by (auto simp: mem_get_def split: if_splits)

lemma mem_put_length: "mem_put b off bs = Some b' \<Longrightarrow> length b' = length b"
  by (auto simp: mem_put_def split: if_splits)

lemma mem_get_put_same: "mem_put b off bs = Some b' \<Longrightarrow> mem_get b' off (length bs) = Some bs"
  by (auto simp: mem_put_def mem_get_def split: if_splits)

text \<open>The part of a block from \<open>from\<close> up to \<open>to\<close>.\<close>

definition slice :: "'a list \<Rightarrow> nat \<Rightarrow> nat \<Rightarrow> 'a list" where
  "slice b from to = take (to - from) (drop from b)"

lemma length_slice [simp]: "to \<le> length b \<Longrightarrow> length (slice b from to) = to - from"
  by (simp add: slice_def)

lemma slice_append_put:
  "from \<le> to \<Longrightarrow> to + length bs \<le> length b \<Longrightarrow>
   slice (take to b @ bs @ drop (to + length bs) b) from (to + length bs) = slice b from to @ bs"
proof -
  assume le: "from \<le> to" "to + length bs \<le> length b"
  let ?X = "bs @ drop (to + length bs) b"
  have "drop from (take to b @ ?X) = drop from (take to b) @ ?X"
    using le by simp
  moreover have "take (to + length bs - from) (drop from (take to b) @ ?X)
      = drop from (take to b) @ bs"
    using le by simp
  ultimately show ?thesis
    by (simp add: slice_def drop_take)
qed

lemma slice_drop: "from + n \<le> to \<Longrightarrow> slice b (from + n) to = drop n (slice b from to)"
  by (simp add: slice_def drop_take add.commute)

lemma slice_take: "slice b from (from + n) = take n (drop from b)"
  by (simp add: slice_def)

section \<open>errno\<close>

text \<open>The errno values of Linux that the code stores in a thread's \<open>err\<close> or returns.\<close>

datatype errno = EPERM | EINTR | EBADF | EAGAIN | ENOMEM | EBUSY | EINVAL | EMFILE | EPIPE
  | EDEADLK | ENOSYS | ENOTSOCK | ETIMEDOUT | ESRCH | ECHILD | ENOTCONN | ECONNREFUSED
  | EISCONN | EOPNOTSUPP | EAFNOSUPPORT | EADDRINUSE | EDESTADDRREQ | ENOENT | EFAULT | ESPIPE

end
