(* ===== verification/Byte_Queue.thy ===== *)
theory Byte_Queue
  imports Prelude
begin

text \<open>
  The contract a bounded byte queue keeps with its clients, as a locale: \<open>put\<close> accepts as much
  of a request as there is room for and appends it, \<open>take_out\<close> removes from the front. A client
  that runs any sequence of requests sees a FIFO. \<open>Fifo_Buffer\<close> provides the contract for
  \<open>model/fifo-buffer.cc\<close> and \<open>Pipe_Fd\<close> is its client.
\<close>

datatype queue_op = Put "byte list" | Take_out nat

text \<open>The bytes accepted and the bytes delivered by a sequence of requests.\<close>

fun queue_run ::
  "('q \<Rightarrow> byte list \<Rightarrow> (nat \<times> 'q) option) \<Rightarrow> ('q \<Rightarrow> nat \<Rightarrow> (byte list \<times> 'q) option) \<Rightarrow>
   'q \<Rightarrow> queue_op list \<Rightarrow> (byte list \<times> byte list \<times> 'q) option"
where
  "queue_run put take_out q [] = Some ([], [], q)"
| "queue_run put take_out q (Put bs # ops) =
     do { (n, q1) \<leftarrow> put q bs;
          (ins, outs, q2) \<leftarrow> queue_run put take_out q1 ops;
          Some (take n bs @ ins, outs, q2) }"
| "queue_run put take_out q (Take_out k # ops) =
     do { (bs, q1) \<leftarrow> take_out q k;
          (ins, outs, q2) \<leftarrow> queue_run put take_out q1 ops;
          Some (ins, bs @ outs, q2) }"

fun op_size :: "queue_op \<Rightarrow> nat" where
  "op_size (Put bs) = length bs"
| "op_size (Take_out k) = k"

locale byte_queue =
  fixes inv :: "'q \<Rightarrow> bool"
    and contents :: "'q \<Rightarrow> byte list"
    and capacity :: "'q \<Rightarrow> nat"
    and put :: "'q \<Rightarrow> byte list \<Rightarrow> (nat \<times> 'q) option"
    and take_out :: "'q \<Rightarrow> nat \<Rightarrow> (byte list \<times> 'q) option"
    and bound :: nat
  assumes within: "inv q \<Longrightarrow> length (contents q) \<le> capacity q"
    and put: "inv q \<Longrightarrow> length bs < bound \<Longrightarrow>
      \<exists>q'. put q bs = Some (min (length bs) (capacity q - length (contents q)), q')
        \<and> inv q' \<and> capacity q' = capacity q
        \<and> contents q' = contents q @ take (capacity q - length (contents q)) bs"
    and take_out: "inv q \<Longrightarrow> k < bound \<Longrightarrow>
      \<exists>q'. take_out q k = Some (take k (contents q), q')
        \<and> inv q' \<and> capacity q' = capacity q \<and> contents q' = drop k (contents q)"
begin

lemma put_fits:
  assumes "inv q" and "length bs < bound" and "length (contents q) + length bs \<le> capacity q"
  shows "\<exists>q'. put q bs = Some (length bs, q') \<and> inv q' \<and> contents q' = contents q @ bs"
  using put [OF assms(1,2)] assms(3) by (auto simp: min_absorb1)

lemma put_full:
  assumes "inv q" and "length bs < bound" and "length (contents q) = capacity q"
  shows "\<exists>q'. put q bs = Some (0, q') \<and> inv q' \<and> contents q' = contents q"
  using put [OF assms(1,2)] assms(3) by auto

lemma put_progress:
  assumes "inv q" and "length bs < bound" and "bs \<noteq> []" and "length (contents q) < capacity q"
  shows "\<exists>n q'. put q bs = Some (n, q') \<and> 0 < n"
  using put [OF assms(1,2)] assms(3,4) by auto

text \<open>First in, first out: what went in is what came out followed by what is still inside.\<close>

lemma run_fifo:
  assumes "inv q" and "\<forall>x \<in> set ops. op_size x < bound"
  shows "\<exists>ins outs q'. queue_run put take_out q ops = Some (ins, outs, q') \<and> inv q'
    \<and> capacity q' = capacity q \<and> contents q @ ins = outs @ contents q'"
  using assms
proof (induction ops arbitrary: q)
  case Nil
  then show ?case by simp
next
  case (Cons x ops)
  show ?case
  proof (cases x)
    case (Put bs)
    define n where "n = capacity q - length (contents q)"
    obtain q1 where q1: "put q bs = Some (min (length bs) n, q1)"
      "inv q1" "capacity q1 = capacity q" "contents q1 = contents q @ take n bs"
      using put [of q bs] Cons.prems Put by (auto simp: n_def)
    moreover obtain ins outs q2 where "queue_run put take_out q1 ops = Some (ins, outs, q2)"
      "inv q2" "capacity q2 = capacity q1" "contents q1 @ ins = outs @ contents q2"
      using Cons.IH [OF q1(2)] Cons.prems(2) by auto
    moreover have "take (min (length bs) n) bs = take n bs"
      by (simp add: min_def)
    ultimately show ?thesis
      using Put by auto
  next
    case (Take_out k)
    obtain q1 where q1: "take_out q k = Some (take k (contents q), q1)" "inv q1"
      "capacity q1 = capacity q" "contents q1 = drop k (contents q)"
      using take_out [of q k] Cons.prems Take_out by auto
    moreover obtain ins outs q2 where r: "queue_run put take_out q1 ops = Some (ins, outs, q2)"
      "inv q2" "capacity q2 = capacity q1" "contents q1 @ ins = outs @ contents q2"
      using Cons.IH [OF q1(2)] Cons.prems(2) by auto
    moreover have "contents q @ ins = take k (contents q) @ contents q1 @ ins"
      using q1(4) by simp
    ultimately show ?thesis
      using Take_out by simp
  qed
qed

end

end
