(* ===== verification/Fifo_Buffer.thy ===== *)
theory Fifo_Buffer
  imports Byte_Queue
begin

text \<open>
  The byte queue behind a pipe, \<open>model/fifo-buffer.cc\<close>: one malloc'ed block of \<open>m_size\<close> bytes
  that grows up to \<open>m_maxSize\<close>, with the unread bytes between \<open>m_read\<close> and \<open>m_fill\<close>.

  The C library's \<open>malloc\<close> is the argument \<open>malloc\<close>: a block for a size, or \<^term>\<open>None\<close> when the
  memory is exhausted. \<open>Write\<close> calls itself, after moving the unread bytes to the front or
  after growing the block: \<^theory_text>\<open>partial_function\<close> keeps the recursion as it is written, so that
  \<^term>\<open>None\<close> stands for a call that does not return or leaves its block.
\<close>

section \<open>The code\<close>

record fifo =
  m_maxSize :: size_t
  m_buffer :: "byte list"
  m_read :: size_t
  m_fill :: size_t
  m_size :: size_t

definition MIN_ALLOC :: size_t where
  "MIN_ALLOC = 1024"

definition FifoBuffer :: "size_t \<Rightarrow> fifo" where
  "FifoBuffer mxSz = \<lparr>m_maxSize = mxSz, m_buffer = [], m_read = 0, m_fill = 0, m_size = 0\<rparr>"

text \<open>The size of the block \<open>Write\<close> asks for when it has to grow.\<close>

definition grow_size :: "fifo \<Rightarrow> size_t \<Rightarrow> size_t" where
  "grow_size f len =
     (let newSize = len + m_fill f;
          newSize = (if newSize - m_size f < MIN_ALLOC then m_size f + MIN_ALLOC else newSize)
      in if newSize > m_maxSize f then m_maxSize f else newSize)"

partial_function (option) fifo_Write ::
  "(size_t \<Rightarrow> byte list option) \<Rightarrow> fifo \<Rightarrow> byte list \<Rightarrow> size_t \<Rightarrow> (int \<times> fifo) option"
where
  "fifo_Write malloc f buf len =
     (let capa = m_size f - m_fill f in
      if len \<le> capa then
        do { bs \<leftarrow> mem_get buf 0 (unat len);
             b \<leftarrow> mem_put (m_buffer f) (unat (m_fill f)) bs;
             Some (sint len, f\<lparr>m_buffer := b, m_fill := m_fill f + len\<rparr>) }
      else if m_read f > 0 \<and> m_size f \<le> m_maxSize f then
        do { b \<leftarrow> (if m_fill f > m_read f
                   then do { bs \<leftarrow> mem_get (m_buffer f) (unat (m_read f))
                                     (unat (m_fill f - m_read f));
                             mem_put (m_buffer f) 0 bs }
                   else Some (m_buffer f));
             fifo_Write malloc
               (f\<lparr>m_buffer := b, m_fill := m_fill f - m_read f, m_read := 0\<rparr>) buf len }
      else if m_size f = m_maxSize f then
        (if capa > 0 then
           do { bs \<leftarrow> mem_get buf 0 (unat capa);
                b \<leftarrow> mem_put (m_buffer f) (unat (m_fill f)) bs;
                Some (sint capa, f\<lparr>m_buffer := b, m_fill := m_fill f + capa\<rparr>) }
         else Some (0, f))
      else
        let newSize = grow_size f len in
        (case malloc newSize of
           None \<Rightarrow> Some (-1, f)
         | Some newBuf \<Rightarrow>
             do { bs \<leftarrow> mem_get (m_buffer f) (unat (m_read f)) (unat (m_fill f - m_read f));
                  b \<leftarrow> mem_put newBuf 0 bs;
                  fifo_Write malloc
                    (f\<lparr>m_buffer := b, m_fill := m_fill f - m_read f, m_read := 0,
                       m_size := newSize\<rparr>) buf len }))"

text \<open>\<open>Read\<close> returns the number of bytes, the bytes it copied out, and the new state.\<close>

definition fifo_Read :: "fifo \<Rightarrow> size_t \<Rightarrow> (int \<times> byte list \<times> fifo) option" where
  "fifo_Read f len =
     (let capa = m_fill f - m_read f in
      if capa > 0 then
        (let l = min len capa in
         do { bs \<leftarrow> mem_get (m_buffer f) (unat (m_read f)) (unat l);
              Some (sint l, bs, f\<lparr>m_read := m_read f + l\<rparr>) })
      else Some (0, [], f))"

definition fifo_GetSize :: "fifo \<Rightarrow> int" where
  "fifo_GetSize f = sint (m_fill f - m_read f)"

definition fifo_GetSpace :: "fifo \<Rightarrow> int" where
  "fifo_GetSpace f = sint (m_maxSize f - word_of_int (fifo_GetSize f))"

section \<open>The queue it implements\<close>

definition fifo_inv :: "fifo \<Rightarrow> bool" where
  "fifo_inv f \<longleftrightarrow> m_read f \<le> m_fill f \<and> m_fill f \<le> m_size f \<and> m_size f \<le> m_maxSize f
     \<and> length (m_buffer f) = unat (m_size f) \<and> unat (m_maxSize f) < 2 ^ 62"

definition fifo_abs :: "fifo \<Rightarrow> byte list" where
  "fifo_abs f = slice (m_buffer f) (unat (m_read f)) (unat (m_fill f))"

text \<open>What the code relies on from the C library: a block has the size asked for.\<close>

definition malloc_ok :: "(size_t \<Rightarrow> byte list option) \<Rightarrow> bool" where
  "malloc_ok malloc \<longleftrightarrow> (\<forall>n b. malloc n = Some b \<longrightarrow> length b = unat n)"

section \<open>Write, Read and the sizes\<close>


definition write_outcome :: "fifo \<Rightarrow> byte list \<Rightarrow> size_t \<Rightarrow> (int \<times> fifo) option \<Rightarrow> bool" where
  "write_outcome f buf len r \<longleftrightarrow>
     (let n = min (unat len) (unat (m_maxSize f) - length (fifo_abs f)) in
      \<exists>f'. r = Some (int n, f') \<and> fifo_inv f' \<and> m_maxSize f' = m_maxSize f
           \<and> fifo_abs f' = fifo_abs f @ take n buf)"

lemma fifo_inv_nat:
  assumes "fifo_inv f"
  shows "unat (m_read f) \<le> unat (m_fill f)" and "unat (m_fill f) \<le> unat (m_size f)"
    and "unat (m_size f) \<le> unat (m_maxSize f)" and "unat (m_maxSize f) < 2 ^ 62"
    and "length (m_buffer f) = unat (m_size f)"
    and "unat (m_fill f - m_read f) = unat (m_fill f) - unat (m_read f)"
    and "unat (m_size f - m_fill f) = unat (m_size f) - unat (m_fill f)"
  using assms by (simp_all add: fifo_inv_def word_order_unat word_nat)

lemma length_fifo_abs:
  "fifo_inv f \<Longrightarrow> length (fifo_abs f) = unat (m_fill f) - unat (m_read f)"
  by (simp add: fifo_abs_def fifo_inv_nat)

text \<open>Storing \<open>k\<close> bytes of the caller after the unread ones.\<close>

lemma fifo_store:
  assumes inv: "fifo_inv f" and k: "unat (m_fill f) + unat k \<le> unat (m_size f)"
    and buf: "unat k \<le> length buf"
  defines "b \<equiv> take (unat (m_fill f)) (m_buffer f) @ take (unat k) buf
      @ drop (unat (m_fill f) + unat k) (m_buffer f)"
  shows "fifo_inv (f\<lparr>m_buffer := b, m_fill := m_fill f + k\<rparr>)"
    and "fifo_abs (f\<lparr>m_buffer := b, m_fill := m_fill f + k\<rparr>) = fifo_abs f @ take (unat k) buf"
proof -
  note n = fifo_inv_nat [OF inv]
  have fill: "unat (m_fill f + k) = unat (m_fill f) + unat k"
    using k n by (intro unat_plus_word) simp
  show "fifo_inv (f\<lparr>m_buffer := b, m_fill := m_fill f + k\<rparr>)"
    using n k buf by (simp add: fifo_inv_def word_order_unat fill b_def)
  have "slice (take (unat (m_fill f)) (m_buffer f) @ take (unat k) buf
      @ drop (unat (m_fill f) + length (take (unat k) buf)) (m_buffer f)) (unat (m_read f))
       (unat (m_fill f) + length (take (unat k) buf)) = fifo_abs f @ take (unat k) buf"
    unfolding fifo_abs_def using n k buf by (intro slice_append_put) simp_all
  then show "fifo_abs (f\<lparr>m_buffer := b, m_fill := m_fill f + k\<rparr>) = fifo_abs f @ take (unat k) buf"
    using buf by (simp add: fifo_abs_def b_def fill min_absorb2)
qed

lemma sint_small: "unat x < 2 ^ 63 \<Longrightarrow> sint x = int (unat x)" for x :: size_t
  by (rule sint_nonneg_small) simp

lemma fifo_Write_fits:
  assumes inv: "fifo_inv f" and fits: "len \<le> m_size f - m_fill f"
    and buf: "unat len \<le> length buf"
  shows "\<exists>f'. fifo_Write malloc f buf len = Some (int (unat len), f') \<and> fifo_inv f'
    \<and> m_maxSize f' = m_maxSize f \<and> fifo_abs f' = fifo_abs f @ take (unat len) buf"
proof -
  note n = fifo_inv_nat [OF inv]
  have k: "unat (m_fill f) + unat len \<le> unat (m_size f)"
    using fits n by (simp add: word_order_unat)
  have s: "sint len = int (unat len)"
    using k n by (intro sint_small) simp
  show ?thesis
    using fifo_store [OF inv k buf] fits buf k n
    by (subst fifo_Write.simps) (simp add: Let_def s min_absorb2)
qed

lemma fifo_Write_saturated:
  assumes inv: "fifo_inv f" and "m_read f = 0" and "m_size f = m_maxSize f"
    and buf: "unat len \<le> length buf"
  shows "write_outcome f buf len (fifo_Write malloc f buf len)"
proof (cases "len \<le> m_size f - m_fill f")
  case True
  with fifo_Write_fits [OF inv this buf, of malloc] fifo_inv_nat [OF inv] assms show ?thesis
    by (auto simp: write_outcome_def length_fifo_abs word_order_unat min_absorb1)
next
  case False
  note n = fifo_inv_nat [OF inv]
  let ?k = "m_size f - m_fill f"
  have k: "unat (m_fill f) + unat ?k \<le> unat (m_size f)" and kb: "unat ?k \<le> length buf"
    and lt: "unat ?k < unat len"
    using False n buf by (simp_all add: word_order_unat)
  have m: "min (unat len) (unat (m_maxSize f) - length (fifo_abs f)) = unat ?k"
    using lt n assms by (simp add: length_fifo_abs)
  have s: "sint ?k = int (unat ?k)"
    using k n by (intro sint_small) simp
  show ?thesis
  proof (cases "?k > 0")
    case True
    show ?thesis
      unfolding write_outcome_def m Let_def
      using fifo_store [OF inv k kb] k kb n True False assms(2,3)
      by (subst fifo_Write.simps) (simp add: Let_def s [unfolded assms(3)] min_absorb2)
  next
    case F: False
    then have z: "unat ?k = 0" by (simp add: word_order_unat)
    show ?thesis
      unfolding write_outcome_def m Let_def z
      using F False assms
      by (subst fifo_Write.simps) (simp add: Let_def)
  qed
qed

lemma grow_size_props:
  assumes inv: "fifo_inv f" and len: "unat len < 2 ^ 62" and ne: "m_size f \<noteq> m_maxSize f"
    and more: "\<not> len \<le> m_size f - m_fill f"
  shows "unat (m_size f) \<le> unat (grow_size f len)"
    and "unat (grow_size f len) \<le> unat (m_maxSize f)"
    and "unat (m_fill f) + unat len \<le> unat (grow_size f len) \<or> grow_size f len = m_maxSize f"
proof -
  note n = fifo_inv_nat [OF inv]
  have lt: "unat (m_size f) < unat (m_maxSize f)"
    using n(3) ne by (simp add: word_unat_eq_iff le_neq_implies_less)
  have sum: "unat (len + m_fill f) = unat len + unat (m_fill f)"
    using n len by (intro unat_plus_word) simp
  have alloc: "unat (m_size f + MIN_ALLOC) = unat (m_size f) + 1024"
    using n unfolding MIN_ALLOC_def by (subst unat_plus_word) simp_all
  have gt: "unat (m_size f) < unat len + unat (m_fill f)"
    using more n by (simp add: word_order_unat)
  have d: "unat (len + m_fill f - m_size f) = unat len + unat (m_fill f) - unat (m_size f)"
    using gt sum by (subst unat_diff_word) (simp_all add: word_order_unat)
  have m: "unat MIN_ALLOC = 1024" by (simp add: MIN_ALLOC_def)
  show "unat (m_size f) \<le> unat (grow_size f len)"
    and "unat (grow_size f len) \<le> unat (m_maxSize f)"
    and "unat (m_fill f) + unat len \<le> unat (grow_size f len) \<or> grow_size f len = m_maxSize f"
    using lt sum alloc gt d m by (auto simp: grow_size_def Let_def word_order_unat)
qed

lemma fifo_Write_unread_front:
  assumes inv: "fifo_inv f" and r0: "m_read f = 0" and buf: "unat len \<le> length buf"
    and len: "unat len < 2 ^ 62" and ok: "malloc_ok malloc"
    and mem: "malloc (grow_size f len) \<noteq> None"
  shows "write_outcome f buf len (fifo_Write malloc f buf len)"
proof (cases "len \<le> m_size f - m_fill f \<or> m_size f = m_maxSize f")
  case True
  note n = fifo_inv_nat [OF inv]
  show ?thesis
  proof (cases "m_size f = m_maxSize f")
    case True
    then show ?thesis using fifo_Write_saturated [OF inv r0 _ buf] by simp
  next
    case False
    with True have fits: "len \<le> m_size f - m_fill f" by simp
    have "unat len \<le> unat (m_maxSize f) - length (fifo_abs f)"
      using fits n r0 by (simp add: word_order_unat length_fifo_abs inv)
    then show ?thesis
      using fifo_Write_fits [OF inv fits buf, of malloc]
      by (auto simp: write_outcome_def min_absorb1)
  qed
next
  case False
  then have more: "\<not> len \<le> m_size f - m_fill f" and ne: "m_size f \<noteq> m_maxSize f" by auto
  note n = fifo_inv_nat [OF inv]
  note g = grow_size_props [OF inv len ne more]
  obtain nb where nb: "malloc (grow_size f len) = Some nb" using mem by auto
  have lnb: "length nb = unat (grow_size f len)"
    using ok nb by (auto simp: malloc_ok_def)
  define b where "b = take (unat (m_fill f)) (m_buffer f) @ drop (unat (m_fill f)) nb"
  define f1 where "f1 = f\<lparr>m_buffer := b, m_fill := m_fill f, m_read := 0, m_size := grow_size f len\<rparr>"
  have step: "fifo_Write malloc f buf len = fifo_Write malloc f1 buf len"
    using more ne r0 n g lnb nb
    by (subst fifo_Write.simps) (simp add: Let_def f1_def b_def min_absorb2)
  have inv1: "fifo_inv f1"
    using n g lnb by (simp add: fifo_inv_def f1_def b_def word_order_unat)
  have abs1: "fifo_abs f1 = fifo_abs f"
    using n g lnb r0 by (simp add: fifo_abs_def f1_def b_def slice_def)
  have max1: "m_maxSize f1 = m_maxSize f" by (simp add: f1_def)
  have "write_outcome f1 buf len (fifo_Write malloc f1 buf len)"
  proof (cases "grow_size f len = m_maxSize f")
    case True
    then show ?thesis
      using fifo_Write_saturated [OF inv1 _ _ buf] by (simp add: f1_def)
  next
    case False
    with g have fit: "unat (m_fill f) + unat len \<le> unat (grow_size f len)" by simp
    then have "len \<le> m_size f1 - m_fill f1"
      using fifo_inv_nat(7) [OF inv1] by (simp add: f1_def word_order_unat)
    moreover have "unat len \<le> unat (m_maxSize f1) - length (fifo_abs f1)"
      using fit g n r0 by (simp add: abs1 max1 length_fifo_abs inv)
    ultimately show ?thesis
      using fifo_Write_fits [OF inv1 _ buf, of malloc]
      by (auto simp: write_outcome_def min_absorb1)
  qed
  then show ?thesis
    by (simp add: step write_outcome_def abs1 max1)
qed

text \<open>The state after the unread bytes have been moved to the front.\<close>

definition compacted :: "fifo \<Rightarrow> fifo" where
  "compacted f = (if m_read f > 0 then
     f\<lparr>m_buffer := fifo_abs f @ drop (length (fifo_abs f)) (m_buffer f),
       m_fill := m_fill f - m_read f, m_read := 0\<rparr> else f)"

lemma fifo_abs_front:
  "fifo_abs (f\<lparr>m_buffer := b, m_fill := k, m_read := 0\<rparr>) = take (unat k) b"
  by (simp add: fifo_abs_def slice_def)

lemma compacted_simps:
  assumes inv: "fifo_inv f"
  shows "fifo_inv (compacted f)" and "fifo_abs (compacted f) = fifo_abs f"
    and "m_read (compacted f) = 0" and "m_maxSize (compacted f) = m_maxSize f"
    and "m_size (compacted f) = m_size f"
proof -
  note n = fifo_inv_nat [OF inv]
  show "fifo_inv (compacted f)"
    using n by (auto simp: compacted_def fifo_inv_def word_order_unat length_fifo_abs [OF inv])
  show "fifo_abs (compacted f) = fifo_abs f"
    using n by (simp add: compacted_def fifo_abs_front length_fifo_abs [OF inv])
  show "m_read (compacted f) = 0" and "m_maxSize (compacted f) = m_maxSize f"
    and "m_size (compacted f) = m_size f"
    by (simp_all add: compacted_def word_order_unat unat_eq_0)
qed

lemma fifo_Write_compacts:
  assumes inv: "fifo_inv f" and more: "\<not> len \<le> m_size f - m_fill f"
  shows "fifo_Write malloc f buf len = fifo_Write malloc (compacted f) buf len"
proof (cases "m_read f > 0")
  case True
  note n = fifo_inv_nat [OF inv]
  have le: "m_size f \<le> m_maxSize f" using inv by (simp add: fifo_inv_def)
  have get: "mem_get (m_buffer f) (unat (m_read f)) (unat (m_fill f - m_read f))
      = Some (fifo_abs f)"
    using n by (simp add: fifo_abs_def slice_def)
  have put: "mem_put (m_buffer f) 0 (fifo_abs f)
      = Some (fifo_abs f @ drop (length (fifo_abs f)) (m_buffer f))"
    using n by (simp add: length_fifo_abs inv)
  have "fifo_abs f = []" if "\<not> m_read f < m_fill f"
    using that n inv by (simp add: word_order_unat fifo_abs_def slice_def)
  then show ?thesis
    using True more le get put
    by (subst fifo_Write.simps) (simp add: Let_def compacted_def)
qed (simp add: compacted_def)

lemma fifo_Write_refines:
  assumes inv: "fifo_inv f" and buf: "unat len \<le> length buf"
    and len: "unat len < 2 ^ 62" and ok: "malloc_ok malloc"
    and mem: "\<forall>n \<le> m_maxSize f. malloc n \<noteq> None"
  shows "\<exists>f'. fifo_Write malloc f buf len
      = Some (int (min (unat len) (unat (m_maxSize f) - length (fifo_abs f))), f')
    \<and> fifo_inv f' \<and> m_maxSize f' = m_maxSize f
    \<and> fifo_abs f' = fifo_abs f @ take (unat (m_maxSize f) - length (fifo_abs f)) (take (unat len) buf)"
proof -
  have "write_outcome f buf len (fifo_Write malloc f buf len)"
  proof (cases "len \<le> m_size f - m_fill f")
    case True
    have "unat len \<le> unat (m_maxSize f) - length (fifo_abs f)"
      using True fifo_inv_nat [OF inv] by (simp add: word_order_unat length_fifo_abs inv)
    then show ?thesis
      using fifo_Write_fits [OF inv True buf, of malloc]
      by (auto simp: write_outcome_def min_absorb1)
  next
    case False
    note c = compacted_simps [OF inv]
    have "grow_size (compacted f) len \<le> m_maxSize f"
      by (simp add: grow_size_def Let_def c not_less)
    with mem have "malloc (grow_size (compacted f) len) \<noteq> None" by simp
    with fifo_Write_unread_front [OF c(1,3) buf len ok this] show ?thesis
      by (simp add: fifo_Write_compacts [OF inv False] write_outcome_def c)
  qed
  then show ?thesis
    by (auto simp: write_outcome_def Let_def min.commute)
qed

text \<open>When \<open>malloc\<close> fails, \<open>Write\<close> reports it and loses nothing.\<close>

lemma fifo_Write_no_memory_front:
  assumes inv: "fifo_inv f" and r0: "m_read f = 0"
    and more: "\<not> len \<le> m_size f - m_fill f" and ne: "m_size f \<noteq> m_maxSize f"
    and mem: "malloc (grow_size f len) = None"
  shows "fifo_Write malloc f buf len = Some (-1, f)"
  using more ne mem r0 by (subst fifo_Write.simps) (simp add: Let_def)

lemma fifo_Write_no_memory:
  assumes inv: "fifo_inv f" and more: "unat (m_size f) < length (fifo_abs f) + unat len"
    and ne: "m_size f \<noteq> m_maxSize f" and mem: "\<forall>n. malloc n = None"
  shows "\<exists>f'. fifo_Write malloc f buf len = Some (-1, f') \<and> fifo_inv f' \<and> fifo_abs f' = fifo_abs f"
proof -
  note n = fifo_inv_nat [OF inv] and c = compacted_simps [OF inv]
  have m1: "\<not> len \<le> m_size f - m_fill f"
    using more n by (simp add: word_order_unat length_fifo_abs inv)
  have "unat (m_fill (compacted f)) = length (fifo_abs f)"
    using length_fifo_abs [OF c(1)] c by simp
  then have m2: "\<not> len \<le> m_size (compacted f) - m_fill (compacted f)"
    using more n length_fifo_abs [OF inv] fifo_inv_nat(7) [OF c(1)] c by (auto simp: word_order_unat)
  have "fifo_Write malloc (compacted f) buf len = Some (-1, compacted f)"
    using fifo_Write_no_memory_front [OF c(1,3) m2] ne mem c by simp
  with c show ?thesis
    by (simp add: fifo_Write_compacts [OF inv m1])
qed

lemma fifo_Read_refines:
  assumes inv: "fifo_inv f"
  shows "\<exists>f'. fifo_Read f len
      = Some (int (min (unat len) (length (fifo_abs f))), take (unat len) (fifo_abs f), f')
    \<and> fifo_inv f' \<and> m_maxSize f' = m_maxSize f \<and> fifo_abs f' = drop (unat len) (fifo_abs f)"
proof (cases "m_fill f - m_read f > 0")
  case True
  note n = fifo_inv_nat [OF inv]
  define l where "l = min len (m_fill f - m_read f)"
  have l: "unat l = min (unat len) (length (fifo_abs f))"
    using n by (simp add: l_def min_def word_order_unat length_fifo_abs inv)
  have le: "unat (m_read f) + unat l \<le> unat (m_fill f)"
    using n by (simp add: l length_fifo_abs inv)
  have rd: "unat (m_read f + l) = unat (m_read f) + unat l"
    using le n by (intro unat_plus_word) simp
  have s: "sint l = int (unat l)" using le n by (intro sint_small) simp
  have got: "mem_get (m_buffer f) (unat (m_read f)) (unat l) = Some (take (unat l) (fifo_abs f))"
    using le n by (simp add: fifo_abs_def slice_def min_absorb1)
  have "fifo_abs (f\<lparr>m_read := m_read f + l\<rparr>) = drop (unat l) (fifo_abs f)"
    unfolding fifo_abs_def using le by (simp add: rd slice_drop)
  moreover have "fifo_inv (f\<lparr>m_read := m_read f + l\<rparr>)"
    using inv le rd by (simp add: fifo_inv_def word_order_unat)
  moreover have "take (unat l) (fifo_abs f) = take (unat len) (fifo_abs f)"
    and "drop (unat l) (fifo_abs f) = drop (unat len) (fifo_abs f)"
    by (simp_all add: l min_def)
  ultimately show ?thesis
    using True got s l by (simp add: fifo_Read_def Let_def l_def [symmetric])
next
  case False
  then have "fifo_abs f = []"
    using fifo_inv_nat [OF inv] length_fifo_abs [OF inv] by (simp add: word_order_unat)
  with False inv show ?thesis by (simp add: fifo_Read_def)
qed

lemma fifo_sizes:
  assumes inv: "fifo_inv f"
  shows "fifo_GetSize f = int (length (fifo_abs f))
    \<and> fifo_GetSpace f = int (unat (m_maxSize f) - length (fifo_abs f))"
proof -
  note n = fifo_inv_nat [OF inv]
  have s: "fifo_GetSize f = int (unat (m_fill f - m_read f))"
    unfolding fifo_GetSize_def using n by (intro sint_small) simp
  have w: "(word_of_int (fifo_GetSize f) :: size_t) = m_fill f - m_read f"
    by (simp add: fifo_GetSize_def)
  have u: "unat (m_maxSize f - (m_fill f - m_read f))
      = unat (m_maxSize f) - unat (m_fill f - m_read f)"
    using n by (intro unat_diff_word) (simp add: word_order_unat)
  then have "fifo_GetSpace f = int (unat (m_maxSize f) - unat (m_fill f - m_read f))"
    unfolding fifo_GetSpace_def w u [symmetric] using n u by (intro sint_small) simp
  with s n show ?thesis
    by (simp only: length_fifo_abs [OF inv])
qed

section \<open>The byte queue contract\<close>

text \<open>The invariant of the queue together with a \<open>malloc\<close> that serves every size up to the limit.\<close>

definition fifo_ready :: "(size_t \<Rightarrow> byte list option) \<Rightarrow> fifo \<Rightarrow> bool" where
  "fifo_ready malloc f \<longleftrightarrow>
     fifo_inv f \<and> malloc_ok malloc \<and> (\<forall>n \<le> m_maxSize f. malloc n \<noteq> None)"

definition fifo_put ::
  "(size_t \<Rightarrow> byte list option) \<Rightarrow> fifo \<Rightarrow> byte list \<Rightarrow> (nat \<times> fifo) option" where
  "fifo_put malloc f bs =
     do { (r, f') \<leftarrow> fifo_Write malloc f bs (of_nat (length bs)); Some (nat r, f') }"

definition fifo_take :: "fifo \<Rightarrow> nat \<Rightarrow> (byte list \<times> fifo) option" where
  "fifo_take f k = do { (r, bs, f') \<leftarrow> fifo_Read f (of_nat k); Some (bs, f') }"

lemma unat_of_nat_size: "k < 2 ^ 62 \<Longrightarrow> unat (of_nat k :: size_t) = k"
  by (simp add: unat_of_nat)

interpretation fifo_queue: byte_queue "fifo_ready malloc" fifo_abs "\<lambda>f. unat (m_maxSize f)"
  "fifo_put malloc" fifo_take "2 ^ 62"
  for malloc
proof unfold_locales
  fix q :: fifo
  assume "fifo_ready malloc q"
  then show "length (fifo_abs q) \<le> unat (m_maxSize q)"
    using fifo_inv_nat [of q] by (auto simp: fifo_ready_def length_fifo_abs)
next
  fix q :: fifo and bs :: "byte list"
  assume rdy: "fifo_ready malloc q" and len: "length bs < 2 ^ 62"
  note u = unat_of_nat_size [OF len]
  have "\<forall>n \<le> m_maxSize q. malloc n \<noteq> None" and "malloc_ok malloc" and "fifo_inv q"
    using rdy by (simp_all add: fifo_ready_def)
  with fifo_Write_refines [of q "of_nat (length bs)" bs malloc] u len
  show "\<exists>q'. fifo_put malloc q bs
        = Some (min (length bs) (unat (m_maxSize q) - length (fifo_abs q)), q')
      \<and> fifo_ready malloc q' \<and> unat (m_maxSize q') = unat (m_maxSize q)
      \<and> fifo_abs q' = fifo_abs q @ take (unat (m_maxSize q) - length (fifo_abs q)) bs"
    by (auto simp: fifo_put_def fifo_ready_def)
next
  fix q :: fifo and k :: nat
  assume rdy: "fifo_ready malloc q" and k: "k < 2 ^ 62"
  with fifo_Read_refines [of q "of_nat k"] unat_of_nat_size [OF k]
  show "\<exists>q'. fifo_take q k = Some (take k (fifo_abs q), q') \<and> fifo_ready malloc q'
      \<and> unat (m_maxSize q') = unat (m_maxSize q) \<and> fifo_abs q' = drop k (fifo_abs q)"
    by (auto simp: fifo_take_def fifo_ready_def)
qed

lemma FifoBuffer_inv: "unat mxSz < 2 ^ 62 \<Longrightarrow> fifo_inv (FifoBuffer mxSz)"
  by (simp add: fifo_inv_def FifoBuffer_def)

lemma FifoBuffer_max [simp]: "m_maxSize (FifoBuffer mxSz) = mxSz"
  by (simp add: FifoBuffer_def)

lemma FifoBuffer_empty: "fifo_abs (FifoBuffer mxSz) = []"
  by (simp add: fifo_abs_def FifoBuffer_def slice_def)

section \<open>Properties\<close>

text \<open>C24. \<open>Write\<close> stores, after the unread bytes, as much of the request as the limit leaves room
  for, and returns that number, whether it has to move the unread bytes, to grow the block, both
  or neither; it never leaves its block.\<close>

theorem fifo_Write_appends:
  assumes "fifo_inv f" and "unat len \<le> length buf" and "unat len < 2 ^ 62"
    and "malloc_ok malloc" and "\<forall>n \<le> m_maxSize f. malloc n \<noteq> None"
  shows "\<exists>f'. fifo_Write malloc f buf len
      = Some (int (min (unat len) (unat (m_maxSize f) - length (fifo_abs f))), f')
    \<and> fifo_inv f' \<and> m_maxSize f' = m_maxSize f
    \<and> fifo_abs f' = fifo_abs f @ take (unat (m_maxSize f) - length (fifo_abs f)) (take (unat len) buf)"
  by (rule fifo_Write_refines [OF assms])

text \<open>A \<open>malloc\<close> that always succeeds, for the witnesses.\<close>

definition zero_malloc :: "size_t \<Rightarrow> byte list option" where
  "zero_malloc n = Some (replicate (unat n) 0)"

lemma zero_malloc_ok: "malloc_ok zero_malloc" "zero_malloc n \<noteq> None"
  by (simp_all add: malloc_ok_def zero_malloc_def)

theorem fifo_Write_appends_witness:
  "\<exists>f'. fifo_Write zero_malloc (FifoBuffer 4) [1, 2, 3, 4, 5] 5 = Some (4, f')
    \<and> fifo_inv f' \<and> fifo_abs f' = [1, 2, 3, 4]"
proof -
  have "fifo_inv (FifoBuffer 4)" by (rule FifoBuffer_inv) simp
  moreover have "unat (5 :: size_t) \<le> length [1, 2, 3, 4, 5 :: byte]" by simp
  moreover have "m_maxSize (FifoBuffer 4) = 4" by (simp add: FifoBuffer_def)
  ultimately show ?thesis
    using fifo_Write_appends [of "FifoBuffer 4" 5 "[1, 2, 3, 4, 5]" zero_malloc]
    by (auto simp: zero_malloc_ok FifoBuffer_empty)
qed

text \<open>\<open>Read\<close> returns the oldest unread bytes, as many as were asked for and are there, and
  keeps the rest in order.\<close>

theorem fifo_Read_oldest:
  assumes "fifo_inv f"
  shows "\<exists>f'. fifo_Read f len
      = Some (int (min (unat len) (length (fifo_abs f))), take (unat len) (fifo_abs f), f')
    \<and> fifo_inv f' \<and> m_maxSize f' = m_maxSize f \<and> fifo_abs f' = drop (unat len) (fifo_abs f)
    \<and> fifo_GetSize f' = int (length (fifo_abs f) - unat len)
    \<and> fifo_GetSpace f' = int (unat (m_maxSize f) - (length (fifo_abs f) - unat len))"
proof -
  obtain f' where "fifo_Read f len
      = Some (int (min (unat len) (length (fifo_abs f))), take (unat len) (fifo_abs f), f')"
    "fifo_inv f'" "m_maxSize f' = m_maxSize f" "fifo_abs f' = drop (unat len) (fifo_abs f)"
    using fifo_Read_refines [OF assms] by blast
  with fifo_sizes [of f'] show ?thesis by simp
qed

definition sample_fifo :: fifo where
  "sample_fifo = \<lparr>m_maxSize = 8, m_buffer = [1, 2, 3, 4], m_read = 1, m_fill = 4, m_size = 4\<rparr>"

lemma sample_fifo_inv: "fifo_inv sample_fifo" and sample_fifo_abs: "fifo_abs sample_fifo = [2, 3, 4]"
  by (simp_all add: fifo_inv_def fifo_abs_def slice_def sample_fifo_def)

theorem fifo_Read_oldest_witness:
  "\<exists>f'. fifo_Read sample_fifo 2 = Some (2, [2, 3], f') \<and> fifo_abs f' = [4] \<and> fifo_GetSpace f' = 7"
  using fifo_Read_oldest [OF sample_fifo_inv, of 2]
  by (auto simp: sample_fifo_abs) (auto simp: sample_fifo_def)

text \<open>When the memory is exhausted \<open>Write\<close> returns -1 and no unread byte is lost.\<close>

theorem fifo_Write_out_of_memory:
  assumes "fifo_inv f" and "unat (m_size f) < length (fifo_abs f) + unat len"
    and "m_size f \<noteq> m_maxSize f" and "\<forall>n. malloc n = None"
  shows "\<exists>f'. fifo_Write malloc f buf len = Some (-1, f') \<and> fifo_inv f' \<and> fifo_abs f' = fifo_abs f"
  by (rule fifo_Write_no_memory [OF assms])

theorem fifo_Write_out_of_memory_witness:
  "\<exists>f'. fifo_Write (\<lambda>n. None) sample_fifo [5, 6] 2 = Some (-1, f') \<and> fifo_abs f' = [2, 3, 4]"
  using fifo_Write_out_of_memory [OF sample_fifo_inv, of 2 "\<lambda>n. None" "[5, 6]"]
  by (auto simp: sample_fifo_abs) (auto simp: sample_fifo_def)

text \<open>C11. A buffer is first in, first out: after any sequence of writes and reads on a fresh one,
  the bytes accepted are the bytes delivered followed by those still inside, in order.\<close>

theorem fifo_first_in_first_out:
  assumes "unat mxSz < 2 ^ 62" and "malloc_ok malloc" and "\<forall>n \<le> mxSz. malloc n \<noteq> None"
    and "\<forall>x \<in> set ops. op_size x < 2 ^ 62"
  shows "\<exists>ins outs f'. queue_run (fifo_put malloc) fifo_take (FifoBuffer mxSz) ops = Some (ins, outs, f')
    \<and> fifo_inv f' \<and> ins = outs @ fifo_abs f' \<and> length (fifo_abs f') \<le> unat mxSz"
proof -
  have rdy: "fifo_ready malloc (FifoBuffer mxSz)"
    using assms FifoBuffer_inv by (simp add: fifo_ready_def)
  obtain ins outs f' where "queue_run (fifo_put malloc) fifo_take (FifoBuffer mxSz) ops = Some (ins, outs, f')"
    "fifo_ready malloc f'" "unat (m_maxSize f') = unat mxSz" "ins = outs @ fifo_abs f'"
    using fifo_queue.run_fifo [OF rdy assms(4)]
    unfolding FifoBuffer_empty FifoBuffer_max append_Nil by blast
  then show ?thesis using fifo_queue.within [of malloc f'] by (auto simp: fifo_ready_def)
qed

theorem fifo_first_in_first_out_witness:
  "\<exists>ins outs f'. queue_run (fifo_put zero_malloc) fifo_take (FifoBuffer 3)
      [Put [1, 2], Take_out 1, Put [3, 4, 5]] = Some (ins, outs, f') \<and> ins = outs @ fifo_abs f'"
  using fifo_first_in_first_out [of 3 zero_malloc "[Put [1, 2], Take_out 1, Put [3, 4, 5]]"]
  by (auto simp: zero_malloc_ok)

end
