(* ===== verification/Kingsley_Alloc.thy ===== *)
theory Kingsley_Alloc
  imports Prelude
begin

text \<open>
  The heap of a simulated process, \<open>model/kingsley-alloc.cc\<close>: power-of-two size classes with a
  free list per class, cut from mapped chunks, and the copies that give a forked process a heap
  of its own at the same addresses.

  Memory is a map from addresses to pointer-sized values: every block the allocator hands out is
  8-byte aligned, so the \<open>next\<close> field of a free block is the value at its address. The free lists
  live in that memory, as in the code. What \<open>mmap\<close> and \<open>malloc\<close> of the host return is the
  argument \<open>host\<close>: the address given to the \<open>n\<close>-th request for memory, or \<^term>\<open>None\<close> when there
  is none. \<^term>\<open>None\<close> as the result of an operation is a failed assertion, a shift out of range,
  an access to memory that is not mapped, or a call that does not return.
\<close>

section \<open>State\<close>

record mmap_t =
  refcount :: uint32
  mm_size :: uint32
  mm_buffer :: addr
  mm_current :: addr

record chunk_t =
  ch_mmap :: nat
  ch_copy :: addr
  ch_brk :: uint32

record kalloc =
  m_chunks :: "chunk_t list"
  m_buckets :: "addr list"
  m_defaultMmapSize :: uint32

text \<open>
  The host: the \<open>struct Mmap\<close> objects, the memory, the regions that are mapped (by address of the
  first byte) and the number of requests for memory made so far.
\<close>

record host_t =
  mmaps :: "nat \<rightharpoonup> mmap_t"
  mem :: "addr \<Rightarrow> addr"
  mapped :: "addr \<rightharpoonup> uint32"
  requests :: nat

type_synonym host_alloc = "nat \<Rightarrow> uint32 \<Rightarrow> addr option"

section \<open>Size classes\<close>

function bucket_loop :: "uint32 \<Rightarrow> byte \<Rightarrow> byte" where
  "bucket_loop sz bucket =
     (if sz > 7 then bucket_loop (drop_bit 1 sz) (bucket + 1) else bucket)"
  by pat_completeness auto
termination
proof (relation "measure (\<lambda>(sz, bucket). unat sz)")
  fix sz :: uint32 and bucket :: byte
  assume "sz > 7"
  then have "unat sz > 0" by (simp add: word_less_nat_alt)
  then show "((drop_bit 1 sz, bucket + 1), (sz, bucket)) \<in> measure (\<lambda>(sz, bucket). unat sz)"
    by (simp add: drop_bit_Suc unat_div)
qed simp

declare bucket_loop.simps [simp del]

definition SizeToBucket :: "uint32 \<Rightarrow> byte option" where
  "SizeToBucket sz =
     (let bucket = bucket_loop (sz - 1) 0 in if bucket < 32 then Some bucket else None)"

text \<open>Shifting the \<open>int\<close> 1 out of its 32 bits is undefined.\<close>

definition BucketToSize :: "byte \<Rightarrow> uint32 option" where
  "BucketToSize bucket =
     (if unat bucket + 3 < 32 then Some (push_bit (unat bucket + 3) 1) else None)"

section \<open>Allocation\<close>

definition KingsleyAlloc :: kalloc where
  "KingsleyAlloc = \<lparr>m_chunks = [], m_buckets = replicate 32 0, m_defaultMmapSize = push_bit 15 1\<rparr>"

definition MmapAlloc :: "host_alloc \<Rightarrow> uint32 \<Rightarrow> kalloc \<times> host_t \<Rightarrow> (kalloc \<times> host_t) option" where
  "MmapAlloc host sz = (\<lambda>(k, h).
     case host (requests h) sz of
       None \<Rightarrow> None
     | Some a \<Rightarrow>
         (let i = requests h;
              mmap_struct = \<lparr>refcount = 1, mm_size = sz, mm_buffer = a, mm_current = a\<rparr>;
              chunk = \<lparr>ch_mmap = i, ch_copy = 0, ch_brk = 0\<rparr>
          in Some (k\<lparr>m_chunks := chunk # m_chunks k\<rparr>,
                   h\<lparr>mmaps := (mmaps h)(i \<mapsto> mmap_struct), mapped := (mapped h)(a \<mapsto> sz),
                     requests := Suc i\<rparr>)))"

definition MmapFree :: "addr \<Rightarrow> uint32 \<Rightarrow> host_t \<Rightarrow> host_t option" where
  "MmapFree buffer sz h =
     (if mapped h buffer = Some sz then Some (h\<lparr>mapped := (mapped h)(buffer := None)\<rparr>) else None)"

text \<open>
  The loop of \<open>Brk\<close>: the first chunk with room gives the block and advances its \<open>brk\<close>;
  \<^term>\<open>Some None\<close> when no chunk has room.
\<close>

fun brk_loop :: "(nat \<rightharpoonup> mmap_t) \<Rightarrow> uint32 \<Rightarrow> chunk_t list \<Rightarrow> (addr \<times> chunk_t list) option option"
where
  "brk_loop ms needed [] = Some None"
| "brk_loop ms needed (c # cs) =
     (case ms (ch_mmap c) of
        None \<Rightarrow> None
      | Some m \<Rightarrow>
          if \<not> mm_size m \<ge> ch_brk c then None
          else if mm_size m - ch_brk c \<ge> needed then
            Some (Some (mm_buffer m + unat (ch_brk c), c\<lparr>ch_brk := ch_brk c + needed\<rparr> # cs))
          else
            do { r \<leftarrow> brk_loop ms needed cs;
                 Some (case r of None \<Rightarrow> None | Some (a, cs') \<Rightarrow> Some (a, c # cs')) })"

partial_function (option) Brk ::
  "host_alloc \<Rightarrow> uint32 \<Rightarrow> kalloc \<times> host_t \<Rightarrow> (addr \<times> kalloc \<times> host_t) option"
where
  "Brk host needed s =
     do { r \<leftarrow> brk_loop (mmaps (snd s)) needed (m_chunks (fst s));
          case r of
            Some (a, cs) \<Rightarrow> Some (a, (fst s)\<lparr>m_chunks := cs\<rparr>, snd s)
          | None \<Rightarrow>
              if needed \<le> m_defaultMmapSize (fst s) then
                do { s' \<leftarrow> MmapAlloc host (m_defaultMmapSize (fst s)) s; Brk host needed s' }
              else None }"

definition Malloc :: "host_alloc \<Rightarrow> uint32 \<Rightarrow> kalloc \<times> host_t \<Rightarrow> (addr \<times> kalloc \<times> host_t) option" where
  "Malloc host sz s =
     (if sz < m_defaultMmapSize (fst s) then
        do { bucket \<leftarrow> SizeToBucket sz;
             (k, h) \<leftarrow>
               (if m_buckets (fst s) ! unat bucket = 0 then
                  do { bsize \<leftarrow> BucketToSize bucket;
                       (avail, k, h) \<leftarrow> Brk host bsize s;
                       Some (k\<lparr>m_buckets := (m_buckets k)[unat bucket := avail]\<rparr>,
                             h\<lparr>mem := (mem h)(avail := 0)\<rparr>) }
                else Some s);
             let avail = m_buckets k ! unat bucket in
             Some (avail, k\<lparr>m_buckets := (m_buckets k)[unat bucket := mem h avail]\<rparr>, h) }
      else
        do { s' \<leftarrow> MmapAlloc host sz s; Brk host sz s' })"

text \<open>The loop of \<open>Free\<close> for a block with a chunk of its own.\<close>

fun free_loop :: "addr \<Rightarrow> uint32 \<Rightarrow> host_t \<Rightarrow> chunk_t list \<Rightarrow> (chunk_t list \<times> host_t) option" where
  "free_loop buffer sz h [] = Some ([], h)"
| "free_loop buffer sz h (c # cs) =
     (case mmaps h (ch_mmap c) of
        None \<Rightarrow> None
      | Some m \<Rightarrow>
          if mm_buffer m = buffer \<and> mm_size m = sz then
            do { h' \<leftarrow> MmapFree buffer sz h; Some (cs, h') }
          else
            do { (cs', h') \<leftarrow> free_loop buffer sz h cs; Some (c # cs', h') })"

definition Free :: "addr \<Rightarrow> uint32 \<Rightarrow> kalloc \<times> host_t \<Rightarrow> (kalloc \<times> host_t) option" where
  "Free buffer sz s =
     (let (k, h) = s in
      if sz < m_defaultMmapSize k then
        do { bucket \<leftarrow> SizeToBucket sz;
             Some (k\<lparr>m_buckets := (m_buckets k)[unat bucket := buffer]\<rparr>,
                   h\<lparr>mem := (mem h)(buffer := m_buckets k ! unat bucket)\<rparr>) }
      else
        do { (cs, h') \<leftarrow> free_loop buffer sz h (m_chunks k); Some (k\<lparr>m_chunks := cs\<rparr>, h') })"

text \<open>\<open>memcpy\<close> between two regions of the memory.\<close>

definition copy_region :: "(addr \<Rightarrow> addr) \<Rightarrow> addr \<Rightarrow> addr \<Rightarrow> nat \<Rightarrow> (addr \<Rightarrow> addr)" where
  "copy_region m dst src n = (\<lambda>a. if dst \<le> a \<and> a < dst + n then m (src + (a - dst)) else m a)"

definition Realloc ::
  "host_alloc \<Rightarrow> addr \<Rightarrow> uint32 \<Rightarrow> uint32 \<Rightarrow> kalloc \<times> host_t \<Rightarrow> (addr \<times> kalloc \<times> host_t) option" where
  "Realloc host oldBuffer oldSize newSize s =
     (if newSize < oldSize then Some (oldBuffer, s)
      else
        do { (newBuffer, k, h) \<leftarrow> Malloc host newSize s;
             s' \<leftarrow> Free oldBuffer oldSize
                    (k, h\<lparr>mem := copy_region (mem h) newBuffer oldBuffer (unat oldSize)\<rparr>);
             Some (newBuffer, s') })"

section \<open>Copies of the heap for forked processes\<close>

text \<open>One iteration of \<open>Clone\<close>: the parent's chunk after it, the clone's chunk, and the host.\<close>

definition clone_chunk ::
  "host_alloc \<Rightarrow> chunk_t \<Rightarrow> host_t \<Rightarrow> (chunk_t \<times> chunk_t \<times> host_t) option" where
  "clone_chunk host c h =
     do { m \<leftarrow> mmaps h (ch_mmap c);
          let rc = refcount m + 1;
          (c', m', h1) \<leftarrow>
            (if rc = 2 \<and> ch_copy c = 0 then
               do { a \<leftarrow> host (requests h) (mm_size m);
                    Some (c\<lparr>ch_copy := a\<rparr>, m\<lparr>refcount := rc, mm_current := a\<rparr>,
                          h\<lparr>requests := Suc (requests h)\<rparr>) }
             else Some (c, m\<lparr>refcount := rc\<rparr>, h));
          b \<leftarrow> host (requests h1) (mm_size m);
          if mapped h (mm_buffer m) \<noteq> Some (mm_size m) then None
          else Some (c', c\<lparr>ch_copy := b\<rparr>,
             h1\<lparr>mmaps := (mmaps h1)(ch_mmap c \<mapsto> m'),
                mem := copy_region (mem h1) b (mm_buffer m) (unat (mm_size m)),
                requests := Suc (requests h1)\<rparr>) }"

fun clone_chunks ::
  "host_alloc \<Rightarrow> chunk_t list \<Rightarrow> host_t \<Rightarrow> (chunk_t list \<times> chunk_t list \<times> host_t) option" where
  "clone_chunks host [] h = Some ([], [], h)"
| "clone_chunks host (c # cs) h =
     do { (p, q, h1) \<leftarrow> clone_chunk host c h;
          (ps, qs, h2) \<leftarrow> clone_chunks host cs h1;
          Some (p # ps, q # qs, h2) }"

text \<open>\<open>*clone->m_buckets = *m_buckets\<close> copies one element of the array: the first.\<close>

definition Clone :: "host_alloc \<Rightarrow> kalloc \<times> host_t \<Rightarrow> (kalloc \<times> kalloc \<times> host_t) option" where
  "Clone host s =
     (let (k, h) = s in
      do { (ps, qs, h') \<leftarrow> clone_chunks host (m_chunks k) h;
           Some (k\<lparr>m_chunks := ps\<rparr>,
                 KingsleyAlloc\<lparr>m_buckets := (m_buckets KingsleyAlloc)[0 := m_buckets k ! 0],
                   m_chunks := qs\<rparr>,
                 h') })"

definition switch_chunk :: "chunk_t \<Rightarrow> host_t \<Rightarrow> host_t option" where
  "switch_chunk c h =
     do { m \<leftarrow> mmaps h (ch_mmap c);
          let n = unat (mm_size m);
          let save = mm_current m \<noteq> 0 \<and> mm_current m \<noteq> mm_buffer m;
          let load = ch_copy c \<noteq> 0 \<and> mm_buffer m \<noteq> ch_copy c;
          if (save \<or> load) \<and> mapped h (mm_buffer m) \<noteq> Some (mm_size m) then None
          else
            (let m1 = (if save then copy_region (mem h) (mm_current m) (mm_buffer m) n else mem h);
                 m2 = (if load then copy_region m1 (mm_buffer m) (ch_copy c) n else m1)
             in Some (h\<lparr>mem := m2, mmaps := (mmaps h)(ch_mmap c \<mapsto> m\<lparr>mm_current := ch_copy c\<rparr>)\<rparr>)) }"

fun SwitchTo :: "chunk_t list \<Rightarrow> host_t \<Rightarrow> host_t option" where
  "SwitchTo [] h = Some h"
| "SwitchTo (c # cs) h = do { h' \<leftarrow> switch_chunk c h; SwitchTo cs h' }"

fun Dispose :: "chunk_t list \<Rightarrow> host_t \<Rightarrow> host_t option" where
  "Dispose [] h = Some h"
| "Dispose (c # cs) h =
     do { m \<leftarrow> mmaps h (ch_mmap c);
          Dispose cs (if ch_copy c = mm_current m
                      then h\<lparr>mmaps := (mmaps h)(ch_mmap c \<mapsto> m\<lparr>mm_current := 0\<rparr>)\<rparr> else h) }"

text \<open>The destructor: the copies are freed, and the mapping with its last reference.\<close>

fun destroy :: "chunk_t list \<Rightarrow> host_t \<Rightarrow> host_t option" where
  "destroy [] h = Some h"
| "destroy (c # cs) h =
     do { m \<leftarrow> mmaps h (ch_mmap c);
          let m1 = (if ch_copy c \<noteq> 0 \<and> ch_copy c = mm_current m then m\<lparr>mm_current := 0\<rparr> else m);
          let m2 = m1\<lparr>refcount := refcount m1 - 1\<rparr>;
          h' \<leftarrow> (if refcount m2 = 0 then
                   do { h' \<leftarrow> MmapFree (mm_buffer m2) (mm_size m2) h;
                        Some (h'\<lparr>mmaps := (mmaps h')(ch_mmap c := None)\<rparr>) }
                 else Some (h\<lparr>mmaps := (mmaps h)(ch_mmap c \<mapsto> m2)\<rparr>));
          destroy cs h' }"

section \<open>Size classes are the powers of two\<close>

lemma unat_halve: "unat (drop_bit 1 s) = unat s div 2" for s :: uint32
  by (simp add: drop_bit_Suc unat_div)

lemma bucket_loop_spec:
  "\<exists>k. bucket_loop s b = b + of_nat k \<and> unat s < 2 ^ (k + 3) \<and> (k = 0 \<or> 2 ^ (k + 2) \<le> unat s)"
proof (induction s b rule: bucket_loop.induct)
  case (1 s b)
  show ?case
  proof (cases "s > 7")
    case True
    then obtain k where k: "bucket_loop (drop_bit 1 s) (b + 1) = b + 1 + of_nat k"
      "unat (drop_bit 1 s) < 2 ^ (k + 3)" "k = 0 \<or> 2 ^ (k + 2) \<le> unat (drop_bit 1 s)"
      using "1.IH" by blast
    have "8 \<le> unat s" using True by (simp add: word_less_nat_alt)
    then have "unat s < 2 ^ (Suc k + 3)" and "2 ^ (Suc k + 2) \<le> unat s"
      using k(2,3) unat_halve [of s] by (auto simp: power_add)
    moreover have "bucket_loop s b = b + of_nat (Suc k)"
      using True k(1) by (subst bucket_loop.simps) simp
    ultimately show ?thesis by blast
  next
    case False
    then have "bucket_loop s b = b" and "unat s < 8"
      by (simp_all add: bucket_loop.simps not_less word_le_nat_alt)
    then show ?thesis by (intro exI [of _ 0]) simp
  qed
qed

text \<open>The class of a request, as a number.\<close>

definition class_size :: "nat \<Rightarrow> nat" where
  "class_size b = 2 ^ (b + 3)"

lemma SizeToBucket_spec:
  assumes "sz \<noteq> 0" and "unat sz \<le> 2 ^ 28"
  shows "\<exists>k. SizeToBucket sz = Some (of_nat k) \<and> k \<le> 25 \<and> unat sz \<le> class_size k
    \<and> (k = 0 \<or> class_size k < 2 * unat sz)"
proof -
  have u: "unat (sz - 1) = unat sz - 1" using assms(1) by (rule unat_minus_one)
  have pos: "0 < unat sz" using assms(1) by (simp add: unat_gt_0)
  obtain k where k: "bucket_loop (sz - 1) 0 = of_nat k" "unat (sz - 1) < 2 ^ (k + 3)"
    "k = 0 \<or> 2 ^ (k + 2) \<le> unat (sz - 1)"
    using bucket_loop_spec [of "sz - 1" 0] by auto
  have k25: "k \<le> 25"
  proof (rule ccontr)
    assume "\<not> k \<le> 25"
    then have "(2::nat) ^ 28 \<le> 2 ^ (k + 2)" by (intro power_increasing) simp_all
    with k(3) \<open>\<not> k \<le> 25\<close> u pos assms(2) show False by simp
  qed
  then have "of_nat k < (32 :: byte)" by (simp add: word_less_nat_alt unat_of_nat)
  then have "SizeToBucket sz = Some (of_nat k)" by (simp add: SizeToBucket_def k(1))
  moreover have "unat sz \<le> class_size k" using k(2) u pos by (simp add: class_size_def)
  moreover have "k = 0 \<or> class_size k < 2 * unat sz"
    using k(3) u pos by (auto simp: class_size_def power_add)
  ultimately show ?thesis using k25 by blast
qed

lemma BucketToSize_spec:
  assumes "k \<le> 25"
  shows "\<exists>w. BucketToSize (of_nat k) = Some w \<and> unat w = class_size k"
proof -
  have u: "unat (of_nat k :: byte) = k" using assms by (simp add: unat_of_nat)
  have "k + 3 < 32" using assms by simp
  then have "unat (push_bit (k + 3) 1 :: uint32) = class_size k"
    unfolding class_size_def by (intro unat_push_bit_1) simp
  then show ?thesis using assms by (simp add: BucketToSize_def u)
qed

end
