(* ===== verification/Kingsley_Heap.thy ===== *)
theory Kingsley_Heap
  imports Kingsley_Alloc
begin

text \<open>
  The blocks of the heap of \<open>Kingsley_Alloc\<close> never overlap. The invariant counts, for every
  address, the blocks in use, the blocks on the free lists and the unused ends of the chunks that
  cover it, and keeps that count within the one mapping of the address. \<open>Malloc\<close>, \<open>Free\<close>,
  \<open>Realloc\<close> and the program's own writes to its blocks keep it.
\<close>

section \<open>Regions and the free lists in memory\<close>

type_synonym region = "addr \<times> nat"

fun covers :: "region \<Rightarrow> addr \<Rightarrow> nat" where
  "covers (a, n) x = (if a \<le> x \<and> x < a + n then 1 else 0)"

fun cover :: "region list \<Rightarrow> addr \<Rightarrow> nat" where
  "cover [] x = 0"
| "cover (r # rs) x = covers r x + cover rs x"

lemma cover_append [simp]: "cover (rs @ ss) x = cover rs x + cover ss x"
  by (induction rs) auto

lemma covers_split: "k \<le> n \<Longrightarrow> covers (a, n) x = covers (a, k) x + covers (a + k, n - k) x"
  by auto

lemma cover_member: "(a, n) \<in> set rs \<Longrightarrow> a \<le> x \<Longrightarrow> x < a + n \<Longrightarrow> 1 \<le> cover rs x"
  by (induction rs) auto

lemma cover_remove1: "r \<in> set rs \<Longrightarrow> cover rs x = covers r x + cover (remove1 r rs) x"
  by (induction rs) (auto split: prod.splits if_splits)

fun flist :: "(addr \<Rightarrow> addr) \<Rightarrow> addr \<Rightarrow> addr list \<Rightarrow> bool" where
  "flist m p [] \<longleftrightarrow> p = 0"
| "flist m p (a # as) \<longleftrightarrow> p = a \<and> a \<noteq> 0 \<and> flist m (m a) as"

lemma flist_cong: "(\<And>a. a \<in> set as \<Longrightarrow> m' a = m a) \<Longrightarrow> flist m' p as = flist m p as"
  by (induction as arbitrary: p) auto

lemma flist_upd: "a \<notin> set as \<Longrightarrow> flist (m(a := v)) p as = flist m p as"
  by (rule flist_cong) auto

definition free_regions :: "(nat \<Rightarrow> addr list) \<Rightarrow> nat \<Rightarrow> region list" where
  "free_regions free b = map (\<lambda>a. (a, class_size b)) (free b)"

definition free_cover :: "(nat \<Rightarrow> addr list) \<Rightarrow> addr \<Rightarrow> nat" where
  "free_cover free x = (\<Sum>b<32. cover (free_regions free b) x)"

lemma free_cover_push:
  assumes "b < 32"
  shows "free_cover (free(b := a # free b)) x = free_cover free x + covers (a, class_size b) x"
proof -
  have split: "free_cover f x = cover (free_regions f b) x
      + (\<Sum>i \<in> {..<32} - {b}. cover (free_regions f i) x)" for f
    unfolding free_cover_def using assms by (subst sum.remove [of _ b]) simp_all
  have "(\<Sum>i \<in> {..<32} - {b}. cover (free_regions (free(b := a # free b)) i) x)
      = (\<Sum>i \<in> {..<32} - {b}. cover (free_regions free i) x)"
    by (rule sum.cong) (simp_all add: free_regions_def)
  then show ?thesis
    unfolding split [of "free(b := a # free b)"] split [of free] by (simp add: free_regions_def)
qed

lemma class_size_pos: "0 < class_size b"
  by (simp add: class_size_def)

lemma free_cover_member: "b < 32 \<Longrightarrow> a \<in> set (free b) \<Longrightarrow> 1 \<le> free_cover free a"
proof -
  assume b: "b < 32" and a: "a \<in> set (free b)"
  then have "1 \<le> cover (free_regions free b) a"
    by (intro cover_member [of a "class_size b"]) (auto simp: free_regions_def class_size_pos)
  also have "\<dots> \<le> free_cover free a"
    unfolding free_cover_def using b by (intro member_le_sum) simp_all
  finally show ?thesis .
qed

section \<open>The heap invariant\<close>

definition block_size :: "uint32 \<Rightarrow> nat" where
  "block_size sz =
     (if unat sz < 2 ^ 15
      then (case SizeToBucket sz of Some b \<Rightarrow> class_size (unat b) | None \<Rightarrow> 0) else unat sz)"

definition live_regions :: "(addr \<times> uint32) list \<Rightarrow> region list" where
  "live_regions live = map (\<lambda>(a, sz). (a, block_size sz)) live"

definition chunk_region :: "(nat \<rightharpoonup> mmap_t) \<Rightarrow> chunk_t \<Rightarrow> region" where
  "chunk_region ms c =
     (case ms (ch_mmap c) of Some m \<Rightarrow> (mm_buffer m, unat (mm_size m)) | None \<Rightarrow> (0, 0))"

definition tail_region :: "(nat \<rightharpoonup> mmap_t) \<Rightarrow> chunk_t \<Rightarrow> region" where
  "tail_region ms c =
     (case ms (ch_mmap c) of
        Some m \<Rightarrow> (mm_buffer m + unat (ch_brk c), unat (mm_size m) - unat (ch_brk c))
      | None \<Rightarrow> (0, 0))"

definition chunk_ok :: "host_t \<Rightarrow> chunk_t \<Rightarrow> bool" where
  "chunk_ok h c \<longleftrightarrow> ch_mmap c < requests h \<and>
     (\<exists>m. mmaps h (ch_mmap c) = Some m \<and> ch_brk c \<le> mm_size m \<and> 0 < mm_size m
        \<and> 0 < mm_buffer m \<and> 8 dvd mm_buffer m
        \<and> (8 dvd unat (ch_brk c) \<or> ch_brk c = mm_size m)
        \<and> mapped h (mm_buffer m) = Some (mm_size m))"

text \<open>
  The blocks in use, the free blocks and the unused ends of the chunks are pairwise disjoint and
  lie inside the chunks: every address is covered at most as often as the chunks cover it, and
  those cover it at most once.
\<close>

definition heap_inv ::
  "(nat \<Rightarrow> addr list) \<Rightarrow> (addr \<times> uint32) list \<Rightarrow> kalloc \<Rightarrow> host_t \<Rightarrow> bool" where
  "heap_inv free live k h \<longleftrightarrow>
     length (m_buckets k) = 32 \<and> m_defaultMmapSize k = push_bit 15 1
     \<and> (\<forall>c \<in> set (m_chunks k). chunk_ok h c)
     \<and> (\<forall>b < 32. flist (mem h) (m_buckets k ! b) (free b) \<and> (\<forall>a \<in> set (free b). 8 dvd a))
     \<and> (\<forall>(a, sz) \<in> set live. 0 < sz \<and> 0 < a \<and> 8 dvd a
          \<and> (2 ^ 15 \<le> unat sz \<longrightarrow>
               (\<exists>c \<in> set (m_chunks k). chunk_region (mmaps h) c = (a, unat sz))))
     \<and> (\<forall>x. cover (live_regions live) x + free_cover free x
              + cover (map (tail_region (mmaps h)) (m_chunks k)) x
            \<le> cover (map (chunk_region (mmaps h)) (m_chunks k)) x)
     \<and> (\<forall>x. cover (map (chunk_region (mmaps h)) (m_chunks k)) x \<le> 1)"

definition heap_ok :: "(addr \<times> uint32) list \<Rightarrow> kalloc \<Rightarrow> host_t \<Rightarrow> bool" where
  "heap_ok live k h \<longleftrightarrow> (\<exists>free. heap_inv free live k h)"

text \<open>
  What the code relies on from \<open>mmap\<close>: it gives memory that is not mapped yet, at an address
  that is not null and aligned to a page.
\<close>

definition host_ok :: "host_alloc \<Rightarrow> host_t \<Rightarrow> bool" where
  "host_ok host h \<longleftrightarrow>
     (\<forall>sz a. host (requests h) sz = Some a \<longrightarrow>
        0 < a \<and> 4096 dvd a \<and>
        (\<forall>b n x. mapped h b = Some n \<longrightarrow> b \<le> x \<longrightarrow> x < b + unat n \<longrightarrow>
           \<not> (a \<le> x \<and> x < a + unat sz)))"

definition host_serves :: "host_alloc \<Rightarrow> host_t \<Rightarrow> bool" where
  "host_serves host h \<longleftrightarrow> host_ok host h \<and> (\<forall>sz. host (requests h) sz \<noteq> None)"

lemma cover_zero: "(\<And>a n. (a, n) \<in> set rs \<Longrightarrow> \<not> (a \<le> x \<and> x < a + n)) \<Longrightarrow> cover rs x = 0"
  by (induction rs) auto

lemma default_size: "unat (push_bit 15 1 :: uint32) = 2 ^ 15"
  by (rule unat_push_bit_1) simp

lemma KingsleyAlloc_inv: "heap_inv (\<lambda>b. []) [] KingsleyAlloc h"
  by (simp add: heap_inv_def KingsleyAlloc_def live_regions_def free_cover_def free_regions_def)

lemma chunk_regionE:
  assumes "chunk_ok h c"
  obtains m where "mmaps h (ch_mmap c) = Some m" "chunk_region (mmaps h) c = (mm_buffer m, unat (mm_size m))"
    "tail_region (mmaps h) c = (mm_buffer m + unat (ch_brk c), unat (mm_size m) - unat (ch_brk c))"
    "ch_brk c \<le> mm_size m" "0 < mm_size m" "0 < mm_buffer m" "8 dvd mm_buffer m"
    "8 dvd unat (ch_brk c) \<or> ch_brk c = mm_size m" "mapped h (mm_buffer m) = Some (mm_size m)"
  using assms by (auto simp: chunk_ok_def chunk_region_def tail_region_def)

lemma MmapAlloc_inv:
  assumes inv: "heap_inv free live k h" and ok: "host_ok host h"
    and a: "host (requests h) sz = Some a" and pos: "0 < sz"
  defines "c \<equiv> \<lparr>ch_mmap = requests h, ch_copy = 0, ch_brk = 0\<rparr>"
    and "m \<equiv> \<lparr>refcount = 1, mm_size = sz, mm_buffer = a, mm_current = a\<rparr>"
  shows "\<exists>h'. MmapAlloc host sz (k, h) = Some (k\<lparr>m_chunks := c # m_chunks k\<rparr>, h')
    \<and> heap_inv free live (k\<lparr>m_chunks := c # m_chunks k\<rparr>) h' \<and> mem h' = mem h
    \<and> mmaps h' = (mmaps h)(requests h \<mapsto> m)"
proof -
  define h' where "h' = h\<lparr>mmaps := (mmaps h)(requests h \<mapsto> m), mapped := (mapped h)(a \<mapsto> sz),
     requests := Suc (requests h)\<rparr>"
  have old: "c' \<in> set (m_chunks k) \<Longrightarrow> chunk_ok h c'" for c'
    using inv by (auto simp: heap_inv_def)
  have fresh: "0 < a" "8 dvd a" and disj: "\<And>b n x. mapped h b = Some n \<Longrightarrow> b \<le> x \<Longrightarrow> x < b + unat n \<Longrightarrow>
     \<not> (a \<le> x \<and> x < a + unat sz)"
    using ok a by (auto simp: host_ok_def intro: dvd_trans [of 8 4096])
  have ids: "ch_mmap c' \<noteq> requests h" if "c' \<in> set (m_chunks k)" for c'
    using old [OF that] by (auto simp: chunk_ok_def)
  have reg: "map (chunk_region (mmaps h')) (m_chunks k) = map (chunk_region (mmaps h)) (m_chunks k)"
    and tl: "map (tail_region (mmaps h')) (m_chunks k) = map (tail_region (mmaps h)) (m_chunks k)"
    using ids by (auto simp: h'_def chunk_region_def tail_region_def)
  have zero: "cover (map (chunk_region (mmaps h)) (m_chunks k)) x = 0" if "a \<le> x" "x < a + unat sz" for x
  proof (rule cover_zero)
    fix b n
    assume "(b, n) \<in> set (map (chunk_region (mmaps h)) (m_chunks k))"
    then obtain c' where c': "c' \<in> set (m_chunks k)" "(b, n) = chunk_region (mmaps h) c'" by auto
    from old [OF c'(1)] obtain m' :: mmap_t where "chunk_region (mmaps h) c' = (mm_buffer m', unat (mm_size m'))"
      "mapped h (mm_buffer m') = Some (mm_size m')"
      by (elim chunk_regionE) blast
    with disj that c'(2) show "\<not> (b \<le> x \<and> x < b + n)" by auto
  qed
  have new: "chunk_region (mmaps h') c = (a, unat sz)" "tail_region (mmaps h') c = (a, unat sz)"
    by (simp_all add: h'_def c_def m_def chunk_region_def tail_region_def)
  have ok': "chunk_ok h' c'" if "c' \<in> set (m_chunks k)" for c'
  proof -
    from old [OF that] obtain m' :: mmap_t where m': "mmaps h (ch_mmap c') = Some m'" "0 < mm_size m'"
      "mapped h (mm_buffer m') = Some (mm_size m')" by (elim chunk_regionE) blast
    have "mm_buffer m' \<noteq> a"
      using disj [OF m'(3), of a] m'(2) pos by (auto simp: word_less_nat_alt)
    with m' old [OF that] ids [OF that] show ?thesis
      by (auto simp: chunk_ok_def h'_def)
  qed
  have okc: "chunk_ok h' c"
    using fresh pos by (simp add: chunk_ok_def h'_def c_def m_def)
  have "heap_inv free live (k\<lparr>m_chunks := c # m_chunks k\<rparr>) h'"
    unfolding heap_inv_def
  proof (intro conjI allI ballI, goal_cases)
    case (6 x)
    have "cover (live_regions live) x + free_cover free x
        + cover (map (tail_region (mmaps h)) (m_chunks k)) x
        \<le> cover (map (chunk_region (mmaps h)) (m_chunks k)) x"
      using inv by (simp add: heap_inv_def)
    then show ?case by (simp add: reg tl new)
  next
    case (7 x) then show ?case
    proof (cases "a \<le> x \<and> x < a + unat sz")
      case True
      then show ?thesis using zero [of x] by (simp add: reg new)
    next
      case False
      then show ?thesis using inv by (auto simp: heap_inv_def reg new)
    qed
  qed (use inv ok' okc reg new in \<open>auto simp: heap_inv_def h'_def [THEN arg_cong [where f = mem]]\<close>)
  moreover have "MmapAlloc host sz (k, h) = Some (k\<lparr>m_chunks := c # m_chunks k\<rparr>, h')"
    using a by (simp add: MmapAlloc_def h'_def c_def m_def Let_def)
  ultimately show ?thesis by (simp add: h'_def)
qed

text \<open>The loop of \<open>Brk\<close> takes the first chunk with room, and only that chunk changes.\<close>

definition has_room :: "(nat \<rightharpoonup> mmap_t) \<Rightarrow> uint32 \<Rightarrow> chunk_t \<Rightarrow> bool" where
  "has_room ms needed c \<longleftrightarrow> (case ms (ch_mmap c) of
     Some m \<Rightarrow> needed \<le> mm_size m - ch_brk c | None \<Rightarrow> False)"

lemma brk_loop_spec:
  assumes "\<And>c. c \<in> set cs \<Longrightarrow> chunk_ok h c"
  shows "(brk_loop (mmaps h) needed cs = Some None \<and> (\<forall>c \<in> set cs. \<not> has_room (mmaps h) needed c))
    \<or> (\<exists>pre c post m. cs = pre @ c # post \<and> mmaps h (ch_mmap c) = Some m
        \<and> needed \<le> mm_size m - ch_brk c
        \<and> brk_loop (mmaps h) needed cs = Some (Some (mm_buffer m + unat (ch_brk c),
             pre @ c\<lparr>ch_brk := ch_brk c + needed\<rparr> # post)))"
  using assms
proof (induction cs)
  case Nil
  then show ?case by simp
next
  case (Cons c cs)
  obtain m where m: "mmaps h (ch_mmap c) = Some m" "ch_brk c \<le> mm_size m"
    using Cons.prems [of c] by (auto simp: chunk_ok_def)
  show ?case
  proof (cases "needed \<le> mm_size m - ch_brk c")
    case True
    show ?thesis
    proof (rule disjI2, intro exI conjI)
      show "c # cs = [] @ c # cs" by simp
    qed (use m True in auto)
  next
    case False
    then have room: "\<not> has_room (mmaps h) needed c" by (simp add: has_room_def m)
    from Cons.IH Cons.prems consider
      "brk_loop (mmaps h) needed cs = Some None" "\<forall>c \<in> set cs. \<not> has_room (mmaps h) needed c"
    | pre d post m' where "cs = pre @ d # post" "mmaps h (ch_mmap d) = Some m'"
        "needed \<le> mm_size m' - ch_brk d"
        "brk_loop (mmaps h) needed cs = Some (Some (mm_buffer m' + unat (ch_brk d),
             pre @ d\<lparr>ch_brk := ch_brk d + needed\<rparr> # post))"
      by auto
    then show ?thesis
    proof cases
      case 1
      with m False room show ?thesis by simp
    next
      case (2 pre d post m')
      show ?thesis
      proof (rule disjI2, intro exI conjI)
        show "c # cs = (c # pre) @ d # post" using 2 by simp
        show "mmaps h (ch_mmap d) = Some m'" "needed \<le> mm_size m' - ch_brk d" by fact+
      qed (use m False 2 in simp)
    qed
  qed
qed

lemma heap_inv_brk:
  assumes inv: "heap_inv free live k h" and cs: "m_chunks k = pre @ c # post"
    and m: "mmaps h (ch_mmap c) = Some m" and room: "needed \<le> mm_size m - ch_brk c"
    and al: "8 dvd unat needed \<or> needed = mm_size m - ch_brk c"
    and rs: "\<forall>(a, sz) \<in> set live'. 0 < sz \<and> 0 < a \<and> 8 dvd a \<and> (2 ^ 15 \<le> unat sz \<longrightarrow>
               (\<exists>c \<in> set (m_chunks k). chunk_region (mmaps h) c = (a, unat sz)))"
    and use: "\<And>x. cover (live_regions live') x + free_cover free' x
       \<le> cover (live_regions live) x + free_cover free x
          + covers (mm_buffer m + unat (ch_brk c), unat needed) x"
    and fl: "\<forall>b < 32. flist mem' (buckets' ! b) (free' b) \<and> (\<forall>a \<in> set (free' b). 8 dvd a)"
    and len: "length buckets' = 32"
  shows "heap_inv free' live'
    (k\<lparr>m_chunks := pre @ c\<lparr>ch_brk := ch_brk c + needed\<rparr> # post, m_buckets := buckets'\<rparr>)
    (h\<lparr>mem := mem'\<rparr>)"
proof -
  let ?c = "c\<lparr>ch_brk := ch_brk c + needed\<rparr>"
  have ok: "chunk_ok h d" if "d \<in> set (m_chunks k)" for d
    using inv that by (auto simp: heap_inv_def)
  have c: "ch_brk c \<le> mm_size m" "0 < mm_size m" "8 dvd unat (ch_brk c) \<or> ch_brk c = mm_size m"
    using ok [of c] m cs by (auto simp: chunk_ok_def)
  have left: "unat (mm_size m - ch_brk c) = unat (mm_size m) - unat (ch_brk c)"
    using c(1) by (rule unat_diff_word)
  have le: "unat (ch_brk c) + unat needed \<le> unat (mm_size m)"
    using room c(1) left by (simp add: word_le_nat_alt)
  have sum: "unat (ch_brk c + needed) = unat (ch_brk c) + unat needed"
    using le unat_lt [of "mm_size m"] by (intro unat_plus_word) simp
  have al': "8 dvd unat (ch_brk c + needed) \<or> ch_brk c + needed = mm_size m"
  proof (cases "ch_brk c = mm_size m")
    case True
    with room have "needed = 0" by (simp add: word_unat_eq_iff word_le_nat_alt)
    with True show ?thesis by simp
  next
    case False
    with c(3) al sum show ?thesis by auto
  qed
  have okc: "chunk_ok h ?c"
    using ok [of c] m cs al' le sum by (simp add: chunk_ok_def word_le_nat_alt)
  have ok_mem: "chunk_ok (h\<lparr>mem := mem'\<rparr>) d = chunk_ok h d" for d
    by (simp add: chunk_ok_def)
  have reg: "chunk_region (mmaps h) ?c = chunk_region (mmaps h) c"
    by (simp add: chunk_region_def)
  have tails: "covers (tail_region (mmaps h) c) x
      = covers (mm_buffer m + unat (ch_brk c), unat needed) x + covers (tail_region (mmaps h) ?c) x" for x
    using m le sum covers_split [of "unat needed" "unat (mm_size m) - unat (ch_brk c)"
       "mm_buffer m + unat (ch_brk c)" x]
    by (simp add: tail_region_def add.assoc)
  show ?thesis
    unfolding heap_inv_def
  proof (intro conjI allI, goal_cases)
    case (3)
    show ?case using ok okc cs by (auto simp: ok_mem)
  next
    case (5)
    show ?case using rs cs reg by fastforce
  next
    case (6 x)
    have "cover (live_regions live) x + free_cover free x + cover (map (tail_region (mmaps h)) (m_chunks k)) x
        \<le> cover (map (chunk_region (mmaps h)) (m_chunks k)) x"
      using inv by (simp add: heap_inv_def)
    with use [of x] tails [of x] show ?case by (simp add: cs reg)
  next
    case (7 x)
    have "cover (map (chunk_region (mmaps h)) (m_chunks k)) x \<le> 1"
      using inv by (simp add: heap_inv_def)
    then show ?case by (simp add: cs reg)
  qed (use inv fl len in \<open>auto simp: heap_inv_def\<close>)
qed

lemma heap_inv_relabel:
  assumes inv: "heap_inv free live k h"
    and rs: "\<forall>(a, sz) \<in> set live'. (a, sz) \<in> set live \<or> (0 < sz \<and> unat sz < 2 ^ 15 \<and> 0 < a \<and> 8 dvd a)"
    and use: "\<And>x. cover (live_regions live') x + free_cover free' x
       \<le> cover (live_regions live) x + free_cover free x"
    and fl: "\<forall>b < 32. flist mem' (buckets' ! b) (free' b) \<and> (\<forall>a \<in> set (free' b). 8 dvd a)"
    and len: "length buckets' = 32"
  shows "heap_inv free' live' (k\<lparr>m_buckets := buckets'\<rparr>) (h\<lparr>mem := mem'\<rparr>)"
proof -
  have ok_mem: "chunk_ok (h\<lparr>mem := mem'\<rparr>) d = chunk_ok h d" for d
    by (simp add: chunk_ok_def)
  show ?thesis
    unfolding heap_inv_def
  proof (intro conjI allI, goal_cases)
    case (5)
    show ?case using rs inv by (fastforce simp: heap_inv_def)
  next
    case (6 x)
    have "cover (live_regions live) x + free_cover free x + cover (map (tail_region (mmaps h)) (m_chunks k)) x
        \<le> cover (map (chunk_region (mmaps h)) (m_chunks k)) x"
      using inv by (simp add: heap_inv_def)
    with use [of x] show ?case by simp
  qed (use inv fl len in \<open>auto simp: heap_inv_def ok_mem\<close>)
qed

text \<open>At most one of the parts of the heap covers an address.\<close>

lemma heap_inv_cover:
  assumes "heap_inv free live k h"
  shows "cover (live_regions live) x + free_cover free x
     + cover (map (tail_region (mmaps h)) (m_chunks k)) x \<le> 1"
  using assms by (fastforce simp: heap_inv_def intro: order_trans)

lemma Brk_fresh_chunk:
  assumes inv: "heap_inv free live k h" and srv: "host_serves host h"
    and none: "brk_loop (mmaps h) needed (m_chunks k) = Some None" and le: "unat needed \<le> 2 ^ 15"
  obtains k1 h1 where "Brk host needed (k, h) = Brk host needed (k1, h1)" "heap_inv free live k1 h1"
    "mem h1 = mem h" "m_buckets k1 = m_buckets k"
    "\<exists>a cs. brk_loop (mmaps h1) needed (m_chunks k1) = Some (Some (a, cs))"
proof -
  have d: "m_defaultMmapSize k = push_bit 15 1" using inv by (simp add: heap_inv_def)
  have nd: "needed \<le> push_bit 15 1" unfolding word_le_nat_alt default_size using le .
  obtain a where a: "host (requests h) (push_bit 15 1) = Some a" and ok: "host_ok host h"
    using srv by (auto simp: host_serves_def)
  have pos: "(0 :: uint32) < push_bit 15 1" by (simp add: word_less_nat_alt)
  let ?c = "\<lparr>ch_mmap = requests h, ch_copy = 0, ch_brk = 0\<rparr>"
  from MmapAlloc_inv [OF inv ok a pos] obtain h1 where
    h1: "MmapAlloc host (push_bit 15 1) (k, h) = Some (k\<lparr>m_chunks := ?c # m_chunks k\<rparr>, h1)"
    "heap_inv free live (k\<lparr>m_chunks := ?c # m_chunks k\<rparr>) h1" "mem h1 = mem h"
    "mmaps h1 = (mmaps h)(requests h \<mapsto>
       \<lparr>refcount = 1, mm_size = push_bit 15 1, mm_buffer = a, mm_current = a\<rparr>)"
    by blast
  have A: "Brk host needed (k, h) = Brk host needed (k\<lparr>m_chunks := ?c # m_chunks k\<rparr>, h1)"
    using none h1(1) nd by (subst Brk.simps) (simp add: d)
  have B: "\<exists>a cs. brk_loop (mmaps h1) needed (m_chunks (k\<lparr>m_chunks := ?c # m_chunks k\<rparr>))
      = Some (Some (a, cs))"
    using nd by (simp add: h1(4))
  show ?thesis by (rule that [OF A h1(2,3) _ B]) simp
qed

lemma Brk_found:
  assumes inv: "heap_inv free live k h"
    and found: "brk_loop (mmaps h) needed (m_chunks k) = Some (Some (a, cs))"
    and pos: "0 < needed" and al: "8 dvd unat needed"
  shows "Brk host needed (k, h) = Some (a, k\<lparr>m_chunks := cs\<rparr>, h)"
    and "0 < a" and "8 dvd a"
    and "\<And>x. 1 \<le> covers (a, unat needed) x \<Longrightarrow> cover (live_regions live) x = 0 \<and> free_cover free x = 0"
    and "\<And>live' free' buckets' mem'.
      \<forall>(a, sz) \<in> set live'. (a, sz) \<in> set live \<or> (0 < sz \<and> unat sz < 2 ^ 15 \<and> 0 < a \<and> 8 dvd a) \<Longrightarrow>
      (\<And>x. cover (live_regions live') x + free_cover free' x
         \<le> cover (live_regions live) x + free_cover free x + covers (a, unat needed) x) \<Longrightarrow>
      \<forall>b < 32. flist mem' (buckets' ! b) (free' b) \<and> (\<forall>a \<in> set (free' b). 8 dvd a) \<Longrightarrow>
      length buckets' = 32 \<Longrightarrow>
      heap_inv free' live' (k\<lparr>m_chunks := cs, m_buckets := buckets'\<rparr>) (h\<lparr>mem := mem'\<rparr>)"
proof -
  have ok: "c \<in> set (m_chunks k) \<Longrightarrow> chunk_ok h c" for c
    using inv by (simp add: heap_inv_def)
  from brk_loop_spec [OF ok, of "m_chunks k" needed] found
  obtain pre c post m where cs: "m_chunks k = pre @ c # post" "mmaps h (ch_mmap c) = Some m"
    "needed \<le> mm_size m - ch_brk c" "a = mm_buffer m + unat (ch_brk c)"
    "cs = pre @ c\<lparr>ch_brk := ch_brk c + needed\<rparr> # post"
    by auto
  have c: "ch_brk c \<le> mm_size m" "0 < mm_buffer m" "8 dvd mm_buffer m"
    "8 dvd unat (ch_brk c) \<or> ch_brk c = mm_size m"
    using ok [of c] cs by (auto simp: chunk_ok_def)
  show "Brk host needed (k, h) = Some (a, k\<lparr>m_chunks := cs\<rparr>, h)"
    using found by (subst Brk.simps) simp
  show "0 < a" using c cs by simp
  have "ch_brk c \<noteq> mm_size m" using cs(3) pos by auto
  with c show "8 dvd a" by (simp add: cs(4))
  have left: "unat (mm_size m - ch_brk c) = unat (mm_size m) - unat (ch_brk c)"
    using c(1) by (rule unat_diff_word)
  show "cover (live_regions live) x = 0 \<and> free_cover free x = 0"
    if "1 \<le> covers (a, unat needed) x" for x
  proof -
    have "1 \<le> covers (tail_region (mmaps h) c) x"
      using that cs(2,3,4) left by (auto simp: tail_region_def word_le_nat_alt split: if_splits)
    then have "1 \<le> cover (map (tail_region (mmaps h)) (m_chunks k)) x"
      by (simp add: cs(1))
    with heap_inv_cover [OF inv, of x] show ?thesis by simp
  qed
  fix live' free' buckets' mem'
  assume rs: "\<forall>(a, sz) \<in> set live'. (a, sz) \<in> set live \<or> (0 < sz \<and> unat sz < 2 ^ 15 \<and> 0 < a \<and> 8 dvd a)"
    and use: "\<And>x. cover (live_regions live') x + free_cover free' x
         \<le> cover (live_regions live) x + free_cover free x + covers (a, unat needed) x"
    and fl: "\<forall>b < 32. flist mem' (buckets' ! b) (free' b) \<and> (\<forall>a \<in> set (free' b). 8 dvd a)"
    and len: "length buckets' = 32"
  have "\<forall>(a, sz) \<in> set live'. 0 < sz \<and> 0 < a \<and> 8 dvd a \<and> (2 ^ 15 \<le> unat sz \<longrightarrow>
      (\<exists>c \<in> set (m_chunks k). chunk_region (mmaps h) c = (a, unat sz)))"
    using rs inv by (fastforce simp: heap_inv_def)
  from heap_inv_brk [OF inv cs(1-3) disjI1 [OF al] this _ fl len] use
  show "heap_inv free' live' (k\<lparr>m_chunks := cs, m_buckets := buckets'\<rparr>) (h\<lparr>mem := mem'\<rparr>)"
    by (simp add: cs(4,5))
qed

lemma live_regions_Cons [simp]:
  "live_regions ((a, sz) # live) = (a, block_size sz) # live_regions live"
  by (simp add: live_regions_def)

lemma small_class:
  assumes "0 < sz" and "sz < push_bit 15 1"
  obtains b where "SizeToBucket sz = Some (of_nat b)" "b < 32" "b \<le> 25" "unat (of_nat b :: byte) = b"
    "block_size sz = class_size b" "unat sz \<le> class_size b" "class_size b \<le> 2 ^ 15" "8 dvd class_size b"
    "unat sz < 2 ^ 15"
proof -
  have lt: "unat sz < 2 ^ 15" using assms(2) unfolding word_less_nat_alt default_size .
  have nz: "sz \<noteq> 0" using assms(1) by auto
  have le: "unat sz \<le> 2 ^ 28" using lt by simp
  from SizeToBucket_spec [OF nz le] obtain b where b: "SizeToBucket sz = Some (of_nat b)" "b \<le> 25"
    "unat sz \<le> class_size b" "b = 0 \<or> class_size b < 2 * unat sz" by auto
  have u: "unat (of_nat b :: byte) = b" using b(2) by (simp add: unat_of_nat)
  have up: "class_size b \<le> 2 ^ 15"
  proof -
    have "class_size b < 2 ^ 16" using b(4) lt by (auto simp: class_size_def)
    then have "b + 3 < 16" unfolding class_size_def by (rule power_less_imp_less_exp [rotated]) simp
    then show ?thesis unfolding class_size_def by (intro power_increasing) simp_all
  qed
  have "8 dvd class_size b" by (simp add: class_size_def power_add)
  with b u lt up show ?thesis
    by (intro that [of b]) (simp_all add: block_size_def)
qed

text \<open>A request for a class whose free list is not empty takes its first block.\<close>

lemma heap_inv_pop:
  assumes inv: "heap_inv free live k h" and b: "b < 32" and ne: "m_buckets k ! b \<noteq> 0"
    and sz: "0 < sz" "unat sz < 2 ^ 15" "block_size sz = class_size b"
  defines "a \<equiv> m_buckets k ! b"
  shows "heap_inv (free(b := tl (free b))) ((a, sz) # live)
      (k\<lparr>m_buckets := (m_buckets k)[b := mem h a]\<rparr>) h"
    and "0 < a" and "8 dvd a" and "cover (live_regions live) a = 0"
proof -
  have fl: "\<forall>i < 32. flist (mem h) (m_buckets k ! i) (free i) \<and> (\<forall>a \<in> set (free i). 8 dvd a)"
    and len: "length (m_buckets k) = 32"
    using inv by (auto simp: heap_inv_def)
  obtain rest where rest: "free b = a # rest" "a \<noteq> 0" "flist (mem h) (mem h a) rest"
    using fl b ne by (cases "free b") (auto simp: a_def)
  let ?free = "free(b := rest)"
  have eq: "free_cover free x = free_cover ?free x + covers (a, class_size b) x" for x
    using free_cover_push [OF b, of ?free a x] rest(1) by (simp add: fun_upd_idem)
  have "heap_inv ?free ((a, sz) # live) (k\<lparr>m_buckets := (m_buckets k)[b := mem h a]\<rparr>) (h\<lparr>mem := mem h\<rparr>)"
  proof (rule heap_inv_relabel [OF inv])
    show "\<forall>i < 32. flist (mem h) ((m_buckets k)[b := mem h a] ! i) (?free i) \<and> (\<forall>a \<in> set (?free i). 8 dvd a)"
      using fl rest len b by (auto simp: nth_list_update)
  qed (use sz eq len rest(2) fl b rest(1) in auto)
  then show "heap_inv (free(b := tl (free b))) ((a, sz) # live)
      (k\<lparr>m_buckets := (m_buckets k)[b := mem h a]\<rparr>) h"
    using rest by simp
  show "0 < a" "8 dvd a" using rest fl b by auto
  show "cover (live_regions live) a = 0"
    using heap_inv_cover [OF inv, of a] eq [of a] class_size_pos [of b] by simp
qed

text \<open>A class with an empty free list is served by \<open>Brk\<close>.\<close>

lemma heap_inv_cut:
  assumes inv: "heap_inv free live k h" and srv: "host_serves host h" and b: "b \<le> 25"
    and le: "class_size b \<le> 2 ^ 15" and emp: "m_buckets k ! b = 0"
    and sz: "0 < sz" "unat sz < 2 ^ 15" "block_size sz = class_size b"
    and w: "unat w = class_size b"
  obtains a k1 h1 where "Brk host w (k, h) = Some (a, k1, h1)" "0 < a" "8 dvd a"
    "m_buckets k1 = m_buckets k" "mem h1 = mem h" "cover (live_regions live) a = 0"
    "heap_inv free ((a, sz) # live) k1 (h1\<lparr>mem := (mem h)(a := 0)\<rparr>)"
proof -
  note result = that
  have al: "8 dvd unat w" and pos: "0 < w"
    using w class_size_pos [of b] by (simp_all add: class_size_def power_add word_less_nat_alt)
  have fin: thesis
    if i: "heap_inv free live k2 h2" "m_buckets k2 = m_buckets k" "mem h2 = mem h"
      "brk_loop (mmaps h2) w (m_chunks k2) = Some (Some (a, cs))"
      "Brk host w (k, h) = Brk host w (k2, h2)" for k2 h2 a cs
  proof -
    note f = Brk_found [OF i(1,4) pos al]
    have fl: "\<forall>i < 32. flist (mem h) (m_buckets k ! i) (free i) \<and> (\<forall>a \<in> set (free i). 8 dvd a)"
      and len: "length (m_buckets k) = 32"
      using inv by (auto simp: heap_inv_def)
    have z: "cover (live_regions live) a = 0 \<and> free_cover free a = 0"
      using w class_size_pos [of b] by (intro f(4)) simp
    have "a \<notin> set (free i)" if "i < 32" for i
      using z free_cover_member [OF that] by fastforce
    then have fl': "\<forall>i < 32. flist ((mem h)(a := 0)) (m_buckets k ! i) (free i) \<and> (\<forall>a \<in> set (free i). 8 dvd a)"
      using fl by (simp add: flist_upd)
    have "heap_inv free ((a, sz) # live) (k2\<lparr>m_chunks := cs, m_buckets := m_buckets k\<rparr>)
        (h2\<lparr>mem := (mem h)(a := 0)\<rparr>)"
      by (rule f(5) [OF _ _ fl' len]) (use sz w f(2,3) in auto)
    moreover have "k2\<lparr>m_chunks := cs, m_buckets := m_buckets k\<rparr> = k2\<lparr>m_chunks := cs\<rparr>"
      using i(2) by (cases k2) simp
    ultimately show thesis
      using f(1-3) z i(2,3,5) by (intro result [of a "k2\<lparr>m_chunks := cs\<rparr>" h2]) simp_all
  qed
  have okc: "\<And>c. c \<in> set (m_chunks k) \<Longrightarrow> chunk_ok h c" using inv by (simp add: heap_inv_def)
  from brk_loop_spec [OF this, of "m_chunks k" w] consider
    a cs where "brk_loop (mmaps h) w (m_chunks k) = Some (Some (a, cs))"
  | "brk_loop (mmaps h) w (m_chunks k) = Some None" by blast
  then show thesis
  proof cases
    case 1
    then show thesis by (intro fin [of k h]) (simp_all add: inv)
  next
    case 2
    have "unat w \<le> 2 ^ 15" using w le by simp
    from Brk_fresh_chunk [OF inv srv 2 this] obtain k1 h1 a cs where
      "Brk host w (k, h) = Brk host w (k1, h1)" "heap_inv free live k1 h1" "mem h1 = mem h"
      "m_buckets k1 = m_buckets k" "brk_loop (mmaps h1) w (m_chunks k1) = Some (Some (a, cs))"
      by metis
    then show thesis by (intro fin [of k1 h1]) simp_all
  qed
qed

lemma Malloc_small:
  assumes inv: "heap_inv free live k h" and srv: "host_serves host h"
    and pos: "0 < sz" and small: "sz < push_bit 15 1"
  shows "\<exists>a k' h' free'. Malloc host sz (k, h) = Some (a, k', h') \<and> heap_inv free' ((a, sz) # live) k' h'
    \<and> 0 < a \<and> 8 dvd a \<and> (\<forall>x. 1 \<le> cover (live_regions live) x \<longrightarrow> mem h' x = mem h x)"
proof -
  obtain b where b: "SizeToBucket sz = Some (of_nat b)" "b < 32" "b \<le> 25"
    "unat (of_nat b :: byte) = b" "block_size sz = class_size b" "class_size b \<le> 2 ^ 15"
    "unat sz < 2 ^ 15" using small_class [OF pos small] by metis
  have d: "m_defaultMmapSize k = push_bit 15 1" and len: "length (m_buckets k) = 32"
    using inv by (simp_all add: heap_inv_def)
  show ?thesis
  proof (cases "m_buckets k ! b = 0")
    case False
    note p = heap_inv_pop [OF inv b(2) False pos b(7) b(5)]
    have "Malloc host sz (k, h)
        = Some (m_buckets k ! b, k\<lparr>m_buckets := (m_buckets k)[b := mem h (m_buckets k ! b)]\<rparr>, h)"
      using small False b(1,4) by (simp add: Malloc_def d Let_def)
    with p show ?thesis by blast
  next
    case True
    obtain w where w: "BucketToSize (of_nat b) = Some w" "unat w = class_size b"
      using BucketToSize_spec [OF b(3)] by blast
    obtain a k1 h1 where r: "Brk host w (k, h) = Some (a, k1, h1)" "0 < a" "8 dvd a"
      "m_buckets k1 = m_buckets k" "mem h1 = mem h" "cover (live_regions live) a = 0"
      "heap_inv free ((a, sz) # live) k1 (h1\<lparr>mem := (mem h)(a := 0)\<rparr>)"
      using heap_inv_cut [OF inv srv b(3,6) True pos b(7,5) w(2)] .
    have "(m_buckets k)[b := 0] = m_buckets k" using True by (metis list_update_id)
    then have "k1\<lparr>m_buckets := (m_buckets k)[b := 0]\<rparr> = k1" by (simp add: r(4) [symmetric])
    moreover have "Malloc host sz (k, h) = Some (a, k1\<lparr>m_buckets := (m_buckets k)[b := 0]\<rparr>,
        h1\<lparr>mem := (mem h)(a := 0)\<rparr>)"
      using small True b(1,2,4) w(1) r(1,4,5) len by (simp add: Malloc_def d Let_def)
    ultimately show ?thesis using r by fastforce
  qed
qed

lemma Malloc_large:
  assumes inv: "heap_inv free live k h" and srv: "host_serves host h"
    and large: "\<not> sz < push_bit 15 1"
  shows "\<exists>a k' h' free'. Malloc host sz (k, h) = Some (a, k', h') \<and> heap_inv free' ((a, sz) # live) k' h'
    \<and> 0 < a \<and> 8 dvd a \<and> (\<forall>x. 1 \<le> cover (live_regions live) x \<longrightarrow> mem h' x = mem h x)"
proof -
  have d: "m_defaultMmapSize k = push_bit 15 1" and len: "length (m_buckets k) = 32"
    and fl: "\<forall>i < 32. flist (mem h) (m_buckets k ! i) (free i) \<and> (\<forall>a \<in> set (free i). 8 dvd a)"
    using inv by (auto simp: heap_inv_def)
  have ge: "2 ^ 15 \<le> unat sz" using large unfolding word_less_nat_alt default_size by simp
  then have pos: "0 < sz" by (simp add: word_less_nat_alt)
  obtain a where a: "host (requests h) sz = Some a" and ok: "host_ok host h"
    using srv by (auto simp: host_serves_def)
  have a0: "0 < a" "8 dvd a" using ok a by (auto simp: host_ok_def intro: dvd_trans [of 8 4096])
  let ?c = "\<lparr>ch_mmap = requests h, ch_copy = 0, ch_brk = 0\<rparr>"
  let ?m = "\<lparr>refcount = 1, mm_size = sz, mm_buffer = a, mm_current = a\<rparr> :: mmap_t"
  let ?k = "k\<lparr>m_chunks := ?c # m_chunks k\<rparr>"
  from MmapAlloc_inv [OF inv ok a pos] obtain h1 where h1: "MmapAlloc host sz (k, h) = Some (?k, h1)"
    "heap_inv free live ?k h1" "mem h1 = mem h" "mmaps h1 = (mmaps h)(requests h \<mapsto> ?m)"
    by blast
  have m: "mmaps h1 (ch_mmap ?c) = Some ?m" by (simp add: h1(4))
  have cs: "m_chunks ?k = [] @ ?c # m_chunks k" by simp
  have room: "sz \<le> mm_size ?m - ch_brk ?c" by simp
  have full: "8 dvd unat sz \<or> sz = mm_size ?m - ch_brk ?c" by simp
  have "\<forall>(a', sz') \<in> set ((a, sz) # live). 0 < sz' \<and> 0 < a' \<and> 8 dvd a' \<and> (2 ^ 15 \<le> unat sz' \<longrightarrow>
      (\<exists>c \<in> set (m_chunks ?k). chunk_region (mmaps h1) c = (a', unat sz')))"
    using h1(2) pos m a0 by (auto simp: heap_inv_def chunk_region_def)
  from heap_inv_brk [OF h1(2) cs m room full this _ fl len] ge
  have "heap_inv free ((a, sz) # live)
      (?k\<lparr>m_chunks := [] @ ?c\<lparr>ch_brk := ch_brk ?c + sz\<rparr> # m_chunks k, m_buckets := m_buckets k\<rparr>)
      (h1\<lparr>mem := mem h\<rparr>)"
    by (simp add: block_size_def)
  moreover have "Brk host sz (?k, h1)
      = Some (a, ?k\<lparr>m_chunks := [] @ ?c\<lparr>ch_brk := ch_brk ?c + sz\<rparr> # m_chunks k, m_buckets := m_buckets k\<rparr>,
              h1\<lparr>mem := mem h\<rparr>)"
    using m by (subst Brk.simps) (simp add: h1(3) [symmetric])
  ultimately show ?thesis
    using large h1(1) a0 by (fastforce simp: Malloc_def d)
qed

lemma Malloc_inv:
  assumes "heap_ok live k h" and "host_serves host h" and "0 < sz"
  shows "\<exists>a k' h'. Malloc host sz (k, h) = Some (a, k', h') \<and> heap_ok ((a, sz) # live) k' h'
    \<and> 0 < a \<and> 8 dvd a \<and> (\<forall>x. 1 \<le> cover (live_regions live) x \<longrightarrow> mem h' x = mem h x)"
  using assms Malloc_small [of _ live k h host sz] Malloc_large [of _ live k h host sz]
  unfolding heap_ok_def by metis

lemma covers_le_cover: "r \<in> set rs \<Longrightarrow> covers r x \<le> cover rs x"
  by (induction rs) auto

lemma cover_live_remove1:
  "(a, sz) \<in> set live \<Longrightarrow>
   cover (live_regions live) x = covers (a, block_size sz) x + cover (live_regions (remove1 (a, sz) live)) x"
  by (induction live) (auto simp: live_regions_def)

lemma live_block_pos:
  assumes "heap_inv free live k h" and "(a, sz) \<in> set live"
  shows "0 < block_size sz" and "unat sz \<le> block_size sz" and "0 < sz" and "0 < a" and "8 dvd a"
proof -
  show pos: "0 < sz" and "0 < a" and "8 dvd a" using assms by (auto simp: heap_inv_def)
  have "unat sz \<le> block_size sz"
  proof (cases "sz < push_bit 15 1")
    case True
    from small_class [OF pos this] show ?thesis by metis
  next
    case False
    then have "\<not> unat sz < 2 ^ 15" unfolding word_less_nat_alt default_size .
    then show ?thesis by (simp add: block_size_def)
  qed
  then show "unat sz \<le> block_size sz" and "0 < block_size sz"
    using pos by (simp_all add: word_less_nat_alt)
qed

lemma Free_small:
  assumes inv: "heap_inv free live k h" and mem: "(a, sz) \<in> set live" and small: "sz < push_bit 15 1"
  shows "\<exists>k' h' free'. Free a sz (k, h) = Some (k', h') \<and> heap_inv free' (remove1 (a, sz) live) k' h'
    \<and> (\<forall>x. x \<noteq> a \<longrightarrow> mem h' x = mem h x)"
proof -
  note pos = live_block_pos [OF inv mem]
  obtain b where b: "SizeToBucket sz = Some (of_nat b)" "b < 32" "b \<le> 25"
    "unat (of_nat b :: byte) = b" "block_size sz = class_size b"
    using small_class [OF pos(3) small] by metis
  have d: "m_defaultMmapSize k = push_bit 15 1" and len: "length (m_buckets k) = 32"
    and fl: "\<forall>i < 32. flist (mem h) (m_buckets k ! i) (free i) \<and> (\<forall>a \<in> set (free i). 8 dvd a)"
    using inv by (auto simp: heap_inv_def)
  let ?live = "remove1 (a, sz) live" and ?free = "free(b := a # free b)"
  let ?mem = "(mem h)(a := m_buckets k ! b)" and ?bk = "(m_buckets k)[b := a]"
  have "1 \<le> cover (live_regions live) a"
    using cover_live_remove1 [OF mem, of a] pos by simp
  then have "free_cover free a = 0" using heap_inv_cover [OF inv, of a] by simp
  then have notin: "a \<notin> set (free i)" if "i < 32" for i
    using free_cover_member [OF that, of a free] by fastforce
  have "heap_inv ?free ?live (k\<lparr>m_buckets := ?bk\<rparr>) (h\<lparr>mem := ?mem\<rparr>)"
  proof (rule heap_inv_relabel [OF inv])
    show "\<forall>i < 32. flist ?mem (?bk ! i) (?free i) \<and> (\<forall>a \<in> set (?free i). 8 dvd a)"
      using fl notin b(2) len pos by (auto simp: nth_list_update flist_upd)
    show "cover (live_regions ?live) x + free_cover ?free x
        \<le> cover (live_regions live) x + free_cover free x" for x
      using cover_live_remove1 [OF mem, of x] free_cover_push [OF b(2), of free a x] b(5) by simp
    show "\<forall>(a', sz') \<in> set ?live. (a', sz') \<in> set live \<or> (0 < sz' \<and> unat sz' < 2 ^ 15 \<and> 0 < a' \<and> 8 dvd a')"
      using set_remove1_subset [of "(a, sz)" live] by auto
  qed (simp add: len)
  moreover have "Free a sz (k, h) = Some (k\<lparr>m_buckets := ?bk\<rparr>, h\<lparr>mem := ?mem\<rparr>)"
    using small b(1,4) by (simp add: Free_def d)
  ultimately show ?thesis by fastforce
qed

text \<open>A block with a chunk of its own: the first chunk that matches is the block's chunk.\<close>

lemma free_loop_spec:
  assumes "\<And>c. c \<in> set cs \<Longrightarrow> chunk_ok h c"
    and "\<exists>c \<in> set cs. chunk_region (mmaps h) c = (a, unat sz)"
  shows "\<exists>pre c post. cs = pre @ c # post \<and> chunk_region (mmaps h) c = (a, unat sz)
    \<and> free_loop a sz h cs = Some (pre @ post, h\<lparr>mapped := (mapped h)(a := None)\<rparr>)"
  using assms
proof (induction cs)
  case Nil
  then show ?case by simp
next
  case (Cons c cs)
  obtain m :: mmap_t where m: "mmaps h (ch_mmap c) = Some m"
    "chunk_region (mmaps h) c = (mm_buffer m, unat (mm_size m))"
    "mapped h (mm_buffer m) = Some (mm_size m)"
    using Cons.prems(1) [OF list.set_intros(1)] by (elim chunk_regionE) blast
  show ?case
  proof (cases "mm_buffer m = a \<and> mm_size m = sz")
    case True
    show ?thesis
    proof (intro exI conjI)
      show "c # cs = [] @ c # cs" by simp
    qed (use m True in \<open>simp_all add: MmapFree_def fun_upd_def\<close>)
  next
    case False
    then have "chunk_region (mmaps h) c \<noteq> (a, unat sz)"
      using m by (auto simp: word_unat_eq_iff)
    then have "\<exists>c \<in> set cs. chunk_region (mmaps h) c = (a, unat sz)"
      using Cons.prems(2) by auto
    from Cons.IH [OF Cons.prems(1) [OF list.set_intros(2)] this] obtain pre d post where
      IH: "cs = pre @ d # post" "chunk_region (mmaps h) d = (a, unat sz)"
      "free_loop a sz h cs = Some (pre @ post, h\<lparr>mapped := (mapped h)(a := None)\<rparr>)"
      by blast
    have "free_loop a sz h (c # cs) = Some ((c # pre) @ post, h\<lparr>mapped := (mapped h)(a := None)\<rparr>)"
      using m(1) False IH(3) by (auto simp del: fun_upd_apply)
    moreover have "c # cs = (c # pre) @ d # post" using IH(1) by simp
    ultimately show ?thesis using IH(2) by blast
  qed
qed

lemma Free_large:
  assumes inv: "heap_inv free live k h" and mem: "(a, sz) \<in> set live" and large: "\<not> sz < push_bit 15 1"
  shows "\<exists>k' h' free'. Free a sz (k, h) = Some (k', h') \<and> heap_inv free' (remove1 (a, sz) live) k' h'
    \<and> (\<forall>x. x \<noteq> a \<longrightarrow> mem h' x = mem h x)"
proof -
  note pos = live_block_pos [OF inv mem]
  have ge: "2 ^ 15 \<le> unat sz" using large unfolding word_less_nat_alt default_size by simp
  then have bs: "block_size sz = unat sz" by (simp add: block_size_def)
  have d: "m_defaultMmapSize k = push_bit 15 1" using inv by (simp add: heap_inv_def)
  have okc: "\<And>c. c \<in> set (m_chunks k) \<Longrightarrow> chunk_ok h c" using inv by (simp add: heap_inv_def)
  have "\<exists>c \<in> set (m_chunks k). chunk_region (mmaps h) c = (a, unat sz)"
    using inv mem ge by (auto simp: heap_inv_def)
  from free_loop_spec [OF okc this] obtain pre c post where
    cs: "m_chunks k = pre @ c # post" and reg: "chunk_region (mmaps h) c = (a, unat sz)"
    and fl: "free_loop a sz h (m_chunks k) = Some (pre @ post, h\<lparr>mapped := (mapped h)(a := None)\<rparr>)"
    by blast
  let ?h = "h\<lparr>mapped := (mapped h)(a := None)\<rparr>" and ?k = "k\<lparr>m_chunks := pre @ post\<rparr>"
  let ?live = "remove1 (a, sz) live"
  let ?R = "\<lambda>cs x. cover (map (chunk_region (mmaps h)) cs) x"
  let ?T = "\<lambda>cs x. cover (map (tail_region (mmaps h)) cs) x"
  have Rsplit: "?R (m_chunks k) x = covers (a, unat sz) x + ?R (pre @ post) x" for x
    by (simp add: cs reg)
  have Rle: "?R (m_chunks k) x \<le> 1" for x using inv by (simp add: heap_inv_def)
  have Lsplit: "cover (live_regions live) x = covers (a, unat sz) x + cover (live_regions ?live) x" for x
    using cover_live_remove1 [OF mem, of x] bs by simp
  have total: "cover (live_regions live) x + free_cover free x + ?T (m_chunks k) x \<le> ?R (m_chunks k) x" for x
    using inv by (simp add: heap_inv_def)
  have Tle: "?T (pre @ post) x \<le> ?T (m_chunks k) x" for x by (simp add: cs)
  have other: "covers (a', n) x = 0 \<or> covers (a, unat sz) x = 0"
    if "d \<in> set (pre @ post)" "chunk_region (mmaps h) d = (a', n)" for d a' n x
  proof -
    have "covers (a', n) x \<le> ?R (pre @ post) x"
      using that by (intro covers_le_cover) force
    then show ?thesis using Rsplit [of x] Rle [of x] by (cases "covers (a, unat sz) x = 0") auto
  qed
  have ok': "chunk_ok ?h e" if e: "e \<in> set (pre @ post)" for e
  proof -
    have ce: "chunk_ok h e" using okc e cs by auto
    then obtain m' :: mmap_t where m': "mmaps h (ch_mmap e) = Some m'" "0 < mm_size m'"
      "chunk_region (mmaps h) e = (mm_buffer m', unat (mm_size m'))" by (elim chunk_regionE) blast
    have "mm_buffer m' \<noteq> a"
      using other [OF e m'(3), of a] m'(2) pos(3) by (auto simp: word_less_nat_alt split: if_splits)
    then show ?thesis using ce m' by (auto simp: chunk_ok_def)
  qed
  have "heap_inv free ?live ?k ?h"
    unfolding heap_inv_def
  proof (intro conjI allI, goal_cases)
    case 5
    have "\<exists>e \<in> set (pre @ post). chunk_region (mmaps h) e = (a', unat sz')"
      if m: "(a', sz') \<in> set ?live" and g: "2 ^ 15 \<le> unat sz'" for a' sz'
    proof -
      have m2: "(a', sz') \<in> set live" using m set_remove1_subset by fast
      obtain e where e: "e \<in> set (m_chunks k)" "chunk_region (mmaps h) e = (a', unat sz')"
        using inv m2 g by (auto simp: heap_inv_def)
      have "a' \<noteq> a"
      proof
        assume "a' = a"
        have "1 \<le> cover (live_regions ?live) a"
          using m g \<open>a' = a\<close> by (intro cover_member [of a "block_size sz'"])
            (auto simp: live_regions_def block_size_def intro!: rev_image_eqI [of "(a, sz')"])
        with Lsplit [of a] heap_inv_cover [OF inv, of a] pos(3) show False
          by (simp add: word_less_nat_alt)
      qed
      with e reg cs show ?thesis by auto
    qed
    then show ?case using inv set_remove1_subset [of "(a, sz)" live] by (fastforce simp: heap_inv_def)
  next
    case (6 x)
    show ?case
    proof (cases "covers (a, unat sz) x = 0")
      case True
      then show ?thesis using total [of x] Lsplit [of x] Rsplit [of x] Tle [of x] by simp
    next
      case False
      then show ?thesis using total [of x] Lsplit [of x] Rsplit [of x] Tle [of x] Rle [of x] by simp
    qed
  next
    case (7 x)
    then show ?case using Rle [of x] Rsplit [of x] by simp
  qed (use inv ok' in \<open>auto simp: heap_inv_def\<close>)
  moreover have "Free a sz (k, h) = Some (?k, ?h)"
    using large fl by (simp add: Free_def d)
  ultimately show ?thesis by fastforce
qed

lemma Free_inv:
  assumes ok: "heap_ok live k h" and mem: "(a, sz) \<in> set live"
  shows "\<exists>k' h'. Free a sz (k, h) = Some (k', h') \<and> heap_ok (remove1 (a, sz) live) k' h'
    \<and> (\<forall>x. 1 \<le> cover (live_regions (remove1 (a, sz) live)) x \<longrightarrow> mem h' x = mem h x)"
proof -
  obtain free where inv: "heap_inv free live k h" using ok by (auto simp: heap_ok_def)
  note pos = live_block_pos [OF inv mem]
  have z: "cover (live_regions (remove1 (a, sz) live)) a = 0"
    using cover_live_remove1 [OF mem, of a] heap_inv_cover [OF inv, of a] pos(1) by simp
  obtain k' h' free' where "Free a sz (k, h) = Some (k', h')"
    "heap_inv free' (remove1 (a, sz) live) k' h'" "\<forall>x. x \<noteq> a \<longrightarrow> mem h' x = mem h x"
    using Free_small [OF inv mem] Free_large [OF inv mem] by blast
  with z show ?thesis unfolding heap_ok_def by (metis not_one_le_zero)
qed

text \<open>The program may write to the blocks it holds.\<close>

lemma heap_ok_write:
  assumes ok: "heap_ok live k h" and inside: "\<forall>x. mem' x \<noteq> mem h x \<longrightarrow> 1 \<le> cover (live_regions live) x"
  shows "heap_ok live k (h\<lparr>mem := mem'\<rparr>)"
proof -
  obtain free where inv: "heap_inv free live k h" using ok by (auto simp: heap_ok_def)
  have "mem' a = mem h a" if "b < 32" "a \<in> set (free b)" for a b
    using free_cover_member [of b a free] heap_inv_cover [OF inv, of a] inside that by fastforce
  then have "flist mem' p (free b) = flist (mem h) p (free b)" if "b < 32" for p b
    using that by (intro flist_cong) auto
  with inv have "heap_inv free live (k\<lparr>m_buckets := m_buckets k\<rparr>) (h\<lparr>mem := mem'\<rparr>)"
    by (intro heap_inv_relabel [OF inv]) (auto simp: heap_inv_def)
  then show ?thesis by (auto simp: heap_ok_def)
qed

text \<open>Two entries of a list of regions that both hold an address count twice.\<close>

lemma cover_two:
  "i < j \<Longrightarrow> j < length rs \<Longrightarrow> covers (rs ! i) x = 1 \<Longrightarrow> covers (rs ! j) x = 1 \<Longrightarrow> 2 \<le> cover rs x"
proof (induction rs arbitrary: i j)
  case Nil
  then show ?case by simp
next
  case (Cons r rs)
  show ?case
  proof (cases i)
    case 0
    then have "covers (rs ! (j - 1)) x \<le> cover rs x"
      using Cons.prems by (intro covers_le_cover nth_mem) auto
    then show ?thesis using 0 Cons.prems by simp
  next
    case (Suc i')
    moreover have "i' < j - 1" using Suc Cons.prems(1) by simp
    ultimately have "2 \<le> cover rs x" using Cons.IH [of i' "j - 1"] Cons.prems by simp
    then show ?thesis by simp
  qed
qed

lemma heap_ok_apart:
  assumes ok: "heap_ok live k h" and ij: "i < length live" "j < length live" "i \<noteq> j"
    and x: "fst (live ! i) \<le> x" "x < fst (live ! i) + block_size (snd (live ! i))"
  shows "\<not> (fst (live ! j) \<le> x \<and> x < fst (live ! j) + block_size (snd (live ! j)))"
proof
  assume y: "fst (live ! j) \<le> x \<and> x < fst (live ! j) + block_size (snd (live ! j))"
  have c: "covers (live_regions live ! i) x = 1" "covers (live_regions live ! j) x = 1"
    using x y ij by (simp_all add: live_regions_def split_beta)
  obtain free where "heap_inv free live k h" using ok by (auto simp: heap_ok_def)
  from heap_inv_cover [OF this, of x] have "cover (live_regions live) x \<le> 1" by simp
  with cover_two [of i j "live_regions live" x] cover_two [of j i "live_regions live" x] c ij
  show False by (simp add: live_regions_def) linarith
qed

lemma copy_region_in: "i < n \<Longrightarrow> copy_region m dst src n (dst + i) = m (src + i)"
  by (simp add: copy_region_def)

lemma Realloc_inv:
  assumes ok: "heap_ok live k h" and srv: "host_serves host h" and mem: "(a, old) \<in> set live"
    and le: "old \<le> new"
  shows "\<exists>b k' h'. Realloc host a old new (k, h) = Some (b, k', h')
    \<and> heap_ok ((b, new) # remove1 (a, old) live) k' h'
    \<and> (\<forall>i < unat old. mem h' (b + i) = mem h (a + i))"
proof -
  obtain free where inv: "heap_inv free live k h" using ok by (auto simp: heap_ok_def)
  note old = live_block_pos [OF inv mem]
  have pos: "0 < new" using old(3) le by (rule less_le_trans)
  obtain b k1 h1 where r1: "Malloc host new (k, h) = Some (b, k1, h1)" "heap_ok ((b, new) # live) k1 h1"
    and fr1: "\<forall>x. 1 \<le> cover (live_regions live) x \<longrightarrow> mem h1 x = mem h x"
    using Malloc_inv [OF ok srv pos] by blast
  obtain free1 where inv1: "heap_inv free1 ((b, new) # live) k1 h1" using r1(2) by (auto simp: heap_ok_def)
  have new: "unat new \<le> block_size new" by (rule live_block_pos(2) [OF inv1, of b]) simp
  have le': "unat old \<le> unat new" using le by (simp add: word_le_nat_alt)
  have old_cover: "1 \<le> cover (live_regions live) (a + i)" if "i < unat old" for i
    using cover_live_remove1 [OF mem, of "a + i"] that old(2) by simp
  have ne: "(b, new) \<noteq> (a, old)"
  proof
    assume "(b, new) = (a, old)"
    then show False
      using heap_inv_cover [OF inv1, of a] cover_live_remove1 [OF mem, of a] old(1) by simp
  qed
  let ?M = "copy_region (mem h1) b a (unat old)"
  have "1 \<le> cover (live_regions ((b, new) # live)) x" if "?M x \<noteq> mem h1 x" for x
    using that new le' by (auto simp: copy_region_def split: if_splits)
  then have ok2: "heap_ok ((b, new) # live) k1 (h1\<lparr>mem := ?M\<rparr>)"
    by (intro heap_ok_write [OF r1(2)]) blast
  obtain k' h' where r3: "Free a old (k1, h1\<lparr>mem := ?M\<rparr>) = Some (k', h')"
    "heap_ok ((b, new) # remove1 (a, old) live) k' h'"
    "\<forall>x. 1 \<le> cover (live_regions ((b, new) # remove1 (a, old) live)) x \<longrightarrow> mem h' x = ?M x"
    using Free_inv [OF ok2, of a old] mem ne by auto
  have "mem h' (b + i) = mem h (a + i)" if i: "i < unat old" for i
  proof -
    have "1 \<le> cover (live_regions ((b, new) # remove1 (a, old) live)) (b + i)"
      using i new le' by simp
    then have "mem h' (b + i) = mem h1 (a + i)"
      using r3(3) i by (simp add: copy_region_in)
    also have "\<dots> = mem h (a + i)" using fr1 old_cover [OF i] by simp
    finally show ?thesis .
  qed
  moreover have "\<not> new < old" using le by simp
  ultimately show ?thesis
    using r1(1) r3(1,2) by (fastforce simp: Realloc_def)
qed

section \<open>Runs of a process's heap\<close>

text \<open>
  A program allocates, frees what it holds, grows what it holds and writes to what it holds, in
  any order; \<open>live\<close> records the blocks it holds.
\<close>

inductive heap_reach :: "host_alloc \<Rightarrow> (addr \<times> uint32) list \<Rightarrow> kalloc \<Rightarrow> host_t \<Rightarrow> bool"
  for host :: host_alloc
where
  start: "heap_reach host [] KingsleyAlloc h"
| malloc: "heap_reach host live k h \<Longrightarrow> host_serves host h \<Longrightarrow> 0 < sz \<Longrightarrow>
    Malloc host sz (k, h) = Some (a, k', h') \<Longrightarrow> heap_reach host ((a, sz) # live) k' h'"
| free: "heap_reach host live k h \<Longrightarrow> (a, sz) \<in> set live \<Longrightarrow>
    Free a sz (k, h) = Some (k', h') \<Longrightarrow> heap_reach host (remove1 (a, sz) live) k' h'"
| realloc: "heap_reach host live k h \<Longrightarrow> host_serves host h \<Longrightarrow> (a, old) \<in> set live \<Longrightarrow> old \<le> new \<Longrightarrow>
    Realloc host a old new (k, h) = Some (b, k', h') \<Longrightarrow>
    heap_reach host ((b, new) # remove1 (a, old) live) k' h'"
| assign: "heap_reach host live k h \<Longrightarrow> 1 \<le> cover (live_regions live) x \<Longrightarrow>
    heap_reach host live k (h\<lparr>mem := (mem h)(x := v)\<rparr>)"

lemma heap_reach_ok: "heap_reach host live k h \<Longrightarrow> heap_ok live k h"
proof (induction rule: heap_reach.induct)
  case (start h)
  show ?case using KingsleyAlloc_inv by (auto simp: heap_ok_def)
next
  case (malloc live k h sz a k' h')
  then show ?case using Malloc_inv [of live k h host sz] by auto
next
  case (free live k h a sz k' h')
  then show ?case using Free_inv [of live k h a sz] by auto
next
  case (realloc live k h a old new b k' h')
  then show ?case using Realloc_inv [of live k h host a old new] by auto
next
  case (assign live k h x v)
  then show ?case by (intro heap_ok_write) (auto split: if_splits)
qed

section \<open>Properties\<close>

text \<open>A host that gives far apart addresses, for the witnesses.\<close>

definition far_host :: host_alloc where
  "far_host n sz = Some (4096 * 2 ^ 32 * (n + 1))"

definition empty_host :: host_t where
  "empty_host = \<lparr>mmaps = Map.empty, mem = (\<lambda>x. 0), mapped = Map.empty, requests = 0\<rparr>"

lemma far_host_serves: "host_serves far_host empty_host"
  by (simp add: host_serves_def host_ok_def far_host_def empty_host_def)

text \<open>C26. A request is served from the smallest class of the powers of two from 8 up that holds it.\<close>

theorem size_class_fits:
  assumes "sz \<noteq> 0" and "unat sz \<le> 2 ^ 28"
  shows "\<exists>b w. SizeToBucket sz = Some b \<and> BucketToSize b = Some w \<and> unat w = class_size (unat b)
    \<and> unat sz \<le> unat w \<and> (8 < unat w \<longrightarrow> unat w < 2 * unat sz)"
proof -
  obtain k where k: "SizeToBucket sz = Some (of_nat k)" "k \<le> 25" "unat sz \<le> class_size k"
    "k = 0 \<or> class_size k < 2 * unat sz" using SizeToBucket_spec [OF assms] by blast
  have "unat (of_nat k :: byte) = k" using k(2) by (simp add: unat_of_nat)
  with k BucketToSize_spec [OF k(2)] show ?thesis by (auto simp: class_size_def)
qed

theorem size_class_fits_witness:
  "\<exists>b w. SizeToBucket 100 = Some b \<and> BucketToSize b = Some w \<and> 100 \<le> unat w \<and> unat w < 200"
  using size_class_fits [of 100] by fastforce

text \<open>C16. \<open>Malloc\<close> returns an aligned block, large enough, that shares no byte with any block in
  use, and changes no byte of those.\<close>

theorem malloc_disjoint:
  assumes "heap_ok live k h" and "host_serves host h" and "0 < sz"
  shows "\<exists>a k' h'. Malloc host sz (k, h) = Some (a, k', h') \<and> heap_ok ((a, sz) # live) k' h'
    \<and> 0 < a \<and> 8 dvd a \<and> unat sz \<le> block_size sz
    \<and> (\<forall>j < length live. \<forall>x. a \<le> x \<and> x < a + block_size sz \<longrightarrow>
         \<not> (fst (live ! j) \<le> x \<and> x < fst (live ! j) + block_size (snd (live ! j))))
    \<and> (\<forall>x. 1 \<le> cover (live_regions live) x \<longrightarrow> mem h' x = mem h x)"
proof -
  obtain a k' h' where r: "Malloc host sz (k, h) = Some (a, k', h')" "heap_ok ((a, sz) # live) k' h'"
    "0 < a" "8 dvd a" "\<forall>x. 1 \<le> cover (live_regions live) x \<longrightarrow> mem h' x = mem h x"
    using Malloc_inv [OF assms] by blast
  obtain free where "heap_inv free ((a, sz) # live) k' h'" using r(2) by (auto simp: heap_ok_def)
  then have "unat sz \<le> block_size sz" by (rule live_block_pos(2) [of _ _ _ _ a]) simp
  moreover have "\<not> (fst (live ! j) \<le> x \<and> x < fst (live ! j) + block_size (snd (live ! j)))"
    if "j < length live" "a \<le> x \<and> x < a + block_size sz" for j x
    using heap_ok_apart [OF r(2), of 0 "Suc j" x] that by simp
  ultimately show ?thesis using r by blast
qed

theorem malloc_disjoint_witness:
  "\<exists>a k' h'. Malloc far_host 100 (KingsleyAlloc, empty_host) = Some (a, k', h')
    \<and> heap_ok [(a, 100)] k' h' \<and> 8 dvd a"
proof -
  have "heap_ok [] KingsleyAlloc empty_host" using KingsleyAlloc_inv by (auto simp: heap_ok_def)
  from malloc_disjoint [OF this far_host_serves, of 100] show ?thesis by auto
qed

text \<open>C1. Whatever a program allocates, frees, grows and writes, and in whatever order, no two of
  the blocks it holds share a byte.\<close>

theorem heap_runs_disjoint:
  assumes "heap_reach host live k h" and "i < length live" and "j < length live" and "i \<noteq> j"
    and "fst (live ! i) \<le> x" and "x < fst (live ! i) + block_size (snd (live ! i))"
  shows "\<not> (fst (live ! j) \<le> x \<and> x < fst (live ! j) + block_size (snd (live ! j)))"
  by (rule heap_ok_apart [OF heap_reach_ok [OF assms(1)] assms(2-6)])

lemma far_host_one_block:
  "\<exists>a k h. heap_reach far_host [(a, 20)] k h \<and> host_serves far_host h"
proof -
  have start: "heap_reach far_host [] KingsleyAlloc empty_host" by (rule heap_reach.start)
  have "SizeToBucket 20 = Some 2" by code_simp
  moreover have "BucketToSize 2 = Some 32" by code_simp
  ultimately have "\<exists>a k h. Malloc far_host 20 (KingsleyAlloc, empty_host) = Some (a, k, h)
      \<and> mapped h = [4096 * 2 ^ 32 \<mapsto> push_bit 15 1] \<and> requests h = 1"
    by (simp add: Malloc_def Brk.simps MmapAlloc_def KingsleyAlloc_def far_host_def empty_host_def Let_def)
  then obtain a k h where r: "Malloc far_host 20 (KingsleyAlloc, empty_host) = Some (a, k, h)"
    "mapped h = [4096 * 2 ^ 32 \<mapsto> push_bit 15 1]" "requests h = 1" by blast
  have "host_serves far_host h"
    by (simp add: host_serves_def host_ok_def far_host_def r)
  then show ?thesis
    using heap_reach.malloc [OF start far_host_serves _ r(1)] by auto
qed

lemma far_host_two_blocks: "\<exists>a b k h. heap_reach far_host [(b, 40000), (a, 20)] k h"
proof -
  obtain a k1 h1 where one: "heap_reach far_host [(a, 20)] k1 h1" and srv: "host_serves far_host h1"
    using far_host_one_block by blast
  obtain b k2 h2 where "Malloc far_host 40000 (k1, h1) = Some (b, k2, h2)"
    using Malloc_inv [OF heap_reach_ok [OF one] srv, of 40000] by auto
  from heap_reach.malloc [OF one srv _ this] show ?thesis by auto
qed

theorem heap_runs_disjoint_witness:
  "\<exists>a b k h. heap_reach far_host [(b, 40000), (a, 20)] k h \<and> \<not> (b \<le> a \<and> a < b + 40000)"
proof -
  obtain a b k h where r: "heap_reach far_host [(b, 40000), (a, 20)] k h"
    using far_host_two_blocks by blast
  obtain free where "heap_inv free [(b, 40000), (a, 20)] k h"
    using heap_reach_ok [OF r] by (auto simp: heap_ok_def)
  then have "0 < block_size 20" by (rule live_block_pos(1) [of _ _ _ _ a]) simp
  then have "\<not> (b \<le> a \<and> a < b + block_size 40000)"
    using heap_runs_disjoint [OF r, of 1 0 a] by simp
  then show ?thesis using r by (auto simp: block_size_def)
qed

text \<open>\<open>Free\<close> of a block in use succeeds, keeps the heap, and changes no byte of the others.\<close>

theorem free_returns_block:
  assumes "heap_ok live k h" and "(a, sz) \<in> set live"
  shows "\<exists>k' h'. Free a sz (k, h) = Some (k', h') \<and> heap_ok (remove1 (a, sz) live) k' h'
    \<and> (\<forall>x. 1 \<le> cover (live_regions (remove1 (a, sz) live)) x \<longrightarrow> mem h' x = mem h x)"
  by (rule Free_inv [OF assms])

theorem free_returns_block_witness:
  "\<exists>a b k h k' h'. heap_ok [(b, 40000), (a, 20)] k h
    \<and> Free b 40000 (k, h) = Some (k', h') \<and> heap_ok [(a, 20)] k' h'"
proof -
  obtain a b k h where r: "heap_reach far_host [(b, 40000), (a, 20)] k h"
    using far_host_two_blocks by blast
  obtain k' h' where "Free b 40000 (k, h) = Some (k', h')" "heap_ok (remove1 (b, 40000) [(b, 40000), (a, 20)]) k' h'"
    using free_returns_block [OF heap_reach_ok [OF r], of b 40000] by auto
  with heap_reach_ok [OF r] have "heap_ok [(b, 40000), (a, 20)] k h
      \<and> Free b 40000 (k, h) = Some (k', h') \<and> heap_ok [(a, 20)] k' h'" by simp
  then show ?thesis by blast
qed

text \<open>C25. \<open>Realloc\<close> to a larger size keeps the bytes of the block.\<close>

theorem realloc_keeps_bytes:
  assumes "heap_ok live k h" and "host_serves host h" and "(a, old) \<in> set live" and "old \<le> new"
  shows "\<exists>b k' h'. Realloc host a old new (k, h) = Some (b, k', h')
    \<and> heap_ok ((b, new) # remove1 (a, old) live) k' h'
    \<and> (\<forall>i < unat old. mem h' (b + i) = mem h (a + i))"
  by (rule Realloc_inv [OF assms])

theorem realloc_keeps_bytes_witness:
  "\<exists>a k h b k' h'. heap_ok [(a, 20)] k h \<and> Realloc far_host a 20 200 (k, h) = Some (b, k', h')
    \<and> (\<forall>i < 20. mem h' (b + i) = mem h (a + i))"
proof -
  obtain a k h where r: "heap_reach far_host [(a, 20)] k h" "host_serves far_host h"
    using far_host_one_block by blast
  from realloc_keeps_bytes [OF heap_reach_ok [OF r(1)] r(2), of a 20 200]
  obtain b k' h' where "Realloc far_host a 20 200 (k, h) = Some (b, k', h')"
    "\<forall>i < unat (20 :: uint32). mem h' (b + i) = mem h (a + i)" by auto
  with heap_reach_ok [OF r(1)] have "heap_ok [(a, 20)] k h
      \<and> Realloc far_host a 20 200 (k, h) = Some (b, k', h') \<and> (\<forall>i < 20. mem h' (b + i) = mem h (a + i))"
    by simp
  then show ?thesis by blast
qed

end
