(* ===== verification/Kingsley_Clone.thy ===== *)
theory Kingsley_Clone
  imports Kingsley_Heap
begin

text \<open>
  Forked processes share the addresses of their heap: \<open>Clone\<close> gives each a copy of every chunk,
  and \<open>SwitchTo\<close> saves the mapped contents in the copy of the process that leaves and brings in
  the copy of the one that enters. The lemmas show that no process ever sees the writes of
  another.
\<close>

section \<open>Copies of the heap: isolation\<close>

text \<open>
  The processes that share mappings are given by the list \<open>ds\<close> of all their chunks. \<open>live_heap\<close>
  is what is mapped now; \<open>view\<close> is the heap of the owner of a chunk: what is mapped when the
  owner is the current one (or has no copy), and its copy otherwise.
\<close>

definition live_heap :: "host_t \<Rightarrow> chunk_t \<Rightarrow> nat \<Rightarrow> addr" where
  "live_heap h c i = (case mmaps h (ch_mmap c) of Some m \<Rightarrow> mem h (mm_buffer m + i) | None \<Rightarrow> 0)"

definition view :: "host_t \<Rightarrow> chunk_t \<Rightarrow> nat \<Rightarrow> addr" where
  "view h c i =
     (case mmaps h (ch_mmap c) of
        Some m \<Rightarrow> if ch_copy c = 0 \<or> mm_current m = ch_copy c then mem h (mm_buffer m + i)
                  else mem h (ch_copy c + i)
      | None \<Rightarrow> 0)"

definition heap_len :: "host_t \<Rightarrow> chunk_t \<Rightarrow> nat" where
  "heap_len h c = (case mmaps h (ch_mmap c) of Some m \<Rightarrow> unat (mm_size m) | None \<Rightarrow> 0)"

fun apart :: "region \<Rightarrow> region \<Rightarrow> bool" where
  "apart (a, n) (b, k) \<longleftrightarrow> a + n \<le> b \<or> b + k \<le> a"

definition pair_ok :: "chunk_t \<Rightarrow> mmap_t \<Rightarrow> chunk_t \<Rightarrow> mmap_t \<Rightarrow> bool" where
  "pair_ok c m d m' \<longleftrightarrow>
     (ch_mmap c \<noteq> ch_mmap d \<longrightarrow>
        apart (mm_buffer m, unat (mm_size m)) (mm_buffer m', unat (mm_size m')))
     \<and> (ch_copy c \<noteq> 0 \<longrightarrow> apart (ch_copy c, unat (mm_size m)) (mm_buffer m', unat (mm_size m')))
     \<and> (ch_copy c \<noteq> 0 \<and> ch_copy d \<noteq> 0 \<and> ch_copy c \<noteq> ch_copy d \<longrightarrow>
          apart (ch_copy c, unat (mm_size m)) (ch_copy d, unat (mm_size m')))
     \<and> (ch_copy c \<noteq> 0 \<and> ch_copy c = ch_copy d \<longrightarrow> ch_mmap c = ch_mmap d)
     \<and> (ch_mmap c = ch_mmap d \<and> ch_copy c = 0 \<longrightarrow> ch_copy d = 0)"

definition shares_ok :: "host_t \<Rightarrow> chunk_t list \<Rightarrow> chunk_t \<Rightarrow> bool" where
  "shares_ok h ds c \<longleftrightarrow>
     (\<exists>m. mmaps h (ch_mmap c) = Some m \<and> mapped h (mm_buffer m) = Some (mm_size m)
        \<and> 0 < mm_size m \<and> mm_buffer m \<noteq> 0
        \<and> (mm_current m = 0 \<or> mm_current m = mm_buffer m
             \<or> (\<exists>d \<in> set ds. ch_mmap d = ch_mmap c \<and> ch_copy d = mm_current m))
        \<and> (\<forall>d \<in> set ds. \<forall>m'. mmaps h (ch_mmap d) = Some m' \<longrightarrow> pair_ok c m d m'))"

definition sharing_ok :: "host_t \<Rightarrow> chunk_t list \<Rightarrow> bool" where
  "sharing_ok h ds \<longleftrightarrow> (\<forall>c \<in> set ds. shares_ok h ds c)"

lemma copy_region_out: "apart (dst, n) (b, k) \<Longrightarrow> i < k \<Longrightarrow> copy_region m dst src n (b + i) = m (b + i)"
  by (auto simp: copy_region_def)

lemma shares_okE:
  assumes "sharing_ok h ds" and "c \<in> set ds"
  obtains m where "mmaps h (ch_mmap c) = Some m" "mapped h (mm_buffer m) = Some (mm_size m)"
    "0 < unat (mm_size m)" "mm_buffer m \<noteq> 0"
    "mm_current m = 0 \<or> mm_current m = mm_buffer m
        \<or> (\<exists>d \<in> set ds. ch_mmap d = ch_mmap c \<and> ch_copy d = mm_current m)"
proof -
  have "shares_ok h ds c" using assms by (simp add: sharing_ok_def)
  then obtain m where "mmaps h (ch_mmap c) = Some m" "mapped h (mm_buffer m) = Some (mm_size m)"
    "0 < mm_size m" "mm_buffer m \<noteq> 0"
    "mm_current m = 0 \<or> mm_current m = mm_buffer m
        \<or> (\<exists>d \<in> set ds. ch_mmap d = ch_mmap c \<and> ch_copy d = mm_current m)"
    unfolding shares_ok_def by blast
  then show ?thesis by (intro that [of m]) (simp_all add: word_less_nat_alt)
qed

lemma shares_okD:
  assumes "sharing_ok h ds" and "c \<in> set ds" and "d \<in> set ds"
    and "mmaps h (ch_mmap c) = Some m" and "mmaps h (ch_mmap d) = Some m'"
  shows "ch_mmap c \<noteq> ch_mmap d \<Longrightarrow>
      apart (mm_buffer m, unat (mm_size m)) (mm_buffer m', unat (mm_size m'))"
    and "ch_copy c \<noteq> 0 \<Longrightarrow> apart (ch_copy c, unat (mm_size m)) (mm_buffer m', unat (mm_size m'))"
    and "ch_copy c \<noteq> 0 \<Longrightarrow> ch_copy d \<noteq> 0 \<Longrightarrow> ch_copy c \<noteq> ch_copy d \<Longrightarrow>
      apart (ch_copy c, unat (mm_size m)) (ch_copy d, unat (mm_size m'))"
    and "ch_copy c \<noteq> 0 \<Longrightarrow> ch_copy c = ch_copy d \<Longrightarrow> ch_mmap c = ch_mmap d"
    and "ch_mmap c = ch_mmap d \<Longrightarrow> ch_copy c = 0 \<Longrightarrow> ch_copy d = 0"
proof -
  have "shares_ok h ds c" using assms by (simp add: sharing_ok_def)
  then obtain m1 where "mmaps h (ch_mmap c) = Some m1"
    "\<forall>d \<in> set ds. \<forall>m'. mmaps h (ch_mmap d) = Some m' \<longrightarrow> pair_ok c m1 d m'"
    unfolding shares_ok_def by blast
  then have p: "pair_ok c m d m'" using assms(3-5) by simp
  show "ch_mmap c \<noteq> ch_mmap d \<Longrightarrow>
      apart (mm_buffer m, unat (mm_size m)) (mm_buffer m', unat (mm_size m'))"
    and "ch_copy c \<noteq> 0 \<Longrightarrow> apart (ch_copy c, unat (mm_size m)) (mm_buffer m', unat (mm_size m'))"
    and "ch_copy c \<noteq> 0 \<Longrightarrow> ch_copy d \<noteq> 0 \<Longrightarrow> ch_copy c \<noteq> ch_copy d \<Longrightarrow>
      apart (ch_copy c, unat (mm_size m)) (ch_copy d, unat (mm_size m'))"
    and "ch_copy c \<noteq> 0 \<Longrightarrow> ch_copy c = ch_copy d \<Longrightarrow> ch_mmap c = ch_mmap d"
    and "ch_mmap c = ch_mmap d \<Longrightarrow> ch_copy c = 0 \<Longrightarrow> ch_copy d = 0"
    using p unfolding pair_ok_def by (blast, blast, blast, blast, blast)
qed

lemma apart_sym: "apart r s \<longleftrightarrow> apart s r"
  by (cases r; cases s) auto

text \<open>The memory after one iteration of \<open>SwitchTo\<close>.\<close>

definition saved :: "mmap_t \<Rightarrow> (addr \<Rightarrow> addr) \<Rightarrow> (addr \<Rightarrow> addr)" where
  "saved m M = (if mm_current m \<noteq> 0 \<and> mm_current m \<noteq> mm_buffer m
     then copy_region M (mm_current m) (mm_buffer m) (unat (mm_size m)) else M)"

definition loaded :: "mmap_t \<Rightarrow> chunk_t \<Rightarrow> (addr \<Rightarrow> addr) \<Rightarrow> (addr \<Rightarrow> addr)" where
  "loaded m c M = (if ch_copy c \<noteq> 0 \<and> mm_buffer m \<noteq> ch_copy c
     then copy_region M (mm_buffer m) (ch_copy c) (unat (mm_size m)) else M)"

lemma switch_chunk_Some:
  assumes "mmaps h (ch_mmap c) = Some m" and "mapped h (mm_buffer m) = Some (mm_size m)"
  shows "switch_chunk c h = Some (h\<lparr>mem := loaded m c (saved m (mem h)),
      mmaps := (mmaps h)(ch_mmap c \<mapsto> m\<lparr>mm_current := ch_copy c\<rparr>)\<rparr>)"
  using assms by (simp add: switch_chunk_def loaded_def saved_def Let_def)

lemma switch_memory:
  assumes ok: "sharing_ok h ds" and c: "c \<in> set ds" and d: "d \<in> set ds"
    and m: "mmaps h (ch_mmap c) = Some m" and m': "mmaps h (ch_mmap d) = Some m'"
    and i: "i < unat (mm_size m')"
  defines "M \<equiv> loaded m c (saved m (mem h))"
  shows "ch_mmap d \<noteq> ch_mmap c \<Longrightarrow> M (mm_buffer m' + i) = mem h (mm_buffer m' + i)"
    and "ch_mmap d = ch_mmap c \<Longrightarrow> M (mm_buffer m' + i) = view h c i"
    and "ch_copy d \<noteq> 0 \<Longrightarrow> ch_copy d \<noteq> mm_current m \<Longrightarrow> M (ch_copy d + i) = mem h (ch_copy d + i)"
    and "ch_copy d \<noteq> 0 \<Longrightarrow> ch_copy d = mm_current m \<Longrightarrow> M (ch_copy d + i) = mem h (mm_buffer m + i)"
proof -
  obtain "0 < unat (mm_size m)" "mm_buffer m \<noteq> 0" and cur: "mm_current m = 0 \<or> mm_current m = mm_buffer m
        \<or> (\<exists>e \<in> set ds. ch_mmap e = ch_mmap c \<and> ch_copy e = mm_current m)"
    using shares_okE [OF ok c] m by (metis option.inject)
  have notbuf: "ch_copy e \<noteq> mm_buffer m" if e: "e \<in> set ds" and me: "mmaps h (ch_mmap e) = Some me" for e me
  proof
    assume eq: "ch_copy e = mm_buffer m"
    obtain "0 < unat (mm_size me)" using shares_okE [OF ok e] me by (metis option.inject)
    with shares_okD(2) [OF ok e c me m] eq \<open>mm_buffer m \<noteq> 0\<close> \<open>0 < unat (mm_size m)\<close>
    show False by simp
  qed
  have S_other: "saved m (mem h) (b + i) = mem h (b + i)"
    if "i < k" "\<And>e. e \<in> set ds \<Longrightarrow> ch_mmap e = ch_mmap c \<Longrightarrow> ch_copy e = mm_current m \<Longrightarrow> ch_copy e \<noteq> 0 \<Longrightarrow>
        apart (ch_copy e, unat (mm_size m)) (b, k)" for b k
  proof (cases "mm_current m \<noteq> 0 \<and> mm_current m \<noteq> mm_buffer m")
    case True
    with cur obtain e where "e \<in> set ds" "ch_mmap e = ch_mmap c" "ch_copy e = mm_current m" by blast
    with that(2) [of e] True have "apart (mm_current m, unat (mm_size m)) (b, k)" by simp
    with that(1) True show ?thesis by (simp add: saved_def copy_region_out del: apart.simps)
  qed (auto simp: saved_def)
  have L_other: "loaded m c N (b + i) = N (b + i)"
    if "i < k" "apart (mm_buffer m, unat (mm_size m)) (b, k)" for N b k
    using that by (auto simp: loaded_def intro: copy_region_out)
  have S_buf: "saved m (mem h) (mm_buffer m' + i) = mem h (mm_buffer m' + i)"
    using i by (rule S_other) (metis shares_okD(2) [OF ok _ d _ m'] m)
  show "M (mm_buffer m' + i) = mem h (mm_buffer m' + i)" if "ch_mmap d \<noteq> ch_mmap c"
    unfolding M_def L_other [OF i shares_okD(1) [OF ok c d m m' that [symmetric]]] by (rule S_buf)
  show "M (mm_buffer m' + i) = view h c i" if eq: "ch_mmap d = ch_mmap c"
  proof -
    have mm: "m' = m" using m m' eq by simp
    show ?thesis
    proof (cases "ch_copy c = 0")
      case True
      then show ?thesis using S_buf m mm by (simp add: M_def loaded_def view_def)
    next
      case False
      have "M (mm_buffer m' + i) = saved m (mem h) (ch_copy c + i)"
        using False notbuf [OF c m] i mm by (simp add: M_def loaded_def copy_region_in)
      also have "\<dots> = view h c i"
      proof (cases "mm_current m = ch_copy c")
        case True
        then show ?thesis using False notbuf [OF c m] i mm m
          by (auto simp: saved_def copy_region_in view_def)
      next
        case ne: False
        have "saved m (mem h) (ch_copy c + i) = mem h (ch_copy c + i)"
          using i unfolding mm by (rule S_other) (metis False ne shares_okD(3) [OF ok _ c _ m] m)
        then show ?thesis using False ne m by (simp add: view_def)
      qed
      finally show ?thesis .
    qed
  qed
  have L_copy: "M (ch_copy d + i) = saved m (mem h) (ch_copy d + i)" if "ch_copy d \<noteq> 0"
    unfolding M_def using i shares_okD(2) [OF ok d c m' m that]
    by (intro L_other [of "unat (mm_size m')"]) (simp_all add: apart_sym)
  show "M (ch_copy d + i) = mem h (ch_copy d + i)" if nz: "ch_copy d \<noteq> 0" and ne: "ch_copy d \<noteq> mm_current m"
    unfolding L_copy [OF nz] using i
    by (rule S_other) (metis nz ne shares_okD(3) [OF ok _ d _ m'] m)
  show "M (ch_copy d + i) = mem h (mm_buffer m + i)" if nz: "ch_copy d \<noteq> 0" and eq: "ch_copy d = mm_current m"
  proof -
    have nb: "mm_current m \<noteq> mm_buffer m" using notbuf [OF d m'] eq by simp
    then obtain e where e: "e \<in> set ds" "ch_mmap e = ch_mmap c" "ch_copy e = mm_current m"
      using cur eq nz by auto
    have "ch_mmap d = ch_mmap e" using shares_okD(4) [OF ok d e(1) m' _ nz] e eq m by auto
    then have "m' = m" using m m' e by simp
    then show ?thesis unfolding L_copy [OF nz] using nb nz eq i by (simp add: saved_def copy_region_in)
  qed
qed

lemma copy_not_buffer:
  assumes ok: "sharing_ok h ds" and e: "e \<in> set ds" and c: "c \<in> set ds"
    and m: "mmaps h (ch_mmap c) = Some m"
  shows "ch_copy e \<noteq> mm_buffer m"
proof
  assume eq: "ch_copy e = mm_buffer m"
  obtain me where me: "mmaps h (ch_mmap e) = Some me" "0 < unat (mm_size me)"
    using shares_okE [OF ok e] by metis
  obtain "0 < unat (mm_size m)" "mm_buffer m \<noteq> 0"
    using shares_okE [OF ok c] m by (metis option.inject)
  with shares_okD(2) [OF ok e c me(1) m] eq me(2) show False by simp
qed

lemma current_owner:
  assumes ok: "sharing_ok h ds" and c: "c \<in> set ds" and d: "d \<in> set ds"
    and m: "mmaps h (ch_mmap c) = Some m" and nz: "ch_copy d \<noteq> 0" and eq: "ch_copy d = mm_current m"
  shows "ch_mmap d = ch_mmap c"
proof -
  have "mm_current m \<noteq> mm_buffer m" using copy_not_buffer [OF ok d c m] eq by simp
  then obtain e where e: "e \<in> set ds" "ch_mmap e = ch_mmap c" "ch_copy e = mm_current m"
    using shares_okE [OF ok c] m nz eq by (metis option.inject)
  obtain m' where "mmaps h (ch_mmap d) = Some m'" using shares_okE [OF ok d] by metis
  from shares_okD(4) [OF ok d e(1) this _ nz] e eq m show ?thesis by auto
qed

definition switched :: "host_t \<Rightarrow> chunk_t \<Rightarrow> mmap_t \<Rightarrow> host_t" where
  "switched h c m = h\<lparr>mem := loaded m c (saved m (mem h)),
      mmaps := (mmaps h)(ch_mmap c \<mapsto> m\<lparr>mm_current := ch_copy c\<rparr>)\<rparr>"

lemma pair_ok_current [simp]:
  "pair_ok c (m\<lparr>mm_current := x\<rparr>) d m' = pair_ok c m d m'"
  "pair_ok c m d (m'\<lparr>mm_current := x\<rparr>) = pair_ok c m d m'"
  by (simp_all add: pair_ok_def)

lemma switched_sharing:
  assumes ok: "sharing_ok h ds" and c: "c \<in> set ds" and m: "mmaps h (ch_mmap c) = Some m"
  shows "sharing_ok (switched h c m) ds"
  unfolding sharing_ok_def
proof
  fix e
  assume e: "e \<in> set ds"
  have "shares_ok h ds e" using ok e by (simp add: sharing_ok_def)
  then obtain me where me: "mmaps h (ch_mmap e) = Some me" "mapped h (mm_buffer me) = Some (mm_size me)"
    "0 < mm_size me" "mm_buffer me \<noteq> 0"
    "mm_current me = 0 \<or> mm_current me = mm_buffer me
      \<or> (\<exists>d \<in> set ds. ch_mmap d = ch_mmap e \<and> ch_copy d = mm_current me)"
    "\<forall>d \<in> set ds. \<forall>m'. mmaps h (ch_mmap d) = Some m' \<longrightarrow> pair_ok e me d m'"
    unfolding shares_ok_def by blast
  define me' where "me' = (if ch_mmap e = ch_mmap c then me\<lparr>mm_current := ch_copy c\<rparr> else me)"
  have "mmaps (switched h c m) (ch_mmap e) = Some me'"
    using me(1) m by (auto simp: switched_def me'_def)
  moreover have "pair_ok e me' d m'" if "d \<in> set ds" "mmaps (switched h c m) (ch_mmap d) = Some m'" for d m'
    using that me(6) m by (auto simp: switched_def me'_def split: if_splits)
  moreover have "mm_current me' = 0 \<or> mm_current me' = mm_buffer me'
      \<or> (\<exists>d \<in> set ds. ch_mmap d = ch_mmap e \<and> ch_copy d = mm_current me')"
    using me(5) c by (auto simp: me'_def)
  ultimately show "shares_ok (switched h c m) ds e"
    using me(2-4) unfolding shares_ok_def by (intro exI [of _ me']) (simp add: me'_def switched_def)
qed

lemma switched_view:
  assumes ok: "sharing_ok h ds" and c: "c \<in> set ds" and m: "mmaps h (ch_mmap c) = Some m"
    and d: "d \<in> set ds" and i: "i < heap_len h d"
  shows "view (switched h c m) d i = view h d i"
proof -
  obtain m' where m': "mmaps h (ch_mmap d) = Some m'" using shares_okE [OF ok d] by metis
  have i': "i < unat (mm_size m')" using i m' by (simp add: heap_len_def)
  note M = switch_memory [OF ok c d m m' i']
  show ?thesis
  proof (cases "ch_mmap d = ch_mmap c")
    case True
    then have mm: "m' = m" using m m' by simp
    consider "ch_copy d = 0" | "ch_copy d = ch_copy c" "ch_copy d \<noteq> 0"
      | "ch_copy d \<noteq> ch_copy c" "ch_copy d \<noteq> 0" by blast
    then show ?thesis
    proof cases
      case 1
      then have "ch_copy c = 0" using shares_okD(5) [OF ok d c m' m True] by simp
      then show ?thesis using 1 M(2) True m mm by (simp add: view_def switched_def)
    next
      case 2
      then show ?thesis using M(2) True m mm by (simp add: view_def switched_def)
    next
      case 3
      then show ?thesis using M(3,4) True m mm by (auto simp: view_def switched_def)
    qed
  next
    case False
    then have cur: "ch_copy d \<noteq> 0 \<Longrightarrow> ch_copy d \<noteq> mm_current m"
      using current_owner [OF ok c d m] by blast
    show ?thesis using M(1,3) False cur m' by (auto simp: view_def switched_def)
  qed
qed

lemma switched_heap_len: "mmaps h (ch_mmap c) = Some m \<Longrightarrow> heap_len (switched h c m) d = heap_len h d"
  by (simp add: heap_len_def switched_def)

text \<open>
  Switching to a process leaves every process's heap as its owner sees it, and puts the
  process's own heap in place.
\<close>

lemma SwitchTo_isolates:
  assumes "sharing_ok h ds" and "set cs \<subseteq> set ds" and "distinct (map ch_mmap cs)"
  shows "\<exists>h'. SwitchTo cs h = Some h' \<and> sharing_ok h' ds
    \<and> (\<forall>d \<in> set ds. heap_len h' d = heap_len h d \<and> (\<forall>i < heap_len h d. view h' d i = view h d i))
    \<and> (\<forall>c \<in> set cs. \<exists>m. mmaps h' (ch_mmap c) = Some m \<and> mm_current m = ch_copy c)
    \<and> (\<forall>x. x \<notin> ch_mmap ` set cs \<longrightarrow> mmaps h' x = mmaps h x)"
  using assms
proof (induction cs arbitrary: h)
  case Nil
  then show ?case by simp
next
  case (Cons c cs)
  have c: "c \<in> set ds" using Cons.prems(2) by simp
  obtain m where m: "mmaps h (ch_mmap c) = Some m" "mapped h (mm_buffer m) = Some (mm_size m)"
    using shares_okE [OF Cons.prems(1) c] by metis
  let ?h = "switched h c m"
  have step: "switch_chunk c h = Some ?h"
    using switch_chunk_Some [OF m] by (simp add: switched_def)
  have sub: "set cs \<subseteq> set ds" and dist: "distinct (map ch_mmap cs)" and new: "ch_mmap c \<notin> ch_mmap ` set cs"
    using Cons.prems(2,3) by auto
  from Cons.IH [OF switched_sharing [OF Cons.prems(1) c m(1)] sub dist]
  obtain h' where h': "SwitchTo cs ?h = Some h'" "sharing_ok h' ds"
    "\<forall>d \<in> set ds. heap_len h' d = heap_len ?h d \<and> (\<forall>i < heap_len ?h d. view h' d i = view ?h d i)"
    "\<forall>c \<in> set cs. \<exists>m. mmaps h' (ch_mmap c) = Some m \<and> mm_current m = ch_copy c"
    "\<forall>x. x \<notin> ch_mmap ` set cs \<longrightarrow> mmaps h' x = mmaps ?h x" by blast
  have "\<forall>d \<in> set ds. heap_len h' d = heap_len h d \<and> (\<forall>i < heap_len h d. view h' d i = view h d i)"
    using h'(3) switched_view [OF Cons.prems(1) c m(1)] switched_heap_len [OF m(1)] by simp
  moreover have "mmaps h' (ch_mmap c) = Some (m\<lparr>mm_current := ch_copy c\<rparr>)"
    using h'(5) new by (simp add: switched_def)
  moreover have "\<forall>x. x \<notin> ch_mmap ` set (c # cs) \<longrightarrow> mmaps h' x = mmaps h x"
    using h'(5) by (simp add: switched_def)
  ultimately show ?case using step h'(1,2,4) by simp
qed

lemma SwitchTo_live:
  assumes "sharing_ok h ds" and "set cs \<subseteq> set ds" and "distinct (map ch_mmap cs)"
  shows "\<exists>h'. SwitchTo cs h = Some h' \<and> sharing_ok h' ds
    \<and> (\<forall>d \<in> set ds. \<forall>i < heap_len h d. view h' d i = view h d i)
    \<and> (\<forall>c \<in> set cs. \<forall>i < heap_len h c. live_heap h' c i = view h c i)"
proof -
  obtain h' where h': "SwitchTo cs h = Some h'" "sharing_ok h' ds"
    "\<forall>d \<in> set ds. heap_len h' d = heap_len h d \<and> (\<forall>i < heap_len h d. view h' d i = view h d i)"
    "\<forall>c \<in> set cs. \<exists>m. mmaps h' (ch_mmap c) = Some m \<and> mm_current m = ch_copy c"
    using SwitchTo_isolates [OF assms] by blast
  have "live_heap h' c i = view h' c i" if "c \<in> set cs" for c i
    using h'(4) that by (auto simp: live_heap_def view_def)
  then show ?thesis using h'(1-3) assms(2) by (metis subsetD)
qed








lemma pair_ok_refcount [simp]:
  "pair_ok c (m\<lparr>refcount := x\<rparr>) d m' = pair_ok c m d m'"
  "pair_ok c m d (m'\<lparr>refcount := x\<rparr>) = pair_ok c m d m'"
  by (simp_all add: pair_ok_def)













section \<open>Fork and switch\<close>


text \<open>C8. Switching to a process puts its heap in place exactly as it left it, and leaves the heap
  of every process as its owner sees it.\<close>

theorem switch_isolates:
  assumes "sharing_ok h ds" and "set cs \<subseteq> set ds" and "distinct (map ch_mmap cs)"
  shows "\<exists>h'. SwitchTo cs h = Some h' \<and> sharing_ok h' ds
    \<and> (\<forall>d \<in> set ds. \<forall>i < heap_len h d. view h' d i = view h d i)
    \<and> (\<forall>c \<in> set cs. \<forall>i < heap_len h c. live_heap h' c i = view h c i)"
  using SwitchTo_live [OF assms] .

text \<open>Two processes that share one mapping of 16 bytes; the second is switched in.\<close>

definition pair_host :: host_t where
  "pair_host = \<lparr>mmaps = [0 \<mapsto> \<lparr>refcount = 2, mm_size = 16, mm_buffer = 4096, mm_current = 8192\<rparr>],
     mem = (\<lambda>x. x), mapped = [4096 \<mapsto> 16], requests = 3\<rparr>"

definition pair_chunks :: "chunk_t list" where
  "pair_chunks = [\<lparr>ch_mmap = 0, ch_copy = 8192, ch_brk = 8\<rparr>, \<lparr>ch_mmap = 0, ch_copy = 12288, ch_brk = 8\<rparr>]"

lemma pair_sharing: "sharing_ok pair_host pair_chunks"
  by (simp add: sharing_ok_def shares_ok_def pair_ok_def pair_host_def pair_chunks_def)

theorem switch_isolates_witness:
  "\<exists>h'. SwitchTo [pair_chunks ! 1] pair_host = Some h'
    \<and> (\<forall>i < 16. view h' (pair_chunks ! 0) i = 4096 + i)
    \<and> (\<forall>i < 16. live_heap h' (pair_chunks ! 1) i = 12288 + i)"
proof -
  have "set [pair_chunks ! 1] \<subseteq> set pair_chunks" and "distinct (map ch_mmap [pair_chunks ! 1])"
    by (simp_all add: pair_chunks_def)
  from switch_isolates [OF pair_sharing this] show ?thesis
    by (auto simp: pair_chunks_def pair_host_def view_def heap_len_def)
qed



definition lone :: "chunk_t \<times> host_t" where
  "lone = (\<lparr>ch_mmap = 0, ch_copy = 0, ch_brk = 8\<rparr>,
     \<lparr>mmaps = [0 \<mapsto> \<lparr>refcount = 1, mm_size = 16, mm_buffer = 4096, mm_current = 4096\<rparr>],
      mem = (\<lambda>x. x), mapped = [4096 \<mapsto> 16], requests = 1\<rparr>)"


text \<open>Of the 32 free lists only the first reaches the child: the others are empty in it, and
  the blocks on them are lost to the child.\<close>

theorem clone_drops_free_lists:
  assumes "Clone host (k, h) = Some (parent, child, h')"
  shows "m_buckets parent = m_buckets k \<and> m_buckets child ! 0 = m_buckets k ! 0
    \<and> (\<forall>b. 0 < b \<and> b < 32 \<longrightarrow> m_buckets child ! b = 0)"
  using assms by (auto simp: Clone_def KingsleyAlloc_def split: bind_splits)

theorem clone_drops_free_lists_witness:
  "\<exists>parent child h'. Clone far_host (KingsleyAlloc\<lparr>m_buckets := replicate 32 (4096 :: nat)\<rparr>, snd lone)
      = Some (parent, child, h') \<and> m_buckets child ! 5 = 0 \<and> m_buckets parent ! 5 = 4096"
proof -
  have "Clone far_host (KingsleyAlloc\<lparr>m_buckets := replicate 32 4096\<rparr>, snd lone)
      = Some (KingsleyAlloc\<lparr>m_buckets := replicate 32 4096\<rparr>,
              KingsleyAlloc\<lparr>m_buckets := (replicate 32 0)[0 := 4096]\<rparr>, snd lone)"
    by (simp add: Clone_def KingsleyAlloc_def)
  from clone_drops_free_lists [OF this] this show ?thesis by auto
qed



end
