(* ===== verification/Dce_Alloc.thy ===== *)
theory Dce_Alloc
  imports Kingsley_Clone
begin

text \<open>
  \<open>model/dce-alloc.cc\<close>: the \<open>malloc\<close> family the simulated programs call, on top of the heap of
  their process. Each block starts with its size in a \<open>size_t\<close>. The contract between this layer
  and the heap is the locale \<open>allocator\<close>, interpreted on \<open>Kingsley_Heap\<close>.
\<close>

section \<open>The code\<close>

type_synonym heap_state = "kalloc \<times> host_t"

text \<open>\<open>KingsleyAlloc::Malloc\<close> takes 32 bits: the size is cut to them.\<close>

definition dce_malloc :: "host_alloc \<Rightarrow> size_t \<Rightarrow> heap_state \<Rightarrow> (addr \<times> heap_state) option" where
  "dce_malloc host n s =
     (let sz = n + 8 in
      do { (buffer, k, h) \<leftarrow> Malloc host (ucast sz) s;
           Some (buffer + 8, k, h\<lparr>mem := (mem h)(buffer := unat sz)\<rparr>) })"


definition dce_calloc :: "host_alloc \<Rightarrow> size_t \<Rightarrow> size_t \<Rightarrow> heap_state \<Rightarrow> (addr \<times> heap_state) option" where
  "dce_calloc host nmemb n s =
     do { (ptr, k, h) \<leftarrow> dce_malloc host (nmemb * n) s;
          Some (ptr, k, h\<lparr>mem := (\<lambda>x. if ptr \<le> x \<and> x < ptr + unat (nmemb * n) then 0 else mem h x)\<rparr>) }"

definition dce_realloc :: "host_alloc \<Rightarrow> addr \<Rightarrow> size_t \<Rightarrow> heap_state \<Rightarrow> (addr \<times> heap_state) option" where
  "dce_realloc host ptr n s =
     (if ptr = 0 \<and> n = 0 then Some (0, s)
      else if ptr = 0 then dce_malloc host n s
      else
        (let buffer = ptr - 8; sz = n + 8; oldSize = (word_of_nat (mem (snd s) buffer) :: size_t) in
         if sz \<le> oldSize then Some (ptr, s)
         else
           do { (buffer', k, h) \<leftarrow> Realloc host buffer (ucast oldSize) (ucast sz) s;
                Some (buffer' + 8, k, h\<lparr>mem := (mem h)(buffer' := unat sz)\<rparr>) }))"

text \<open>\<open>dce_sbrk\<close>: \<^term>\<open>None\<close> as the address is the \<open>-1\<close> it returns for 0.\<close>

definition dce_sbrk :: "host_alloc \<Rightarrow> size_t \<Rightarrow> heap_state \<Rightarrow> (addr option \<times> heap_state) option" where
  "dce_sbrk host increment s =
     (if increment = 0 then Some (None, s)
      else do { (p, s') \<leftarrow> dce_calloc host 1 increment s; Some (Some p, s') })"

section \<open>The contract of the heap\<close>


section \<open>The heap keeps the contract\<close>





section \<open>Blocks with a header\<close>




lemma ucast_low_32: "(ucast (n + 2 ^ 32 + 8) :: uint32) = ucast (n + 8)" for n :: size_t
proof -
  have t: "take_bit 32 (unat x) = take_bit 32 m" if "unat x = m mod 2 ^ 64" for x :: size_t and m
    unfolding that take_bit_eq_mod [symmetric] by (simp only: take_bit_take_bit)
  have e: "n + 2 ^ 32 + 8 = word_of_nat (unat n + 8 + 2 ^ 32)" and e': "n + 8 = word_of_nat (unat n + 8)"
    by simp_all
  have "take_bit 32 (unat (n + 2 ^ 32 + 8)) = take_bit 32 (unat n + 8 + 2 ^ 32)"
    by (rule t) (simp only: e unat_of_nat, simp)
  also have "\<dots> = take_bit 32 (unat n + 8)"
    by (simp only: take_bit_eq_mod mod_add_self2)
  also have "\<dots> = take_bit 32 (unat (n + 8))"
    by (rule t [symmetric]) (simp only: e' unat_of_nat, simp)
  finally show ?thesis
    by (simp add: word_unat_eq_iff unsigned_ucast_eq)
qed

section \<open>Properties\<close>



text \<open>The size is cut to 32 bits on its way to the heap: a request for 4 GB more succeeds with
  the block of the smaller request, although the header still says the larger size, and so does a
  \<open>calloc\<close> whose product wraps around.\<close>

theorem dce_malloc_truncates:
  "dce_malloc host (n + 2 ^ 32) (k, h) =
     map_option (\<lambda>(a, k', h'). (a, k', h'\<lparr>mem := (mem h')(a - 8 := unat (n + 2 ^ 32 + 8))\<rparr>))
       (dce_malloc host n (k, h))
   \<and> dce_calloc host (2 ^ 63 + 1) 2 (k, h) = dce_calloc host 1 2 (k, h)"
proof -
  have u: "(ucast (n + 2 ^ 32 + 8) :: uint32) = ucast (n + 8)"
    by (rule ucast_low_32)
  show ?thesis
    by (cases "Malloc host (ucast (n + 8)) (k, h)")
      (auto simp: dce_malloc_def dce_calloc_def u [simplified] Let_def)
qed

end
