(* ===== verification/Rr_Scheduler.thy ===== *)
theory Rr_Scheduler
  imports Prelude
begin

text \<open>
  The scheduler of the tasks of a node. \<open>task_scheduler\<close> is the contract of the abstract class in
  \<open>model/task-scheduler.h\<close>, as far as the task manager relies on it, for a scheduler that serves its
  tasks in the order of their arrival; \<open>model/rr-task-scheduler.cc\<close> provides it.
\<close>

text \<open>A task is named by the address of its \<open>Task\<close> object.\<close>

type_synonym task = nat

section \<open>The contract\<close>

locale task_scheduler =
  fixes queue :: "'q \<Rightarrow> task list"
    and peek :: "'q \<Rightarrow> task option"
    and dequeue_next :: "'q \<Rightarrow> 'q option"
    and enqueue :: "task \<Rightarrow> 'q \<Rightarrow> 'q"
    and dequeue :: "task \<Rightarrow> 'q \<Rightarrow> 'q"
  assumes peek: "peek q = (case queue q of [] \<Rightarrow> None | t # ts \<Rightarrow> Some t)"
    and dequeue_next: "queue q = t # ts \<Longrightarrow> \<exists>q'. dequeue_next q = Some q' \<and> queue q' = ts"
    and enqueue: "queue (enqueue t q) = queue q @ [t]"
    and dequeue: "queue (dequeue t q) = filter (\<lambda>u. u \<noteq> t) (queue q)"
begin

text \<open>The tasks that will run before \<open>t\<close>.\<close>

definition ahead :: "task \<Rightarrow> 'q \<Rightarrow> task list" where
  "ahead t q = takeWhile (\<lambda>u. u \<noteq> t) (queue q)"

lemma peek_None: "peek q = None \<longleftrightarrow> queue q = []"
  by (simp add: peek split: list.splits)

lemma peek_Some: "peek q = Some t \<longleftrightarrow> (\<exists>ts. queue q = t # ts)"
  by (simp add: peek split: list.splits)

text \<open>A task that arrives, or comes back after its turn, does not get in front of one that waits.\<close>

lemma enqueue_ahead: "t \<in> set (queue q) \<Longrightarrow> ahead t (enqueue u q) = ahead t q"
  by (simp add: ahead_def enqueue takeWhile_append1)

lemma dequeue_ahead: "u \<noteq> t \<Longrightarrow> ahead t (dequeue u q) = filter (\<lambda>v. v \<noteq> u) (ahead t q)"
proof -
  assume "u \<noteq> t"
  have "takeWhile (\<lambda>u. u \<noteq> t) (filter (\<lambda>v. v \<noteq> u) ts) = filter (\<lambda>v. v \<noteq> u) (takeWhile (\<lambda>u. u \<noteq> t) ts)"
    for ts using \<open>u \<noteq> t\<close> by (induction ts) auto
  then show ?thesis by (simp add: ahead_def dequeue)
qed

text \<open>Each turn brings a waiting task one place forward, until it is its own.\<close>

lemma turn_ahead:
  assumes "peek q = Some u" and "dequeue_next q = Some q'" and "t \<in> set (queue q)" and "u \<noteq> t"
  shows "length (ahead t q) = Suc (length (ahead t q')) \<and> t \<in> set (queue q')"
proof -
  obtain ts where ts: "queue q = u # ts" using assms(1) by (auto simp: peek_Some)
  with dequeue_next [OF this] assms(2) have "queue q' = ts" by auto
  with ts assms show ?thesis by (auto simp: ahead_def)
qed

lemma own_turn: "t \<in> set (queue q) \<Longrightarrow> ahead t q = [] \<Longrightarrow> peek q = Some t"
  by (cases "queue q") (auto simp: ahead_def peek split: if_splits)

end

section \<open>\<open>RrTaskScheduler\<close>\<close>

record rr_scheduler =
  m_active :: "task list"

definition RrTaskScheduler :: rr_scheduler where
  "RrTaskScheduler = \<lparr>m_active = []\<rparr>"

definition rr_PeekNext :: "rr_scheduler \<Rightarrow> task option" where
  "rr_PeekNext q = (if m_active q = [] then None else Some (hd (m_active q)))"

text \<open>\<^term>\<open>None\<close> where the assertion of the code fails.\<close>

definition rr_DequeueNext :: "rr_scheduler \<Rightarrow> rr_scheduler option" where
  "rr_DequeueNext q = (if m_active q = [] then None else Some (q\<lparr>m_active := tl (m_active q)\<rparr>))"

definition rr_Enqueue :: "task \<Rightarrow> rr_scheduler \<Rightarrow> rr_scheduler" where
  "rr_Enqueue t q = q\<lparr>m_active := m_active q @ [t]\<rparr>"

definition rr_Dequeue :: "task \<Rightarrow> rr_scheduler \<Rightarrow> rr_scheduler" where
  "rr_Dequeue t q = q\<lparr>m_active := filter (\<lambda>u. u \<noteq> t) (m_active q)\<rparr>"

interpretation rr: task_scheduler m_active rr_PeekNext rr_DequeueNext rr_Enqueue rr_Dequeue
  by unfold_locales
    (auto simp: rr_PeekNext_def rr_DequeueNext_def rr_Enqueue_def rr_Dequeue_def split: list.splits)

end
