(* ===== verification/Task_Manager.thy ===== *)
theory Task_Manager
  imports Rr_Scheduler
begin

text \<open>
  \<open>model/task-manager.cc\<close>: the threads of the simulated programs are tasks that run one at a time,
  each on a fiber of its own, and give the processor back by sleeping, yielding or exiting.

  The main fiber is the ns-3 event loop. Where a task switches to it, the code of \<open>Schedule\<close> that
  the main fiber had left at its own switch goes on: an operation of the model that leaves a task is
  the task's part (\<open>leave\<close>) followed by that rest (\<open>after_switch\<close>). What a task has still to do when
  it is switched to again is the \<open>fiber\<close> saved in it.

  The ns-3 simulator is not part of the repository. It is the argument \<open>S\<close>: the functions the code
  calls, on a state of any type, with the documented behaviour the proofs rely on in
  \<open>simulator_ok\<close>. A missing task (freed memory) and a failed assertion are \<^term>\<open>None\<close>.
\<close>

section \<open>The simulator\<close>

type_synonym event_id = nat
type_synonym time = int

text \<open>The events the code posts; \<open>Do_other\<close> stands for the events of the rest of ns-3.\<close>

datatype action = Do_Schedule | Do_EndWait task | Do_other nat

record 'x simulator =
  Now :: "'x \<Rightarrow> time"
  Sched :: "time \<Rightarrow> action \<Rightarrow> 'x \<Rightarrow> event_id \<times> 'x"
  Cancel :: "event_id \<Rightarrow> 'x \<Rightarrow> 'x"
  IsPending :: "event_id \<Rightarrow> 'x \<Rightarrow> bool"
  Fire :: "'x \<Rightarrow> (action \<times> 'x) option"

definition simulator_ok ::
  "'x simulator \<Rightarrow> ('x \<Rightarrow> event_id \<rightharpoonup> time \<times> action) \<Rightarrow> ('x \<Rightarrow> event_id set) \<Rightarrow> bool" where
  "simulator_ok S pend used \<longleftrightarrow>
     (\<forall>x. dom (pend x) \<subseteq> used x)
     \<and> (\<forall>d a x. 0 \<le> d \<longrightarrow> (\<exists>i x'. Sched S d a x = (i, x') \<and> i \<notin> used x
          \<and> used x' = insert i (used x) \<and> pend x' = (pend x)(i \<mapsto> (Now S x + d, a)) \<and> Now S x' = Now S x))
     \<and> (\<forall>i x. pend (Cancel S i x) = (pend x)(i := None) \<and> used (Cancel S i x) = used x
          \<and> Now S (Cancel S i x) = Now S x)
     \<and> (\<forall>i x. IsPending S i x = (pend x i \<noteq> None))
     \<and> (\<forall>a x x'. Fire S x = Some (a, x') \<longrightarrow> (\<exists>i t. pend x i = Some (t, a)
          \<and> pend x' = (pend x)(i := None) \<and> used x' = used x \<and> Now S x' = t
          \<and> (\<forall>j u b. pend x j = Some (u, b) \<longrightarrow> t \<le> u)))"

section \<open>The state\<close>

datatype state = RUNNING | ACTIVE | BLOCKED | DEAD

text \<open>
  Where a fiber goes on: at the start of its function, after the \<open>Schedule\<close> of \<open>Sleep\<close>, after that
  of \<open>Sleep (timeout)\<close> with its local variables \<open>expectedEnd\<close> and \<open>timeout\<close>, or after that of
  \<open>Yield\<close>.
\<close>

datatype fiber = At_start | In_Sleep | In_Sleep_timeout time time | In_Yield

record task_t =
  m_state :: state
  m_fiber :: fiber
  m_waitTimer :: "event_id option"
  m_context :: addr
  m_extraContext :: addr
  m_switchNotifier :: addr
  m_switchNotifierContext :: addr

datatype switch_type = TO | FROM

text \<open>
  \<open>notified\<close> is the sequence of the calls of the switch notifiers, \<open>new_task\<close> the address of the
  next \<open>Task\<close> object, and \<open>time_left\<close> the value with which the \<open>Sleep (timeout)\<close> of the task that
  was switched to last has returned.
\<close>

record 'x task_manager =
  tasks :: "task \<rightharpoonup> task_t"
  new_task :: task
  m_current :: "task option"
  m_hightask :: "task option"
  m_scheduler :: rr_scheduler
  m_nextSchedule :: "event_id option"
  m_reSchedule :: bool
  m_reScheduleTime :: time
  m_waitQueue :: "(task \<times> time) list"
  m_deadTasks :: "task list"
  m_noSignal :: bool
  notified :: "(switch_type \<times> addr \<times> addr) list"
  time_left :: time
  sim :: 'x

definition TaskManager :: "'x \<Rightarrow> 'x task_manager" where
  "TaskManager x = \<lparr>tasks = Map.empty, new_task = 1, m_current = None, m_hightask = None,
     m_scheduler = RrTaskScheduler, m_nextSchedule = None, m_reSchedule = False,
     m_reScheduleTime = 0, m_waitQueue = [], m_deadTasks = [], m_noSignal = False,
     notified = [], time_left = 0, sim = x\<rparr>"

definition IsActive :: "task_t \<Rightarrow> bool" where "IsActive k = (m_state k = ACTIVE)"
definition IsRunning :: "task_t \<Rightarrow> bool" where "IsRunning k = (m_state k = RUNNING)"
definition IsBlocked :: "task_t \<Rightarrow> bool" where "IsBlocked k = (m_state k = BLOCKED)"
definition IsDead :: "task_t \<Rightarrow> bool" where "IsDead k = (m_state k = DEAD)"

definition SetContext :: "task \<Rightarrow> addr \<Rightarrow> 'x task_manager \<Rightarrow> 'x task_manager option" where
  "SetContext t c m =
     do { k \<leftarrow> tasks m t; Some (m\<lparr>tasks := (tasks m)(t \<mapsto> k\<lparr>m_context := c\<rparr>)\<rparr>) }"

definition SetExtraContext :: "task \<Rightarrow> addr \<Rightarrow> 'x task_manager \<Rightarrow> 'x task_manager option" where
  "SetExtraContext t c m =
     do { k \<leftarrow> tasks m t; Some (m\<lparr>tasks := (tasks m)(t \<mapsto> k\<lparr>m_extraContext := c\<rparr>)\<rparr>) }"

definition SetSwitchNotifier :: "task \<Rightarrow> addr \<Rightarrow> addr \<Rightarrow> 'x task_manager \<Rightarrow> 'x task_manager option" where
  "SetSwitchNotifier t fn c m =
     do { k \<leftarrow> tasks m t;
          Some (m\<lparr>tasks := (tasks m)(t \<mapsto> k\<lparr>m_switchNotifier := fn, m_switchNotifierContext := c\<rparr>)\<rparr>) }"

section \<open>Waking, starting and stopping tasks\<close>

definition Wakeup :: "'x simulator \<Rightarrow> task \<Rightarrow> 'x task_manager \<Rightarrow> 'x task_manager option" where
  "Wakeup S t m =
     do { k \<leftarrow> tasks m t;
          if m_state k = ACTIVE \<or> m_state k = RUNNING then Some m
          else
            let m1 = m\<lparr>tasks := (tasks m)(t \<mapsto> k\<lparr>m_state := ACTIVE\<rparr>),
                       m_scheduler := rr_Enqueue t (m_scheduler m)\<rparr> in
            if m_current m = None
               \<and> (case m_nextSchedule m of None \<Rightarrow> True | Some i \<Rightarrow> \<not> IsPending S i (sim m))
            then let (i, x) = Sched S 0 Do_Schedule (sim m) in
                 Some (m1\<lparr>m_nextSchedule := Some i, sim := x\<rparr>)
            else Some m1 }"

definition blocked_task :: "fiber \<Rightarrow> task_t" where
  "blocked_task f = \<lparr>m_state = BLOCKED, m_fiber = f, m_waitTimer = None, m_context = 0,
     m_extraContext = 0, m_switchNotifier = 0, m_switchNotifierContext = 0\<rparr>"

definition tm_Start :: "'x simulator \<Rightarrow> 'x task_manager \<Rightarrow> (task \<times> 'x task_manager) option" where
  "tm_Start S m =
     (let t = new_task m;
          m1 = m\<lparr>tasks := (tasks m)(t \<mapsto> blocked_task At_start), new_task := t + 1\<rparr> in
      do { m2 \<leftarrow> Wakeup S t m1; Some (t, m2) })"

text \<open>The clone's fiber stands where the cloned one stands: inside \<open>Clone\<close>.\<close>

definition tm_Clone :: "'x simulator \<Rightarrow> task \<Rightarrow> 'x task_manager \<Rightarrow> (task \<times> 'x task_manager) option" where
  "tm_Clone S u m =
     do { k \<leftarrow> tasks m u;
          let c = new_task m;
              m1 = m\<lparr>tasks := (tasks m)(c \<mapsto> blocked_task At_start), new_task := c + 1\<rparr> in
          do { m2 \<leftarrow> Wakeup S c m1; Some (c, m2) } }"

definition cancel_timer :: "'x simulator \<Rightarrow> task_t \<Rightarrow> 'x \<Rightarrow> 'x" where
  "cancel_timer S k x = (case m_waitTimer k of None \<Rightarrow> x | Some i \<Rightarrow> Cancel S i x)"

definition tm_Stop :: "'x simulator \<Rightarrow> task \<Rightarrow> 'x task_manager \<Rightarrow> 'x task_manager option" where
  "tm_Stop S t m =
     (if m_current m = Some t then Some m
      else do { k \<leftarrow> tasks m t;
                Some (m\<lparr>m_scheduler := rr_Dequeue t (m_scheduler m),
                        sim := cancel_timer S k (sim m), tasks := (tasks m)(t := None)\<rparr>) })"

text \<open>\<open>EndWait\<close>, the event of the timer of \<open>Sleep (timeout)\<close>.\<close>

definition EndWait :: "'x simulator \<Rightarrow> task \<Rightarrow> 'x task_manager \<Rightarrow> 'x task_manager option" where
  "EndWait S t m = do { k \<leftarrow> tasks m t; if m_state k = BLOCKED then Wakeup S t m else Some m }"

section \<open>\<open>Schedule\<close>\<close>

fun GarbageCollectDeadTasks :: "'x simulator \<Rightarrow> task list \<Rightarrow> 'x task_manager \<Rightarrow> 'x task_manager option" where
  "GarbageCollectDeadTasks S [] m = Some (m\<lparr>m_deadTasks := []\<rparr>)"
| "GarbageCollectDeadTasks S (t # ts) m =
     do { k \<leftarrow> tasks m t;
          GarbageCollectDeadTasks S ts
            (m\<lparr>sim := cancel_timer S k (sim m), tasks := (tasks m)(t := None)\<rparr>) }"

fun start_timers :: "'x simulator \<Rightarrow> (task \<times> time) list \<Rightarrow> 'x task_manager \<Rightarrow> 'x task_manager option" where
  "start_timers S [] m = Some (m\<lparr>m_waitQueue := []\<rparr>)"
| "start_timers S ((t, timeout) # ws) m =
     (let (i, x) = Sched S timeout (Do_EndWait t) (sim m) in
      do { k \<leftarrow> tasks m t;
           start_timers S ws (m\<lparr>sim := x, tasks := (tasks m)(t \<mapsto> k\<lparr>m_waitTimer := Some i\<rparr>)\<rparr>) })"

text \<open>The end of the main fiber's part: the timers of the new sleepers, then the dead tasks.\<close>

definition finish :: "'x simulator \<Rightarrow> 'x task_manager \<Rightarrow> 'x task_manager option" where
  "finish S m =
     do { m1 \<leftarrow> start_timers S (m_waitQueue m) m;
          GarbageCollectDeadTasks S (m_deadTasks m1) m1 }"

definition notify :: "switch_type \<Rightarrow> task_t \<Rightarrow> 'x task_manager \<Rightarrow> 'x task_manager" where
  "notify d k m = (if m_switchNotifier k \<noteq> 0
     then m\<lparr>notified := notified m @ [(d, m_switchNotifier k, m_switchNotifierContext k)]\<rparr> else m)"

text \<open>
  The main fiber's part up to the switch: the task that is switched to, and \<open>resume\<close>, what that task
  then does before its \<open>Sleep\<close> returns.
\<close>

definition dispatch :: "'x simulator \<Rightarrow> 'x task_manager \<Rightarrow> (task option \<times> 'x task_manager) option" where
  "dispatch S m =
     (case rr_PeekNext (m_scheduler m) of
        None \<Rightarrow> Some (None, m)
      | Some t \<Rightarrow>
          do { q \<leftarrow> rr_DequeueNext (m_scheduler m);
               k \<leftarrow> tasks m t;
               if m_state k \<noteq> ACTIVE then None
               else Some (Some t, notify TO k
                 (m\<lparr>m_scheduler := q, m_current := Some t,
                    tasks := (tasks m)(t \<mapsto> k\<lparr>m_state := RUNNING\<rparr>)\<rparr>)) })"

definition resume :: "'x simulator \<Rightarrow> task \<Rightarrow> 'x task_manager \<Rightarrow> 'x task_manager option" where
  "resume S t m =
     do { k \<leftarrow> tasks m t;
          case m_fiber k of
            In_Sleep_timeout expectedEnd timeout \<Rightarrow>
              let x = cancel_timer S k (sim m) in
              Some (m\<lparr>sim := x, time_left :=
                (if timeout \<noteq> 0 \<and> Now S x \<le> expectedEnd then expectedEnd - Now S x else 0)\<rparr>)
          | _ \<Rightarrow> Some m }"

definition Schedule_main :: "'x simulator \<Rightarrow> 'x task_manager \<Rightarrow> 'x task_manager option" where
  "Schedule_main S m =
     do { (next, m1) \<leftarrow> dispatch S m;
          case next of
            None \<Rightarrow> finish S m1
          | Some t \<Rightarrow> resume S t m1 }"

text \<open>The main fiber's part after the switch back from a task.\<close>

definition after_switch :: "'x simulator \<Rightarrow> 'x task_manager \<Rightarrow> 'x task_manager option" where
  "after_switch S m =
     (if m_reSchedule m
      then let (i, x) = Sched S (if m_reScheduleTime m > 0 then m_reScheduleTime m else 0) Do_Schedule (sim m) in
           finish S (m\<lparr>m_reSchedule := False, sim := x\<rparr>)
      else finish S m)"

text \<open>The task's part of \<open>Schedule\<close>; \<open>delay\<close> is the time the delay model reports for its run.\<close>

definition leave :: "time \<Rightarrow> 'x task_manager \<Rightarrow> 'x task_manager option" where
  "leave delay m =
     do { t \<leftarrow> m_current m;
          k \<leftarrow> tasks m t;
          let m1 = (if rr_PeekNext (m_scheduler m) \<noteq> None
                    then m\<lparr>m_reSchedule := True, m_reScheduleTime := delay\<rparr> else m) in
          Some ((notify FROM k m1)\<lparr>m_current := None\<rparr>) }"

section \<open>Giving the processor back\<close>

text \<open>Each of them as the task executes it, with the assertions in front.\<close>

definition running_task :: "'x task_manager \<Rightarrow> (task \<times> task_t) option" where
  "running_task m =
     do { t \<leftarrow> m_current m; k \<leftarrow> tasks m t; if m_state k = RUNNING then Some (t, k) else None }"

definition Sleep :: "'x simulator \<Rightarrow> time \<Rightarrow> 'x task_manager \<Rightarrow> 'x task_manager option" where
  "Sleep S delay m =
     do { (t, k) \<leftarrow> running_task m;
          m1 \<leftarrow> leave delay (m\<lparr>tasks := (tasks m)(t \<mapsto> k\<lparr>m_state := BLOCKED, m_fiber := In_Sleep\<rparr>)\<rparr>);
          after_switch S m1 }"

definition Sleep_timeout :: "'x simulator \<Rightarrow> time \<Rightarrow> time \<Rightarrow> 'x task_manager \<Rightarrow> 'x task_manager option" where
  "Sleep_timeout S delay timeout m =
     do { (t, k) \<leftarrow> running_task m;
          let expectedEnd = Now S (sim m) + timeout;
              m1 = m\<lparr>tasks := (tasks m)(t \<mapsto>
                     k\<lparr>m_state := BLOCKED, m_fiber := In_Sleep_timeout expectedEnd timeout\<rparr>)\<rparr>;
              m2 = (if timeout \<noteq> 0 then m1\<lparr>m_waitQueue := m_waitQueue m @ [(t, timeout)]\<rparr> else m1) in
          do { m3 \<leftarrow> leave delay m2; after_switch S m3 } }"

definition Yield :: "'x simulator \<Rightarrow> time \<Rightarrow> 'x task_manager \<Rightarrow> 'x task_manager option" where
  "Yield S delay m =
     do { (t, k) \<leftarrow> running_task m;
          m1 \<leftarrow> leave delay (m\<lparr>tasks := (tasks m)(t \<mapsto> k\<lparr>m_state := ACTIVE, m_fiber := In_Yield\<rparr>),
                              m_scheduler := rr_Enqueue t (m_scheduler m)\<rparr>);
          after_switch S m1 }"

definition tm_Exit :: "'x simulator \<Rightarrow> time \<Rightarrow> 'x task_manager \<Rightarrow> 'x task_manager option" where
  "tm_Exit S delay m =
     do { (t, k) \<leftarrow> running_task m;
          m1 \<leftarrow> leave delay (m\<lparr>tasks := (tasks m)(t \<mapsto> k\<lparr>m_state := DEAD\<rparr>),
                              sim := cancel_timer S k (sim m), m_deadTasks := m_deadTasks m @ [t]\<rparr>);
          after_switch S m1 }"

section \<open>Running on the main fiber\<close>

text \<open>
  \<open>ExecOnMain\<close>: called by a task it switches to the main fiber, which makes the task the current
  one again, invokes the event and switches back.
\<close>

definition ExecOnMain :: "('x task_manager \<Rightarrow> 'x task_manager) \<Rightarrow> 'x task_manager \<Rightarrow> 'x task_manager" where
  "ExecOnMain e m = (if m_current m = None then e m else e (m\<lparr>m_noSignal := True\<rparr>))"

definition ScheduleMain :: "'x simulator \<Rightarrow> time \<Rightarrow> action \<Rightarrow> 'x task_manager \<Rightarrow> 'x task_manager" where
  "ScheduleMain S d a m = ExecOnMain (\<lambda>m. m\<lparr>sim := snd (Sched S d a (sim m))\<rparr>) m"

definition GetNoSignal :: "'x task_manager \<Rightarrow> bool \<times> 'x task_manager" where
  "GetNoSignal m = (m_noSignal m, m\<lparr>m_noSignal := False\<rparr>)"

definition EnterHiTask :: "task \<Rightarrow> 'x task_manager \<Rightarrow> 'x task_manager option" where
  "EnterHiTask t m = (if m_hightask m = None then Some (m\<lparr>m_hightask := Some t\<rparr>) else None)"

definition LeaveHiTask :: "task \<Rightarrow> 'x task_manager \<Rightarrow> 'x task_manager option" where
  "LeaveHiTask t m = (if m_hightask m = Some t then Some (m\<lparr>m_hightask := None\<rparr>) else None)"

definition CurrentTask :: "'x task_manager \<Rightarrow> task option" where
  "CurrentTask m = (if m_hightask m \<noteq> None then m_hightask m else m_current m)"

end
