(* ===== verification/Task_Invariant.thy ===== *)
theory Task_Invariant
  imports Task_Manager
begin

text \<open>
  What holds of the task manager between two operations, whatever the tasks, the ns-3 events and
  the other programs of the node do: the scheduler's queue holds exactly the active tasks, at most
  one task runs, no task that could run is forgotten, and every timed sleep has its timer.
\<close>

section \<open>The simulator's laws\<close>

lemma simulator_okD:
  assumes "simulator_ok S pend used"
  shows "\<forall>x. dom (pend x) \<subseteq> used x"
    and "\<forall>d a x. 0 \<le> d \<longrightarrow> (\<exists>i x'. Sched S d a x = (i, x') \<and> i \<notin> used x
          \<and> used x' = insert i (used x) \<and> pend x' = (pend x)(i \<mapsto> (Now S x + d, a)) \<and> Now S x' = Now S x)"
    and "\<forall>a x x'. Fire S x = Some (a, x') \<longrightarrow> (\<exists>i t. pend x i = Some (t, a)
          \<and> pend x' = (pend x)(i := None) \<and> used x' = used x \<and> Now S x' = t
          \<and> (\<forall>j u b. pend x j = Some (u, b) \<longrightarrow> t \<le> u))"
  using assms unfolding simulator_ok_def by - (elim conjE, assumption)+

lemma sim_sched:
  assumes "simulator_ok S pend used" and "0 \<le> d"
  obtains i x' where "Sched S d a x = (i, x')" and "i \<notin> used x" and "used x' = insert i (used x)"
    and "pend x' = (pend x)(i \<mapsto> (Now S x + d, a))" and "Now S x' = Now S x" and "pend x i = None"
proof -
  obtain i x' where r: "Sched S d a x = (i, x')" "i \<notin> used x" "used x' = insert i (used x)"
    "pend x' = (pend x)(i \<mapsto> (Now S x + d, a))" "Now S x' = Now S x"
    using simulator_okD(2) [OF assms(1), rule_format, OF assms(2), of a x] by (elim exE conjE) (rule that)
  have "dom (pend x) \<subseteq> used x" using simulator_okD(1) [OF assms(1)] by simp
  with r(2) have "pend x i = None" using domIff [of i "pend x"] by blast
  with that r show ?thesis by simp
qed

lemma sim_cancel:
  "simulator_ok S pend used \<Longrightarrow> pend (Cancel S i x) = (pend x)(i := None)"
  "simulator_ok S pend used \<Longrightarrow> used (Cancel S i x) = used x"
  "simulator_ok S pend used \<Longrightarrow> Now S (Cancel S i x) = Now S x"
  unfolding simulator_ok_def by blast+

lemma sim_pending: "simulator_ok S pend used \<Longrightarrow> IsPending S i x = (pend x i \<noteq> None)"
  unfolding simulator_ok_def by blast

lemma sim_fire:
  assumes "simulator_ok S pend used" and "Fire S x = Some (a, x')"
  obtains i t where "pend x i = Some (t, a)" and "pend x' = (pend x)(i := None)"
    and "used x' = used x" and "Now S x' = t" and "\<forall>j u b. pend x j = Some (u, b) \<longrightarrow> t \<le> u"
proof -
  from simulator_okD(3) [OF assms(1), rule_format, OF assms(2)]
  show ?thesis by (elim exE conjE) (rule that)
qed

lemma sim_cancel_timer:
  assumes "simulator_ok S pend used"
  shows "pend (cancel_timer S k x) = (case m_waitTimer k of None \<Rightarrow> pend x | Some i \<Rightarrow> (pend x)(i := None))"
    and "used (cancel_timer S k x) = used x" and "Now S (cancel_timer S k x) = Now S x"
  using sim_cancel [OF assms] by (simp_all add: cancel_timer_def split: option.splits)

section \<open>The invariant\<close>

definition state_of :: "(task \<rightharpoonup> task_t) \<Rightarrow> task \<Rightarrow> state option" where
  "state_of ts t = map_option m_state (ts t)"

lemma state_of_upd [simp]: "state_of (ts(t := v)) u = (if u = t then map_option m_state v else state_of ts u)"
  by (simp add: state_of_def)

lemma state_of_Some: "ts t = Some k \<Longrightarrow> state_of ts t = Some (m_state k)"
  by (simp add: state_of_def)

text \<open>
  Every timer that runs is the timer of a task that sleeps, or has been woken and not yet resumed,
  and it ends when that sleep ends; every task blocked in a timed sleep has one.
\<close>

definition timers_ok ::
  "(task \<rightharpoonup> task_t) \<Rightarrow> (event_id \<rightharpoonup> time \<times> action) \<Rightarrow> event_id set \<Rightarrow> bool" where
  "timers_ok ts p u \<longleftrightarrow>
     (\<forall>i w t. p i = Some (w, Do_EndWait t) \<longrightarrow> (\<exists>k d. ts t = Some k \<and> m_waitTimer k = Some i
        \<and> m_fiber k = In_Sleep_timeout w d \<and> m_state k \<noteq> RUNNING))
     \<and> (\<forall>t k e d. ts t = Some k \<and> m_state k = BLOCKED \<and> m_fiber k = In_Sleep_timeout e d \<and> d \<noteq> 0
          \<longrightarrow> (\<exists>i. m_waitTimer k = Some i \<and> p i = Some (e, Do_EndWait t)))
     \<and> (\<forall>t k i. ts t = Some k \<and> m_waitTimer k = Some i \<longrightarrow> i \<in> u
          \<and> (\<forall>w a. p i = Some (w, a) \<longrightarrow> a = Do_EndWait t))"

text \<open>While no task runs and one could, an event that will schedule it is posted.\<close>

definition wake_ok ::
  "(event_id \<rightharpoonup> time \<times> action) \<Rightarrow> event_id set \<Rightarrow> task list \<Rightarrow> task option \<Rightarrow> event_id option \<Rightarrow> bool" where
  "wake_ok p u act cur nxt \<longleftrightarrow>
     (cur = None \<and> act \<noteq> [] \<longrightarrow> (\<exists>i w. p i = Some (w, Do_Schedule)))
     \<and> (\<forall>i. nxt = Some i \<longrightarrow> i \<in> u \<and> (\<forall>w a. p i = Some (w, a) \<longrightarrow> a = Do_Schedule))"

definition queue_ok :: "(task \<rightharpoonup> task_t) \<Rightarrow> task list \<Rightarrow> task option \<Rightarrow> task \<Rightarrow> bool" where
  "queue_ok ts act cur new \<longleftrightarrow>
     distinct act
     \<and> (\<forall>t. t \<in> set act \<longleftrightarrow> state_of ts t = Some ACTIVE)
     \<and> (\<forall>t. cur = Some t \<longleftrightarrow> state_of ts t = Some RUNNING)
     \<and> (\<forall>t. state_of ts t \<noteq> Some DEAD)
     \<and> (\<forall>t \<ge> new. ts t = None)"

definition settled :: "'x task_manager \<Rightarrow> bool" where
  "settled m \<longleftrightarrow> m_waitQueue m = [] \<and> m_deadTasks m = [] \<and> \<not> m_reSchedule m \<and> 0 \<le> time_left m"

abbreviation active :: "'x task_manager \<Rightarrow> task list" where
  "active m \<equiv> m_active (m_scheduler m)"

definition tm_inv ::
  "('x \<Rightarrow> event_id \<rightharpoonup> time \<times> action) \<Rightarrow> ('x \<Rightarrow> event_id set) \<Rightarrow> 'x task_manager \<Rightarrow> bool" where
  "tm_inv pend used m \<longleftrightarrow>
     queue_ok (tasks m) (active m) (m_current m) (new_task m) \<and> settled m
     \<and> wake_ok (pend (sim m)) (used (sim m)) (active m) (m_current m) (m_nextSchedule m)
     \<and> timers_ok (tasks m) (pend (sim m)) (used (sim m))"

section \<open>The timers\<close>

lemma timersD:
  assumes "timers_ok ts p u"
  shows "p i = Some (w, Do_EndWait t) \<Longrightarrow> \<exists>k d. ts t = Some k \<and> m_waitTimer k = Some i
        \<and> m_fiber k = In_Sleep_timeout w d \<and> m_state k \<noteq> RUNNING"
    and "ts t = Some k \<Longrightarrow> m_state k = BLOCKED \<Longrightarrow> m_fiber k = In_Sleep_timeout e d \<Longrightarrow> d \<noteq> 0 \<Longrightarrow>
        \<exists>i. m_waitTimer k = Some i \<and> p i = Some (e, Do_EndWait t)"
    and "ts t = Some k \<Longrightarrow> m_waitTimer k = Some i \<Longrightarrow> i \<in> u"
    and "ts t = Some k \<Longrightarrow> m_waitTimer k = Some i \<Longrightarrow> p i = Some (w, a) \<Longrightarrow> a = Do_EndWait t"
  using assms unfolding timers_ok_def by blast+

lemma timers_set:
  assumes ok: "timers_ok ts p u" and no: "\<forall>i w. p i \<noteq> Some (w, Do_EndWait t)"
    and tm: "\<forall>i. m_waitTimer k = Some i \<longrightarrow> i \<in> u \<and> (\<forall>w a. p i = Some (w, a) \<longrightarrow> a = Do_EndWait t)"
    and st: "\<not> (m_state k = BLOCKED \<and> (\<exists>e d. m_fiber k = In_Sleep_timeout e d \<and> d \<noteq> 0))"
  shows "timers_ok (ts(t \<mapsto> k)) p u"
  unfolding timers_ok_def
proof (intro conjI allI impI, goal_cases)
  case (1 i w t')
  with no have "t' \<noteq> t" by auto
  with timersD(1) [OF ok 1] show ?case by simp
next
  case (2 t' k' e d)
  with st have "t' \<noteq> t" by (auto split: if_splits)
  with 2 timersD(2) [OF ok, of t' k' e d] show ?case by simp
next
  case (3 t' k' i)
  with tm timersD(3) [OF ok, of t' k' i] show ?case by (auto split: if_splits)
next
  case (4 t' k' i w a)
  with tm timersD(4) [OF ok, of t' k' i] show ?case by (auto split: if_splits)
qed

lemma timers_no_timer:
  assumes ok: "timers_ok ts p u" and k: "ts t = Some k"
    and r: "m_state k = RUNNING \<or> (\<forall>e d. m_fiber k \<noteq> In_Sleep_timeout e d)"
  shows "p i \<noteq> Some (w, Do_EndWait t)"
  using timersD(1) [OF ok, of i w t] k r by auto

text \<open>A running task changes its state: to another that is not a timed sleep.\<close>

lemma timers_running:
  assumes ok: "timers_ok ts p u" and k: "ts t = Some k" "m_state k = RUNNING"
    and k': "m_waitTimer k' = m_waitTimer k"
    and st: "\<not> (m_state k' = BLOCKED \<and> (\<exists>e d. m_fiber k' = In_Sleep_timeout e d \<and> d \<noteq> 0))"
  shows "timers_ok (ts(t \<mapsto> k')) p u"
  using timers_no_timer [OF ok k(1)] timersD(3,4) [OF ok k(1)] k k' st by (intro timers_set [OF ok]) auto

lemma timers_wake:
  assumes ok: "timers_ok ts p u" and k: "ts t = Some k"
  shows "timers_ok (ts(t \<mapsto> k\<lparr>m_state := ACTIVE\<rparr>)) p u"
  unfolding timers_ok_def
proof (intro conjI allI impI, goal_cases)
  case (1 i w t')
  with timersD(1) [OF ok 1] k show ?case by auto
next
  case (2 t' k' e d)
  with timersD(2) [OF ok, of t' k' e d] show ?case by (auto split: if_splits)
next
  case (3 t' k' i)
  with k timersD(3) [OF ok, of t' _ i] show ?case by (auto split: if_splits)
next
  case (4 t' k' i w a)
  with k timersD(4) [OF ok, of t' _ i] show ?case by (auto split: if_splits)
qed

text \<open>What the timers do not depend on may change.\<close>

lemma timers_relabel:
  assumes ok: "timers_ok ts p u" and k: "ts t = Some k"
    and k': "m_waitTimer k' = m_waitTimer k" "m_fiber k' = m_fiber k" "m_state k' = m_state k"
  shows "timers_ok (ts(t \<mapsto> k')) p u"
  unfolding timers_ok_def
proof (intro conjI allI impI, goal_cases)
  case (1 i w t')
  with timersD(1) [OF ok 1] k k' show ?case by auto
next
  case (2 t' k'' e d)
  with k k' timersD(2) [OF ok, of t' _ e d] show ?case by (auto split: if_splits)
next
  case (3 t' k'' i)
  with k k' timersD(3) [OF ok, of t' _ i] show ?case by (auto split: if_splits)
next
  case (4 t' k'' i w a)
  with k k' timersD(4) [OF ok, of t' _ i] show ?case by (auto split: if_splits)
qed

text \<open>Cancelling the timer of a task ends its claim on it.\<close>

definition cancelled :: "task_t \<Rightarrow> (event_id \<rightharpoonup> time \<times> action) \<Rightarrow> (event_id \<rightharpoonup> time \<times> action)" where
  "cancelled k p = (case m_waitTimer k of None \<Rightarrow> p | Some i \<Rightarrow> p(i := None))"

lemma cancelled_None: "p j = None \<Longrightarrow> cancelled k p j = None"
  by (simp add: cancelled_def split: option.splits)

lemma cancelled_Some: "cancelled k p j = Some v \<longleftrightarrow> p j = Some v \<and> m_waitTimer k \<noteq> Some j"
  by (auto simp: cancelled_def split: option.splits)

lemma timers_cancel:
  assumes ok: "timers_ok ts p u" and k: "ts t = Some k"
    and k': "\<forall>k'. v = Some k' \<longrightarrow> m_waitTimer k' = m_waitTimer k
      \<and> \<not> (m_state k' = BLOCKED \<and> (\<exists>e d. m_fiber k' = In_Sleep_timeout e d \<and> d \<noteq> 0))"
  shows "timers_ok (ts(t := v)) (cancelled k p) u"
  unfolding timers_ok_def
proof (intro conjI allI impI, goal_cases)
  case (1 i w t')
  then have p: "p i = Some (w, Do_EndWait t')" and ni: "m_waitTimer k \<noteq> Some i"
    by (auto simp: cancelled_Some)
  with timersD(1) [OF ok p] k have "t' \<noteq> t" by auto
  with timersD(1) [OF ok p] show ?case by simp
next
  case (2 t' k' e d)
  then have ne: "t' \<noteq> t" using assms(3) by (auto split: if_splits)
  with 2 have "\<exists>i. m_waitTimer k' = Some i \<and> p i = Some (e, Do_EndWait t')"
    by (intro timersD(2) [OF ok]) auto
  then obtain i where i: "m_waitTimer k' = Some i" "p i = Some (e, Do_EndWait t')" by blast
  with timersD(4) [OF ok k] ne have "m_waitTimer k \<noteq> Some i" by blast
  with i show ?case by (auto simp: cancelled_Some)
next
  case (3 t' k' i)
  with k k' timersD(3) [OF ok, of t' _ i] show ?case by (auto split: if_splits)
next
  case (4 t' k' i w a)
  with k k' timersD(4) [OF ok, of t' _ i] show ?case by (auto simp: cancelled_Some split: if_splits)
qed

lemma timers_sched:
  assumes ok: "timers_ok ts p u" and i: "i \<notin> u" and a: "\<forall>t. a \<noteq> Do_EndWait t"
  shows "timers_ok ts (p(i \<mapsto> (w, a))) (insert i u)"
  unfolding timers_ok_def
proof (intro conjI allI impI, goal_cases)
  case (1 j v t')
  with a have "p j = Some (v, Do_EndWait t')" by (auto split: if_splits)
  with timersD(1) [OF ok this] show ?case by simp
next
  case (2 t' k' e d)
  then obtain j where "m_waitTimer k' = Some j" "p j = Some (e, Do_EndWait t')"
    using timersD(2) [OF ok] by blast
  moreover from this 2 i have "j \<noteq> i" using timersD(3) [OF ok] by blast
  ultimately show ?case by auto
next
  case (3 t' k' j)
  with timersD(3) [OF ok, of t' k' j] show ?case by auto
next
  case (4 t' k' j w' a')
  with timersD(3,4) [OF ok, of t' k' j] i show ?case by (auto split: if_splits)
qed

text \<open>An event of another kind has fired.\<close>

lemma timers_fired:
  assumes ok: "timers_ok ts p u" and p: "p i = Some (w, a)" and a: "\<forall>t. a \<noteq> Do_EndWait t"
  shows "timers_ok ts (p(i := None)) u"
  unfolding timers_ok_def
proof (intro conjI allI impI, goal_cases)
  case (1 j v t')
  then have "p j = Some (v, Do_EndWait t')" by (auto split: if_splits)
  with timersD(1) [OF ok this] show ?case by simp
next
  case (2 t' k' e d)
  then obtain j where "m_waitTimer k' = Some j" "p j = Some (e, Do_EndWait t')"
    using timersD(2) [OF ok] by blast
  with p a show ?case by auto
next
  case (3 t' k' j)
  with timersD(3) [OF ok, of t' k' j] show ?case by auto
next
  case (4 t' k' j w' a')
  with timersD(4) [OF ok, of t' k' j] show ?case by (auto split: if_splits)
qed

text \<open>A new timed sleep: its timer is posted under a fresh identifier.\<close>

lemma timers_new:
  assumes ok: "timers_ok ts p u" and i: "i \<notin> u" and k: "ts t = Some k" "m_state k = RUNNING"
  shows "timers_ok (ts(t \<mapsto> k\<lparr>m_state := BLOCKED, m_fiber := In_Sleep_timeout e d, m_waitTimer := Some i\<rparr>))
    (p(i \<mapsto> (e, Do_EndWait t))) (insert i u)"
  unfolding timers_ok_def
proof (intro conjI allI impI, goal_cases)
  case (1 j v t')
  then show ?case using timersD(1) [OF ok, of j v t'] timers_no_timer [OF ok k(1), of j v] k
    by (cases "j = i") (auto split: if_splits)
next
  case (2 t' k' e' d')
  show ?case
  proof (cases "t' = t")
    case True
    with 2 show ?thesis by auto
  next
    case False
    with 2 obtain j where "m_waitTimer k' = Some j" "p j = Some (e', Do_EndWait t')"
      using timersD(2) [OF ok, of t' k' e' d'] by auto
    moreover from this 2 i False have "j \<noteq> i" using timersD(3) [OF ok, of t' k' j] by auto
    ultimately show ?thesis by auto
  qed
next
  case (3 t' k' j)
  with timersD(3) [OF ok, of t' k' j] show ?case by (auto split: if_splits)
next
  case (4 t' k' j w' a')
  with timersD(3,4) [OF ok, of t' k' j] i show ?case by (auto split: if_splits)
qed

section \<open>The queue and the running task\<close>

lemma queueD:
  assumes "queue_ok ts act cur new"
  shows "distinct act" and "t \<in> set act \<longleftrightarrow> state_of ts t = Some ACTIVE"
    and "cur = Some t \<longleftrightarrow> state_of ts t = Some RUNNING" and "state_of ts t \<noteq> Some DEAD"
    and "new \<le> t \<Longrightarrow> ts t = None"
  using assms by (simp_all add: queue_ok_def)

lemma queue_running: "queue_ok ts act (Some t) new \<Longrightarrow> \<exists>k. ts t = Some k \<and> m_state k = RUNNING"
  using queueD(3) [of ts act "Some t" new t] by (auto simp: state_of_def)

text \<open>One task changes; the queue and the running task change with it.\<close>

lemma queue_set:
  assumes q: "queue_ok ts act cur new" and t: "t < new \<or> v = None" and "distinct act'"
    and a: "\<forall>u. u \<in> set act' \<longleftrightarrow> (if u = t then map_option m_state v = Some ACTIVE else u \<in> set act)"
    and r: "\<forall>u. cur' = Some u \<longleftrightarrow> (if u = t then map_option m_state v = Some RUNNING else cur = Some u)"
    and "map_option m_state v \<noteq> Some DEAD"
  shows "queue_ok (ts(t := v)) act' cur' new"
  unfolding queue_ok_def state_of_upd
  using assms(2,3,6) queueD(2-5) [OF q] a r by auto

lemma queue_member: "queue_ok ts act cur new \<Longrightarrow> ts t = Some k \<Longrightarrow> t < new"
  using queueD(5) [of ts act cur new t] by (cases "t < new") auto

lemma queue_states:
  assumes "queue_ok ts act cur new" and "ts t = Some k"
  shows "t \<in> set act \<longleftrightarrow> m_state k = ACTIVE" and "cur = Some t \<longleftrightarrow> m_state k = RUNNING"
    and "m_state k \<noteq> DEAD"
  using queueD(2,3,4) [OF assms(1), of t] state_of_Some [of ts, OF assms(2)] by auto

lemma queue_wake:
  assumes q: "queue_ok ts act cur new" and k: "ts t = Some k" "m_state k = BLOCKED"
  shows "queue_ok (ts(t \<mapsto> k\<lparr>m_state := ACTIVE\<rparr>)) (act @ [t]) cur new"
  using queue_states [OF q k(1)] k queue_member [OF q k(1)] queueD(1) [OF q]
  by (intro queue_set [OF q]) auto

text \<open>The running task leaves for another state, at the end of the queue if that is \<open>ACTIVE\<close>.\<close>

lemma queue_leave:
  assumes q: "queue_ok ts act (Some t) new" and k': "m_state k' = BLOCKED"
  shows "queue_ok (ts(t \<mapsto> k')) act None new"
proof -
  obtain k where k: "ts t = Some k" "m_state k = RUNNING" using queue_running [OF q] by blast
  show ?thesis
    using queue_states [OF q k(1)] k k' queue_member [OF q k(1)] queueD(1) [OF q]
    by (intro queue_set [OF q]) auto
qed

lemma queue_yield:
  assumes q: "queue_ok ts act (Some t) new" and k': "m_state k' = ACTIVE"
  shows "queue_ok (ts(t \<mapsto> k')) (act @ [t]) None new"
proof -
  obtain k where k: "ts t = Some k" "m_state k = RUNNING" using queue_running [OF q] by blast
  show ?thesis
    using queue_states [OF q k(1)] k k' queue_member [OF q k(1)] queueD(1) [OF q]
    by (intro queue_set [OF q]) auto
qed

lemma queue_delete:
  assumes q: "queue_ok ts act cur new"
  shows "queue_ok (ts(t := None)) (filter (\<lambda>u. u \<noteq> t) act) (if cur = Some t then None else cur) new"
  using queueD(1) [OF q] by (intro queue_set [OF q]) auto

lemma queue_dispatch:
  assumes q: "queue_ok ts (t # act) None new" and k': "m_state k' = RUNNING"
  shows "queue_ok (ts(t \<mapsto> k')) act (Some t) new"
proof -
  have "state_of ts t = Some ACTIVE" using queueD(2) [OF q, of t] by simp
  then obtain k where k: "ts t = Some k" "m_state k = ACTIVE" by (auto simp: state_of_def)
  show ?thesis
    using queue_states [OF q k(1)] k k' queue_member [OF q k(1)] queueD(1) [OF q]
    by (intro queue_set [OF q]) auto
qed

lemma queue_new:
  assumes q: "queue_ok ts act cur new" and k: "m_state k = BLOCKED"
  shows "queue_ok (ts(new \<mapsto> k)) act cur (new + 1)"
proof -
  have "queue_ok ts act cur (new + 1)" using q unfolding queue_ok_def by simp
  moreover have "ts new = None" using queueD(5) [OF q, of new] by simp
  then have "new \<notin> set act" "cur \<noteq> Some new" using queueD(2,3) [OF q, of new] by (auto simp: state_of_def)
  ultimately show ?thesis using k queueD(1) [OF q] by (intro queue_set) auto
qed

lemma queue_same:
  assumes q: "queue_ok ts act cur new" and k: "ts t = Some k" and "m_state k' = m_state k"
  shows "queue_ok (ts(t \<mapsto> k')) act cur new"
  using queue_states [OF q k] assms(3) queue_member [OF q k] queueD(1) [OF q]
  by (intro queue_set [OF q]) auto

end
