(* ===== verification/Task_Steps.thy ===== *)
theory Task_Steps
  imports Task_Invariant
begin

text \<open>
  The operations of the task manager keep its invariant: the step relation \<open>tm_step\<close> lets the
  running task, the main fiber and the simulator call them in any order.
\<close>

section \<open>Wakeup\<close>

lemma wake_okD:
  assumes "wake_ok p u act cur nxt"
  shows "cur = None \<Longrightarrow> act \<noteq> [] \<Longrightarrow> \<exists>i w. p i = Some (w, Do_Schedule)"
    and "nxt = Some i \<Longrightarrow> i \<in> u" and "nxt = Some i \<Longrightarrow> p i = Some (w, a) \<Longrightarrow> a = Do_Schedule"
  using assms unfolding wake_ok_def by blast+

lemma wake_ok_running: "wake_ok p u act cur nxt \<Longrightarrow> cur' \<noteq> None \<Longrightarrow> wake_ok p u act' cur' nxt"
  by (auto simp: wake_ok_def)

text \<open>After an event to schedule has been posted, whoever waits is served.\<close>

lemma wake_ok_posted:
  assumes "wake_ok p u act cur nxt" and "i \<notin> u"
  shows "wake_ok (p(i \<mapsto> (w, Do_Schedule))) (insert i u) act' cur' nxt"
    and "wake_ok (p(i \<mapsto> (w, Do_Schedule))) (insert i u) act' cur' (Some i)"
  using wake_okD(2,3) [OF assms(1)] assms(2) by (auto simp: wake_ok_def)

lemma wake_ok_fresh:
  assumes w: "wake_ok p u act cur nxt" and i: "i \<notin> u" "p i = None"
  shows "wake_ok (p(i \<mapsto> (v, a))) (insert i u) act cur nxt"
proof -
  have "\<exists>j w. (p(i \<mapsto> (v, a))) j = Some (w, Do_Schedule)" if c: "cur = None" "act \<noteq> []"
  proof -
    obtain j w where "p j = Some (w, Do_Schedule)" using wake_okD(1) [OF w c] by blast
    with i(2) have "(p(i \<mapsto> (v, a))) j = Some (w, Do_Schedule)" by auto
    then show ?thesis by blast
  qed
  moreover have "j \<in> insert i u \<and> (\<forall>w b. (p(i \<mapsto> (v, a))) j = Some (w, b) \<longrightarrow> b = Do_Schedule)"
    if "nxt = Some j" for j
    using wake_okD(2,3) [OF w that] i(1) by auto
  ultimately show ?thesis unfolding wake_ok_def by blast
qed

lemma Wakeup_blocked:
  assumes S: "simulator_ok S pend used" and k: "tasks m t = Some k" "m_state k = BLOCKED"
    and q: "queue_ok (tasks m) (active m) (m_current m) (new_task m)" and st: "settled m"
    and w: "wake_ok (pend (sim m)) (used (sim m)) (active m) (m_current m) (m_nextSchedule m)"
    and tm: "timers_ok ((tasks m)(t \<mapsto> k\<lparr>m_state := ACTIVE\<rparr>)) (pend (sim m)) (used (sim m))"
  shows "\<exists>m'. Wakeup S t m = Some m' \<and> tm_inv pend used m' \<and> tasks m' = (tasks m)(t \<mapsto> k\<lparr>m_state := ACTIVE\<rparr>)
    \<and> active m' = active m @ [t] \<and> m_current m' = m_current m \<and> Now S (sim m') = Now S (sim m)"
proof -
  have act: "m_active (rr_Enqueue t q) = m_active q @ [t]" for q by (simp add: rr_Enqueue_def)
  note q' = queue_wake [OF q k]
  obtain i x' where sch: "Sched S 0 Do_Schedule (sim m) = (i, x')" "i \<notin> used (sim m)"
    "used x' = insert i (used (sim m))"
    "pend x' = (pend (sim m))(i \<mapsto> (Now S (sim m) + 0, Do_Schedule))" "Now S x' = Now S (sim m)"
    by (rule sim_sched [OF S order_refl])
  show ?thesis
  proof (cases "m_current m = None \<and>
      (case m_nextSchedule m of None \<Rightarrow> True | Some i \<Rightarrow> \<not> IsPending S i (sim m))")
    case True
    have "timers_ok ((tasks m)(t \<mapsto> k\<lparr>m_state := ACTIVE\<rparr>)) (pend x') (used x')"
      using timers_sched [OF tm sch(2)] sch by simp
    moreover have "wake_ok (pend x') (used x') (active m @ [t]) (m_current m) (Some i)"
      using wake_ok_posted(2) [OF w sch(2)] sch by simp
    ultimately show ?thesis
      using True q' st k by (simp add: Wakeup_def Let_def sch act tm_inv_def settled_def del: fun_upd_apply)
  next
    case False
    have "wake_ok (pend (sim m)) (used (sim m)) (active m @ [t]) (m_current m) (m_nextSchedule m)"
    proof (cases "m_current m")
      case None
      with False obtain i where i: "m_nextSchedule m = Some i" "IsPending S i (sim m)"
        by (auto split: option.splits)
      then obtain w a where "pend (sim m) i = Some (w, a)" by (auto simp: sim_pending [OF S])
      with wake_okD(3) [OF w i(1)] have "\<exists>i w. pend (sim m) i = Some (w, Do_Schedule)" by blast
      with w show ?thesis unfolding wake_ok_def by blast
    qed (use w in \<open>simp add: wake_ok_def\<close>)
    moreover have "Wakeup S t m = Some (m\<lparr>tasks := (tasks m)(t \<mapsto> k\<lparr>m_state := ACTIVE\<rparr>),
        m_scheduler := rr_Enqueue t (m_scheduler m)\<rparr>)"
      using k by (simp add: Wakeup_def Let_def if_not_P [OF False])
    ultimately show ?thesis
      using q' st tm by (simp add: act tm_inv_def settled_def del: fun_upd_apply)
  qed
qed

lemma tm_invD:
  assumes "tm_inv pend used m"
  shows "queue_ok (tasks m) (active m) (m_current m) (new_task m)" and "settled m"
    and "wake_ok (pend (sim m)) (used (sim m)) (active m) (m_current m) (m_nextSchedule m)"
    and "timers_ok (tasks m) (pend (sim m)) (used (sim m))"
  using assms by (simp_all add: tm_inv_def)

lemma Wakeup_awake:
  "tasks m t = Some k \<Longrightarrow> m_state k = ACTIVE \<or> m_state k = RUNNING \<Longrightarrow> Wakeup S t m = Some m"
  by (auto simp: Wakeup_def)

lemma Wakeup_inv:
  assumes S: "simulator_ok S pend used" and inv: "tm_inv pend used m" and k: "tasks m t = Some k"
  shows "\<exists>m'. Wakeup S t m = Some m' \<and> tm_inv pend used m' \<and> m_current m' = m_current m
    \<and> (\<exists>k'. tasks m' t = Some k' \<and> m_state k' \<noteq> BLOCKED) \<and> Now S (sim m') = Now S (sim m)
    \<and> active m' = active m @ (if m_state k = BLOCKED then [t] else [])
    \<and> (\<forall>u. u \<noteq> t \<longrightarrow> tasks m' u = tasks m u)"
proof (cases "m_state k = BLOCKED")
  case True
  have "timers_ok ((tasks m)(t \<mapsto> k\<lparr>m_state := ACTIVE\<rparr>)) (pend (sim m)) (used (sim m))"
    by (rule timers_wake [OF tm_invD(4) [OF inv] k])
  from Wakeup_blocked [OF S k True tm_invD(1-3) [OF inv] this] True show ?thesis by auto
next
  case False
  with queue_states(3) [OF tm_invD(1) [OF inv] k] have "m_state k = ACTIVE \<or> m_state k = RUNNING"
    by (cases "m_state k") auto
  with Wakeup_awake [OF k this] inv k False show ?thesis by auto
qed

section \<open>New tasks, and tasks that are stopped\<close>

lemma Start_inv:
  assumes S: "simulator_ok S pend used" and inv: "tm_inv pend used m"
  shows "\<exists>m'. tm_Start S m = Some (new_task m, m') \<and> tm_inv pend used m' \<and> active m' = active m @ [new_task m]"
proof -
  let ?k = "blocked_task At_start"
  let ?m = "m\<lparr>tasks := (tasks m)(new_task m \<mapsto> ?k), new_task := new_task m + 1\<rparr>"
  note q = tm_invD(1) [OF inv]
  have none: "tasks m (new_task m) = None" using queueD(5) [OF q] by simp
  have no: "\<forall>i w. pend (sim m) i \<noteq> Some (w, Do_EndWait (new_task m))"
    using timersD(1) [OF tm_invD(4) [OF inv]] none by fastforce
  have "timers_ok ((tasks m)(new_task m \<mapsto> ?k\<lparr>m_state := ACTIVE\<rparr>)) (pend (sim m)) (used (sim m))"
    by (rule timers_set [OF tm_invD(4) [OF inv] no]) (simp_all add: blocked_task_def)
  then obtain m' where "Wakeup S (new_task m) ?m = Some m' \<and> tm_inv pend used m' \<and> active m' = active ?m @ [new_task m]"
    using Wakeup_blocked [OF S, of ?m "new_task m" ?k] queue_new [OF q, of ?k] tm_invD(2,3) [OF inv]
    by (auto simp: settled_def blocked_task_def)
  then show ?thesis by (simp add: tm_Start_def Let_def)
qed

lemma tm_Clone_Start: "tasks m u = Some k \<Longrightarrow> tm_Clone S u m = tm_Start S m"
  by (simp add: tm_Clone_def tm_Start_def)

lemma Stop_inv:
  assumes S: "simulator_ok S pend used" and inv: "tm_inv pend used m" and k: "tasks m t = Some k"
  shows "\<exists>m'. tm_Stop S t m = Some m' \<and> tm_inv pend used m' \<and> m_current m' = m_current m
    \<and> active m' = (if m_current m = Some t then active m else filter (\<lambda>u. u \<noteq> t) (active m))"
proof (cases "m_current m = Some t")
  case True
  with inv show ?thesis by (simp add: tm_Stop_def)
next
  case False
  note q = queue_delete [OF tm_invD(1) [OF inv], of t]
  have act: "m_active (rr_Dequeue t q) = filter (\<lambda>u. u \<noteq> t) (m_active q)" for q
    by (simp add: rr_Dequeue_def)
  have p: "pend (cancel_timer S k (sim m)) = cancelled k (pend (sim m))"
    by (simp add: sim_cancel_timer [OF S] cancelled_def)
  have "timers_ok ((tasks m)(t := None)) (cancelled k (pend (sim m))) (used (sim m))"
    by (rule timers_cancel [OF tm_invD(4) [OF inv] k]) simp
  moreover have "wake_ok (cancelled k (pend (sim m))) (used (sim m)) (filter (\<lambda>u. u \<noteq> t) (active m))
      (m_current m) (m_nextSchedule m)"
  proof -
    have "m_waitTimer k \<noteq> Some i" if "pend (sim m) i = Some (w, Do_Schedule)" for i w
      using timersD(4) [OF tm_invD(4) [OF inv] k, of i w Do_Schedule] that by auto
    with tm_invD(3) [OF inv] show ?thesis unfolding wake_ok_def cancelled_Some by (metis filter.simps(1))
  qed
  ultimately show ?thesis
    using False q k tm_invD(2) [OF inv]
    by (simp add: tm_Stop_def tm_inv_def act p settled_def sim_cancel_timer(2) [OF S])
qed

section \<open>Leaving a task\<close>

text \<open>The state after \<open>leave\<close> and the posting of the next schedule, as \<open>finish\<close> finds it.\<close>

definition departed ::
  "('x \<Rightarrow> event_id \<rightharpoonup> time \<times> action) \<Rightarrow> ('x \<Rightarrow> event_id set) \<Rightarrow> 'x simulator \<Rightarrow>
   'x task_manager \<Rightarrow> 'x task_manager \<Rightarrow> bool" where
  "departed pend used S m m' \<longleftrightarrow>
     tasks m' = tasks m \<and> m_scheduler m' = m_scheduler m \<and> m_current m' = None \<and> \<not> m_reSchedule m'
     \<and> m_waitQueue m' = m_waitQueue m \<and> m_deadTasks m' = m_deadTasks m \<and> new_task m' = new_task m
     \<and> m_nextSchedule m' = m_nextSchedule m \<and> Now S (sim m') = Now S (sim m) \<and> time_left m' = time_left m
     \<and> (if active m = [] then sim m' = sim m
        else \<exists>i w. i \<notin> used (sim m) \<and> used (sim m') = insert i (used (sim m))
               \<and> pend (sim m') = (pend (sim m))(i \<mapsto> (w, Do_Schedule)))"

lemma leave_departed:
  assumes S: "simulator_ok S pend used" and cur: "m_current m = Some t" and k: "tasks m t = Some k"
    and re: "\<not> m_reSchedule m"
  shows "\<exists>m'. departed pend used S m m' \<and> (leave delay m \<bind> after_switch S) = finish S m'"
proof (cases "active m = []")
  case True
  have "(leave delay m \<bind> after_switch S) = finish S ((notify FROM k m)\<lparr>m_current := None\<rparr>)"
    using True cur k re by (simp add: leave_def Let_def rr_PeekNext_def after_switch_def notify_def)
  moreover have "departed pend used S m ((notify FROM k m)\<lparr>m_current := None\<rparr>)"
    using True re by (simp add: departed_def notify_def)
  ultimately show ?thesis by blast
next
  case False
  define d where "d = (if delay > 0 then delay else 0)"
  obtain i x where sch: "Sched S d Do_Schedule (sim m) = (i, x)" "i \<notin> used (sim m)"
    "used x = insert i (used (sim m))"
    "pend x = (pend (sim m))(i \<mapsto> (Now S (sim m) + d, Do_Schedule))" "Now S x = Now S (sim m)"
    by (rule sim_sched [OF S, of d]) (simp add: d_def)
  let ?m1 = "m\<lparr>m_reSchedule := True, m_reScheduleTime := delay\<rparr>"
  let ?m' = "(notify FROM k ?m1)\<lparr>m_current := None, m_reSchedule := False, sim := x\<rparr>"
  have n: "m_reSchedule (notify FROM k ?m1) = True" "m_reScheduleTime (notify FROM k ?m1) = delay"
    "sim (notify FROM k ?m1) = sim m"
    by (simp_all add: notify_def)
  have "(leave delay m \<bind> after_switch S) = finish S ?m'"
    using False cur k n sch(1)
    by (cases "delay > 0") (simp_all add: leave_def Let_def rr_PeekNext_def after_switch_def d_def)
  moreover have "departed pend used S m ?m'"
    using False sch by (simp add: departed_def notify_def) blast
  ultimately show ?thesis by blast
qed

lemma departedD:
  assumes "departed pend used S m m'"
  shows "tasks m' = tasks m" and "m_scheduler m' = m_scheduler m" and "m_current m' = None"
    and "\<not> m_reSchedule m'" and "m_waitQueue m' = m_waitQueue m" and "m_deadTasks m' = m_deadTasks m"
    and "new_task m' = new_task m" and "m_nextSchedule m' = m_nextSchedule m"
    and "Now S (sim m') = Now S (sim m)" and "time_left m' = time_left m"
  using assms by (simp_all add: departed_def)

lemma departed_ok:
  assumes d: "departed pend used S m m'"
    and w: "wake_ok (pend (sim m)) (used (sim m)) act (Some t) (m_nextSchedule m)"
    and tm: "timers_ok ts (pend (sim m)) (used (sim m))"
  shows "wake_ok (pend (sim m')) (used (sim m')) (active m) None (m_nextSchedule m)"
    and "timers_ok ts (pend (sim m')) (used (sim m'))"
proof -
  consider "active m = []" "sim m' = sim m"
    | i v where "i \<notin> used (sim m)" "used (sim m') = insert i (used (sim m))"
        "pend (sim m') = (pend (sim m))(i \<mapsto> (v, Do_Schedule))"
    using d unfolding departed_def by (cases "active m = []") auto
  then have "wake_ok (pend (sim m')) (used (sim m')) (active m) None (m_nextSchedule m)
      \<and> timers_ok ts (pend (sim m')) (used (sim m'))"
  proof cases
    case 1
    with w tm show ?thesis by (simp add: wake_ok_def)
  next
    case 2
    show ?thesis using wake_ok_posted(1) [OF w 2(1)] timers_sched [OF tm 2(1)] 2 by simp
  qed
  then show "wake_ok (pend (sim m')) (used (sim m')) (active m) None (m_nextSchedule m)"
    and "timers_ok ts (pend (sim m')) (used (sim m'))" by auto
qed

lemma finish_settled: "m_waitQueue m = [] \<Longrightarrow> m_deadTasks m = [] \<Longrightarrow> finish S m = Some (m\<lparr>m_waitQueue := [], m_deadTasks := []\<rparr>)"
  by (simp add: finish_def)

lemma running_taskE:
  assumes "tm_inv pend used m" and "m_current m = Some t"
  obtains k where "tasks m t = Some k" and "m_state k = RUNNING" and "running_task m = Some (t, k)"
  using queue_running [of "tasks m" "active m" t "new_task m"] assms
  by (auto simp: tm_inv_def running_task_def)

text \<open>A task leaves without a timer: to sleep until it is woken, or to the end of the queue.\<close>

lemma leave_inv:
  assumes S: "simulator_ok S pend used" and inv: "tm_inv pend used m" and cur: "m_current m = Some t"
    and k: "tasks m t = Some k" "m_state k = RUNNING"
    and m1: "m1 = m\<lparr>tasks := (tasks m)(t \<mapsto> k'), m_scheduler := q\<rparr>"
    and k': "m_waitTimer k' = m_waitTimer k" "\<not> (m_state k' = BLOCKED \<and> (\<exists>e d. m_fiber k' = In_Sleep_timeout e d \<and> d \<noteq> 0))"
    and q: "queue_ok ((tasks m)(t \<mapsto> k')) (m_active q) None (new_task m)"
  shows "\<exists>m'. (leave delay m1 \<bind> after_switch S) = Some m' \<and> tm_inv pend used m' \<and> m_current m' = None
    \<and> tasks m' = (tasks m)(t \<mapsto> k') \<and> active m' = m_active q \<and> Now S (sim m') = Now S (sim m)
    \<and> (\<forall>i w u. pend (sim m') i = Some (w, Do_EndWait u) \<longrightarrow> pend (sim m) i = Some (w, Do_EndWait u))"
proof -
  have st: "\<not> m_reSchedule m1" "m_waitQueue m1 = []" "m_deadTasks m1 = []" "0 \<le> time_left m1"
    using tm_invD(2) [OF inv] by (simp_all add: settled_def m1)
  obtain m2 where d: "departed pend used S m1 m2" and l: "(leave delay m1 \<bind> after_switch S) = finish S m2"
    using leave_departed [OF S, of m1 t k' delay] cur st by (auto simp: m1)
  note d' = departedD [OF d]
  have f: "tasks m1 = (tasks m)(t \<mapsto> k')" "active m1 = m_active q" "sim m1 = sim m"
    "new_task m1 = new_task m" "m_nextSchedule m1 = m_nextSchedule m"
    by (simp_all add: m1)
  have res: "(leave delay m1 \<bind> after_switch S) = Some (m2\<lparr>m_waitQueue := [], m_deadTasks := []\<rparr>)"
    unfolding l by (rule finish_settled) (simp_all add: d' st)
  have tm: "timers_ok ((tasks m)(t \<mapsto> k')) (pend (sim m1)) (used (sim m1))"
    using timers_running [OF tm_invD(4) [OF inv] k k'] by (simp add: f)
  have w: "wake_ok (pend (sim m1)) (used (sim m1)) (active m) (Some t) (m_nextSchedule m1)"
    using tm_invD(3) [OF inv] cur by (simp add: f)
  have "tm_inv pend used (m2\<lparr>m_waitQueue := [], m_deadTasks := []\<rparr>)"
    using departed_ok [OF d w tm] q
    by (simp add: tm_inv_def settled_def d' f st del: fun_upd_apply)
  moreover have "\<forall>i w u. pend (sim m2) i = Some (w, Do_EndWait u) \<longrightarrow> pend (sim m) i = Some (w, Do_EndWait u)"
    using d unfolding departed_def f by (auto split: if_splits)
  ultimately show ?thesis using res by (simp add: d' f)
qed

lemma Sleep_inv:
  assumes S: "simulator_ok S pend used" and inv: "tm_inv pend used m" and cur: "m_current m = Some t"
  shows "\<exists>m'. Sleep S delay m = Some m' \<and> tm_inv pend used m' \<and> m_current m' = None
    \<and> tasks m' = (tasks m)(t \<mapsto> (the (tasks m t))\<lparr>m_state := BLOCKED, m_fiber := In_Sleep\<rparr>)
    \<and> active m' = active m
    \<and> Now S (sim m') = Now S (sim m)"
proof -
  obtain k where k: "tasks m t = Some k" "m_state k = RUNNING" and r: "running_task m = Some (t, k)"
    by (rule running_taskE [OF inv cur])
  let ?k = "k\<lparr>m_state := BLOCKED, m_fiber := In_Sleep\<rparr>"
  have q: "queue_ok ((tasks m)(t \<mapsto> ?k)) (active m) None (new_task m)"
    using queue_leave [of "tasks m" "active m" t "new_task m" ?k] tm_invD(1) [OF inv] cur by simp
  have "m\<lparr>tasks := (tasks m)(t \<mapsto> ?k)\<rparr> = m\<lparr>tasks := (tasks m)(t \<mapsto> ?k), m_scheduler := m_scheduler m\<rparr>"
    by (cases m) simp
  from leave_inv [OF S inv cur k this _ _ q, of delay] r k show ?thesis
    by (auto simp: Sleep_def simp del: fun_upd_apply)
qed

lemma Yield_inv:
  assumes S: "simulator_ok S pend used" and inv: "tm_inv pend used m" and cur: "m_current m = Some t"
  shows "\<exists>m'. Yield S delay m = Some m' \<and> tm_inv pend used m' \<and> m_current m' = None
    \<and> tasks m' = (tasks m)(t \<mapsto> (the (tasks m t))\<lparr>m_state := ACTIVE, m_fiber := In_Yield\<rparr>)
    \<and> active m' = active m @ [t] \<and> Now S (sim m') = Now S (sim m)"
proof -
  obtain k where k: "tasks m t = Some k" "m_state k = RUNNING" and r: "running_task m = Some (t, k)"
    by (rule running_taskE [OF inv cur])
  let ?k = "k\<lparr>m_state := ACTIVE, m_fiber := In_Yield\<rparr>"
  have act: "m_active (rr_Enqueue t (m_scheduler m)) = active m @ [t]" by (simp add: rr_Enqueue_def)
  have q: "queue_ok ((tasks m)(t \<mapsto> ?k)) (m_active (rr_Enqueue t (m_scheduler m))) None (new_task m)"
    using queue_yield [of "tasks m" "active m" t "new_task m" ?k] tm_invD(1) [OF inv] cur by (simp add: act)
  from leave_inv [OF S inv cur k refl _ _ q, of delay] r k show ?thesis
    by (auto simp: Yield_def act simp del: fun_upd_apply)
qed

text \<open>A timed sleep ends up with its timer posted for its end, unless the time is zero.\<close>

lemma Sleep_timeout_inv:
  assumes S: "simulator_ok S pend used" and inv: "tm_inv pend used m" and cur: "m_current m = Some t"
    and pos: "0 < timeout"
  shows "\<exists>m' k' i. Sleep_timeout S delay timeout m = Some m' \<and> tm_inv pend used m' \<and> m_current m' = None
    \<and> tasks m' t = Some k' \<and> (\<forall>u. u \<noteq> t \<longrightarrow> tasks m' u = tasks m u)
    \<and> m_state k' = BLOCKED \<and> m_waitTimer k' = Some i
    \<and> m_fiber k' = In_Sleep_timeout (Now S (sim m) + timeout) timeout
    \<and> pend (sim m') i = Some (Now S (sim m) + timeout, Do_EndWait t)
    \<and> active m' = active m \<and> Now S (sim m') = Now S (sim m)"
proof -
  obtain k where k: "tasks m t = Some k" "m_state k = RUNNING" and r: "running_task m = Some (t, k)"
    by (rule running_taskE [OF inv cur])
  define e where "e = Now S (sim m) + timeout"
  let ?k = "k\<lparr>m_state := BLOCKED, m_fiber := In_Sleep_timeout e timeout\<rparr>"
  define m1 where "m1 = m\<lparr>tasks := (tasks m)(t \<mapsto> ?k), m_waitQueue := m_waitQueue m @ [(t, timeout)]\<rparr>"
  have f: "tasks m1 = (tasks m)(t \<mapsto> ?k)" "active m1 = active m" "sim m1 = sim m" "m_current m1 = Some t"
    "new_task m1 = new_task m" "m_nextSchedule m1 = m_nextSchedule m" "\<not> m_reSchedule m1"
    "m_waitQueue m1 = [(t, timeout)]" "m_deadTasks m1 = []" "0 \<le> time_left m1"
    using tm_invD(2) [OF inv] cur by (simp_all add: m1_def settled_def)
  obtain m2 where d: "departed pend used S m1 m2" and l: "(leave delay m1 \<bind> after_switch S) = finish S m2"
    using leave_departed [OF S f(4), of ?k delay] f by auto
  note d' = departedD [OF d]
  have s: "m_state (k\<lparr>m_fiber := In_Sleep\<rparr>) = RUNNING" using k by simp
  have w: "wake_ok (pend (sim m1)) (used (sim m1)) (active m) (Some t) (m_nextSchedule m1)"
    using tm_invD(3) [OF inv] cur by (simp add: f)
  have tm: "timers_ok (tasks m) (pend (sim m1)) (used (sim m1))"
    using tm_invD(4) [OF inv] by (simp add: f)
  note ok = departed_ok [OF d w tm]
  obtain i x where sch: "Sched S timeout (Do_EndWait t) (sim m2) = (i, x)" "i \<notin> used (sim m2)"
    "used x = insert i (used (sim m2))"
    "pend x = (pend (sim m2))(i \<mapsto> (Now S (sim m2) + timeout, Do_EndWait t))" "Now S x = Now S (sim m2)"
    "pend (sim m2) i = None"
    by (rule sim_sched [OF S, of timeout]) (use pos in simp)
  let ?k3 = "k\<lparr>m_state := BLOCKED, m_fiber := In_Sleep_timeout e timeout, m_waitTimer := Some i\<rparr>"
  define m3 where "m3 = m2\<lparr>sim := x, tasks := (tasks m)(t \<mapsto> ?k3), m_waitQueue := [], m_deadTasks := []\<rparr>"
  have g: "tasks m3 = (tasks m)(t \<mapsto> ?k3)" "active m3 = active m" "sim m3 = x" "m_current m3 = None"
    "new_task m3 = new_task m" "m_nextSchedule m3 = m_nextSchedule m" "settled m3"
    by (simp_all add: m3_def d' f settled_def)
  have fin: "finish S m2 = Some m3"
    by (simp add: finish_def d' f sch(1) m3_def)
  have e: "Now S (sim m2) + timeout = e" by (simp add: d' f e_def)
  have "timers_ok (tasks m3) (pend (sim m3)) (used (sim m3))"
    using timers_new [OF ok(2) sch(2) k, of e timeout] by (simp add: g sch e del: fun_upd_apply)
  moreover have "wake_ok (pend (sim m3)) (used (sim m3)) (active m) None (m_nextSchedule m)"
    using wake_ok_fresh [OF ok(1) sch(2,6)] by (simp add: g sch(3,4) f del: fun_upd_apply)
  moreover have "queue_ok (tasks m3) (active m) None (new_task m)"
    unfolding g using queue_leave [of "tasks m" "active m" t "new_task m" ?k3] tm_invD(1) [OF inv] cur by simp
  ultimately have "tm_inv pend used m3"
    by (simp add: tm_inv_def g del: fun_upd_apply)
  moreover have "Sleep_timeout S delay timeout m = Some m3"
    using r pos l fin unfolding Sleep_timeout_def by (simp add: m1_def [symmetric] e_def [symmetric] Let_def)
  ultimately show ?thesis
    by (simp add: g sch e d' f e_def [symmetric])
qed

text \<open>With no time at all there is no timer: the task sleeps until it is woken.\<close>

lemma Sleep_timeout_zero:
  assumes S: "simulator_ok S pend used" and inv: "tm_inv pend used m" and cur: "m_current m = Some t"
  shows "\<exists>m' k'. Sleep_timeout S delay 0 m = Some m' \<and> tm_inv pend used m' \<and> m_current m' = None
    \<and> tasks m' t = Some k' \<and> (\<forall>u. u \<noteq> t \<longrightarrow> tasks m' u = tasks m u)
    \<and> m_state k' = BLOCKED \<and> (\<forall>i w. pend (sim m') i \<noteq> Some (w, Do_EndWait t))
    \<and> active m' = active m"
proof -
  obtain k where k: "tasks m t = Some k" "m_state k = RUNNING" and r: "running_task m = Some (t, k)"
    by (rule running_taskE [OF inv cur])
  let ?k = "k\<lparr>m_state := BLOCKED, m_fiber := In_Sleep_timeout (Now S (sim m)) 0\<rparr>"
  have q: "queue_ok ((tasks m)(t \<mapsto> ?k)) (active m) None (new_task m)"
    using queue_leave [of "tasks m" "active m" t "new_task m" ?k] tm_invD(1) [OF inv] cur by simp
  have "m\<lparr>tasks := (tasks m)(t \<mapsto> ?k)\<rparr> = m\<lparr>tasks := (tasks m)(t \<mapsto> ?k), m_scheduler := m_scheduler m\<rparr>"
    by (cases m) simp
  from leave_inv [OF S inv cur k this _ _ q, of delay]
  obtain m' where m': "leave delay (m\<lparr>tasks := (tasks m)(t \<mapsto> ?k)\<rparr>) \<bind> after_switch S = Some m'"
    "tm_inv pend used m'" "m_current m' = None" "tasks m' = (tasks m)(t \<mapsto> ?k)"
    "active m' = active m" "\<forall>i w u. pend (sim m') i = Some (w, Do_EndWait u) \<longrightarrow> pend (sim m) i = Some (w, Do_EndWait u)"
    by (auto simp del: fun_upd_apply)
  have "\<forall>i w. pend (sim m') i \<noteq> Some (w, Do_EndWait t)"
    using timers_no_timer [OF tm_invD(4) [OF inv] k(1)] k(2) m'(6) by blast
  with m' r show ?thesis by (simp add: Sleep_timeout_def Let_def)
qed

text \<open>A task that exits is deleted before the main fiber goes on.\<close>

lemma Exit_inv:
  assumes S: "simulator_ok S pend used" and inv: "tm_inv pend used m" and cur: "m_current m = Some t"
  shows "\<exists>m'. tm_Exit S delay m = Some m' \<and> tm_inv pend used m' \<and> m_current m' = None
    \<and> tasks m' = (tasks m)(t := None) \<and> active m' = active m"
proof -
  obtain k where k: "tasks m t = Some k" "m_state k = RUNNING" and r: "running_task m = Some (t, k)"
    by (rule running_taskE [OF inv cur])
  let ?k = "k\<lparr>m_state := DEAD\<rparr>"
  define m1 where "m1 = m\<lparr>tasks := (tasks m)(t \<mapsto> ?k), sim := cancel_timer S k (sim m),
      m_deadTasks := m_deadTasks m @ [t]\<rparr>"
  have f: "tasks m1 = (tasks m)(t \<mapsto> ?k)" "active m1 = active m" "sim m1 = cancel_timer S k (sim m)"
    "m_current m1 = Some t" "new_task m1 = new_task m" "m_nextSchedule m1 = m_nextSchedule m"
    "\<not> m_reSchedule m1" "m_waitQueue m1 = []" "m_deadTasks m1 = [t]" "0 \<le> time_left m1"
    using tm_invD(2) [OF inv] cur by (simp_all add: m1_def settled_def)
  have p1: "pend (sim m1) = cancelled k (pend (sim m))" "used (sim m1) = used (sim m)"
    by (simp_all add: f sim_cancel_timer [OF S] cancelled_def)
  obtain m2 where d: "departed pend used S m1 m2" and l: "(leave delay m1 \<bind> after_switch S) = finish S m2"
    using leave_departed [OF S f(4), of ?k delay] f by auto
  note d' = departedD [OF d]
  have w: "wake_ok (pend (sim m1)) (used (sim m1)) (active m) (Some t) (m_nextSchedule m1)"
    using tm_invD(3) [OF inv] cur unfolding p1 f(6) wake_ok_def cancelled_Some by auto
  have tm: "timers_ok ((tasks m)(t := None)) (pend (sim m1)) (used (sim m1))"
    unfolding p1 by (rule timers_cancel [OF tm_invD(4) [OF inv] k(1)]) simp
  note ok = departed_ok [OF d w tm]
  have same: "cancelled k (pend (sim m2)) = pend (sim m2)"
  proof (cases "m_waitTimer k")
    case (Some i)
    have "i \<in> used (sim m)" using timersD(3) [OF tm_invD(4) [OF inv] k(1) Some] .
    moreover have "pend (sim m1) i = None" using Some by (simp add: p1 cancelled_def)
    ultimately have "pend (sim m2) i = None"
      using d unfolding departed_def by (auto simp: p1 split: if_splits)
    with Some show ?thesis by (auto simp: cancelled_def)
  qed (simp add: cancelled_def)
  define m3 where "m3 = m2\<lparr>m_waitQueue := [], sim := cancel_timer S k (sim m2),
      tasks := (tasks m)(t := None), m_deadTasks := []\<rparr>"
  have g: "tasks m3 = (tasks m)(t := None)" "active m3 = active m" "m_current m3 = None"
    "new_task m3 = new_task m" "m_nextSchedule m3 = m_nextSchedule m" "settled m3"
    "pend (sim m3) = pend (sim m2)" "used (sim m3) = used (sim m2)"
    using same by (simp_all add: m3_def d' f settled_def sim_cancel_timer [OF S] cancelled_def)
  have c: "cancel_timer S ?k x = cancel_timer S k x" for x by (simp add: cancel_timer_def)
  have "finish S m2 = Some m3" by (simp add: finish_def d' f c m3_def)
  moreover have "queue_ok ((tasks m)(t := None)) (filter (\<lambda>u. u \<noteq> t) (active m)) None (new_task m)"
    using queue_delete [OF tm_invD(1) [OF inv], of t] cur by simp
  moreover have "filter (\<lambda>u. u \<noteq> t) (active m) = active m"
    using queue_states(1) [OF tm_invD(1) [OF inv] k(1)] k(2) by (auto intro: filter_True)
  ultimately have "tm_inv pend used m3" and "finish S m2 = Some m3"
    using ok f by (simp_all add: tm_inv_def g del: fun_upd_apply)
  moreover have "tm_Exit S delay m = finish S m2"
    using r l unfolding tm_Exit_def by (simp add: m1_def [symmetric])
  ultimately show ?thesis by (simp add: g)
qed

section \<open>The events\<close>

lemma Schedule_main_inv:
  assumes S: "simulator_ok S pend used" and q: "queue_ok (tasks m) (active m) None (new_task m)"
    and cur: "m_current m = None" and st: "settled m"
    and w: "wake_ok (pend (sim m)) (used (sim m)) [] None (m_nextSchedule m)"
    and tm: "timers_ok (tasks m) (pend (sim m)) (used (sim m))"
  shows "\<exists>m'. Schedule_main S m = Some m' \<and> tm_inv pend used m' \<and> active m' = tl (active m)
    \<and> m_current m' = rr_PeekNext (m_scheduler m) \<and> Now S (sim m') = Now S (sim m)
    \<and> (\<forall>u. m_current m' \<noteq> Some u \<longrightarrow> tasks m' u = tasks m u)"
proof (cases "active m")
  case Nil
  have "finish S m = Some (m\<lparr>m_waitQueue := [], m_deadTasks := []\<rparr>)"
    using st by (intro finish_settled) (simp_all add: settled_def)
  with Nil q cur st w tm show ?thesis
    by (simp add: Schedule_main_def dispatch_def rr_PeekNext_def tm_inv_def settled_def)
next
  case (Cons t ts)
  then obtain k where k: "tasks m t = Some k" "m_state k = ACTIVE"
    using queueD(2) [OF q, of t] by (auto simp: state_of_def)
  let ?k = "k\<lparr>m_state := RUNNING\<rparr>"
  let ?sch = "m_scheduler m\<lparr>m_active := ts\<rparr>"
  define m1 where "m1 = notify TO k (m\<lparr>m_scheduler := ?sch, m_current := Some t,
      tasks := (tasks m)(t \<mapsto> ?k)\<rparr>)"
  have f: "tasks m1 = (tasks m)(t \<mapsto> ?k)" "active m1 = ts" "sim m1 = sim m" "m_current m1 = Some t"
    "new_task m1 = new_task m" "m_nextSchedule m1 = m_nextSchedule m" "settled m1"
    using st by (simp_all add: m1_def notify_def settled_def)
  have d: "dispatch S m = Some (Some t, m1)"
    using Cons k by (simp add: dispatch_def rr_PeekNext_def rr_DequeueNext_def m1_def)
  have q1: "queue_ok ((tasks m)(t \<mapsto> ?k)) ts (Some t) (new_task m)"
    using queue_dispatch [of "tasks m" t ts "new_task m" ?k] q Cons by simp
  have "\<exists>r x. resume S t m1 = Some (m1\<lparr>sim := x, time_left := r\<rparr>) \<and> used x = used (sim m)
      \<and> timers_ok ((tasks m)(t \<mapsto> ?k)) (pend x) (used x) \<and> (\<forall>j v. pend x j = Some v \<longrightarrow> pend (sim m) j = Some v)
      \<and> Now S x = Now S (sim m) \<and> 0 \<le> r"
  proof (cases "\<exists>e d. m_fiber k = In_Sleep_timeout e d")
    case True
    then obtain e d' where fb: "m_fiber k = In_Sleep_timeout e d'" by blast
    let ?x = "cancel_timer S k (sim m)"
    have p: "pend ?x = cancelled k (pend (sim m))" by (simp add: sim_cancel_timer [OF S] cancelled_def)
    have "cancel_timer S ?k y = cancel_timer S k y" for y by (simp add: cancel_timer_def)
    then have "\<exists>r. resume S t m1 = Some (m1\<lparr>sim := ?x, time_left := r\<rparr>) \<and> 0 \<le> r"
      using fb by (auto simp: resume_def f Let_def)
    moreover have "timers_ok ((tasks m)(t \<mapsto> ?k)) (cancelled k (pend (sim m))) (used (sim m))"
      by (rule timers_cancel [OF tm k(1)]) simp
    moreover have "\<forall>j v. cancelled k (pend (sim m)) j = Some v \<longrightarrow> pend (sim m) j = Some v"
      by (simp add: cancelled_Some)
    ultimately show ?thesis by (metis p sim_cancel_timer(2,3) [OF S])
  next
    case False
    have same: "m1\<lparr>sim := sim m, time_left := time_left m1\<rparr> = m1" by (cases m1) (use f in simp)
    have tl: "0 \<le> time_left m1" using f(7) by (simp add: settled_def)
    have "resume S t m1 = Some m1"
      using False by (auto simp: resume_def f split: fiber.splits)
    moreover have "timers_ok ((tasks m)(t \<mapsto> ?k)) (pend (sim m)) (used (sim m))"
    proof (rule timers_set [OF tm])
      show "\<forall>i w. pend (sim m) i \<noteq> Some (w, Do_EndWait t)"
        using timers_no_timer [OF tm k(1)] False by blast
      show "\<forall>i. m_waitTimer ?k = Some i \<longrightarrow> i \<in> used (sim m)
          \<and> (\<forall>w a. pend (sim m) i = Some (w, a) \<longrightarrow> a = Do_EndWait t)"
        using timersD(3,4) [OF tm k(1)] by simp
    qed simp
    ultimately show ?thesis using same tl by metis
  qed
  then obtain r x where r: "resume S t m1 = Some (m1\<lparr>sim := x, time_left := r\<rparr>)" "used x = used (sim m)"
    "timers_ok ((tasks m)(t \<mapsto> ?k)) (pend x) (used x)" "\<forall>j v. pend x j = Some v \<longrightarrow> pend (sim m) j = Some v"
    "Now S x = Now S (sim m)" "0 \<le> r"
    by blast
  have "wake_ok (pend x) (used x) ts (Some t) (m_nextSchedule m)"
    using w r(2,4) unfolding wake_ok_def by auto
  with q1 r(3,6) f have "tm_inv pend used (m1\<lparr>sim := x, time_left := r\<rparr>)"
    by (simp add: tm_inv_def settled_def del: fun_upd_apply)
  with d r(1,5) f Cons k show ?thesis by (simp add: Schedule_main_def rr_PeekNext_def)
qed

end
