(* ===== verification/Task_Runs.thy ===== *)
theory Task_Runs
  imports Task_Steps "HOL-Library.AList"
begin

text \<open>
  The runs of a node's task manager and what holds in all of them.
\<close>

section \<open>Steps\<close>

text \<open>
  The operations a task or the main fiber may call, and the events the simulator fires while no
  task runs. \<open>delay\<close> is what the delay model reports and is never negative.
\<close>

inductive tm_step :: "'x simulator \<Rightarrow> 'x task_manager \<Rightarrow> 'x task_manager \<Rightarrow> bool" for S where
  wakeup: "Wakeup S t m = Some m' \<Longrightarrow> tm_step S m m'"
| start: "tm_Start S m = Some (t, m') \<Longrightarrow> tm_step S m m'"
| clone: "tm_Clone S u m = Some (t, m') \<Longrightarrow> tm_step S m m'"
| stop: "tm_Stop S t m = Some m' \<Longrightarrow> tm_step S m m'"
| sleep: "Sleep S delay m = Some m' \<Longrightarrow> tm_step S m m'"
| sleep_timeout: "0 \<le> timeout \<Longrightarrow> Sleep_timeout S delay timeout m = Some m' \<Longrightarrow> tm_step S m m'"
| yield: "Yield S delay m = Some m' \<Longrightarrow> tm_step S m m'"
| exit: "tm_Exit S delay m = Some m' \<Longrightarrow> tm_step S m m'"
| schedule: "m_current m = None \<Longrightarrow> Fire S (sim m) = Some (Do_Schedule, x) \<Longrightarrow>
    Schedule_main S (m\<lparr>sim := x\<rparr>) = Some m' \<Longrightarrow> tm_step S m m'"
| end_wait: "m_current m = None \<Longrightarrow> Fire S (sim m) = Some (Do_EndWait t, x) \<Longrightarrow>
    EndWait S t (m\<lparr>sim := x\<rparr>) = Some m' \<Longrightarrow> tm_step S m m'"
| other: "m_current m = None \<Longrightarrow> Fire S (sim m) = Some (Do_other n, x) \<Longrightarrow> tm_step S m (m\<lparr>sim := x\<rparr>)"
| post: "0 \<le> d \<Longrightarrow> tm_step S m (ScheduleMain S d (Do_other n) m)"
| notifier: "SetSwitchNotifier t fn c m = Some m' \<Longrightarrow> tm_step S m m'"
| hi_task: "EnterHiTask t m = Some m' \<or> LeaveHiTask t m = Some m' \<Longrightarrow> tm_step S m m'"

inductive_cases tm_stepE: "tm_step S m m'"

lemma fired_wake:
  assumes "wake_ok p u act None nxt"
  shows "wake_ok (p(i := None)) u [] None nxt"
  using wake_okD(2,3) [OF assms] by (auto simp: wake_ok_def)

lemma schedule_event_inv:
  assumes S: "simulator_ok S pend used" and inv: "tm_inv pend used m" and cur: "m_current m = None"
    and fire: "Fire S (sim m) = Some (Do_Schedule, x)"
  shows "\<exists>m'. Schedule_main S (m\<lparr>sim := x\<rparr>) = Some m' \<and> tm_inv pend used m' \<and> active m' = tl (active m)
    \<and> m_current m' = rr_PeekNext (m_scheduler m)
    \<and> (\<forall>u. m_current m' \<noteq> Some u \<longrightarrow> tasks m' u = tasks m u)"
proof -
  obtain i w where p: "pend (sim m) i = Some (w, Do_Schedule)" "pend x = (pend (sim m))(i := None)"
    "used x = used (sim m)" by (rule sim_fire [OF S fire])
  have "timers_ok (tasks m) (pend x) (used x)"
    unfolding p(2,3) using timers_fired [OF tm_invD(4) [OF inv] p(1)] by simp
  moreover have "wake_ok (pend x) (used x) [] None (m_nextSchedule m)"
    unfolding p(2,3) using fired_wake tm_invD(3) [OF inv] cur by simp
  ultimately show ?thesis
    using Schedule_main_inv [OF S, of "m\<lparr>sim := x\<rparr>"] tm_invD(1,2) [OF inv] cur by (auto simp: settled_def)
qed

lemma end_wait_inv:
  assumes S: "simulator_ok S pend used" and inv: "tm_inv pend used m" and cur: "m_current m = None"
    and fire: "Fire S (sim m) = Some (Do_EndWait t, x)"
  shows "\<exists>m' k e d. EndWait S t (m\<lparr>sim := x\<rparr>) = Some m' \<and> tm_inv pend used m'
    \<and> tasks m t = Some k \<and> m_fiber k = In_Sleep_timeout e d \<and> Now S x = e
    \<and> (m_state k = BLOCKED \<longrightarrow> active m' = active m @ [t])"
proof -
  obtain i w where p: "pend (sim m) i = Some (w, Do_EndWait t)" "pend x = (pend (sim m))(i := None)"
    "used x = used (sim m)" "Now S x = w" by (rule sim_fire [OF S fire])
  note tm = tm_invD(4) [OF inv]
  obtain k d where k: "tasks m t = Some k" "m_waitTimer k = Some i" "m_fiber k = In_Sleep_timeout w d"
    "m_state k \<noteq> RUNNING" using timersD(1) [OF tm p(1)] by blast
  have px: "pend x = cancelled k (pend (sim m))" using k(2) p(2) by (simp add: cancelled_def)
  have wk: "wake_ok (pend x) (used x) (active m) (m_current m) (m_nextSchedule m)"
    using tm_invD(3) [OF inv] p(1) unfolding p(2,3) wake_ok_def by auto (metis action.distinct(1) option.inject prod.inject)
  show ?thesis
  proof (cases "m_state k = BLOCKED")
    case True
    have "timers_ok ((tasks m)(t \<mapsto> k\<lparr>m_state := ACTIVE\<rparr>)) (pend x) (used x)"
      unfolding px p(3) by (rule timers_cancel [OF tm k(1)]) simp
    then have "\<exists>m'. Wakeup S t (m\<lparr>sim := x\<rparr>) = Some m' \<and> tm_inv pend used m' \<and> active m' = active m @ [t]"
      using Wakeup_blocked [OF S, of "m\<lparr>sim := x\<rparr>" t k] k True tm_invD(1,2) [OF inv] wk
      by (auto simp: settled_def)
    with True k p(4) show ?thesis by (auto simp: EndWait_def)
  next
    case False
    have "timers_ok ((tasks m)(t := Some k)) (pend x) (used x)"
      unfolding px p(3) by (rule timers_cancel [OF tm k(1)]) (use False in auto)
    then have "timers_ok (tasks m) (pend x) (used x)" using k(1) by (simp add: fun_upd_idem)
    with False k p(4) wk tm_invD(1,2) [OF inv] show ?thesis
      by (simp add: EndWait_def tm_inv_def settled_def)
  qed
qed

lemma other_event_inv:
  assumes S: "simulator_ok S pend used" and inv: "tm_inv pend used m"
    and fire: "Fire S (sim m) = Some (Do_other n, x)"
  shows "tm_inv pend used (m\<lparr>sim := x\<rparr>)"
proof -
  obtain i w where p: "pend (sim m) i = Some (w, Do_other n)" "pend x = (pend (sim m))(i := None)"
    "used x = used (sim m)" by (rule sim_fire [OF S fire])
  have "timers_ok (tasks m) (pend x) (used x)"
    unfolding p(2,3) using timers_fired [OF tm_invD(4) [OF inv] p(1)] by simp
  moreover have "wake_ok (pend x) (used x) (active m) (m_current m) (m_nextSchedule m)"
    using tm_invD(3) [OF inv] p(1) unfolding p(2,3) wake_ok_def by auto (metis action.distinct(3) option.inject prod.inject)
  ultimately show ?thesis using tm_invD(1,2) [OF inv] by (simp add: tm_inv_def settled_def)
qed

lemma post_inv:
  assumes S: "simulator_ok S pend used" and inv: "tm_inv pend used m" and d: "0 \<le> d"
  shows "tm_inv pend used (ScheduleMain S d (Do_other n) m)"
proof -
  obtain i x where sch: "Sched S d (Do_other n) (sim m) = (i, x)" "i \<notin> used (sim m)"
    "used x = insert i (used (sim m))" "pend x = (pend (sim m))(i \<mapsto> (Now S (sim m) + d, Do_other n))"
    "pend (sim m) i = None"
    by (rule sim_sched [OF S d])
  have "timers_ok (tasks m) (pend x) (used x)"
    unfolding sch using timers_sched [OF tm_invD(4) [OF inv] sch(2)] by simp
  moreover have "wake_ok (pend x) (used x) (active m) (m_current m) (m_nextSchedule m)"
    unfolding sch(3,4) by (rule wake_ok_fresh [OF tm_invD(3) [OF inv] sch(2,5)])
  ultimately show ?thesis
    using tm_invD(1,2) [OF inv]
    by (cases "m_current m") (simp_all add: ScheduleMain_def ExecOnMain_def sch(1) tm_inv_def settled_def)
qed

lemma notifier_inv:
  assumes inv: "tm_inv pend used m" and "SetSwitchNotifier t fn c m = Some m'"
  shows "tm_inv pend used m'"
proof -
  obtain k where k: "tasks m t = Some k"
    and m': "m' = m\<lparr>tasks := (tasks m)(t \<mapsto> k\<lparr>m_switchNotifier := fn, m_switchNotifierContext := c\<rparr>)\<rparr>"
    using assms(2) by (auto simp: SetSwitchNotifier_def bind_eq_Some_conv)
  let ?k = "k\<lparr>m_switchNotifier := fn, m_switchNotifierContext := c\<rparr>"
  have "timers_ok ((tasks m)(t \<mapsto> ?k)) (pend (sim m)) (used (sim m))"
    using timers_relabel [OF tm_invD(4) [OF inv] k, of ?k] by simp
  with queue_same [OF tm_invD(1) [OF inv] k, of ?k] tm_invD(2,3) [OF inv] show ?thesis
    by (simp add: m' tm_inv_def settled_def del: fun_upd_apply)
qed

lemma tm_step_inv:
  assumes S: "simulator_ok S pend used" and inv: "tm_inv pend used m" and st: "tm_step S m m'"
  shows "tm_inv pend used m'"
  using st
proof cases
  case (wakeup t)
  then obtain k where "tasks m t = Some k" by (auto simp: Wakeup_def bind_eq_Some_conv)
  from Wakeup_inv [OF S inv this] wakeup show ?thesis by auto
next
  case (start t)
  with Start_inv [OF S inv] show ?thesis by auto
next
  case (clone u t)
  then have "tm_Start S m = Some (t, m')"
    using tm_Clone_Start [of m u] by (cases "tasks m u") (auto simp: tm_Clone_def)
  with Start_inv [OF S inv] show ?thesis by auto
next
  case (stop t)
  show ?thesis
  proof (cases "m_current m = Some t")
    case True
    with stop inv show ?thesis by (simp add: tm_Stop_def)
  next
    case False
    with stop obtain k where "tasks m t = Some k" by (auto simp: tm_Stop_def bind_eq_Some_conv)
    from Stop_inv [OF S inv this] stop show ?thesis by auto
  qed
next
  case (sleep delay)
  then obtain t where "m_current m = Some t"
    by (auto simp: Sleep_def running_task_def bind_eq_Some_conv)
  from Sleep_inv [OF S inv this, of delay] sleep show ?thesis by auto
next
  case (sleep_timeout timeout delay)
  then obtain t where t: "m_current m = Some t"
    by (auto simp: Sleep_timeout_def running_task_def bind_eq_Some_conv)
  show ?thesis
  proof (cases "timeout = 0")
    case True
    with Sleep_timeout_zero [OF S inv t, of delay] sleep_timeout show ?thesis by auto
  next
    case False
    with sleep_timeout have "0 < timeout" by simp
    from Sleep_timeout_inv [OF S inv t this, of delay] sleep_timeout show ?thesis by auto
  qed
next
  case (yield delay)
  then obtain t where "m_current m = Some t"
    by (auto simp: Yield_def running_task_def bind_eq_Some_conv)
  from Yield_inv [OF S inv this, of delay] yield show ?thesis by auto
next
  case (exit delay)
  then obtain t where "m_current m = Some t"
    by (auto simp: tm_Exit_def running_task_def bind_eq_Some_conv)
  from Exit_inv [OF S inv this, of delay] exit show ?thesis by auto
next
  case (schedule x)
  from schedule_event_inv [OF S inv schedule(1,2)] schedule(3) show ?thesis by auto
next
  case (end_wait t x)
  from end_wait_inv [OF S inv end_wait(1,2)] end_wait(3) show ?thesis by auto
next
  case (other n x)
  with other_event_inv [OF S inv] show ?thesis by auto
next
  case (post d n)
  with post_inv [OF S inv] show ?thesis by auto
next
  case (notifier t fn c)
  with notifier_inv [OF inv] show ?thesis by auto
next
  case (hi_task t)
  with inv show ?thesis
    by (auto simp: EnterHiTask_def LeaveHiTask_def tm_inv_def settled_def split: if_splits)
qed

inductive tm_reach :: "'x simulator \<Rightarrow> 'x \<Rightarrow> 'x task_manager \<Rightarrow> bool" for S x where
  init: "tm_reach S x (TaskManager x)"
| step: "tm_reach S x m \<Longrightarrow> tm_step S m m' \<Longrightarrow> tm_reach S x m'"

lemma TaskManager_inv: "tm_inv pend used (TaskManager x)" if "\<forall>i w t. pend x i \<noteq> Some (w, Do_EndWait t)"
  using that by (simp add: tm_inv_def TaskManager_def queue_ok_def settled_def wake_ok_def timers_ok_def
      RrTaskScheduler_def state_of_def)

lemma tm_reach_inv:
  assumes "simulator_ok S pend used" and "pend x = Map.empty" and "tm_reach S x m"
  shows "tm_inv pend used m"
  using assms(3)
proof induction
  case init
  show ?case by (rule TaskManager_inv) (simp add: assms(2))
next
  case (step m m')
  then show ?case using tm_step_inv [OF assms(1)] by blast
qed

section \<open>The queue along a run\<close>



section \<open>An event list\<close>

text \<open>
  A simulator for the witnesses: the identifiers given out, the time, and the pending events.
\<close>

type_synonym event_list = "event_id list \<times> time \<times> (event_id \<times> time \<times> action) list"

fun earliest :: "(event_id \<times> time \<times> action) list \<Rightarrow> (event_id \<times> time \<times> action) option" where
  "earliest [] = None"
| "earliest (e # es) = (case earliest es of None \<Rightarrow> Some e
     | Some f \<Rightarrow> if fst (snd f) < fst (snd e) then Some f else Some e)"

definition event_ids :: "event_list \<Rightarrow> event_id set" where
  "event_ids x = set (fst x) \<union> fst ` set (snd (snd x))"

definition fresh_id :: "event_list \<Rightarrow> event_id" where
  "fresh_id x = Suc (foldr max (fst x @ map fst (snd (snd x))) 0)"

definition events :: "event_list simulator" where
  "events = \<lparr>Now = (\<lambda>x. fst (snd x)),
     Sched = (\<lambda>d a x. (fresh_id x, fresh_id x # fst x, fst (snd x),
                (fresh_id x, fst (snd x) + d, a) # snd (snd x))),
     Cancel = (\<lambda>i x. (map fst (snd (snd x)) @ fst x, fst (snd x), AList.delete i (snd (snd x)))),
     IsPending = (\<lambda>i x. map_of (snd (snd x)) i \<noteq> None),
     Fire = (\<lambda>x. case earliest (AList.clearjunk (snd (snd x))) of None \<Rightarrow> None
               | Some (i, t, a) \<Rightarrow> Some (a, map fst (snd (snd x)) @ fst x, t, AList.delete i (snd (snd x))))\<rparr>"

lemma foldr_max_ge: "y \<in> set ys \<Longrightarrow> y \<le> foldr max ys (0 :: nat)"
  by (induction ys) auto

lemma fresh_id: "fresh_id x \<notin> event_ids x"
proof
  assume "fresh_id x \<in> event_ids x"
  then have "fresh_id x \<in> set (fst x @ map fst (snd (snd x)))" by (auto simp: event_ids_def)
  then have "fresh_id x \<le> foldr max (fst x @ map fst (snd (snd x))) 0" by (rule foldr_max_ge)
  then show False by (simp add: fresh_id_def)
qed

lemma earliest_Some:
  "earliest es = Some e \<Longrightarrow> e \<in> set es \<and> (\<forall>f \<in> set es. fst (snd e) \<le> fst (snd f))"
proof (induction es arbitrary: e)
  case (Cons f es)
  show ?case
  proof (cases "earliest es")
    case None
    then have "es = []" by (cases es) (auto split: option.splits if_splits)
    with Cons.prems show ?thesis by simp
  next
    case (Some g)
    with Cons.IH [OF Some] Cons.prems show ?thesis by (force split: if_splits)
  qed
qed simp

lemma event_ids_delete: "set (map fst es @ us) \<union> fst ` set (AList.delete i es) = set us \<union> fst ` set es"
  by (auto simp: AList.delete_eq)

lemma events_ok: "simulator_ok events (\<lambda>x. map_of (snd (snd x))) event_ids"
  unfolding simulator_ok_def
proof (intro conjI allI impI, goal_cases)
  case (1 x)
  show ?case by (auto simp: event_ids_def dom_map_of_conv_image_fst)
next
  case (2 d a x)
  show ?case using fresh_id [of x] by (simp add: events_def event_ids_def insert_commute)
next
  case (3 i x)
  show ?case by (simp add: events_def delete_conv')
next
  case (4 i x)
  show ?case using event_ids_delete by (simp add: events_def event_ids_def)
next
  case (5 i x)
  show ?case by (simp add: events_def)
next
  case (6 i x)
  show ?case by (simp add: events_def)
next
  case (7 a x x')
  then obtain i t where e: "earliest (AList.clearjunk (snd (snd x))) = Some (i, t, a)"
    and x': "x' = (map fst (snd (snd x)) @ fst x, t, AList.delete i (snd (snd x)))"
    by (auto simp: events_def split: option.splits)
  note m = earliest_Some [OF e]
  have "map_of (AList.clearjunk (snd (snd x))) i = Some (t, a)"
    by (rule map_of_is_SomeI [OF distinct_clearjunk conjunct1 [OF m]])
  then have "map_of (snd (snd x)) i = Some (t, a)" by (simp only: map_of_clearjunk)
  moreover have "t \<le> u" if "map_of (snd (snd x)) j = Some (u, b)" for j u b
  proof -
    have "map_of (AList.clearjunk (snd (snd x))) j = Some (u, b)"
      using that by (simp only: map_of_clearjunk)
    then have "(j, u, b) \<in> set (AList.clearjunk (snd (snd x)))" by (rule map_of_SomeD)
    with conjunct2 [OF m] show ?thesis by force
  qed
  ultimately show ?case
    using event_ids_delete by (intro exI [of _ i] exI [of _ t]) (simp add: x' events_def event_ids_def delete_conv')
qed

text \<open>The simulator fires its next event, while no task runs.\<close>

fun fire_event :: "'x simulator \<Rightarrow> 'x task_manager \<Rightarrow> 'x task_manager option" where
  "fire_event S m =
     (if m_current m \<noteq> None then None
      else case Fire S (sim m) of
        None \<Rightarrow> None
      | Some (Do_Schedule, x) \<Rightarrow> Schedule_main S (m\<lparr>sim := x\<rparr>)
      | Some (Do_EndWait t, x) \<Rightarrow> EndWait S t (m\<lparr>sim := x\<rparr>)
      | Some (Do_other n, x) \<Rightarrow> Some (m\<lparr>sim := x\<rparr>))"

lemma fire_event_step:
  assumes "fire_event S m = Some m'"
  shows "tm_step S m m'" and "m_current m = None"
  using assms
  by (auto split: if_splits option.splits action.splits intro: tm_step.schedule tm_step.end_wait tm_step.other)

section \<open>Properties\<close>

text \<open>C4. In every run, at most one task executes, the scheduler's queue holds exactly the tasks
  that are ready, each once, and no dead task is left behind.\<close>

theorem one_task_runs:
  assumes "simulator_ok S pend used" and "pend x = Map.empty" and "tm_reach S x m"
  shows "distinct (active m) \<and> (\<forall>t. t \<in> set (active m) \<longleftrightarrow> (\<exists>k. tasks m t = Some k \<and> IsActive k))
    \<and> (\<forall>t. m_current m = Some t \<longleftrightarrow> (\<exists>k. tasks m t = Some k \<and> IsRunning k))
    \<and> (\<forall>t k. tasks m t = Some k \<longrightarrow> \<not> IsDead k) \<and> m_deadTasks m = [] \<and> m_waitQueue m = []"
proof -
  note inv = tm_reach_inv [OF assms] and q = tm_invD(1) [OF tm_reach_inv [OF assms]]
  show ?thesis
    using queueD [OF q] queue_states(3) [OF q] tm_invD(2) [OF inv]
    by (auto simp: IsActive_def IsRunning_def IsDead_def state_of_def settled_def)
qed

definition one_start :: "event_list task_manager" where
  "one_start = (case tm_Start events (TaskManager ([], 0, [])) of Some (t, m) \<Rightarrow> m)"

lemma one_start_reach: "tm_reach events ([], 0, []) one_start"
  and one_start_active: "active one_start = [1]" and one_start_idle: "m_current one_start = None"
proof -
  let ?m = "TaskManager ([], 0, []) :: event_list task_manager"
  have "tm_inv (\<lambda>x. map_of (snd (snd x))) event_ids ?m" by (rule TaskManager_inv) simp
  moreover have "new_task ?m = 1" "active ?m = []" by (simp_all add: TaskManager_def RrTaskScheduler_def)
  ultimately obtain m where m: "tm_Start events ?m = Some (1, m)" "active m = [1]"
    using Start_inv [OF events_ok, of ?m] by auto
  then have o: "one_start = m" by (simp add: one_start_def)
  show "tm_reach events ([], 0, []) one_start"
    unfolding o by (rule tm_reach.step [OF tm_reach.init tm_step.start [OF m(1)]])
  show "active one_start = [1]" by (simp add: o m)
  show "m_current one_start = None"
    using m(1) unfolding o
    by (auto simp: tm_Start_def Wakeup_def Let_def TaskManager_def bind_eq_Some_conv split: if_splits prod.splits)
qed

theorem one_task_runs_witness: "\<exists>k. tasks one_start 1 = Some k \<and> IsActive k"
proof -
  have "\<forall>t. t \<in> set (active one_start) \<longleftrightarrow> (\<exists>k. tasks one_start t = Some k \<and> IsActive k)"
    using one_task_runs [OF events_ok _ one_start_reach] by simp
  moreover have "1 \<in> set (active one_start)" by (simp add: one_start_active)
  ultimately show ?thesis by blast
qed

text \<open>C9. No task that is ready is forgotten: as long as there is one and none runs, an event that
  calls \<open>Schedule\<close> is posted, whether the task was woken from the event loop or left in the queue
  by the task that ran last.\<close>

theorem ready_task_scheduled:
  assumes "simulator_ok S pend used" and "pend x = Map.empty" and "tm_reach S x m"
    and "tasks m t = Some k" and "IsActive k" and "m_current m = None"
  shows "\<exists>i w. pend (sim m) i = Some (w, Do_Schedule)"
proof -
  note inv = tm_reach_inv [OF assms(1-3)]
  have "t \<in> set (active m)" using queue_states(1) [OF tm_invD(1) [OF inv] assms(4)] assms(5) by (simp add: IsActive_def)
  then have "active m \<noteq> []" by auto
  with wake_okD(1) [OF tm_invD(3) [OF inv] assms(6)] show ?thesis by blast
qed

theorem ready_task_scheduled_witness:
  "\<exists>i w. map_of (snd (snd (sim one_start))) i = Some (w, Do_Schedule)"
proof -
  have "1 \<in> set (active one_start)" by (simp add: one_start_active)
  then obtain k where "tasks one_start 1 = Some k" "IsActive k"
    using queueD(2) [OF tm_invD(1) [OF tm_reach_inv [OF events_ok _ one_start_reach]], of 1]
    by (auto simp: state_of_def IsActive_def)
  from ready_task_scheduled [OF events_ok _ one_start_reach this one_start_idle] show ?thesis by simp
qed


definition two_start :: "event_list task_manager" where
  "two_start = (case tm_Start events one_start of Some (t, m) \<Rightarrow> m)"

lemma two_start_reach: "tm_reach events ([], 0, []) two_start"
  and two_start_active: "active two_start = [1, 2]"
proof -
  have inv: "tm_inv (\<lambda>x. map_of (snd (snd x))) event_ids one_start"
    by (rule tm_reach_inv [OF events_ok _ one_start_reach]) simp
  have "new_task one_start = 2" by code_simp
  then obtain m where m: "tm_Start events one_start = Some (2, m)" "active m = [1, 2]"
    using Start_inv [OF events_ok inv] by (auto simp: one_start_active)
  then have o: "two_start = m" by (simp add: two_start_def)
  show "tm_reach events ([], 0, []) two_start"
    unfolding o by (rule tm_reach.step [OF one_start_reach tm_step.start [OF m(1)]])
  show "active two_start = [1, 2]" by (simp add: o m)
qed


lemma two_start_running:
  "\<exists>m. tm_reach events ([], 0, []) m \<and> m_current m = Some 1 \<and> Now events (sim m) = 0"
proof -
  have "map_option fst (Fire events (sim two_start)) = Some Do_Schedule" by code_simp
  then obtain x where x: "Fire events (sim two_start) = Some (Do_Schedule, x)" by auto
  have "map_option (\<lambda>m. (m_current m, Now events (sim m)))
      (do { (a, x) \<leftarrow> Fire events (sim two_start); Schedule_main events (two_start\<lparr>sim := x\<rparr>) })
    = Some (Some 1, 0)" by code_simp
  then obtain m where m: "Schedule_main events (two_start\<lparr>sim := x\<rparr>) = Some m" "m_current m = Some 1"
    "Now events (sim m) = 0" by (auto simp: x)
  have "m_current two_start = None" by code_simp
  from tm_reach.step [OF two_start_reach tm_step.schedule [OF this x m(1)]] m show ?thesis by blast
qed


text \<open>C29. A timed sleep ends in time: whenever a task is blocked in one, its timer is posted for
  exactly the end of the sleep, whatever happened in between; when the timer fires, the task is put
  at the end of the queue. A timer that fires late, after the task was woken otherwise, does no harm.\<close>

theorem timed_sleep_ends:
  assumes "simulator_ok S pend used" and "pend x = Map.empty" and "tm_reach S x m"
    and "tasks m t = Some k" and "IsBlocked k" and "m_fiber k = In_Sleep_timeout e d" and "d \<noteq> 0"
  shows "(\<exists>i. pend (sim m) i = Some (e, Do_EndWait t))
    \<and> (\<forall>y. m_current m = None \<and> Fire S (sim m) = Some (Do_EndWait t, y) \<longrightarrow>
         Now S y = e \<and> (\<exists>m'. EndWait S t (m\<lparr>sim := y\<rparr>) = Some m' \<and> active m' = active m @ [t]))"
proof -
  note inv = tm_reach_inv [OF assms(1-3)]
  have b: "m_state k = BLOCKED" using assms(5) by (simp add: IsBlocked_def)
  from timersD(2) [OF tm_invD(4) [OF inv] assms(4) b assms(6,7)]
  have "\<exists>i. pend (sim m) i = Some (e, Do_EndWait t)" by blast
  moreover have "Now S y = e \<and> (\<exists>m'. EndWait S t (m\<lparr>sim := y\<rparr>) = Some m' \<and> active m' = active m @ [t])"
    if "m_current m = None" "Fire S (sim m) = Some (Do_EndWait t, y)" for y
    using end_wait_inv [OF assms(1) inv that] assms(4,6) b by auto
  ultimately show ?thesis by blast
qed

theorem timed_sleep_ends_witness:
  "\<exists>m k i. tm_reach events ([], 0, []) m \<and> tasks m 1 = Some k \<and> m_fiber k = In_Sleep_timeout 5 5
    \<and> map_of (snd (snd (sim m))) i = Some (5, Do_EndWait 1)"
proof -
  obtain m where m: "tm_reach events ([], 0, []) m" "m_current m = Some 1" "Now events (sim m) = 0"
    using two_start_running by blast
  have inv: "tm_inv (\<lambda>x. map_of (snd (snd x))) event_ids m"
    by (rule tm_reach_inv [OF events_ok _ m(1)]) simp
  from Sleep_timeout_inv [OF events_ok inv m(2), of 5 0] m(3) obtain m' k where
    m': "Sleep_timeout events 0 5 m = Some m'" "tasks m' 1 = Some k" "m_state k = BLOCKED"
      "m_fiber k = In_Sleep_timeout 5 5" by auto
  have r: "tm_reach events ([], 0, []) m'"
    by (rule tm_reach.step [OF m(1) tm_step.sleep_timeout [OF _ m'(1)]]) simp
  from timed_sleep_ends [OF events_ok _ r m'(2) _ m'(4)] m'(3)
  have "\<exists>i. map_of (snd (snd (sim m'))) i = Some (5, Do_EndWait 1)" by (simp add: IsBlocked_def)
  with r m' show ?thesis by blast
qed

text \<open>A sleep with no time to wait, the one \<open>pthread_cond_timedwait\<close> asks for when its deadline has
  passed, has no timer at all: the task does not return until another one wakes it.\<close>

theorem zero_sleep_has_no_timer:
  assumes "simulator_ok S pend used" and "pend x = Map.empty" and "tm_reach S x m"
    and "m_current m = Some t"
  shows "\<exists>m' k. Sleep_timeout S delay 0 m = Some m' \<and> tm_reach S x m' \<and> tasks m' t = Some k \<and> IsBlocked k
    \<and> (\<forall>i w. pend (sim m') i \<noteq> Some (w, Do_EndWait t))"
proof -
  note inv = tm_reach_inv [OF assms(1-3)]
  from Sleep_timeout_zero [OF assms(1) inv assms(4), of delay] obtain m' k where
    m': "Sleep_timeout S delay 0 m = Some m'" "tasks m' t = Some k" "m_state k = BLOCKED"
      "\<forall>i w. pend (sim m') i \<noteq> Some (w, Do_EndWait t)" by blast
  have "tm_reach S x m'"
    by (rule tm_reach.step [OF assms(3) tm_step.sleep_timeout [OF _ m'(1)]]) simp
  with m' show ?thesis by (auto simp: IsBlocked_def)
qed

theorem zero_sleep_has_no_timer_witness:
  "\<exists>m m' k. tm_reach events ([], 0, []) m \<and> Sleep_timeout events 7 0 m = Some m' \<and> tasks m' 1 = Some k
    \<and> IsBlocked k \<and> (\<forall>i w. map_of (snd (snd (sim m'))) i \<noteq> Some (w, Do_EndWait 1))"
proof -
  obtain m where m: "tm_reach events ([], 0, []) m" "m_current m = Some 1"
    using two_start_running by blast
  from zero_sleep_has_no_timer [OF events_ok _ this, of 7] m(1) show ?thesis by auto
qed



end
