(* ===== verification/Pthread_Sync.thy ===== *)
theory Pthread_Sync
  imports Task_Runs
begin

text \<open>
  Mutexes (\<open>model/dce-pthread-mutex.cc\<close>), semaphores (\<open>model/dce-semaphore.cc\<close>) and condition
  variables (\<open>model/dce-pthread-cond.cc\<close>) of a simulated process, on top of the task manager.

  A call that has to wait puts its thread to sleep in the middle. The model cuts it there: the
  \<open>outcome\<close> of a call is the value it returns, or that it is suspended with a stack of
  \<open>frame\<close>s, the places where it and its callers go on when the thread runs again. A thread is named
  by its task. \<^term>\<open>None\<close> is a failed assertion or a wrong memory access.
\<close>

section \<open>The objects of a process\<close>

datatype mutex_type = NORMAL | RECURSIVE

record mutex =
  mid :: uint32
  mutex_type :: mutex_type
  m_count :: uint32
  m_waiting :: "task list"
  m_owner :: "task option"

record semaphore =
  sid :: uint32
  s_count :: uint32
  s_waiting :: "task list"

record condition =
  cid :: uint32
  c_waiting :: "task list"

text \<open>Where a suspended call goes on.\<close>

datatype frame = Lock_wait nat | Unlock_yield | Sem_wait nat | Sem_timedwait nat | Post_yield
  | Cond_unlocked nat addr | Cond_unlocked_timed nat addr time | Cond_woken addr
  | Cond_woken_timed addr | Cond_locked time

text \<open>
  \<open>mutex_at\<close>, \<open>sem_at\<close> and \<open>cond_at\<close> are the objects by their address, \<open>next_obj\<close> the next address
  \<open>new\<close> gives. \<open>user\<close> is the first word of the user's \<open>pthread_mutex_t\<close>, \<open>sem_t\<close> or
  \<open>pthread_cond_t\<close> and \<open>kind\<close> the \<open>__kind\<close> of a mutex. \<open>stack\<close> holds the frames of the
  suspended threads.
\<close>

record 'x process =
  mutex_at :: "nat \<rightharpoonup> mutex"
  mutexes :: "nat list"
  nextMid :: uint32
  sem_at :: "nat \<rightharpoonup> semaphore"
  semaphores :: "nat list"
  nextSid :: uint32
  cond_at :: "nat \<rightharpoonup> condition"
  conditions :: "nat list"
  nextCid :: uint32
  next_obj :: nat
  user :: "addr \<Rightarrow> uint32"
  kind :: "addr \<Rightarrow> int"
  err :: "task \<Rightarrow> errno option"
  stack :: "task \<Rightarrow> frame list"
  tm :: "'x task_manager"

definition new_process :: "'x task_manager \<Rightarrow> 'x process" where
  "new_process m = \<lparr>mutex_at = Map.empty, mutexes = [], nextMid = 3, sem_at = Map.empty,
     semaphores = [], nextSid = 3, cond_at = Map.empty, conditions = [], nextCid = 3, next_obj = 1,
     user = (\<lambda>a. 0), kind = (\<lambda>a. 0), err = (\<lambda>t. None), stack = (\<lambda>t. []), tm = m\<rparr>"

datatype 'p outcome = Returned int 'p | Suspended "frame list" 'p

text \<open>
  What a call runs in: the simulator, the time the delay model will report, and the word that
  \<open>std::list::front\<close> reads when the list is empty.
\<close>

record 'x call_env =
  simul :: "'x simulator"
  delay :: time
  empty_front :: "task option"

text \<open>The error numbers the pthread functions return.\<close>

fun errno_value :: "errno \<Rightarrow> int" where
  "errno_value EPERM = 1"
| "errno_value EAGAIN = 11"
| "errno_value EBUSY = 16"
| "errno_value EINVAL = 22"
| "errno_value EDEADLK = 35"
| "errno_value ETIMEDOUT = 110"
| "errno_value e = 0"

section \<open>The manager's calls\<close>

text \<open>\<open>DceManager::Wait\<close>, \<open>Wakeup\<close> and \<open>Yield\<close>.\<close>

definition dce_Wait :: "'x call_env \<Rightarrow> 'x process \<Rightarrow> 'x process option" where
  "dce_Wait C s = do { m \<leftarrow> Sleep (simul C) (delay C) (tm s); Some (s\<lparr>tm := m\<rparr>) }"

definition dce_Wait_timeout :: "'x call_env \<Rightarrow> time \<Rightarrow> 'x process \<Rightarrow> 'x process option" where
  "dce_Wait_timeout C timeout s =
     do { m \<leftarrow> Sleep_timeout (simul C) (delay C) timeout (tm s); Some (s\<lparr>tm := m\<rparr>) }"

definition dce_Wakeup :: "'x call_env \<Rightarrow> task \<Rightarrow> 'x process \<Rightarrow> 'x process option" where
  "dce_Wakeup C t s = do { m \<leftarrow> Wakeup (simul C) t (tm s); Some (s\<lparr>tm := m\<rparr>) }"

definition dce_Yield :: "'x call_env \<Rightarrow> 'x process \<Rightarrow> 'x process option" where
  "dce_Yield C s = do { m \<leftarrow> Yield (simul C) (delay C) (tm s); Some (s\<lparr>tm := m\<rparr>) }"

section \<open>Mutexes\<close>

definition PTHREAD_MUTEX_NORMAL :: int where "PTHREAD_MUTEX_NORMAL = 0"
definition PTHREAD_MUTEX_RECURSIVE :: int where "PTHREAD_MUTEX_RECURSIVE = 1"

definition MutexToMid :: "addr \<Rightarrow> 'x process \<Rightarrow> uint32" where
  "MutexToMid a s = (if a \<noteq> 0 then user s a else 0)"

definition new_mutex :: "mutex_type \<Rightarrow> addr \<Rightarrow> 'x process \<Rightarrow> 'x process" where
  "new_mutex ty a s =
     s\<lparr>mutex_at := (mutex_at s)(next_obj s \<mapsto>
         \<lparr>mid = nextMid s, mutex_type = ty, m_count = 0, m_waiting = [], m_owner = None\<rparr>),
       mutexes := mutexes s @ [next_obj s], nextMid := nextMid s + 1, next_obj := next_obj s + 1,
       user := (user s)(a := nextMid s)\<rparr>"

definition PthreadMutexInitStatic :: "addr \<Rightarrow> 'x process \<Rightarrow> 'x process" where
  "PthreadMutexInitStatic a s =
     new_mutex (if kind s a = PTHREAD_MUTEX_RECURSIVE then RECURSIVE else NORMAL) a s"

fun find_obj :: "(nat \<Rightarrow> uint32 option) \<Rightarrow> uint32 \<Rightarrow> nat list \<Rightarrow> nat option" where
  "find_obj ids i [] = None"
| "find_obj ids i (p # ps) = (if ids p = Some i then Some p else find_obj ids i ps)"

definition SearchMutex :: "addr \<Rightarrow> 'x process \<Rightarrow> nat option \<times> 'x process" where
  "SearchMutex a s =
     (if a = 0 then (None, s)
      else
        let s' = (if MutexToMid a s = 0 then PthreadMutexInitStatic a s else s) in
        (find_obj (\<lambda>p. map_option mid (mutex_at s' p)) (MutexToMid a s') (mutexes s'), s'))"

text \<open>\<open>attribute\<close> is the type in the attribute object, or \<^term>\<open>None\<close> for a null pointer.\<close>

definition dce_pthread_mutex_init :: "addr \<Rightarrow> int option \<Rightarrow> 'x process \<Rightarrow> 'x process outcome" where
  "dce_pthread_mutex_init a attribute s =
     (if a = 0 then Returned (errno_value EINVAL) s
      else case attribute of
        None \<Rightarrow> Returned 0 (new_mutex NORMAL a s)
      | Some ty \<Rightarrow>
          if ty \<noteq> PTHREAD_MUTEX_RECURSIVE \<and> ty \<noteq> PTHREAD_MUTEX_NORMAL then Returned (errno_value EINVAL) s
          else Returned 0 (new_mutex (if ty \<noteq> PTHREAD_MUTEX_RECURSIVE then NORMAL else RECURSIVE) a s))"

text \<open>
  The attribute objects: \<open>attr\<close> is the byte \<open>type\<close> of the attribute at each address, which cuts the
  kind it is given to 8 bits.
\<close>

definition dce_pthread_mutexattr_init :: "addr \<Rightarrow> (addr \<Rightarrow> byte) \<Rightarrow> int \<times> (addr \<Rightarrow> byte)" where
  "dce_pthread_mutexattr_init a attr =
     (if a = 0 then (errno_value EINVAL, attr) else (0, attr(a := word_of_int PTHREAD_MUTEX_NORMAL)))"

definition dce_pthread_mutexattr_destroy :: "addr \<Rightarrow> int" where
  "dce_pthread_mutexattr_destroy a = (if a = 0 then errno_value EINVAL else 0)"

definition dce_pthread_mutexattr_settype ::
  "addr \<Rightarrow> int \<Rightarrow> (addr \<Rightarrow> byte) \<Rightarrow> int \<times> (addr \<Rightarrow> byte)" where
  "dce_pthread_mutexattr_settype a k attr =
     (if a = 0 then (errno_value EINVAL, attr) else (0, attr(a := word_of_int k)))"

definition put_mutex :: "nat \<Rightarrow> mutex \<Rightarrow> 'x process \<Rightarrow> 'x process" where
  "put_mutex p x s = s\<lparr>mutex_at := (mutex_at s)(p \<mapsto> x)\<rparr>"

definition dce_pthread_mutex_destroy :: "addr \<Rightarrow> 'x process \<Rightarrow> 'x process outcome option" where
  "dce_pthread_mutex_destroy a s0 =
     (let (r, s) = SearchMutex a s0 in
      case r of
        None \<Rightarrow> Some (Returned (errno_value EINVAL) s)
      | Some p \<Rightarrow>
          do { x \<leftarrow> mutex_at s p;
               if m_owner x \<noteq> None \<or> m_waiting x \<noteq> [] then Some (Returned (errno_value EBUSY) s)
               else if m_count x \<noteq> 0 then None
               else Some (Returned 0 (s\<lparr>mutex_at := (mutex_at s)(p := None),
                      mutexes := remove1 p (mutexes s), user := (user s)(a := 2)\<rparr>)) })"

text \<open>The loop of \<open>dce_pthread_mutex_lock\<close>: wait in the queue of the mutex, or take it.\<close>

definition lock_loop :: "'x call_env \<Rightarrow> nat \<Rightarrow> task \<Rightarrow> 'x process \<Rightarrow> 'x process outcome option" where
  "lock_loop C p t s =
     do { x \<leftarrow> mutex_at s p;
          if m_owner x \<noteq> None then
            do { s' \<leftarrow> dce_Wait C (put_mutex p (x\<lparr>m_waiting := m_waiting x @ [t]\<rparr>) s);
                 Some (Suspended [Lock_wait p] s') }
          else Some (Returned 0 (put_mutex p (x\<lparr>m_owner := Some t, m_count := m_count x + 1\<rparr>) s)) }"

definition dce_pthread_mutex_lock :: "'x call_env \<Rightarrow> addr \<Rightarrow> 'x process \<Rightarrow> 'x process outcome option" where
  "dce_pthread_mutex_lock C a s0 =
     do { t \<leftarrow> m_current (tm s0);
          let (r, s) = SearchMutex a s0 in
          case r of
            None \<Rightarrow> Some (Returned (errno_value EINVAL) s)
          | Some p \<Rightarrow>
              do { x \<leftarrow> mutex_at s p;
                   if m_owner x = Some t then
                     (case mutex_type x of
                        RECURSIVE \<Rightarrow> Some (Returned 0 (put_mutex p (x\<lparr>m_count := m_count x + 1\<rparr>) s))
                      | NORMAL \<Rightarrow> Some (Returned (errno_value EDEADLK) s))
                   else lock_loop C p t s } }"

text \<open>A thread that waited leaves the queue of the mutex and goes back to the loop's test.\<close>

definition lock_woken :: "'x call_env \<Rightarrow> nat \<Rightarrow> task \<Rightarrow> 'x process \<Rightarrow> 'x process outcome option" where
  "lock_woken C p t s =
     do { x \<leftarrow> mutex_at s p;
          lock_loop C p t (put_mutex p (x\<lparr>m_waiting := filter (\<lambda>u. u \<noteq> t) (m_waiting x)\<rparr>) s) }"

definition dce_pthread_mutex_trylock :: "addr \<Rightarrow> 'x process \<Rightarrow> 'x process outcome option" where
  "dce_pthread_mutex_trylock a s0 =
     do { t \<leftarrow> m_current (tm s0);
          let (r, s) = SearchMutex a s0 in
          case r of
            None \<Rightarrow> Some (Returned (errno_value EINVAL) s)
          | Some p \<Rightarrow>
              do { x \<leftarrow> mutex_at s p;
                   Some (if m_owner x = None
                         then Returned 0 (put_mutex p (x\<lparr>m_owner := Some t, m_count := m_count x + 1\<rparr>) s)
                         else if mutex_type x = RECURSIVE \<and> m_owner x = Some t
                         then Returned 0 (put_mutex p (x\<lparr>m_count := m_count x + 1\<rparr>) s)
                         else Returned (errno_value EBUSY) s) } }"

definition dce_pthread_mutex_unlock :: "'x call_env \<Rightarrow> addr \<Rightarrow> 'x process \<Rightarrow> 'x process outcome option" where
  "dce_pthread_mutex_unlock C a s0 =
     do { t \<leftarrow> m_current (tm s0);
          let (r, s) = SearchMutex a s0 in
          case r of
            None \<Rightarrow> Some (Returned (errno_value EINVAL) s)
          | Some p \<Rightarrow>
              do { x \<leftarrow> mutex_at s p;
                   if m_owner x = None \<or> m_owner x \<noteq> Some t then Some (Returned (errno_value EPERM) s)
                   else if m_count x - 1 \<noteq> 0 then
                     Some (Returned 0 (put_mutex p (x\<lparr>m_count := m_count x - 1\<rparr>) s))
                   else
                     let s1 = put_mutex p (x\<lparr>m_count := 0, m_owner := None\<rparr>) s in
                     case (if m_waiting x = [] then empty_front C else Some (hd (m_waiting x))) of
                       None \<Rightarrow> Some (Returned 0 s1)
                     | Some w \<Rightarrow>
                         do { s2 \<leftarrow> dce_Wakeup C w s1;
                              s3 \<leftarrow> dce_Yield C s2;
                              Some (Suspended [Unlock_yield] s3) } } }"

section \<open>Semaphores\<close>

text \<open>A call that fails sets \<open>errno\<close> and returns -1.\<close>

definition fails :: "errno \<Rightarrow> task \<Rightarrow> 'x process \<Rightarrow> 'x process outcome" where
  "fails e t s = Returned (-1) (s\<lparr>err := (err s)(t := Some e)\<rparr>)"

definition put_sem :: "nat \<Rightarrow> semaphore \<Rightarrow> 'x process \<Rightarrow> 'x process" where
  "put_sem p x s = s\<lparr>sem_at := (sem_at s)(p \<mapsto> x)\<rparr>"

definition SearchSemaphore :: "addr \<Rightarrow> 'x process \<Rightarrow> nat option" where
  "SearchSemaphore a s =
     (if a = 0 then None else find_obj (\<lambda>p. map_option sid (sem_at s p)) (user s a) (semaphores s))"

definition dce_sem_init :: "addr \<Rightarrow> int \<Rightarrow> uint32 \<Rightarrow> 'x process \<Rightarrow> 'x process outcome option" where
  "dce_sem_init a pshared v s =
     do { t \<leftarrow> m_current (tm s);
          if pshared \<noteq> 0 then Some (fails ENOSYS t s)
          else Some (Returned 0
            (s\<lparr>sem_at := (sem_at s)(next_obj s \<mapsto> \<lparr>sid = nextSid s, s_count = v, s_waiting = []\<rparr>),
               semaphores := semaphores s @ [next_obj s], nextSid := nextSid s + 1,
               next_obj := next_obj s + 1, user := (user s)(a := nextSid s)\<rparr>)) }"

definition dce_sem_destroy :: "addr \<Rightarrow> 'x process \<Rightarrow> 'x process outcome option" where
  "dce_sem_destroy a s =
     do { t \<leftarrow> m_current (tm s);
          case SearchSemaphore a s of
            None \<Rightarrow> Some (fails EINVAL t s)
          | Some p \<Rightarrow>
              do { x \<leftarrow> sem_at s p;
                   if s_waiting x \<noteq> [] then None
                   else Some (Returned 0 (s\<lparr>sem_at := (sem_at s)(p := None),
                          semaphores := remove1 p (semaphores s), user := (user s)(a := 2)\<rparr>)) } }"

definition dce_sem_post :: "'x call_env \<Rightarrow> addr \<Rightarrow> 'x process \<Rightarrow> 'x process outcome option" where
  "dce_sem_post C a s =
     do { t \<leftarrow> m_current (tm s);
          case SearchSemaphore a s of
            None \<Rightarrow> Some (fails EINVAL t s)
          | Some p \<Rightarrow>
              do { x \<leftarrow> sem_at s p;
                   let s1 = put_sem p (x\<lparr>s_count := s_count x + 1\<rparr>) s in
                   case s_waiting x of
                     [] \<Rightarrow> Some (Returned 0 s1)
                   | w # ws \<Rightarrow>
                       do { s2 \<leftarrow> dce_Wakeup C w s1;
                            s3 \<leftarrow> dce_Yield C s2;
                            Some (Suspended [Post_yield] s3) } } }"

definition sem_loop :: "'x call_env \<Rightarrow> nat \<Rightarrow> task \<Rightarrow> 'x process \<Rightarrow> 'x process outcome option" where
  "sem_loop C p t s =
     do { x \<leftarrow> sem_at s p;
          if s_count x = 0 then
            do { s' \<leftarrow> dce_Wait C (put_sem p (x\<lparr>s_waiting := s_waiting x @ [t]\<rparr>) s);
                 Some (Suspended [Sem_wait p] s') }
          else Some (Returned 0 (put_sem p (x\<lparr>s_count := s_count x - 1\<rparr>) s)) }"

definition dce_sem_wait :: "'x call_env \<Rightarrow> addr \<Rightarrow> 'x process \<Rightarrow> 'x process outcome option" where
  "dce_sem_wait C a s =
     do { t \<leftarrow> m_current (tm s);
          case SearchSemaphore a s of
            None \<Rightarrow> Some (fails EINVAL t s)
          | Some p \<Rightarrow> sem_loop C p t s }"

definition leave_sem :: "nat \<Rightarrow> task \<Rightarrow> 'x process \<Rightarrow> 'x process option" where
  "leave_sem p t s =
     do { x \<leftarrow> sem_at s p; Some (put_sem p (x\<lparr>s_waiting := filter (\<lambda>u. u \<noteq> t) (s_waiting x)\<rparr>) s) }"

definition dce_sem_trywait :: "addr \<Rightarrow> 'x process \<Rightarrow> 'x process outcome option" where
  "dce_sem_trywait a s =
     do { t \<leftarrow> m_current (tm s);
          case SearchSemaphore a s of
            None \<Rightarrow> Some (fails EINVAL t s)
          | Some p \<Rightarrow>
              do { x \<leftarrow> sem_at s p;
                   Some (if s_count x = 0 then fails EAGAIN t s
                         else Returned 0 (put_sem p (x\<lparr>s_count := s_count x - 1\<rparr>) s)) } }"

definition sem_timed_loop :: "'x call_env \<Rightarrow> nat \<Rightarrow> task \<Rightarrow> time \<Rightarrow> 'x process \<Rightarrow> 'x process outcome option" where
  "sem_timed_loop C p t timeoutLeft s =
     do { x \<leftarrow> sem_at s p;
          if s_count x = 0 then
            do { s' \<leftarrow> dce_Wait_timeout C timeoutLeft (put_sem p (x\<lparr>s_waiting := s_waiting x @ [t]\<rparr>) s);
                 Some (Suspended [Sem_timedwait p] s') }
          else Some (Returned 0 (put_sem p (x\<lparr>s_count := s_count x - 1\<rparr>) s)) }"

text \<open>\<open>expirationTime\<close> is the deadline in simulation time.\<close>

definition dce_sem_timedwait :: "'x call_env \<Rightarrow> addr \<Rightarrow> time \<Rightarrow> 'x process \<Rightarrow> 'x process outcome option" where
  "dce_sem_timedwait C a expirationTime s =
     do { t \<leftarrow> m_current (tm s);
          case SearchSemaphore a s of
            None \<Rightarrow> Some (fails EINVAL t s)
          | Some p \<Rightarrow>
              do { x \<leftarrow> sem_at s p;
                   if s_count x > 0 then Some (Returned 0 (put_sem p (x\<lparr>s_count := s_count x - 1\<rparr>) s))
                   else if expirationTime \<le> Now (simul C) (sim (tm s)) then Some (fails ETIMEDOUT t s)
                   else sem_timed_loop C p t (expirationTime - Now (simul C) (sim (tm s))) s } }"

definition sem_timed_woken :: "'x call_env \<Rightarrow> nat \<Rightarrow> task \<Rightarrow> 'x process \<Rightarrow> 'x process outcome option" where
  "sem_timed_woken C p t s =
     do { s' \<leftarrow> leave_sem p t s;
          if time_left (tm s) = 0 then Some (fails ETIMEDOUT t s')
          else sem_timed_loop C p t (time_left (tm s)) s' }"

text \<open>The value \<open>dce_sem_getvalue\<close> stores, or \<^term>\<open>None\<close> where it fails.\<close>

definition dce_sem_getvalue :: "addr \<Rightarrow> 'x process \<Rightarrow> (uint32 option \<times> 'x process outcome) option" where
  "dce_sem_getvalue a s =
     do { t \<leftarrow> m_current (tm s);
          case SearchSemaphore a s of
            None \<Rightarrow> Some (None, fails EINVAL t s)
          | Some p \<Rightarrow> do { x \<leftarrow> sem_at s p; Some (Some (s_count x), Returned 0 s) } }"

end
