(* ===== verification/Pthread_Cond.thy ===== *)
theory Pthread_Cond
  imports Pthread_Sync
begin

text \<open>
  Condition variables, and the calls of the synchronisation functions as steps of a process: a
  thread that runs makes a call or goes on with the one it was suspended in.
\<close>

section \<open>Condition variables\<close>

definition CondToCid :: "addr \<Rightarrow> 'x process \<Rightarrow> uint32" where
  "CondToCid a s = (if a \<noteq> 0 then user s a else 0)"

definition PthreadCondInitStatic :: "addr \<Rightarrow> 'x process \<Rightarrow> nat \<times> 'x process" where
  "PthreadCondInitStatic a s =
     (next_obj s,
      s\<lparr>cond_at := (cond_at s)(next_obj s \<mapsto> \<lparr>cid = nextCid s, c_waiting = []\<rparr>),
        conditions := conditions s @ [next_obj s], nextCid := nextCid s + 1,
        next_obj := next_obj s + 1, user := (user s)(a := nextCid s)\<rparr>)"

definition SearchCondition :: "addr \<Rightarrow> 'x process \<Rightarrow> nat option \<times> 'x process" where
  "SearchCondition a s =
     (if a = 0 then (None, s)
      else if CondToCid a s = 0 then let (p, s') = PthreadCondInitStatic a s in (Some p, s')
      else (find_obj (\<lambda>p. map_option cid (cond_at s p)) (CondToCid a s) (conditions s), s))"

definition put_cond :: "nat \<Rightarrow> condition \<Rightarrow> 'x process \<Rightarrow> 'x process" where
  "put_cond p x s = s\<lparr>cond_at := (cond_at s)(p \<mapsto> x)\<rparr>"

definition dce_pthread_cond_init :: "addr \<Rightarrow> 'x process \<Rightarrow> 'x process outcome" where
  "dce_pthread_cond_init a s =
     (if a = 0 then Returned (errno_value EINVAL) s else Returned 0 (snd (PthreadCondInitStatic a s)))"

definition dce_pthread_cond_destroy :: "addr \<Rightarrow> 'x process \<Rightarrow> 'x process outcome" where
  "dce_pthread_cond_destroy a s0 =
     (let (r, s) = SearchCondition a s0 in
      case r of
        None \<Rightarrow> Returned (errno_value EINVAL) s
      | Some p \<Rightarrow> Returned 0 (s\<lparr>cond_at := (cond_at s)(p := None),
                  conditions := remove1 p (conditions s), user := (user s)(a := 2)\<rparr>))"

fun wake_all :: "'x call_env \<Rightarrow> task list \<Rightarrow> 'x process \<Rightarrow> 'x process option" where
  "wake_all C [] s = Some s"
| "wake_all C (t # ts) s = do { s' \<leftarrow> dce_Wakeup C t s; wake_all C ts s' }"

definition dce_pthread_cond_broadcast :: "'x call_env \<Rightarrow> addr \<Rightarrow> 'x process \<Rightarrow> 'x process outcome option" where
  "dce_pthread_cond_broadcast C a s0 =
     (let (r, s) = SearchCondition a s0 in
      case r of
        None \<Rightarrow> Some (Returned (errno_value EINVAL) s)
      | Some p \<Rightarrow>
          do { x \<leftarrow> cond_at s p;
               s1 \<leftarrow> wake_all C (c_waiting x) s;
               Some (Returned 0 (put_cond p (x\<lparr>c_waiting := []\<rparr>) s1)) })"

definition dce_pthread_cond_signal :: "'x call_env \<Rightarrow> addr \<Rightarrow> 'x process \<Rightarrow> 'x process outcome option" where
  "dce_pthread_cond_signal C a s0 =
     (let (r, s) = SearchCondition a s0 in
      case r of
        None \<Rightarrow> Some (Returned (errno_value EINVAL) s)
      | Some p \<Rightarrow>
          do { x \<leftarrow> cond_at s p;
               case c_waiting x of
                 [] \<Rightarrow> Some (Returned 0 s)
               | w # ws \<Rightarrow>
                   do { s1 \<leftarrow> dce_Wakeup C w s;
                        Some (Returned 0 (put_cond p (x\<lparr>c_waiting := ws\<rparr>) s1)) } })"

text \<open>
  \<open>dce_pthread_cond_wait\<close> and \<open>dce_pthread_cond_timedwait\<close> ignore what the unlock and the lock
  return; a suspended unlock or lock leaves the rest of the call on the stack.
\<close>

definition cond_unlocked :: "'x call_env \<Rightarrow> nat \<Rightarrow> addr \<Rightarrow> task \<Rightarrow> 'x process \<Rightarrow> 'x process outcome option" where
  "cond_unlocked C p m t s =
     do { x \<leftarrow> cond_at s p;
          s' \<leftarrow> dce_Wait C (put_cond p (x\<lparr>c_waiting := c_waiting x @ [t]\<rparr>) s);
          Some (Suspended [Cond_woken m] s') }"

definition cond_woken :: "'x call_env \<Rightarrow> addr \<Rightarrow> 'x process \<Rightarrow> 'x process outcome option" where
  "cond_woken C m s =
     do { r \<leftarrow> dce_pthread_mutex_lock C m s;
          Some (case r of Returned v s' \<Rightarrow> Returned 0 s' | Suspended fs s' \<Rightarrow> Suspended (fs @ [Cond_locked 1]) s') }"

definition dce_pthread_cond_wait :: "'x call_env \<Rightarrow> addr \<Rightarrow> addr \<Rightarrow> 'x process \<Rightarrow> 'x process outcome option" where
  "dce_pthread_cond_wait C a m s0 =
     do { t \<leftarrow> m_current (tm s0);
          let (r, s) = SearchCondition a s0 in
          case r of
            None \<Rightarrow> Some (Returned (errno_value EINVAL) s)
          | Some p \<Rightarrow>
              do { u \<leftarrow> dce_pthread_mutex_unlock C m s;
                   case u of Returned v s' \<Rightarrow> cond_unlocked C p m t s'
                   | Suspended fs s' \<Rightarrow> Some (Suspended (fs @ [Cond_unlocked p m]) s') } }"

definition cond_unlocked_timed ::
  "'x call_env \<Rightarrow> nat \<Rightarrow> addr \<Rightarrow> time \<Rightarrow> task \<Rightarrow> 'x process \<Rightarrow> 'x process outcome option" where
  "cond_unlocked_timed C p m timeout t s =
     do { x \<leftarrow> cond_at s p;
          s' \<leftarrow> dce_Wait_timeout C timeout (put_cond p (x\<lparr>c_waiting := c_waiting x @ [t]\<rparr>) s);
          Some (Suspended [Cond_woken_timed m] s') }"

definition timed_result :: "time \<Rightarrow> int" where
  "timed_result timeLeft = (if timeLeft = 0 then errno_value ETIMEDOUT else 0)"

definition cond_woken_timed :: "'x call_env \<Rightarrow> addr \<Rightarrow> 'x process \<Rightarrow> 'x process outcome option" where
  "cond_woken_timed C m s =
     (let timeLeft = time_left (tm s) in
      do { r \<leftarrow> dce_pthread_mutex_lock C m s;
           Some (case r of Returned v s' \<Rightarrow> Returned (timed_result timeLeft) s'
                 | Suspended fs s' \<Rightarrow> Suspended (fs @ [Cond_locked timeLeft]) s') })"

text \<open>\<open>abstime\<close> is the deadline in simulation time.\<close>

definition dce_pthread_cond_timedwait ::
  "'x call_env \<Rightarrow> addr \<Rightarrow> addr \<Rightarrow> time \<Rightarrow> 'x process \<Rightarrow> 'x process outcome option" where
  "dce_pthread_cond_timedwait C a m abstime s0 =
     do { t \<leftarrow> m_current (tm s0);
          let (r, s) = SearchCondition a s0 in
          case r of
            None \<Rightarrow> Some (Returned (errno_value EINVAL) s)
          | Some p \<Rightarrow>
              let timeout = max 0 (abstime - Now (simul C) (sim (tm s))) in
              do { u \<leftarrow> dce_pthread_mutex_unlock C m s;
                   case u of Returned v s' \<Rightarrow> cond_unlocked_timed C p m timeout t s'
                   | Suspended fs s' \<Rightarrow> Some (Suspended (fs @ [Cond_unlocked_timed p m timeout]) s') } }"

section \<open>Calls and their continuations\<close>

datatype sync_call = Mutex_init addr "int option" | Mutex_destroy addr | Mutex_lock addr
  | Mutex_trylock addr | Mutex_unlock addr
  | Sem_init addr int uint32 | Sem_destroy addr | Sem_post addr | Sem_wait_call addr | Sem_trywait addr
  | Sem_timedwait_call addr time
  | Cond_init addr | Cond_destroy addr | Cond_signal addr | Cond_broadcast addr
  | Cond_wait addr addr | Cond_timedwait addr addr time

fun exec_call :: "'x call_env \<Rightarrow> sync_call \<Rightarrow> 'x process \<Rightarrow> 'x process outcome option" where
  "exec_call C (Mutex_init a attribute) s = Some (dce_pthread_mutex_init a attribute s)"
| "exec_call C (Mutex_destroy a) s = dce_pthread_mutex_destroy a s"
| "exec_call C (Mutex_lock a) s = dce_pthread_mutex_lock C a s"
| "exec_call C (Mutex_trylock a) s = dce_pthread_mutex_trylock a s"
| "exec_call C (Mutex_unlock a) s = dce_pthread_mutex_unlock C a s"
| "exec_call C (Sem_init a pshared v) s = dce_sem_init a pshared v s"
| "exec_call C (Sem_destroy a) s = dce_sem_destroy a s"
| "exec_call C (Sem_post a) s = dce_sem_post C a s"
| "exec_call C (Sem_wait_call a) s = dce_sem_wait C a s"
| "exec_call C (Sem_trywait a) s = dce_sem_trywait a s"
| "exec_call C (Sem_timedwait_call a e) s = dce_sem_timedwait C a e s"
| "exec_call C (Cond_init a) s = Some (dce_pthread_cond_init a s)"
| "exec_call C (Cond_destroy a) s = Some (dce_pthread_cond_destroy a s)"
| "exec_call C (Cond_signal a) s = dce_pthread_cond_signal C a s"
| "exec_call C (Cond_broadcast a) s = dce_pthread_cond_broadcast C a s"
| "exec_call C (Cond_wait a m) s = dce_pthread_cond_wait C a m s"
| "exec_call C (Cond_timedwait a m e) s = dce_pthread_cond_timedwait C a m e s"

fun resume_frame :: "'x call_env \<Rightarrow> frame \<Rightarrow> task \<Rightarrow> 'x process \<Rightarrow> 'x process outcome option" where
  "resume_frame C (Lock_wait p) t s = lock_woken C p t s"
| "resume_frame C Unlock_yield t s = Some (Returned 0 s)"
| "resume_frame C (Sem_wait p) t s = do { s' \<leftarrow> leave_sem p t s; sem_loop C p t s' }"
| "resume_frame C (Sem_timedwait p) t s = sem_timed_woken C p t s"
| "resume_frame C Post_yield t s = Some (Returned 0 s)"
| "resume_frame C (Cond_unlocked p m) t s = cond_unlocked C p m t s"
| "resume_frame C (Cond_unlocked_timed p m timeout) t s = cond_unlocked_timed C p m timeout t s"
| "resume_frame C (Cond_woken m) t s = cond_woken C m s"
| "resume_frame C (Cond_woken_timed m) t s = cond_woken_timed C m s"
| "resume_frame C (Cond_locked timeLeft) t s = Some (Returned (timed_result timeLeft) s)"

text \<open>The innermost frame goes on; when it returns, so does the one below it.\<close>

fun resume_stack :: "'x call_env \<Rightarrow> frame list \<Rightarrow> task \<Rightarrow> 'x process \<Rightarrow> 'x process outcome option" where
  "resume_stack C [] t s = Some (Returned 0 s)"
| "resume_stack C (f # fs) t s =
     do { r \<leftarrow> resume_frame C f t s;
          case r of
            Returned v s' \<Rightarrow> (if fs = [] then Some (Returned v s') else resume_stack C fs t s')
          | Suspended gs s' \<Rightarrow> Some (Suspended (gs @ fs) s') }"

fun settle :: "task \<Rightarrow> 'x process outcome \<Rightarrow> 'x process" where
  "settle t (Returned v s) = s\<lparr>stack := (stack s)(t := [])\<rparr>"
| "settle t (Suspended fs s) = s\<lparr>stack := (stack s)(t := fs)\<rparr>"

text \<open>
  A step of a process: the running thread makes a call or goes on with one, or something else
  happens to the tasks of the node. No task is stopped in the middle of a call, and a thread in the
  middle of one does nothing else.
\<close>

inductive sync_step :: "'x call_env \<Rightarrow> 'x process \<Rightarrow> 'x process \<Rightarrow> bool" for C where
  call: "m_current (tm s) = Some t \<Longrightarrow> stack s t = [] \<Longrightarrow> exec_call C c s = Some r \<Longrightarrow>
    sync_step C s (settle t r)"
| resume: "m_current (tm s) = Some t \<Longrightarrow> stack s t \<noteq> [] \<Longrightarrow> resume_stack C (stack s t) t s = Some r \<Longrightarrow>
    sync_step C s (settle t r)"
| other: "tm_step (simul C) (tm s) m \<Longrightarrow> (\<And>t. m_current (tm s) = Some t \<Longrightarrow> stack s t = []) \<Longrightarrow>
    (\<And>t. stack s t \<noteq> [] \<Longrightarrow> tasks m t \<noteq> None) \<Longrightarrow> sync_step C s (s\<lparr>tm := m\<rparr>)"

inductive sync_reach :: "'x call_env \<Rightarrow> 'x \<Rightarrow> 'x process \<Rightarrow> bool" for C x where
  init: "sync_reach C x (new_process (TaskManager x))"
| step: "sync_reach C x s \<Longrightarrow> sync_step C s s' \<Longrightarrow> sync_reach C x s'"

end
