(* ===== verification/Thread_Manager.thy ===== *)
theory Thread_Manager
  imports Pthread_Cond
begin

text \<open>
  What the synchronisation functions need of the task manager, as the locale \<open>thread_manager\<close>, and
  the task manager as its provider.
\<close>

section \<open>The contract\<close>

locale thread_manager =
  fixes ok :: "'m \<Rightarrow> bool"
    and running :: "'m \<Rightarrow> task option"
    and alive :: "task \<Rightarrow> 'm \<Rightarrow> bool"
    and awake :: "task \<Rightarrow> 'm \<Rightarrow> bool"
    and sleep :: "'m \<Rightarrow> 'm option"
    and sleep_for :: "time \<Rightarrow> 'm \<Rightarrow> 'm option"
    and yield :: "'m \<Rightarrow> 'm option"
    and wakeup :: "task \<Rightarrow> 'm \<Rightarrow> 'm option"
  assumes running_alive: "ok m \<Longrightarrow> running m = Some t \<Longrightarrow> alive t m"
    and awake_alive: "awake t m \<Longrightarrow> alive t m"
    and wakeup: "ok m \<Longrightarrow> alive t m \<Longrightarrow> \<exists>m'. wakeup t m = Some m' \<and> ok m' \<and> running m' = running m
      \<and> awake t m' \<and> (\<forall>u. alive u m \<longrightarrow> alive u m') \<and> (\<forall>u. awake u m \<longrightarrow> awake u m')"
    and wakeup_alive: "wakeup t m = Some m' \<Longrightarrow> alive t m"
    and sleep: "ok m \<Longrightarrow> running m = Some t \<Longrightarrow> \<exists>m'. sleep m = Some m' \<and> ok m' \<and> running m' = None
      \<and> (\<forall>u. alive u m \<longrightarrow> alive u m') \<and> (\<forall>u. u \<noteq> t \<and> awake u m \<longrightarrow> awake u m')"
    and sleep_for: "ok m \<Longrightarrow> running m = Some t \<Longrightarrow> 0 \<le> d \<Longrightarrow> \<exists>m'. sleep_for d m = Some m' \<and> ok m' \<and> running m' = None
      \<and> (\<forall>u. alive u m \<longrightarrow> alive u m') \<and> (\<forall>u. u \<noteq> t \<and> awake u m \<longrightarrow> awake u m')"
    and yield: "ok m \<Longrightarrow> running m = Some t \<Longrightarrow> \<exists>m'. yield m = Some m' \<and> ok m' \<and> running m' = None
      \<and> (\<forall>u. alive u m \<longrightarrow> alive u m') \<and> (\<forall>u. awake u m \<longrightarrow> awake u m')"
begin

text \<open>What thread \<open>t\<close> does to the others: nobody disappears and nobody else falls asleep.\<close>

definition move :: "task \<Rightarrow> 'm \<Rightarrow> 'm \<Rightarrow> bool" where
  "move t m m' \<longleftrightarrow> ok m' \<and> (\<forall>u. alive u m \<longrightarrow> alive u m') \<and> (\<forall>u. u \<noteq> t \<and> awake u m \<longrightarrow> awake u m')"

lemma move_refl: "ok m \<Longrightarrow> move t m m"
  by (simp add: move_def)

lemma move_trans: "move t m m1 \<Longrightarrow> move t m1 m2 \<Longrightarrow> move t m m2"
  by (simp add: move_def)

lemma moveD: "move t m m' \<Longrightarrow> ok m'" "move t m m' \<Longrightarrow> alive u m \<Longrightarrow> alive u m'"
  "move t m m' \<Longrightarrow> u \<noteq> t \<Longrightarrow> awake u m \<Longrightarrow> awake u m'"
  by (auto simp: move_def)

lemma wakeup_move: "ok m \<Longrightarrow> wakeup u m = Some m' \<Longrightarrow> move t m m' \<and> running m' = running m \<and> awake u m'"
  using wakeup [of m u] wakeup_alive [of u m m'] by (auto simp: move_def)

lemma sleep_move: "ok m \<Longrightarrow> running m = Some t \<Longrightarrow> sleep m = Some m' \<Longrightarrow> move t m m' \<and> running m' = None"
  using sleep [of m t] by (auto simp: move_def)

lemma sleep_for_move:
  "ok m \<Longrightarrow> running m = Some t \<Longrightarrow> 0 \<le> d \<Longrightarrow> sleep_for d m = Some m' \<Longrightarrow> move t m m' \<and> running m' = None"
  using sleep_for [of m t d] by (auto simp: move_def)

lemma yield_move: "ok m \<Longrightarrow> running m = Some t \<Longrightarrow> yield m = Some m' \<Longrightarrow> move t m m' \<and> running m' = None"
  using yield [of m t] by (auto simp: move_def)

text \<open>The thread that is woken before a yield stays awake through it.\<close>

lemma wakeup_yield:
  assumes "ok m" and "running m = Some t" and "wakeup w m = Some m1" and "yield m1 = Some m2"
  shows "move t m m2 \<and> running m2 = None \<and> awake w m2"
proof -
  have a: "move t m m1 \<and> running m1 = running m \<and> awake w m1" by (rule wakeup_move [OF assms(1,3)])
  then have b: "move t m1 m2 \<and> running m2 = None"
    using yield_move [of m1 t m2] assms(2,4) by (simp add: move_def)
  have "awake w m2" using yield [of m1 t] a assms(2,4) by (auto simp: move_def)
  with a b move_trans show ?thesis by blast
qed

end

section \<open>The task manager provides it\<close>

definition alive_task :: "task \<Rightarrow> 'x task_manager \<Rightarrow> bool" where
  "alive_task t m \<longleftrightarrow> tasks m t \<noteq> None"

definition awake_task :: "task \<Rightarrow> 'x task_manager \<Rightarrow> bool" where
  "awake_task t m \<longleftrightarrow> (\<exists>k. tasks m t = Some k \<and> m_state k \<noteq> BLOCKED)"

text \<open>The invariant of the task manager for some way to read the simulator's state.\<close>

definition tm_ok :: "'x simulator \<Rightarrow> 'x task_manager \<Rightarrow> bool" where
  "tm_ok S m \<longleftrightarrow> (\<exists>pend used. simulator_ok S pend used \<and> tm_inv pend used m)"

lemma alive_awake_upd:
  "tasks m' = (tasks m)(t \<mapsto> k) \<Longrightarrow> alive_task u m \<Longrightarrow> alive_task u m'"
  "tasks m' = (tasks m)(t \<mapsto> k) \<Longrightarrow> u \<noteq> t \<or> m_state k \<noteq> BLOCKED \<Longrightarrow> awake_task u m \<Longrightarrow> awake_task u m'"
  by (auto simp: alive_task_def awake_task_def)

interpretation threads: thread_manager "tm_ok S" m_current alive_task awake_task
  "Sleep S d" "\<lambda>timeout. Sleep_timeout S d timeout" "Yield S d" "Wakeup S"
  for S d
proof (unfold_locales, goal_cases)
  case (1 m t)
  then obtain pend used where "tm_inv pend used m" by (auto simp: tm_ok_def)
  with 1(2) queue_running [of "tasks m" "active m" t "new_task m"] show ?case
    by (auto simp: tm_inv_def alive_task_def)
next
  case (2 t m)
  then show ?case by (auto simp: alive_task_def awake_task_def)
next
  case (3 m t)
  then obtain pend used k where S: "simulator_ok S pend used" and inv: "tm_inv pend used m"
    and k: "tasks m t = Some k" by (auto simp: tm_ok_def alive_task_def)
  from Wakeup_inv [OF S inv k] obtain m' k' where m': "Wakeup S t m = Some m'" "tm_inv pend used m'"
    "m_current m' = m_current m" "tasks m' t = Some k'" "m_state k' \<noteq> BLOCKED"
    "\<forall>u. u \<noteq> t \<longrightarrow> tasks m' u = tasks m u" by blast
  have "alive_task u m'" if "alive_task u m" for u
    using that m' by (cases "u = t") (auto simp: alive_task_def)
  moreover have "awake_task u m'" if "awake_task u m" for u
    using that m' by (cases "u = t") (auto simp: awake_task_def)
  ultimately show ?case using S m' by (auto simp: tm_ok_def awake_task_def)
next
  case (4 t m m')
  then show ?case by (auto simp: Wakeup_def alive_task_def bind_eq_Some_conv)
next
  case (5 m t)
  then obtain pend used where S: "simulator_ok S pend used" and inv: "tm_inv pend used m"
    by (auto simp: tm_ok_def)
  from Sleep_inv [OF S inv 5(2), of d] obtain m' where m': "Sleep S d m = Some m'" "tm_inv pend used m'"
    "m_current m' = None" "tasks m' = (tasks m)(t \<mapsto> (the (tasks m t))\<lparr>m_state := BLOCKED, m_fiber := In_Sleep\<rparr>)"
    by blast
  from alive_awake_upd [OF m'(4)] S m'(1-3) show ?case unfolding tm_ok_def by blast
next
  case (6 m t timeout)
  then obtain pend used where S: "simulator_ok S pend used" and inv: "tm_inv pend used m"
    by (auto simp: tm_ok_def)
  have "\<exists>m' k'. Sleep_timeout S d timeout m = Some m' \<and> tm_inv pend used m' \<and> m_current m' = None
      \<and> tasks m' t = Some k' \<and> (\<forall>u. u \<noteq> t \<longrightarrow> tasks m' u = tasks m u)"
    using Sleep_timeout_inv [OF S inv 6(2), of timeout d] Sleep_timeout_zero [OF S inv 6(2), of d] 6(3)
    by (cases "timeout = 0") auto
  then obtain m' k' where m': "Sleep_timeout S d timeout m = Some m'" "tm_inv pend used m'"
    "m_current m' = None" "tasks m' t = Some k'" "\<forall>u. u \<noteq> t \<longrightarrow> tasks m' u = tasks m u" by blast
  have "alive_task u m'" if "alive_task u m" for u
    using that m' by (cases "u = t") (auto simp: alive_task_def)
  moreover have "awake_task u m'" if "u \<noteq> t \<and> awake_task u m" for u
    using that m' by (auto simp: awake_task_def)
  ultimately show ?case using S m' by (auto simp: tm_ok_def)
next
  case (7 m t)
  then obtain pend used where S: "simulator_ok S pend used" and inv: "tm_inv pend used m"
    by (auto simp: tm_ok_def)
  from Yield_inv [OF S inv 7(2), of d] obtain m' where m': "Yield S d m = Some m'" "tm_inv pend used m'"
    "m_current m' = None" "tasks m' = (tasks m)(t \<mapsto> (the (tasks m t))\<lparr>m_state := ACTIVE, m_fiber := In_Yield\<rparr>)"
    by blast
  have "alive_task u m'" if "alive_task u m" for u using alive_awake_upd(1) [OF m'(4) that] .
  moreover have "awake_task u m'" if "awake_task u m" for u
    using alive_awake_upd(2) [OF m'(4) _ that] by simp
  ultimately show ?case using S m'(1-3) unfolding tm_ok_def by blast
qed

end
