(* ===== verification/Sync_Invariant.thy ===== *)
theory Sync_Invariant
  imports Thread_Manager
begin

text \<open>
  The invariant of the mutexes of a process: exactly the threads suspended in a lock are in the
  queue of its mutex, and no wakeup is lost: when a mutex is free and threads wait for it, one of
  them is awake.
\<close>

section \<open>The invariant\<close>

text \<open>The time a suspended \<open>pthread_cond_timedwait\<close> is going to wait is not negative.\<close>

fun frame_ok :: "frame \<Rightarrow> bool" where
  "frame_ok (Cond_unlocked_timed p m timeout) = (0 \<le> timeout)"
| "frame_ok f = True"

text \<open>Only the innermost call of a suspended thread can be a lock.\<close>

definition frames_ok :: "frame list \<Rightarrow> bool" where
  "frames_ok fs \<longleftrightarrow> list_all frame_ok fs \<and> list_all (\<lambda>f. \<forall>p. f \<noteq> Lock_wait p) (tl fs)"

lemma frames_ok_append:
  "frames_ok fs \<Longrightarrow> fs \<noteq> [] \<Longrightarrow> list_all frame_ok gs \<Longrightarrow> list_all (\<lambda>f. \<forall>p. f \<noteq> Lock_wait p) gs \<Longrightarrow>
   frames_ok (fs @ gs)"
  by (cases fs) (auto simp: frames_ok_def)

lemma frames_ok_single [simp]: "frames_ok [f] = frame_ok f" and frames_ok_Nil [simp]: "frames_ok []"
  by (simp_all add: frames_ok_def)

text \<open>\<open>others t\<close> is the invariant up to what thread \<open>t\<close>, which is in the middle of a call, has done.\<close>

definition others ::
  "'x simulator \<Rightarrow> task option \<Rightarrow> (nat \<rightharpoonup> mutex) \<Rightarrow> nat \<Rightarrow> (task \<Rightarrow> frame list) \<Rightarrow> 'x task_manager \<Rightarrow> bool" where
  "others S t M n st m \<longleftrightarrow>
     tm_ok S m
     \<and> (\<forall>p \<ge> n. M p = None)
     \<and> (\<forall>u. t \<noteq> Some u \<and> st u \<noteq> [] \<longrightarrow> alive_task u m)
     \<and> (\<forall>p x u. M p = Some x \<and> t \<noteq> Some u \<longrightarrow> (u \<in> set (m_waiting x) \<longleftrightarrow> (\<exists>fs. st u = Lock_wait p # fs)))
     \<and> (\<forall>u p fs. t \<noteq> Some u \<and> st u = Lock_wait p # fs \<longrightarrow> M p \<noteq> None)
     \<and> (\<forall>p x. M p = Some x \<and> m_owner x = None \<and> m_waiting x \<noteq> [] \<longrightarrow> (\<exists>u \<in> set (m_waiting x). awake_task u m))
     \<and> (\<forall>u. t \<noteq> Some u \<longrightarrow> frames_ok (st u))"

definition sync_inv :: "'x call_env \<Rightarrow> 'x process \<Rightarrow> bool" where
  "sync_inv C s \<longleftrightarrow> others (simul C) None (mutex_at s) (next_obj s) (stack s) (tm s)"

definition clean :: "task \<Rightarrow> (nat \<rightharpoonup> mutex) \<Rightarrow> bool" where
  "clean t M \<longleftrightarrow> (\<forall>p x. M p = Some x \<longrightarrow> t \<notin> set (m_waiting x))"

lemma othersD:
  assumes "others S t M n st m"
  shows "tm_ok S m" and "n \<le> p \<Longrightarrow> M p = None" and "t \<noteq> Some u \<Longrightarrow> st u \<noteq> [] \<Longrightarrow> alive_task u m"
    and "M p = Some x \<Longrightarrow> t \<noteq> Some u \<Longrightarrow> u \<in> set (m_waiting x) \<longleftrightarrow> (\<exists>fs. st u = Lock_wait p # fs)"
    and "t \<noteq> Some u \<Longrightarrow> st u = Lock_wait p # fs \<Longrightarrow> M p \<noteq> None"
    and "M p = Some x \<Longrightarrow> m_owner x = None \<Longrightarrow> m_waiting x \<noteq> [] \<Longrightarrow> \<exists>u \<in> set (m_waiting x). awake_task u m"
    and "t \<noteq> Some u \<Longrightarrow> frames_ok (st u)"
  using assms unfolding others_def by (blast, blast, blast, blast, blast, blast, blast)

lemma others_put:
  assumes o: "others S t M n st m" and x: "M p = Some x"
    and w: "\<forall>u. t \<noteq> Some u \<longrightarrow> (u \<in> set (m_waiting x') \<longleftrightarrow> u \<in> set (m_waiting x))"
    and a: "m_owner x' = None \<Longrightarrow> m_waiting x' \<noteq> [] \<Longrightarrow> \<exists>u \<in> set (m_waiting x'). awake_task u m"
  shows "others S t (M(p \<mapsto> x')) n st m"
proof -
  have n: "p < n" using othersD(2) [OF o, of p] x by (cases "p < n") auto
  show ?thesis unfolding others_def
  proof (intro conjI allI impI, goal_cases)
    case 1 then show ?case by (rule othersD(1) [OF o])
  next
    case (2 q) then show ?case using othersD(2) [OF o, of q] n by simp
  next
    case (3 u) then show ?case using othersD(3) [OF o] by blast
  next
    case (4 q y u) then show ?case
      using othersD(4) [OF o, of q _ u] w x by (auto split: if_splits)
  next
    case (5 u q fs) then show ?case using othersD(5) [OF o, of u q fs] by auto
  next
    case (6 q y) then show ?case using othersD(6) [OF o, of q y] a by (auto split: if_splits)
  next
    case (7 u) then show ?case using othersD(7) [OF o] by blast
  qed
qed

lemma others_new:
  assumes o: "others S t M n st m" and x: "m_waiting x = []"
  shows "others S t (M(n \<mapsto> x)) (n + 1) st m"
  unfolding others_def
proof (intro conjI allI impI, goal_cases)
  case 1 then show ?case by (rule othersD(1) [OF o])
next
  case (2 q) then show ?case using othersD(2) [OF o, of q] by simp
next
  case (3 u) then show ?case using othersD(3) [OF o] by blast
next
  case (4 q y u)
  then show ?case
    using othersD(4) [OF o, of q y u] othersD(5) [OF o, of u n] othersD(2) [OF o, of n] x
    by (auto split: if_splits)
next
  case (5 u q fs) then show ?case using othersD(5) [OF o, of u q fs] by auto
next
  case (6 q y) then show ?case using othersD(6) [OF o, of q y] x by (auto split: if_splits)
next
  case (7 u) then show ?case using othersD(7) [OF o] by blast
qed

lemma others_delete:
  assumes o: "others S t M n st m" and x: "M p = Some x" "m_waiting x = []"
  shows "others S t (M(p := None)) n st m"
  unfolding others_def
proof (intro conjI allI impI, goal_cases)
  case 1 then show ?case by (rule othersD(1) [OF o])
next
  case (2 q) then show ?case using othersD(2) [OF o, of q] by simp
next
  case (3 u) then show ?case using othersD(3) [OF o] by blast
next
  case (4 q y u) then show ?case using othersD(4) [OF o, of q y u] by (auto split: if_splits)
next
  case (5 u q fs)
  then have "q \<noteq> p" using othersD(4) [OF o x(1), of u] x(2) by auto
  with 5 show ?case using othersD(5) [OF o, of u q fs] by auto
next
  case (6 q y) then show ?case using othersD(6) [OF o, of q y] by (auto split: if_splits)
next
  case (7 u) then show ?case using othersD(7) [OF o] by blast
qed

text \<open>A move of thread \<open>t\<close> in the task manager.\<close>

lemma others_move:
  assumes o: "others S (Some t) M n st m" and mv: "threads.move S t m m'" and c: "clean t M"
  shows "others S (Some t) M n st m'"
  unfolding others_def
proof (intro conjI allI impI, goal_cases)
  case 1 then show ?case by (rule threads.moveD(1) [OF mv])
next
  case (2 p) then show ?case using othersD(2) [OF o, of p] by simp
next
  case (3 u) then show ?case using othersD(3) [OF o, of u] threads.moveD(2) [OF mv] by blast
next
  case (4 p x u) then show ?case using othersD(4) [OF o, of p x u] by blast
next
  case (5 u p fs) then show ?case using othersD(5) [OF o, of u p fs] by blast
next
  case (6 p x)
  then obtain u where u: "u \<in> set (m_waiting x)" "awake_task u m" using othersD(6) [OF o] by blast
  with c 6 have "u \<noteq> t" by (auto simp: clean_def)
  with u threads.moveD(3) [OF mv] show ?case by blast
next
  case (7 u) then show ?case using othersD(7) [OF o] by blast
qed

text \<open>The thread enters a call, and comes out of it or is suspended.\<close>

lemma others_enter:
  assumes o: "others S None M n st m" and h: "\<forall>p fs. st t \<noteq> Lock_wait p # fs"
  shows "others S (Some t) M n st m \<and> clean t M"
proof -
  have "others S (Some t) M n st m" using o unfolding others_def by blast
  moreover have "clean t M" using othersD(4) [OF o] h by (auto simp: clean_def)
  ultimately show ?thesis by blast
qed

definition at_frame :: "task \<Rightarrow> frame list \<Rightarrow> (nat \<rightharpoonup> mutex) \<Rightarrow> bool" where
  "at_frame t fs M \<longleftrightarrow>
     (\<forall>p x. M p = Some x \<longrightarrow> (t \<in> set (m_waiting x) \<longleftrightarrow> (\<exists>gs. fs = Lock_wait p # gs)))
     \<and> (\<forall>p gs. fs = Lock_wait p # gs \<longrightarrow> M p \<noteq> None) \<and> frames_ok fs"

lemma others_leave:
  assumes o: "others S (Some t) M n st m" and f: "at_frame t fs M" and a: "alive_task t m"
  shows "others S None M n (st(t := fs)) m"
  unfolding others_def
proof (intro conjI allI impI, goal_cases)
  case 1 then show ?case by (rule othersD(1) [OF o])
next
  case (2 p) then show ?case using othersD(2) [OF o, of p] by simp
next
  case (3 u) then show ?case using othersD(3) [OF o, of u] a by (auto split: if_splits)
next
  case (4 p x u) then show ?case
    using othersD(4) [OF o, of p x u] f by (cases "u = t") (auto simp: at_frame_def)
next
  case (5 u p fs) then show ?case
    using othersD(5) [OF o, of u p fs] f by (cases "u = t") (auto simp: at_frame_def)
next
  case (6 p x) then show ?case using othersD(6) [OF o, of p x] by blast
next
  case (7 u) then show ?case using othersD(7) [OF o, of u] f by (auto simp: at_frame_def)
qed

lemma clean_frame: "clean t M \<Longrightarrow> \<forall>p gs. fs \<noteq> Lock_wait p # gs \<Longrightarrow> frames_ok fs \<Longrightarrow> at_frame t fs M"
  by (auto simp: clean_def at_frame_def)

end
