(* ===== verification/Sync_Steps.thy ===== *)
theory Sync_Steps
  imports Sync_Invariant
begin

text \<open>
  Every call of the synchronisation functions keeps the invariant of the mutexes, and leaves the
  mutexes that another thread holds alone.
\<close>

section \<open>What a call may do\<close>

text \<open>A mutex that another thread holds stays held by it, with the same count.\<close>

definition kept :: "task \<Rightarrow> (nat \<rightharpoonup> mutex) \<Rightarrow> (nat \<rightharpoonup> mutex) \<Rightarrow> bool" where
  "kept t M M' \<longleftrightarrow> (\<forall>p x u. M p = Some x \<and> m_owner x = Some u \<and> u \<noteq> t \<longrightarrow>
     (\<exists>x'. M' p = Some x' \<and> m_owner x' = Some u \<and> m_count x' = m_count x))"

lemma kept_refl: "kept t M M"
  by (simp add: kept_def)

lemma kept_trans: "kept t M M1 \<Longrightarrow> kept t M1 M2 \<Longrightarrow> kept t M M2"
  unfolding kept_def by metis

lemma kept_delete: "M p = Some x \<Longrightarrow> m_owner x = None \<Longrightarrow> kept t M (M(p := None))"
  by (auto simp: kept_def)

lemma kept_new: "M n = None \<Longrightarrow> kept t M (M(n \<mapsto> x))"
  by (auto simp: kept_def)

definition inside :: "'x call_env \<Rightarrow> task \<Rightarrow> 'x process \<Rightarrow> bool" where
  "inside C t s \<longleftrightarrow> others (simul C) (Some t) (mutex_at s) (next_obj s) (stack s) (tm s)
     \<and> clean t (mutex_at s) \<and> m_current (tm s) = Some t"

fun good :: "'x call_env \<Rightarrow> task \<Rightarrow> (nat \<rightharpoonup> mutex) \<Rightarrow> 'x process outcome \<Rightarrow> bool" where
  "good C t M (Returned v s') \<longleftrightarrow> inside C t s' \<and> kept t M (mutex_at s')"
| "good C t M (Suspended fs s') \<longleftrightarrow>
     others (simul C) (Some t) (mutex_at s') (next_obj s') (stack s') (tm s') \<and> alive_task t (tm s')
     \<and> at_frame t fs (mutex_at s') \<and> fs \<noteq> [] \<and> kept t M (mutex_at s')"

lemma good_kept: "good C t M1 r \<Longrightarrow> kept t M M1 \<Longrightarrow> good C t M r"
  by (cases r) (auto intro: kept_trans)

lemma insideD:
  assumes "inside C t s"
  shows "others (simul C) (Some t) (mutex_at s) (next_obj s) (stack s) (tm s)" and "clean t (mutex_at s)"
    and "m_current (tm s) = Some t" and "tm_ok (simul C) (tm s)" and "alive_task t (tm s)"
  using assms othersD(1) [of "simul C" "Some t" "mutex_at s" "next_obj s" "stack s" "tm s"]
    threads.running_alive [of "simul C" "tm s" t]
  by (auto simp: inside_def)

text \<open>What the state of a process shares with another that differs in other parts only.\<close>

lemma inside_cong:
  "inside C t s \<Longrightarrow> mutex_at s' = mutex_at s \<Longrightarrow> next_obj s' = next_obj s \<Longrightarrow> stack s' = stack s \<Longrightarrow>
   tm s' = tm s \<Longrightarrow> inside C t s'"
  by (simp add: inside_def)

lemma inside_alloc:
  assumes "inside C t s" and "mutex_at s' = mutex_at s" and "next_obj s' = next_obj s + 1" and "stack s' = stack s"
    and "tm s' = tm s"
  shows "inside C t s'"
proof -
  have "others (simul C) (Some t) (mutex_at s) (next_obj s + 1) (stack s) (tm s)"
    using insideD(1) [OF assms(1)] unfolding others_def by (elim conjE) (intro conjI; simp)
  then show ?thesis using assms by (simp add: inside_def)
qed

section \<open>Waiting and waking\<close>

lemma Wait_move:
  assumes "inside C t s" and "dce_Wait C s' = Some s2" and "tm s' = tm s"
  shows "\<exists>m. s2 = s'\<lparr>tm := m\<rparr> \<and> threads.move (simul C) t (tm s) m"
  using assms(2) threads.sleep_move [OF insideD(4,3) [OF assms(1)]] assms(3)
  by (auto simp: dce_Wait_def bind_eq_Some_conv)

lemma Wait_timeout_move:
  assumes "inside C t s" and "dce_Wait_timeout C d s' = Some s2" and "tm s' = tm s" and "0 \<le> d"
  shows "\<exists>m. s2 = s'\<lparr>tm := m\<rparr> \<and> threads.move (simul C) t (tm s) m"
  using assms(2) threads.sleep_for_move [OF insideD(4,3) [OF assms(1)] assms(4)] assms(3)
  by (auto simp: dce_Wait_timeout_def bind_eq_Some_conv)

lemma Wakeup_move:
  assumes "inside C t s" and "dce_Wakeup C w s' = Some s2" and "tm s' = tm s"
  shows "\<exists>m. s2 = s'\<lparr>tm := m\<rparr> \<and> threads.move (simul C) t (tm s) m \<and> m_current m = Some t"
  using assms(2) threads.wakeup_move [OF insideD(4) [OF assms(1)]] insideD(3) [OF assms(1)] assms(3)
  by (auto simp: dce_Wakeup_def bind_eq_Some_conv)

lemma Wakeup_Yield_move:
  assumes i: "inside C t s" and w: "dce_Wakeup C w s' = Some s1" and y: "dce_Yield C s1 = Some s2" and e: "tm s' = tm s"
  shows "\<exists>m. s2 = s'\<lparr>tm := m\<rparr> \<and> threads.move (simul C) t (tm s) m \<and> awake_task w m"
proof -
  obtain m1 where m1: "Wakeup (simul C) w (tm s) = Some m1" "s1 = s'\<lparr>tm := m1\<rparr>"
    using w e by (auto simp: dce_Wakeup_def bind_eq_Some_conv)
  obtain m2 where m2: "Yield (simul C) (delay C) m1 = Some m2" "s2 = s1\<lparr>tm := m2\<rparr>"
    using y m1(2) by (auto simp: dce_Yield_def bind_eq_Some_conv)
  from threads.wakeup_yield [OF insideD(4,3) [OF i] m1(1) m2(1)] m1(2) m2(2) show ?thesis by auto
qed

text \<open>A call that sleeps after it has changed nothing of the mutexes.\<close>

lemma good_suspended:
  assumes i: "inside C t s" and mv: "threads.move (simul C) t (tm s) m"
    and s': "s' = s0\<lparr>tm := m\<rparr>" "mutex_at s0 = mutex_at s" "next_obj s0 = next_obj s" "stack s0 = stack s"
    and fs: "fs \<noteq> []" "\<forall>p gs. fs \<noteq> Lock_wait p # gs" "frames_ok fs"
  shows "good C t (mutex_at s) (Suspended fs s')"
  using others_move [OF insideD(1) [OF i] mv insideD(2) [OF i]] clean_frame [OF insideD(2) [OF i] fs(2,3)]
    threads.moveD(2) [OF mv insideD(5) [OF i]] s' fs(1) kept_refl
  by simp

lemma good_same:
  "inside C t s \<Longrightarrow> mutex_at s' = mutex_at s \<Longrightarrow> next_obj s' = next_obj s \<Longrightarrow> stack s' = stack s \<Longrightarrow>
   tm s' = tm s \<Longrightarrow> good C t (mutex_at s) (Returned v s')"
  using inside_cong kept_refl by auto

section \<open>Mutexes\<close>

lemma new_mutex_inside:
  assumes i: "inside C t s"
  shows "inside C t (new_mutex ty a s)" and "kept t (mutex_at s) (mutex_at (new_mutex ty a s))"
proof -
  have none: "mutex_at s (next_obj s) = None" using othersD(2) [OF insideD(1) [OF i]] by simp
  show "kept t (mutex_at s) (mutex_at (new_mutex ty a s))"
    using kept_new [of "mutex_at s" "next_obj s", OF none] by (simp add: new_mutex_def)
  have "clean t (mutex_at (new_mutex ty a s))"
    using insideD(2) [OF i] by (auto simp: new_mutex_def clean_def)
  then show "inside C t (new_mutex ty a s)"
    using others_new [OF insideD(1) [OF i], of "\<lparr>mid = nextMid s, mutex_type = ty, m_count = 0, m_waiting = [], m_owner = None\<rparr>"]
      insideD(3) [OF i] by (simp add: inside_def new_mutex_def)
qed

lemma SearchMutex_inside:
  assumes i: "inside C t s" and r: "SearchMutex a s = (r, s')"
  shows "inside C t s'" and "kept t (mutex_at s) (mutex_at s')"
  using r i new_mutex_inside [OF i] kept_refl
  by (auto simp: SearchMutex_def PthreadMutexInitStatic_def Let_def split: if_splits)

text \<open>An object is replaced; the waiting threads stay.\<close>

lemma inside_put:
  assumes i: "inside C t s" and x: "mutex_at s p = Some x" and w: "m_waiting x' = m_waiting x"
    and o: "m_owner x' \<noteq> None"
  shows "inside C t (put_mutex p x' s)"
proof -
  have "clean t ((mutex_at s)(p \<mapsto> x'))" using insideD(2) [OF i] x w by (auto simp: clean_def)
  then show ?thesis
    using others_put [OF insideD(1) [OF i] x, of x'] insideD(3) [OF i] w o by (simp add: inside_def put_mutex_def)
qed

lemma lock_loop_good:
  assumes o: "others (simul C) (Some t) M (next_obj s) (stack s) (tm s)" and c: "clean t M" and cur: "m_current (tm s) = Some t"
    and x: "M p = Some x0" "mutex_at s = M(p \<mapsto> x)" "m_owner x = m_owner x0" "m_count x = m_count x0"
    and w: "\<forall>u. u \<noteq> t \<longrightarrow> (u \<in> set (m_waiting x) \<longleftrightarrow> u \<in> set (m_waiting x0))" "t \<notin> set (m_waiting x)"
    and r: "lock_loop C p t s = Some r"
  shows "good C t (mutex_at s) r"
proof (cases "m_owner x")
  case (Some u)
  let ?x = "x\<lparr>m_waiting := m_waiting x @ [t]\<rparr>"
  obtain s' where s': "dce_Wait C (put_mutex p ?x s) = Some s'" "r = Suspended [Lock_wait p] s'"
    using r x(2) Some by (auto simp: lock_loop_def bind_eq_Some_conv)
  obtain m where m: "s' = (put_mutex p ?x s)\<lparr>tm := m\<rparr>" "threads.move (simul C) t (tm s) m"
    using s'(1) threads.sleep_move [OF othersD(1) [OF o] cur]
    by (auto simp: dce_Wait_def put_mutex_def bind_eq_Some_conv)
  have "others (simul C) (Some t) (M(p \<mapsto> ?x)) (next_obj s) (stack s) m"
    by (rule others_put [OF others_move [OF o m(2) c] x(1)]) (use w Some in auto)
  moreover have "at_frame t [Lock_wait p] (M(p \<mapsto> ?x))"
    using c by (auto simp: at_frame_def clean_def)
  moreover have "kept t (mutex_at s) (M(p \<mapsto> ?x))" unfolding x(2) by (auto simp: kept_def)
  moreover have "alive_task t m"
    using threads.moveD(2) [OF m(2)] threads.running_alive [OF othersD(1) [OF o] cur] by blast
  ultimately show ?thesis by (simp add: s'(2) m(1) put_mutex_def x(2))
next
  case None
  let ?x = "x\<lparr>m_owner := Some t, m_count := m_count x + 1\<rparr>"
  have r': "r = Returned 0 (put_mutex p ?x s)" using r x(2) None by (simp add: lock_loop_def)
  have "others (simul C) (Some t) (M(p \<mapsto> ?x)) (next_obj s) (stack s) (tm s)"
    by (rule others_put [OF o x(1)]) (use w in auto)
  moreover have "clean t (M(p \<mapsto> ?x))" using c w(2) by (auto simp: clean_def)
  moreover have "kept t (mutex_at s) (M(p \<mapsto> ?x))" unfolding x(2) using None by (auto simp: kept_def)
  ultimately show ?thesis using cur by (simp add: r' inside_def put_mutex_def x(2))
qed

lemma lock_good:
  assumes i: "inside C t s" and r: "dce_pthread_mutex_lock C a s = Some r"
  shows "good C t (mutex_at s) r"
proof -
  obtain q s1 where q: "SearchMutex a s = (q, s1)" by (cases "SearchMutex a s")
  note i1 = SearchMutex_inside [OF i q]
  have cur: "m_current (tm s) = Some t" by (rule insideD(3) [OF i])
  have "good C t (mutex_at s1) r"
  proof (cases q)
    case None
    with r q cur i1(1) kept_refl show ?thesis by (auto simp: dce_pthread_mutex_lock_def)
  next
    case (Some p)
    with r q cur obtain x where x: "mutex_at s1 p = Some x"
      by (auto simp: dce_pthread_mutex_lock_def bind_eq_Some_conv)
    show ?thesis
    proof (cases "m_owner x = Some t")
      case True
      have "kept t (mutex_at s1) ((mutex_at s1)(p \<mapsto> x\<lparr>m_count := m_count x + 1\<rparr>))"
        using x True by (auto simp: kept_def)
      with r q cur Some x True i1(1) inside_put [OF i1(1) x, of "x\<lparr>m_count := m_count x + 1\<rparr>"] kept_refl
      show ?thesis by (auto simp: dce_pthread_mutex_lock_def put_mutex_def split: mutex_type.splits)
    next
      case False
      then have "lock_loop C p t s1 = Some r" using r q cur Some x by (simp add: dce_pthread_mutex_lock_def)
      moreover have "mutex_at s1 = (mutex_at s1)(p \<mapsto> x)" using x by (simp add: fun_upd_idem)
      moreover have "t \<notin> set (m_waiting x)" using insideD(2) [OF i1(1)] x by (auto simp: clean_def)
      ultimately show ?thesis
        using lock_loop_good [OF insideD(1,2,3) [OF i1(1)] x] by simp
    qed
  qed
  then show ?thesis by (rule good_kept [OF _ i1(2)])
qed

text \<open>A thread that was suspended in a lock takes itself out of the queue first.\<close>

lemma lock_woken_good:
  assumes o: "others (simul C) None (mutex_at s) (next_obj s) (stack s) (tm s)" and cur: "m_current (tm s) = Some t"
    and st: "stack s t = Lock_wait p # fs" and r: "lock_woken C p t s = Some r"
  shows "good C t (mutex_at s) r"
proof -
  obtain x where x: "mutex_at s p = Some x" using r by (auto simp: lock_woken_def bind_eq_Some_conv)
  let ?x = "x\<lparr>m_waiting := filter (\<lambda>u. u \<noteq> t) (m_waiting x)\<rparr>"
  let ?s = "put_mutex p ?x s"
  have r': "lock_loop C p t ?s = Some r" using r x by (simp add: lock_woken_def)
  show ?thesis
  proof (cases "m_owner x")
    case (Some u)
    \<comment> \<open>The mutex is taken: the thread goes back to the end of the queue.\<close>
    let ?y = "?x\<lparr>m_waiting := m_waiting ?x @ [t]\<rparr>"
    obtain s' where s': "dce_Wait C (put_mutex p ?y ?s) = Some s'" "r = Suspended [Lock_wait p] s'"
      using r' Some by (auto simp: lock_loop_def put_mutex_def bind_eq_Some_conv)
    obtain m where m: "s' = (put_mutex p ?y ?s)\<lparr>tm := m\<rparr>" "threads.move (simul C) t (tm s) m"
      using s'(1) threads.sleep_move [OF othersD(1) [OF o] cur]
      by (auto simp: dce_Wait_def put_mutex_def bind_eq_Some_conv)
    have w: "u \<in> set (m_waiting z) \<longleftrightarrow> (\<exists>fs. stack s u = Lock_wait q # fs)" if "mutex_at s q = Some z" for q z u
      using othersD(4) [OF o that] by simp
    have "others (simul C) (Some t) ((mutex_at s)(p \<mapsto> ?y)) (next_obj s) (stack s) m"
      unfolding others_def
    proof (intro conjI allI impI, goal_cases)
      case 1 then show ?case by (rule threads.moveD(1) [OF m(2)])
    next
      case (2 q)
      then show ?case using othersD(2) [OF o, of q] othersD(2) [OF o, of p] x by (cases "q = p") auto
    next
      case (3 u) then show ?case using othersD(3) [OF o, of u] threads.moveD(2) [OF m(2)] by blast
    next
      case (4 q y u) then show ?case using w [OF x] w [of q] by (auto split: if_splits)
    next
      case (5 u q gs) then show ?case using othersD(5) [OF o, of u q gs] by auto
    next
      case (6 q y)
      then have q: "mutex_at s q = Some y" "q \<noteq> p" using Some by (auto split: if_splits)
      with 6 obtain u where u: "u \<in> set (m_waiting y)" "awake_task u (tm s)"
        using othersD(6) [OF o q(1)] by blast
      with w [OF q(1), of u] st q(2) have "u \<noteq> t" by auto
      with u threads.moveD(3) [OF m(2)] show ?case by blast
    next
      case (7 u) then show ?case using othersD(7) [OF o] by blast
    qed
    moreover have "at_frame t [Lock_wait p] ((mutex_at s)(p \<mapsto> ?y))"
      using w st by (auto simp: at_frame_def split: if_splits)
    moreover have "kept t (mutex_at s) ((mutex_at s)(p \<mapsto> ?y))" using x by (auto simp: kept_def)
    moreover have "alive_task t m"
      using threads.moveD(2) [OF m(2)] threads.running_alive [OF othersD(1) [OF o] cur] by blast
    ultimately show ?thesis by (simp add: s'(2) m(1) put_mutex_def)
  next
    case None
    let ?y = "?x\<lparr>m_owner := Some t, m_count := m_count x + 1\<rparr>"
    have r2: "r = Returned 0 (put_mutex p ?y ?s)" using r' None by (simp add: lock_loop_def put_mutex_def)
    have w: "u \<in> set (m_waiting z) \<longleftrightarrow> (\<exists>fs. stack s u = Lock_wait q # fs)" if "mutex_at s q = Some z" for q z u
      using othersD(4) [OF o that] by simp
    have o': "others (simul C) (Some t) (mutex_at s) (next_obj s) (stack s) (tm s)"
      using o unfolding others_def by blast
    have "others (simul C) (Some t) ((mutex_at s)(p \<mapsto> ?y)) (next_obj s) (stack s) (tm s)"
      by (rule others_put [OF o' x]) auto
    moreover have "clean t ((mutex_at s)(p \<mapsto> ?y))"
      using w st by (auto simp: clean_def split: if_splits)
    moreover have "kept t (mutex_at s) ((mutex_at s)(p \<mapsto> ?y))" using x None by (auto simp: kept_def)
    ultimately show ?thesis using cur by (simp add: r2 inside_def put_mutex_def)
  qed
qed

lemma trylock_good:
  assumes i: "inside C t s" and r: "dce_pthread_mutex_trylock a s = Some r"
  shows "good C t (mutex_at s) r"
proof -
  obtain q s1 where q: "SearchMutex a s = (q, s1)" by (cases "SearchMutex a s")
  note i1 = SearchMutex_inside [OF i q]
  have cur: "m_current (tm s) = Some t" by (rule insideD(3) [OF i])
  have "good C t (mutex_at s1) r"
  proof (cases q)
    case None
    with r q cur i1(1) kept_refl show ?thesis by (auto simp: dce_pthread_mutex_trylock_def)
  next
    case (Some p)
    with r q cur obtain x where x: "mutex_at s1 p = Some x"
      by (auto simp: dce_pthread_mutex_trylock_def bind_eq_Some_conv)
    have put: "inside C t (put_mutex p (x\<lparr>m_owner := Some t, m_count := c\<rparr>) s1)" for c
      by (rule inside_put [OF i1(1) x]) simp_all
    have put2: "inside C t (put_mutex p (x\<lparr>m_count := c\<rparr>) s1)" if "m_owner x \<noteq> None" for c
      by (rule inside_put [OF i1(1) x]) (use that in simp_all)
    have k: "kept t (mutex_at s1) (mutex_at (put_mutex p (x\<lparr>m_owner := Some t, m_count := c\<rparr>) s1))" if "m_owner x = None" for c
      using x that by (auto simp: kept_def put_mutex_def)
    have k2: "kept t (mutex_at s1) (mutex_at (put_mutex p (x\<lparr>m_count := c\<rparr>) s1))" if "m_owner x = Some t" for c
      using x that by (auto simp: kept_def put_mutex_def)
    show ?thesis
      using r q cur Some x put put2 k k2 i1(1) kept_refl
      by (auto simp: dce_pthread_mutex_trylock_def split: if_splits)
  qed
  then show ?thesis by (rule good_kept [OF _ i1(2)])
qed

lemma destroy_good:
  assumes i: "inside C t s" and r: "dce_pthread_mutex_destroy a s = Some r"
  shows "good C t (mutex_at s) r"
proof -
  obtain q s1 where q: "SearchMutex a s = (q, s1)" by (cases "SearchMutex a s")
  note i1 = SearchMutex_inside [OF i q]
  have "good C t (mutex_at s1) r"
  proof (cases q)
    case None
    with r q i1(1) kept_refl show ?thesis by (auto simp: dce_pthread_mutex_destroy_def)
  next
    case (Some p)
    with r q obtain x where x: "mutex_at s1 p = Some x"
      by (auto simp: dce_pthread_mutex_destroy_def bind_eq_Some_conv)
    show ?thesis
    proof (cases "m_owner x \<noteq> None \<or> m_waiting x \<noteq> []")
      case True
      with r q Some x i1(1) kept_refl show ?thesis by (auto simp: dce_pthread_mutex_destroy_def)
    next
      case False
      then have f: "m_owner x = None" "m_waiting x = []" by auto
      have "clean t ((mutex_at s1)(p := None))" using insideD(2) [OF i1(1)] by (auto simp: clean_def)
      with others_delete [OF insideD(1) [OF i1(1)] x f(2)] insideD(3) [OF i1(1)]
      have "inside C t (s1\<lparr>mutex_at := (mutex_at s1)(p := None), mutexes := m, user := us\<rparr>)" for m us
        by (simp add: inside_def)
      moreover have "kept t (mutex_at s1) ((mutex_at s1)(p := None))"
        by (rule kept_delete [of "mutex_at s1", OF x f(1)])
      ultimately show ?thesis
        using r q Some x f by (auto simp: dce_pthread_mutex_destroy_def split: if_splits)
    qed
  qed
  then show ?thesis by (rule good_kept [OF _ i1(2)])
qed

text \<open>The first waiting thread is awake when the mutex becomes free.\<close>

lemma unlock_good:
  assumes i: "inside C t s" and r: "dce_pthread_mutex_unlock C a s = Some r"
  shows "good C t (mutex_at s) r"
proof -
  obtain q s1 where q: "SearchMutex a s = (q, s1)" by (cases "SearchMutex a s")
  note i1 = SearchMutex_inside [OF i q]
  have cur: "m_current (tm s) = Some t" by (rule insideD(3) [OF i])
  have "good C t (mutex_at s1) r"
  proof (cases q)
    case None
    with r q cur i1(1) kept_refl show ?thesis by (auto simp: dce_pthread_mutex_unlock_def)
  next
    case (Some p)
    with r q cur obtain x where x: "mutex_at s1 p = Some x"
      by (auto simp: dce_pthread_mutex_unlock_def bind_eq_Some_conv)
    let ?x = "x\<lparr>m_count := 0, m_owner := None\<rparr>"
    let ?s = "put_mutex p ?x s1"
    consider (perm) "m_owner x \<noteq> Some t" | (rec) "m_owner x = Some t" "m_count x - 1 \<noteq> 0"
      | (free) "m_owner x = Some t" "m_count x - 1 = 0" by blast
    then show ?thesis
    proof cases
      case perm
      with r q cur Some x i1(1) kept_refl show ?thesis by (auto simp: dce_pthread_mutex_unlock_def)
    next
      case rec
      have "inside C t (put_mutex p (x\<lparr>m_count := m_count x - 1\<rparr>) s1)"
        by (rule inside_put [OF i1(1) x]) (use rec in simp_all)
      moreover have "kept t (mutex_at s1) (mutex_at (put_mutex p (x\<lparr>m_count := m_count x - 1\<rparr>) s1))"
        using x rec by (auto simp: kept_def put_mutex_def)
      ultimately show ?thesis
        using r q cur Some x rec by (auto simp: dce_pthread_mutex_unlock_def)
    next
      case free
      have k: "kept t (mutex_at s1) ((mutex_at s1)(p \<mapsto> ?x))" using x free by (auto simp: kept_def)
      have c: "clean t ((mutex_at s1)(p \<mapsto> ?x))" using insideD(2) [OF i1(1)] x by (auto simp: clean_def)
      let ?w = "if m_waiting x = [] then empty_front C else Some (hd (m_waiting x))"
      show ?thesis
      proof (cases ?w)
        case None
        then have "m_waiting x = []" by (auto split: if_splits)
        then have "others (simul C) (Some t) ((mutex_at s1)(p \<mapsto> ?x)) (next_obj s1) (stack s1) (tm s1)"
          by (intro others_put [OF insideD(1) [OF i1(1)] x]) simp_all
        with c insideD(3) [OF i1(1)] have "inside C t ?s" by (simp add: inside_def put_mutex_def)
        with r q cur Some x free None k show ?thesis
          by (auto simp: dce_pthread_mutex_unlock_def put_mutex_def Let_def)
      next
        case (Some w)
        obtain s2 s3 where s: "dce_Wakeup C w ?s = Some s2" "dce_Yield C s2 = Some s3" "r = Suspended [Unlock_yield] s3"
          using r q cur \<open>q = Some p\<close> x free Some
          by (auto simp: dce_pthread_mutex_unlock_def Let_def bind_eq_Some_conv)
        obtain m where m: "s3 = ?s\<lparr>tm := m\<rparr>" "threads.move (simul C) t (tm s1) m" "awake_task w m"
          using Wakeup_Yield_move [OF i1(1) s(1,2)] by (auto simp: put_mutex_def)
        have "others (simul C) (Some t) ((mutex_at s1)(p \<mapsto> ?x)) (next_obj s1) (stack s1) m"
        proof (rule others_put [OF others_move [OF insideD(1) [OF i1(1)] m(2) insideD(2) [OF i1(1)]] x])
          show "\<exists>u \<in> set (m_waiting ?x). awake_task u m" if "m_waiting ?x \<noteq> []"
            using that m(3) Some by (intro bexI [of _ w]) (auto split: if_splits)
        qed simp
        with clean_frame [OF c, of "[Unlock_yield]"] k threads.moveD(2) [OF m(2) insideD(5) [OF i1(1)]]
        show ?thesis by (simp add: s(3) m(1) put_mutex_def)
      qed
    qed
  qed
  then show ?thesis by (rule good_kept [OF _ i1(2)])
qed

section \<open>Semaphores\<close>

lemma good_fails: "inside C t s \<Longrightarrow> good C t (mutex_at s) (fails e t s)"
  using good_same [of C t s] by (simp add: fails_def)

lemma sem_loop_good:
  assumes i: "inside C t s" and r: "sem_loop C p t s = Some r"
  shows "good C t (mutex_at s) r"
proof -
  obtain x where x: "sem_at s p = Some x" using r by (auto simp: sem_loop_def bind_eq_Some_conv)
  show ?thesis
  proof (cases "s_count x = 0")
    case True
    let ?s = "put_sem p (x\<lparr>s_waiting := s_waiting x @ [t]\<rparr>) s"
    obtain s' where s': "dce_Wait C ?s = Some s'" "r = Suspended [Sem_wait p] s'"
      using r x True by (auto simp: sem_loop_def bind_eq_Some_conv)
    obtain m where m: "s' = ?s\<lparr>tm := m\<rparr>" "threads.move (simul C) t (tm s) m"
      using Wait_move [OF i s'(1)] by (auto simp: put_sem_def)
    show ?thesis unfolding s'(2) by (rule good_suspended [OF i m(2,1)]) (simp_all add: put_sem_def)
  next
    case False
    with r x good_same [OF i] show ?thesis by (auto simp: sem_loop_def put_sem_def)
  qed
qed

lemma sem_timed_loop_good:
  assumes i: "inside C t s" and d: "0 \<le> d" and r: "sem_timed_loop C p t d s = Some r"
  shows "good C t (mutex_at s) r"
proof -
  obtain x where x: "sem_at s p = Some x" using r by (auto simp: sem_timed_loop_def bind_eq_Some_conv)
  show ?thesis
  proof (cases "s_count x = 0")
    case True
    let ?s = "put_sem p (x\<lparr>s_waiting := s_waiting x @ [t]\<rparr>) s"
    obtain s' where s': "dce_Wait_timeout C d ?s = Some s'" "r = Suspended [Sem_timedwait p] s'"
      using r x True by (auto simp: sem_timed_loop_def bind_eq_Some_conv)
    obtain m where m: "s' = ?s\<lparr>tm := m\<rparr>" "threads.move (simul C) t (tm s) m"
      using Wait_timeout_move [OF i s'(1) _ d] by (auto simp: put_sem_def)
    show ?thesis unfolding s'(2) by (rule good_suspended [OF i m(2,1)]) (simp_all add: put_sem_def)
  next
    case False
    with r x good_same [OF i] show ?thesis by (auto simp: sem_timed_loop_def put_sem_def)
  qed
qed

lemma sem_post_good:
  assumes i: "inside C t s" and r: "dce_sem_post C a s = Some r"
  shows "good C t (mutex_at s) r"
proof (cases "SearchSemaphore a s")
  case None
  with r insideD(3) [OF i] good_fails [OF i] show ?thesis by (auto simp: dce_sem_post_def)
next
  case (Some p)
  with r insideD(3) [OF i] obtain x where x: "sem_at s p = Some x"
    by (auto simp: dce_sem_post_def bind_eq_Some_conv)
  let ?s = "put_sem p (x\<lparr>s_count := s_count x + 1\<rparr>) s"
  show ?thesis
  proof (cases "s_waiting x")
    case Nil
    with r insideD(3) [OF i] Some x good_same [OF i] show ?thesis
      by (auto simp: dce_sem_post_def put_sem_def Let_def)
  next
    case (Cons w ws)
    obtain s2 s3 where s: "dce_Wakeup C w ?s = Some s2" "dce_Yield C s2 = Some s3" "r = Suspended [Post_yield] s3"
      using r insideD(3) [OF i] Some x Cons by (auto simp: dce_sem_post_def Let_def bind_eq_Some_conv)
    obtain m where m: "s3 = ?s\<lparr>tm := m\<rparr>" "threads.move (simul C) t (tm s) m"
      using Wakeup_Yield_move [OF i s(1,2)] by (auto simp: put_sem_def)
    show ?thesis unfolding s(3) by (rule good_suspended [OF i m(2,1)]) (simp_all add: put_sem_def)
  qed
qed

lemma leave_sem_inside: "inside C t s \<Longrightarrow> leave_sem p u s = Some s' \<Longrightarrow> inside C t s' \<and> mutex_at s' = mutex_at s \<and> tm s' = tm s"
  by (auto simp: leave_sem_def put_sem_def bind_eq_Some_conv intro: inside_cong)

lemma sem_calls_good:
  assumes i: "inside C t s"
  shows "dce_sem_init a ps v s = Some r \<Longrightarrow> good C t (mutex_at s) r"
    and "dce_sem_destroy a s = Some r \<Longrightarrow> good C t (mutex_at s) r"
    and "dce_sem_wait C a s = Some r \<Longrightarrow> good C t (mutex_at s) r"
    and "dce_sem_trywait a s = Some r \<Longrightarrow> good C t (mutex_at s) r"
    and "dce_sem_timedwait C a e s = Some r \<Longrightarrow> good C t (mutex_at s) r"
proof -
  note cur = insideD(3) [OF i] and same = good_same [OF i] and fl = good_fails [OF i]
  show "good C t (mutex_at s) r" if "dce_sem_init a ps v s = Some r"
    using that cur fl inside_alloc [OF i] kept_refl by (auto simp: dce_sem_init_def split: if_splits)
  show "good C t (mutex_at s) r" if "dce_sem_destroy a s = Some r"
    using that cur fl same
    by (auto simp: dce_sem_destroy_def bind_eq_Some_conv split: option.splits if_splits)
  show "good C t (mutex_at s) r" if "dce_sem_wait C a s = Some r"
    using that cur fl sem_loop_good [OF i] by (auto simp: dce_sem_wait_def split: option.splits)
  show "good C t (mutex_at s) r" if "dce_sem_trywait a s = Some r"
    using that cur fl same
    by (auto simp: dce_sem_trywait_def put_sem_def bind_eq_Some_conv split: option.splits if_splits)
  show "good C t (mutex_at s) r" if "dce_sem_timedwait C a e s = Some r"
    using that cur fl same sem_timed_loop_good [OF i, of "e - Now (simul C) (sim (tm s))"]
    by (auto simp: dce_sem_timedwait_def put_sem_def bind_eq_Some_conv not_le split: option.splits if_splits)
qed

section \<open>Condition variables\<close>

lemma SearchCondition_inside:
  assumes i: "inside C t s" and r: "SearchCondition a s = (q, s')"
  shows "inside C t s' \<and> mutex_at s' = mutex_at s"
  using r i inside_alloc [OF i, of s']
  by (auto simp: SearchCondition_def PthreadCondInitStatic_def Let_def split: if_splits)

lemma wake_all_inside:
  assumes "inside C t s" and "wake_all C ws s = Some s'"
  shows "inside C t s' \<and> mutex_at s' = mutex_at s"
  using assms
proof (induction ws arbitrary: s)
  case (Cons w ws)
  obtain s1 where s1: "dce_Wakeup C w s = Some s1" "wake_all C ws s1 = Some s'"
    using Cons.prems(2) by (auto simp: bind_eq_Some_conv)
  obtain m where m: "s1 = s\<lparr>tm := m\<rparr>" "threads.move (simul C) t (tm s) m" "m_current m = Some t"
    using Wakeup_move [OF Cons.prems(1) s1(1)] by auto
  have "inside C t s1"
    using others_move [OF insideD(1) [OF Cons.prems(1)] m(2) insideD(2) [OF Cons.prems(1)]]
      insideD(2) [OF Cons.prems(1)] m by (simp add: inside_def)
  from Cons.IH [OF this s1(2)] m(1) show ?case by simp
qed simp

lemma put_cond_inside: "inside C t s \<Longrightarrow> inside C t (put_cond p x s) \<and> mutex_at (put_cond p x s) = mutex_at s"
  using inside_cong [of C t s "put_cond p x s"] by (simp add: put_cond_def)

lemma cond_unlocked_good:
  assumes i: "inside C t s" and r: "cond_unlocked C p m t s = Some r"
  shows "good C t (mutex_at s) r"
proof -
  obtain x s' where x: "dce_Wait C (put_cond p (x\<lparr>c_waiting := c_waiting x @ [t]\<rparr>) s) = Some s'"
    "r = Suspended [Cond_woken m] s'" using r by (auto simp: cond_unlocked_def bind_eq_Some_conv)
  obtain m1 where m: "s' = (put_cond p (x\<lparr>c_waiting := c_waiting x @ [t]\<rparr>) s)\<lparr>tm := m1\<rparr>"
    "threads.move (simul C) t (tm s) m1"
    using Wait_move [OF i x(1)] by (auto simp: put_cond_def)
  show ?thesis unfolding x(2) by (rule good_suspended [OF i m(2,1)]) (simp_all add: put_cond_def)
qed

lemma cond_unlocked_timed_good:
  assumes i: "inside C t s" and d: "0 \<le> d" and r: "cond_unlocked_timed C p m d t s = Some r"
  shows "good C t (mutex_at s) r"
proof -
  obtain x s' where x: "dce_Wait_timeout C d (put_cond p (x\<lparr>c_waiting := c_waiting x @ [t]\<rparr>) s) = Some s'"
    "r = Suspended [Cond_woken_timed m] s'" using r by (auto simp: cond_unlocked_timed_def bind_eq_Some_conv)
  obtain m1 where m: "s' = (put_cond p (x\<lparr>c_waiting := c_waiting x @ [t]\<rparr>) s)\<lparr>tm := m1\<rparr>"
    "threads.move (simul C) t (tm s) m1"
    using Wait_timeout_move [OF i x(1) _ d] by (auto simp: put_cond_def)
  show ?thesis unfolding x(2) by (rule good_suspended [OF i m(2,1)]) (simp_all add: put_cond_def)
qed

text \<open>A suspended call below which another one waits.\<close>

lemma good_append:
  assumes g: "good C t M (Suspended fs s)" and gs: "list_all frame_ok gs" "list_all (\<lambda>f. \<forall>p. f \<noteq> Lock_wait p) gs"
  shows "good C t M (Suspended (fs @ gs) s)"
proof -
  obtain f fs' where f: "fs = f # fs'" using g by (cases fs) auto
  have "frames_ok (fs @ gs)" using g gs by (intro frames_ok_append) (auto simp: at_frame_def)
  with g f show ?thesis by (auto simp: at_frame_def)
qed

lemma cond_wait_good:
  assumes i: "inside C t s" and r: "dce_pthread_cond_wait C a m s = Some r"
  shows "good C t (mutex_at s) r"
proof -
  obtain q s1 where q: "SearchCondition a s = (q, s1)" by (cases "SearchCondition a s")
  note i1 = SearchCondition_inside [OF i q]
  have cur: "m_current (tm s) = Some t" by (rule insideD(3) [OF i])
  show ?thesis
  proof (cases q)
    case None
    with r q cur i1 kept_refl show ?thesis by (auto simp: dce_pthread_cond_wait_def)
  next
    case (Some p)
    with r q cur obtain u where u: "dce_pthread_mutex_unlock C m s1 = Some u"
      by (auto simp: dce_pthread_cond_wait_def bind_eq_Some_conv)
    have g: "good C t (mutex_at s) u" using unlock_good [OF _ u] i1 by simp
    show ?thesis
    proof (cases u)
      case (Returned v s2)
      with g r q cur Some u have "inside C t s2" "kept t (mutex_at s) (mutex_at s2)"
        "cond_unlocked C p m t s2 = Some r" by (auto simp: dce_pthread_cond_wait_def)
      with cond_unlocked_good good_kept show ?thesis by blast
    next
      case (Suspended fs s2)
      with r q cur Some u have "r = Suspended (fs @ [Cond_unlocked p m]) s2"
        by (simp add: dce_pthread_cond_wait_def)
      with good_append [of C t "mutex_at s" fs s2] g Suspended show ?thesis by simp
    qed
  qed
qed

lemma cond_timedwait_good:
  assumes i: "inside C t s" and r: "dce_pthread_cond_timedwait C a m e s = Some r"
  shows "good C t (mutex_at s) r"
proof -
  obtain q s1 where q: "SearchCondition a s = (q, s1)" by (cases "SearchCondition a s")
  note i1 = SearchCondition_inside [OF i q]
  have cur: "m_current (tm s) = Some t" by (rule insideD(3) [OF i])
  show ?thesis
  proof (cases q)
    case None
    with r q cur i1 kept_refl show ?thesis by (auto simp: dce_pthread_cond_timedwait_def)
  next
    case (Some p)
    let ?d = "max 0 (e - Now (simul C) (sim (tm s1)))"
    obtain u where u: "dce_pthread_mutex_unlock C m s1 = Some u"
      using r q cur Some by (auto simp: dce_pthread_cond_timedwait_def Let_def bind_eq_Some_conv)
    have g: "good C t (mutex_at s) u" using unlock_good [OF _ u] i1 by simp
    show ?thesis
    proof (cases u)
      case (Returned v s2)
      with g r q cur Some u have "inside C t s2" "kept t (mutex_at s) (mutex_at s2)"
        "cond_unlocked_timed C p m ?d t s2 = Some r" by (auto simp: dce_pthread_cond_timedwait_def Let_def)
      with good_kept [OF cond_unlocked_timed_good [of C t s2 ?d]] show ?thesis by simp
    next
      case (Suspended fs s2)
      with r q cur Some u have "r = Suspended (fs @ [Cond_unlocked_timed p m ?d]) s2"
        by (simp add: dce_pthread_cond_timedwait_def Let_def)
      with good_append [of C t "mutex_at s" fs s2] g Suspended show ?thesis by simp
    qed
  qed
qed

lemma cond_calls_good:
  assumes i: "inside C t s"
  shows "good C t (mutex_at s) (dce_pthread_cond_init a s)"
    and "good C t (mutex_at s) (dce_pthread_cond_destroy a s)"
    and "dce_pthread_cond_signal C a s = Some r \<Longrightarrow> good C t (mutex_at s) r"
    and "dce_pthread_cond_broadcast C a s = Some r \<Longrightarrow> good C t (mutex_at s) r"
proof -
  obtain q s1 where q: "SearchCondition a s = (q, s1)" by (cases "SearchCondition a s")
  note i1 = SearchCondition_inside [OF i q]
  show "good C t (mutex_at s) (dce_pthread_cond_init a s)"
    using i inside_alloc [OF i] kept_refl by (simp add: dce_pthread_cond_init_def PthreadCondInitStatic_def)
  show "good C t (mutex_at s) (dce_pthread_cond_destroy a s)"
    using q i1 kept_refl inside_cong [of C t s1]
    by (auto simp: dce_pthread_cond_destroy_def split: option.splits)
  show "good C t (mutex_at s) r" if r: "dce_pthread_cond_signal C a s = Some r"
  proof (cases q)
    case None
    with r q i1 kept_refl show ?thesis by (auto simp: dce_pthread_cond_signal_def)
  next
    case (Some p)
    with r q obtain x where x: "cond_at s1 p = Some x" by (auto simp: dce_pthread_cond_signal_def bind_eq_Some_conv)
    show ?thesis
    proof (cases "c_waiting x")
      case Nil
      with r q Some x i1 kept_refl show ?thesis by (auto simp: dce_pthread_cond_signal_def)
    next
      case (Cons w ws)
      then obtain s2 where s2: "dce_Wakeup C w s1 = Some s2" "r = Returned 0 (put_cond p (x\<lparr>c_waiting := ws\<rparr>) s2)"
        using r q Some x by (auto simp: dce_pthread_cond_signal_def bind_eq_Some_conv)
      have "wake_all C [w] s1 = Some s2" using s2(1) by simp
      from wake_all_inside [OF conjunct1 [OF i1] this] i1 put_cond_inside [of C t s2] kept_refl show ?thesis
        by (simp add: s2(2))
    qed
  qed
  show "good C t (mutex_at s) r" if r: "dce_pthread_cond_broadcast C a s = Some r"
  proof (cases q)
    case None
    with r q i1 kept_refl show ?thesis by (auto simp: dce_pthread_cond_broadcast_def)
  next
    case (Some p)
    with r q obtain x s2 where x: "wake_all C (c_waiting x) s1 = Some s2"
      "r = Returned 0 (put_cond p (x\<lparr>c_waiting := []\<rparr>) s2)"
      by (auto simp: dce_pthread_cond_broadcast_def bind_eq_Some_conv)
    from wake_all_inside [OF conjunct1 [OF i1] x(1)] i1 put_cond_inside [of C t s2] kept_refl show ?thesis
      by (simp add: x(2))
  qed
qed

section \<open>Steps\<close>

lemma exec_call_good:
  assumes i: "inside C t s" and r: "exec_call C c s = Some r"
  shows "good C t (mutex_at s) r"
proof (cases c)
  case (Mutex_init a attribute)
  with r i new_mutex_inside [OF i] kept_refl show ?thesis
    by (auto simp: dce_pthread_mutex_init_def split: option.splits if_splits)
qed (use r lock_good [OF i] destroy_good [OF i] trylock_good [OF i] unlock_good [OF i] sem_calls_good [OF i]
    sem_post_good [OF i] cond_calls_good [OF i] cond_wait_good [OF i] cond_timedwait_good [OF i] in auto)

lemma cond_woken_good:
  assumes i: "inside C t s"
  shows "cond_woken C m s = Some r \<Longrightarrow> good C t (mutex_at s) r"
    and "cond_woken_timed C m s = Some r \<Longrightarrow> good C t (mutex_at s) r"
proof -
  show "good C t (mutex_at s) r" if r: "cond_woken C m s = Some r"
  proof -
    obtain u where u: "dce_pthread_mutex_lock C m s = Some u" using r by (auto simp: cond_woken_def bind_eq_Some_conv)
    note g = lock_good [OF i u]
    show ?thesis
    proof (cases u)
      case (Returned v s')
      with r u g show ?thesis by (auto simp: cond_woken_def)
    next
      case (Suspended fs s')
      with r u have "r = Suspended (fs @ [Cond_locked 1]) s'" by (simp add: cond_woken_def)
      with good_append [of C t "mutex_at s" fs s'] g Suspended show ?thesis by simp
    qed
  qed
  show "good C t (mutex_at s) r" if r: "cond_woken_timed C m s = Some r"
  proof -
    obtain u where u: "dce_pthread_mutex_lock C m s = Some u"
      using r by (auto simp: cond_woken_timed_def Let_def bind_eq_Some_conv)
    note g = lock_good [OF i u]
    show ?thesis
    proof (cases u)
      case (Returned v s')
      with r u g show ?thesis by (auto simp: cond_woken_timed_def Let_def)
    next
      case (Suspended fs s')
      with r u have "r = Suspended (fs @ [Cond_locked (time_left (tm s))]) s'"
        by (simp add: cond_woken_timed_def Let_def)
      with good_append [of C t "mutex_at s" fs s'] g Suspended show ?thesis by simp
    qed
  qed
qed

lemma tm_ok_time_left: "tm_ok S m \<Longrightarrow> 0 \<le> time_left m"
  by (auto simp: tm_ok_def tm_inv_def settled_def)

lemma resume_frame_good:
  assumes i: "inside C t s" and f: "frame_ok f" "\<forall>p. f \<noteq> Lock_wait p" and r: "resume_frame C f t s = Some r"
  shows "good C t (mutex_at s) r"
proof (cases f)
  case (Lock_wait p)
  with f show ?thesis by simp
next
  case (Sem_wait p)
  with r obtain s' where s': "leave_sem p t s = Some s'" "sem_loop C p t s' = Some r"
    by (auto simp: bind_eq_Some_conv)
  from leave_sem_inside [OF i s'(1)] sem_loop_good [OF _ s'(2)] show ?thesis by simp
next
  case (Sem_timedwait p)
  with r obtain s' where s': "leave_sem p t s = Some s'"
    "(if time_left (tm s) = 0 then Some (fails ETIMEDOUT t s') else sem_timed_loop C p t (time_left (tm s)) s') = Some r"
    by (auto simp: sem_timed_woken_def bind_eq_Some_conv)
  from leave_sem_inside [OF i s'(1)] s'(2) good_fails [of C t s'] sem_timed_loop_good [of C t s' "time_left (tm s)"]
    tm_ok_time_left [OF insideD(4) [OF i]] show ?thesis by (auto split: if_splits)
next
  case (Cond_unlocked p m)
  with r cond_unlocked_good [OF i] show ?thesis by simp
next
  case (Cond_unlocked_timed p m timeout)
  with r f cond_unlocked_timed_good [OF i, of timeout] show ?thesis by simp
next
  case (Cond_woken m)
  with r cond_woken_good(1) [OF i] show ?thesis by simp
next
  case (Cond_woken_timed m)
  with r cond_woken_good(2) [OF i] show ?thesis by simp
qed (use r i kept_refl in auto)

lemma good_next:
  assumes g: "good C t M r1" and fs: "list_all frame_ok fs" "list_all (\<lambda>f. \<forall>p. f \<noteq> Lock_wait p) fs"
    and r: "(case r1 of Returned v s' \<Rightarrow> (if fs = [] then Some (Returned v s') else resume_stack C fs t s')
       | Suspended gs s' \<Rightarrow> Some (Suspended (gs @ fs) s')) = Some r"
    and IH: "\<And>s' r. fs \<noteq> [] \<Longrightarrow> inside C t s' \<Longrightarrow> resume_stack C fs t s' = Some r \<Longrightarrow> good C t (mutex_at s') r"
  shows "good C t M r"
proof (cases r1)
  case (Returned v s')
  with g have i: "inside C t s'" and k: "kept t M (mutex_at s')" by auto
  show ?thesis
  proof (cases "fs = []")
    case True
    with r Returned i k show ?thesis by auto
  next
    case False
    with r Returned have "resume_stack C fs t s' = Some r" by simp
    from good_kept [OF IH [OF False i this] k] show ?thesis .
  qed
next
  case (Suspended gs s')
  with r have "r = Suspended (gs @ fs) s'" by simp
  with good_append [OF _ fs, of C t M gs s'] g Suspended show ?thesis by simp
qed

text \<open>Only the innermost frame can be the one of a lock.\<close>

lemma resume_stack_good:
  assumes "inside C t s" and "list_all frame_ok fs" and "list_all (\<lambda>f. \<forall>p. f \<noteq> Lock_wait p) fs" and "fs \<noteq> []"
    and "resume_stack C fs t s = Some r"
  shows "good C t (mutex_at s) r"
  using assms
proof (induction fs arbitrary: s r)
  case (Cons f fs)
  obtain r1 where r1: "resume_frame C f t s = Some r1"
    "(case r1 of Returned v s' \<Rightarrow> (if fs = [] then Some (Returned v s') else resume_stack C fs t s')
       | Suspended gs s' \<Rightarrow> Some (Suspended (gs @ fs) s')) = Some r"
    using Cons.prems(5) by (auto simp: bind_eq_Some_conv)
  have "good C t (mutex_at s) r1"
    using resume_frame_good [OF Cons.prems(1) _ _ r1(1)] Cons.prems(2,3) by simp
  from good_next [OF this _ _ r1(2)] Cons.prems(2,3) Cons.IH show ?case by simp
qed simp

lemma resume_good:
  assumes o: "others (simul C) None (mutex_at s) (next_obj s) (stack s) (tm s)" and cur: "m_current (tm s) = Some t"
    and st: "stack s t \<noteq> []" and r: "resume_stack C (stack s t) t s = Some r"
  shows "good C t (mutex_at s) r"
proof -
  obtain f fs where f: "stack s t = f # fs" using st by (cases "stack s t") auto
  have ok: "list_all frame_ok fs" "frame_ok f" "list_all (\<lambda>f. \<forall>p. f \<noteq> Lock_wait p) fs"
    using othersD(7) [OF o, of t] f by (auto simp: frames_ok_def)
  show ?thesis
  proof (cases "\<exists>p. f = Lock_wait p")
    case True
    then obtain p where p: "f = Lock_wait p" by blast
    obtain r1 where r1: "lock_woken C p t s = Some r1"
      "(case r1 of Returned v s' \<Rightarrow> (if fs = [] then Some (Returned v s') else resume_stack C fs t s')
         | Suspended gs s' \<Rightarrow> Some (Suspended (gs @ fs) s')) = Some r"
      using r f p by (auto simp: bind_eq_Some_conv)
    have "good C t (mutex_at s) r1" by (rule lock_woken_good [OF o cur _ r1(1)]) (use f p in simp)
    from good_next [OF this ok(1,3) r1(2)] resume_stack_good ok show ?thesis by blast
  next
    case False
    have "inside C t s" using others_enter [OF o, of t] f False cur by (simp add: inside_def)
    from resume_stack_good [OF this _ _ _ r] f ok False show ?thesis by simp
  qed
qed

lemma settle_inv:
  assumes "good C t M r"
  shows "sync_inv C (settle t r)" and "kept t M (mutex_at (settle t r))"
proof -
  show "sync_inv C (settle t r)"
  proof (cases r)
    case (Returned v s')
    with assms have i: "inside C t s'" by simp
    show ?thesis
      using others_leave [OF insideD(1) [OF i] clean_frame [OF insideD(2) [OF i], of "[]"] insideD(5) [OF i]] Returned
      by (simp add: sync_inv_def)
  next
    case (Suspended fs s')
    with assms others_leave [of "simul C" t "mutex_at s'" "next_obj s'" "stack s'" "tm s'" fs]
    show ?thesis by (simp add: sync_inv_def)
  qed
  show "kept t M (mutex_at (settle t r))" using assms by (cases r) auto
qed

text \<open>The other threads, and the events of the simulator.\<close>

lemma tm_step_awake:
  assumes ok: "tm_ok S m" and st: "tm_step S m m'"
  shows "tm_ok S m' \<and> (\<forall>u. awake_task u m \<and> alive_task u m' \<and> m_current m \<noteq> Some u \<longrightarrow> awake_task u m')"
proof -
  obtain pend used where S: "simulator_ok S pend used" and inv: "tm_inv pend used m" using ok by (auto simp: tm_ok_def)
  have ok': "tm_ok S m'" using S tm_step_inv [OF S inv st] by (auto simp: tm_ok_def)
  have "awake_task u m'" if u: "awake_task u m" "alive_task u m'" "m_current m \<noteq> Some u" for u
    using st
  proof cases
    case (wakeup t)
    with threads.wakeup [OF ok threads.wakeup_alive [OF wakeup]] u show ?thesis by auto
  next
    case (start t)
    with u show ?thesis
      by (auto simp: tm_Start_def Wakeup_def Let_def awake_task_def alive_task_def bind_eq_Some_conv blocked_task_def
          split: if_splits prod.splits)
  next
    case (clone v t)
    with u show ?thesis
      by (auto simp: tm_Clone_def Wakeup_def Let_def awake_task_def alive_task_def bind_eq_Some_conv blocked_task_def
          split: if_splits prod.splits)
  next
    case (stop t)
    with u show ?thesis
      by (auto simp: tm_Stop_def awake_task_def alive_task_def bind_eq_Some_conv split: if_splits)
  next
    case (sleep d)
    then obtain t where "m_current m = Some t" by (auto simp: Sleep_def running_task_def bind_eq_Some_conv)
    with threads.sleep [OF ok this, of d] sleep u show ?thesis by auto
  next
    case (sleep_timeout timeout d)
    then obtain t where "m_current m = Some t" by (auto simp: Sleep_timeout_def running_task_def bind_eq_Some_conv)
    with threads.sleep_for [OF ok this, of timeout d] sleep_timeout u show ?thesis by auto
  next
    case (yield d)
    then obtain t where "m_current m = Some t" by (auto simp: Yield_def running_task_def bind_eq_Some_conv)
    with threads.yield [OF ok this, of d] yield u show ?thesis by auto
  next
    case (exit d)
    then obtain t where t: "m_current m = Some t" by (auto simp: tm_Exit_def running_task_def bind_eq_Some_conv)
    from Exit_inv [OF S inv this, of d] exit have "tasks m' = (tasks m)(t := None)" by auto
    with u t show ?thesis by (auto simp: awake_task_def)
  next
    case (schedule x)
    from schedule_event_inv [OF S inv schedule(1,2)] schedule(3)
    have inv': "tm_inv pend used m'" and same: "\<forall>v. m_current m' \<noteq> Some v \<longrightarrow> tasks m' v = tasks m v" by auto
    show ?thesis
    proof (cases "m_current m' = Some u")
      case True
      with queue_running [of "tasks m'" "active m'" u "new_task m'"] inv' show ?thesis
        by (auto simp: tm_inv_def awake_task_def)
    qed (use same u in \<open>auto simp: awake_task_def\<close>)
  next
    case (end_wait t x)
    then show ?thesis
      using u by (auto simp: EndWait_def Wakeup_def Let_def awake_task_def bind_eq_Some_conv split: if_splits prod.splits)
  next
    case (other n x)
    with u show ?thesis by (simp add: awake_task_def)
  next
    case (post d n)
    with u show ?thesis by (simp add: awake_task_def ScheduleMain_def ExecOnMain_def)
  next
    case (notifier t fn c)
    with u show ?thesis by (auto simp: SetSwitchNotifier_def awake_task_def bind_eq_Some_conv)
  next
    case (hi_task t)
    with u show ?thesis by (auto simp: EnterHiTask_def LeaveHiTask_def awake_task_def split: if_splits)
  qed
  with ok' show ?thesis by blast
qed

lemma sync_step_inv:
  assumes inv: "sync_inv C s" and st: "sync_step C s s'"
  shows "sync_inv C s' \<and> (\<forall>t. m_current (tm s) = Some t \<longrightarrow> kept t (mutex_at s) (mutex_at s'))
    \<and> (m_current (tm s) = None \<longrightarrow> mutex_at s' = mutex_at s)"
  using st
proof cases
  case (call t c r)
  note o = inv [unfolded sync_inv_def]
  have "inside C t s" using others_enter [OF o, of t] call by (simp add: inside_def)
  from settle_inv [OF exec_call_good [OF this call(4)]] call show ?thesis by simp
next
  case (resume t r)
  from settle_inv [OF resume_good [OF inv [unfolded sync_inv_def] resume(2-4)]] resume show ?thesis by simp
next
  case (other m)
  note o = inv [unfolded sync_inv_def]
  have mv: "tm_ok (simul C) m \<and> (\<forall>u. awake_task u (tm s) \<and> alive_task u m \<and> m_current (tm s) \<noteq> Some u \<longrightarrow> awake_task u m)"
    by (rule tm_step_awake [OF othersD(1) [OF o] other(2)])
  have "others (simul C) None (mutex_at s) (next_obj s) (stack s) m"
    unfolding others_def
  proof (intro conjI allI impI, goal_cases)
    case 1 then show ?case using mv by blast
  next
    case (2 p) then show ?case using othersD(2) [OF o] by simp
  next
    case (3 u) then show ?case using other(4) [of u] by (simp add: alive_task_def)
  next
    case (4 p x u) then show ?case using othersD(4) [OF o] by simp
  next
    case (5 u p fs) then show ?case using othersD(5) [OF o, of u p fs] by simp
  next
    case (6 p x)
    then obtain u where u: "u \<in> set (m_waiting x)" "awake_task u (tm s)" using othersD(6) [OF o] by blast
    with 6 have st: "stack s u \<noteq> []" using othersD(4) [OF o, of p x u] by auto
    then have "alive_task u m" using other(4) [of u] by (simp add: alive_task_def)
    moreover have "m_current (tm s) \<noteq> Some u" using other(3) st by blast
    ultimately show ?case using mv u by blast
  next
    case (7 u) then show ?case using othersD(7) [OF o] by simp
  qed
  then show ?thesis using other(1) kept_refl by (simp add: sync_inv_def)
qed

lemma sync_reach_inv:
  assumes "simulator_ok (simul C) pend used" and "pend x = Map.empty" and "sync_reach C x s"
  shows "sync_inv C s"
  using assms(3)
proof induction
  case init
  have "tm_inv pend used (TaskManager x)" by (rule TaskManager_inv) (simp add: assms(2))
  with assms(1) have "tm_ok (simul C) (TaskManager x)" by (auto simp: tm_ok_def)
  then show ?case by (simp add: sync_inv_def others_def new_process_def)
next
  case (step s s')
  then show ?case using sync_step_inv by blast
qed

end
