(* ===== verification/Sync_Runs.thy ===== *)
theory Sync_Runs
  imports Sync_Steps
begin

text \<open>
  What the synchronisation functions guarantee in every run of a process, and runs in which they do
  not do what POSIX promises.
\<close>

section \<open>Scripts\<close>

text \<open>A run given as a list of actions, for the witnesses and the runs that go wrong.\<close>

datatype script_action = Begin | Event | Call sync_call | Continue | Yield_cpu | Leave

fun perform :: "'x call_env \<Rightarrow> script_action \<Rightarrow> 'x process \<Rightarrow> 'x process option" where
  "perform C Begin s =
     (if m_current (tm s) \<noteq> None then None
      else do { (t, m) \<leftarrow> tm_Start (simul C) (tm s); Some (s\<lparr>tm := m\<rparr>) })"
| "perform C Event s = do { m \<leftarrow> fire_event (simul C) (tm s); Some (s\<lparr>tm := m\<rparr>) }"
| "perform C (Call c) s =
     do { t \<leftarrow> m_current (tm s);
          if stack s t \<noteq> [] then None else do { r \<leftarrow> exec_call C c s; Some (settle t r) } }"
| "perform C Continue s =
     do { t \<leftarrow> m_current (tm s);
          if stack s t = [] then None else do { r \<leftarrow> resume_stack C (stack s t) t s; Some (settle t r) } }"
| "perform C Yield_cpu s =
     do { t \<leftarrow> m_current (tm s);
          if stack s t \<noteq> [] then None else do { m \<leftarrow> Yield (simul C) (delay C) (tm s); Some (s\<lparr>tm := m\<rparr>) } }"
| "perform C Leave s =
     do { t \<leftarrow> m_current (tm s);
          if stack s t \<noteq> [] then None else do { m \<leftarrow> tm_Exit (simul C) (delay C) (tm s); Some (s\<lparr>tm := m\<rparr>) } }"

fun script :: "'x call_env \<Rightarrow> script_action list \<Rightarrow> 'x process \<Rightarrow> 'x process option" where
  "script C [] s = Some s"
| "script C (a # as) s = do { s' \<leftarrow> perform C a s; script C as s' }"

text \<open>Only an exit removes a task.\<close>

lemma Start_alive: "tm_Start S m = Some (t, m') \<Longrightarrow> alive_task u m \<Longrightarrow> alive_task u m'"
  by (auto simp: tm_Start_def Wakeup_def Let_def alive_task_def bind_eq_Some_conv split: if_splits prod.splits)

lemma fire_event_alive:
  assumes ok: "tm_ok S m" and f: "fire_event S m = Some m'" and a: "alive_task u m"
  shows "alive_task u m'"
proof -
  obtain pend used where S: "simulator_ok S pend used" and inv: "tm_inv pend used m" using ok by (auto simp: tm_ok_def)
  have cur: "m_current m = None" using f by (auto split: if_splits)
  obtain act x where fire: "Fire S (sim m) = Some (act, x)" using f cur by (auto split: option.splits)
  show ?thesis
  proof (cases act)
    case Do_Schedule
    with schedule_event_inv [OF S inv cur] fire f cur obtain
      same: "\<forall>v. m_current m' \<noteq> Some v \<longrightarrow> tasks m' v = tasks m v" and inv': "tm_inv pend used m'" by fastforce
    show ?thesis
    proof (cases "m_current m' = Some u")
      case True
      with queue_running [of "tasks m'" "active m'" u "new_task m'"] inv' show ?thesis
        by (auto simp: tm_inv_def alive_task_def)
    qed (use same a in \<open>auto simp: alive_task_def\<close>)
  next
    case (Do_EndWait t)
    with fire f cur have "EndWait S t (m\<lparr>sim := x\<rparr>) = Some m'" by simp
    with a show ?thesis
      by (auto simp: EndWait_def Wakeup_def Let_def alive_task_def bind_eq_Some_conv split: if_splits prod.splits)
  next
    case (Do_other n)
    with fire f cur a show ?thesis by (auto simp: alive_task_def)
  qed
qed

lemma perform_step:
  assumes inv: "sync_inv C s" and p: "perform C a s = Some s'"
  shows "sync_step C s s'"
proof -
  note o = inv [unfolded sync_inv_def]
  have other: "sync_step C s (s\<lparr>tm := m\<rparr>)" if "tm_step (simul C) (tm s) m"
    "\<And>t. m_current (tm s) = Some t \<Longrightarrow> stack s t = []"
    "\<And>u. stack s u \<noteq> [] \<Longrightarrow> alive_task u (tm s) \<Longrightarrow> alive_task u m" for m
    by (rule sync_step.other) (use that othersD(3) [OF o] in \<open>auto simp: alive_task_def\<close>)
  show ?thesis
  proof (cases a)
    case Begin
    with p obtain t m where m: "tm_Start (simul C) (tm s) = Some (t, m)" "s' = s\<lparr>tm := m\<rparr>" "m_current (tm s) = None"
      by (auto simp: bind_eq_Some_conv split: if_splits)
    have "sync_step C s (s\<lparr>tm := m\<rparr>)"
      by (rule other) (use m tm_step.start [OF m(1)] Start_alive [OF m(1)] in auto)
    with m show ?thesis by simp
  next
    case Event
    with p obtain m where m: "fire_event (simul C) (tm s) = Some m" "s' = s\<lparr>tm := m\<rparr>"
      by (auto simp: bind_eq_Some_conv)
    have "sync_step C s (s\<lparr>tm := m\<rparr>)"
      by (rule other) (use fire_event_step [OF m(1)] fire_event_alive [OF othersD(1) [OF o] m(1)] in auto)
    with m show ?thesis by simp
  next
    case (Call c)
    with p obtain t r where "m_current (tm s) = Some t" "stack s t = []" "exec_call C c s = Some r" "s' = settle t r"
      by (auto simp: bind_eq_Some_conv split: if_splits)
    with sync_step.call show ?thesis by blast
  next
    case Continue
    with p obtain t r where "m_current (tm s) = Some t" "stack s t \<noteq> []" "resume_stack C (stack s t) t s = Some r"
      "s' = settle t r" by (auto simp: bind_eq_Some_conv split: if_splits)
    with sync_step.resume show ?thesis by blast
  next
    case Yield_cpu
    with p obtain t m where m: "m_current (tm s) = Some t" "stack s t = []"
      "Yield (simul C) (delay C) (tm s) = Some m" "s' = s\<lparr>tm := m\<rparr>"
      by (auto simp: bind_eq_Some_conv split: if_splits)
    have "sync_step C s (s\<lparr>tm := m\<rparr>)"
      by (rule other) (use m tm_step.yield [OF m(3)] threads.yield [OF othersD(1) [OF o] m(1), of "delay C"] in auto)
    with m show ?thesis by simp
  next
    case Leave
    with p obtain t m where m: "m_current (tm s) = Some t" "stack s t = []"
      "tm_Exit (simul C) (delay C) (tm s) = Some m" "s' = s\<lparr>tm := m\<rparr>"
      by (auto simp: bind_eq_Some_conv split: if_splits)
    obtain pend used where S: "simulator_ok (simul C) pend used" and tinv: "tm_inv pend used (tm s)"
      using othersD(1) [OF o] by (auto simp: tm_ok_def)
    have ts: "tasks m = (tasks (tm s))(t := None)" using Exit_inv [OF S tinv m(1), of "delay C"] m(3) by auto
    have "sync_step C s (s\<lparr>tm := m\<rparr>)"
      by (rule other) (use m(1,2) tm_step.exit [OF m(3)] ts in \<open>auto simp: alive_task_def\<close>)
    with m show ?thesis by simp
  qed
qed

lemma script_reach:
  assumes "simulator_ok (simul C) pend used" and "pend x = Map.empty" and "sync_reach C x s" and "script C as s = Some s'"
  shows "sync_reach C x s'"
  using assms(3,4)
proof (induction as arbitrary: s)
  case (Cons a as)
  then obtain s1 where s1: "perform C a s = Some s1" "script C as s1 = Some s'" by (auto simp: bind_eq_Some_conv)
  have "sync_step C s s1" by (rule perform_step [OF sync_reach_inv [OF assms(1,2) Cons.prems(1)] s1(1)])
  from Cons.IH [OF sync_reach.step [OF Cons.prems(1) this] s1(2)] show ?case .
qed simp

definition list_env :: "event_list call_env" where
  "list_env = \<lparr>simul = events, delay = 0, empty_front = None\<rparr>"

definition fresh_process :: "event_list process" where
  "fresh_process = new_process (TaskManager ([], 0, []))"

lemma list_env_events: "simulator_ok (simul list_env) (\<lambda>x. map_of (snd (snd x))) event_ids"
  using events_ok by (simp add: list_env_def)

lemma script_run:
  assumes "script list_env as fresh_process = Some s"
  shows "sync_reach list_env ([], 0, []) s"
  by (rule script_reach [OF list_env_events _ _ assms]) (simp_all add: fresh_process_def sync_reach.init)

text \<open>What a run shows: who runs, the state of the first tasks, and whether an event is left.\<close>

definition observe :: "event_list process \<Rightarrow> task option \<times> (task \<times> state) list \<times> bool" where
  "observe s = (m_current (tm s), [(t, m_state k). t \<leftarrow> [1..<6], k \<leftarrow> (case tasks (tm s) t of None \<Rightarrow> [] | Some k \<Rightarrow> [k])],
     Fire events (sim (tm s)) = None)"

section \<open>Properties\<close>

text \<open>C2. Mutual exclusion: while a thread holds a mutex, nothing another thread or the simulator
  does changes who holds it, or how often.\<close>

theorem mutex_exclusion:
  assumes "simulator_ok (simul C) pend used" and "pend x = Map.empty" and "sync_reach C x s"
    and "sync_step C s s'" and "mutex_at s p = Some m" and "m_owner m = Some u" and "m_current (tm s) \<noteq> Some u"
  shows "\<exists>m'. mutex_at s' p = Some m' \<and> m_owner m' = Some u \<and> m_count m' = m_count m"
proof -
  have inv: "sync_inv C s" by (rule sync_reach_inv [OF assms(1-3)])
  note st = sync_step_inv [OF inv assms(4)]
  show ?thesis
  proof (cases "m_current (tm s)")
    case None
    with st assms show ?thesis by simp
  next
    case (Some t)
    with st have "kept t (mutex_at s) (mutex_at s')" by simp
    with assms(5-7) Some show ?thesis by (auto simp: kept_def)
  qed
qed

definition two_lockers :: "script_action list" where
  "two_lockers = [Begin, Begin, Event, Call (Mutex_lock 100), Yield_cpu, Event]"

definition mutex_view :: "event_list process \<Rightarrow> nat \<Rightarrow> (task option \<times> task list) option" where
  "mutex_view s p = map_option (\<lambda>m. (m_owner m, m_waiting m)) (mutex_at s p)"

theorem mutex_exclusion_witness:
  "\<exists>s s' m'. sync_reach list_env ([], 0, []) s \<and> m_current (tm s) = Some 2
    \<and> perform list_env (Call (Mutex_lock 100)) s = Some s' \<and> mutex_at s' 1 = Some m' \<and> m_owner m' = Some 1"
proof -
  have "map_option (\<lambda>s. (m_current (tm s), mutex_view s 1, perform list_env (Call (Mutex_lock 100)) s \<noteq> None))
      (script list_env two_lockers fresh_process) = Some (Some 2, Some (Some 1, []), True)" by code_simp
  then obtain s s' m where s: "script list_env two_lockers fresh_process = Some s" "m_current (tm s) = Some 2"
    "perform list_env (Call (Mutex_lock 100)) s = Some s'" "mutex_at s 1 = Some m" "m_owner m = Some 1"
    by (auto simp: mutex_view_def simp del: perform.simps)
  note r = script_run [OF s(1)]
  have "sync_inv list_env s" by (rule sync_reach_inv [OF list_env_events _ r]) simp
  from mutex_exclusion [OF list_env_events _ r perform_step [OF this s(3)] s(4,5)] s(2)
  obtain m' where "mutex_at s' 1 = Some m'" "m_owner m' = Some 1" by auto
  with r s show ?thesis by blast
qed

text \<open>C12. No wakeup of a mutex is lost: in every reachable state, a mutex that is free and that
  threads are waiting for has a waiting thread that is awake, so that it runs in its turn and takes
  the mutex; and exactly the threads suspended in a lock of the mutex are in its queue.\<close>

theorem mutex_no_lost_wakeup:
  assumes "simulator_ok (simul C) pend used" and "pend x = Map.empty" and "sync_reach C x s"
    and "mutex_at s p = Some m"
  shows "(m_owner m = None \<and> m_waiting m \<noteq> [] \<longrightarrow>
      (\<exists>t \<in> set (m_waiting m). t \<in> set (active (tm s)) \<or> m_current (tm s) = Some t))
    \<and> (\<forall>t. t \<in> set (m_waiting m) \<longleftrightarrow> (\<exists>fs. stack s t = Lock_wait p # fs))"
proof -
  have o: "others (simul C) None (mutex_at s) (next_obj s) (stack s) (tm s)"
    using sync_reach_inv [OF assms(1-3)] by (simp add: sync_inv_def)
  obtain pe us where "tm_inv pe us (tm s)" using othersD(1) [OF o] by (auto simp: tm_ok_def)
  note q = tm_invD(1) [OF this]
  have "t \<in> set (active (tm s)) \<or> m_current (tm s) = Some t" if aw: "awake_task t (tm s)" for t
  proof -
    obtain k where k: "tasks (tm s) t = Some k" "m_state k \<noteq> BLOCKED" using aw by (auto simp: awake_task_def)
    with queue_states [OF q k(1)] show ?thesis by (cases "m_state k") auto
  qed
  then show ?thesis using othersD(4,6) [OF o assms(4)] by blast
qed

theorem mutex_no_lost_wakeup_witness:
  "\<exists>s m. sync_reach list_env ([], 0, []) s \<and> mutex_at s 1 = Some m \<and> m_owner m = None \<and> m_waiting m = [2]
    \<and> 2 \<in> set (active (tm s))"
proof -
  have "map_option (\<lambda>s. (m_current (tm s), mutex_view s 1))
      (script list_env (two_lockers @ [Call (Mutex_lock 100), Event, Call (Mutex_unlock 100)]) fresh_process)
    = Some (None, Some (None, [2]))" by code_simp
  then obtain s m where s: "script list_env (two_lockers @ [Call (Mutex_lock 100), Event, Call (Mutex_unlock 100)]) fresh_process = Some s"
    "m_current (tm s) = None" "mutex_at s 1 = Some m" "m_owner m = None" "m_waiting m = [2]"
    by (auto simp: mutex_view_def)
  note r = script_run [OF s(1)]
  from mutex_no_lost_wakeup [OF list_env_events _ r s(3)] s r show ?thesis by auto
qed








lemma put_put [simp]: "put_mutex p m2 (put_mutex p m1 s) = put_mutex p m2 s"
  by (simp add: put_mutex_def)

lemma put_mutex_simps [simp]: "mutex_at (put_mutex p m s) p = Some m" "tm (put_mutex p m s) = tm s"
  by (simp_all add: put_mutex_def)


definition held :: "task \<Rightarrow> nat \<Rightarrow> mutex \<Rightarrow> mutex" where
  "held t k m = m\<lparr>m_owner := Some t, m_count := of_nat k\<rparr>"

lemma held_simps [simp]: "mid (held t k m) = mid m" "m_owner (held t k m) = Some t"
  "m_count (held t k m) = of_nat k" "m_waiting (held t k m) = m_waiting m"
  "mutex_type (held t k m) = mutex_type m" "held t j (held t k m) = held t j m"
  by (simp_all add: held_def)















end
