(* ===== verification/Netlink_Buffer.thy ===== *)
theory Netlink_Buffer
  imports Prelude
begin

text \<open>
  What the netlink messages (\<open>netlink/\<close>) use of ns-3, which is not part of this repository: the
  iterator over a packet buffer (\<open>Buffer::Iterator\<close>) and \<open>Address\<close>. Both are a parameter of the
  model, the record \<open>io\<close>; \<open>io_ok\<close> states what their documentation promises, over a view of the
  iterator as the bytes before and after its position. The operations fail (\<^term>\<open>None\<close>) where the
  iterator would leave its buffer. The last part is a small calculus of what is written and read.
\<close>

datatype value_type = UNSPEC | U8 | U16 | U32 | U64 | STRING | ADDRESS

text \<open>\<open>NetlinkAttributeValue\<close>: one member for each type of value, and the one that is meant.\<close>

record 'a attribute_value =
  v_type :: value_type
  v_u64 :: uint64
  v_u32 :: uint32
  v_u16 :: uint16
  v_u8 :: byte
  v_string :: "byte list"
  v_address :: 'a

text \<open>
  \<open>WriteU8s\<close> is \<open>WriteU8 (data, len)\<close>. \<open>ReadFrom\<close> gets the old value of the address, of which it
  keeps the kind. \<open>uninit\<close> is what the memory of a fresh \<open>NetlinkAttributeValue\<close> holds before its
  constructor runs; the constructors leave some of the members as they are.
\<close>

record ('i, 'a) io =
  WriteU8 :: "byte \<Rightarrow> 'i \<Rightarrow> 'i option"
  WriteU8s :: "byte \<Rightarrow> uint32 \<Rightarrow> 'i \<Rightarrow> 'i option"
  WriteU16 :: "uint16 \<Rightarrow> 'i \<Rightarrow> 'i option"
  WriteU32 :: "uint32 \<Rightarrow> 'i \<Rightarrow> 'i option"
  Write_bytes :: "byte list \<Rightarrow> 'i \<Rightarrow> 'i option"
  ReadU8 :: "'i \<Rightarrow> (byte \<times> 'i) option"
  ReadU16 :: "'i \<Rightarrow> (uint16 \<times> 'i) option"
  ReadU32 :: "'i \<Rightarrow> (uint32 \<times> 'i) option"
  ReadU64 :: "'i \<Rightarrow> (uint64 \<times> 'i) option"
  Read_bytes :: "uint32 \<Rightarrow> 'i \<Rightarrow> (byte list \<times> 'i) option"
  GetLength :: "'a \<Rightarrow> byte"
  WriteTo :: "'a \<Rightarrow> 'i \<Rightarrow> 'i option"
  ReadFrom :: "'a \<Rightarrow> uint32 \<Rightarrow> 'i \<Rightarrow> ('a \<times> 'i) option"
  no_address :: 'a
  uninit :: "'a attribute_value"

text \<open>
  The view: the bytes before and after the position, the bytes of a number in the order in which the
  iterator writes them, and the bytes of an address.
\<close>

record ('i, 'a) view =
  before :: "'i \<Rightarrow> byte list"
  after :: "'i \<Rightarrow> byte list"
  bytes16 :: "uint16 \<Rightarrow> byte list"
  bytes32 :: "uint32 \<Rightarrow> byte list"
  bytes64 :: "uint64 \<Rightarrow> byte list"
  address_bytes :: "'a \<Rightarrow> byte list"

section \<open>What is written and what is read\<close>

definition writes :: "('i, 'a) view \<Rightarrow> ('i \<Rightarrow> 'i option) \<Rightarrow> byte list \<Rightarrow> bool" where
  "writes V f bs = (\<forall>i. length bs \<le> length (after V i) \<longrightarrow>
     (\<exists>i'. f i = Some i' \<and> before V i' = before V i @ bs \<and> after V i' = drop (length bs) (after V i)))"

definition reads :: "('i, 'a) view \<Rightarrow> ('i \<Rightarrow> ('r \<times> 'i) option) \<Rightarrow> byte list \<Rightarrow> 'r \<Rightarrow> bool" where
  "reads V f bs r = (\<forall>i rest. after V i = bs @ rest \<longrightarrow>
     (\<exists>i'. f i = Some (r, i') \<and> before V i' = before V i @ bs \<and> after V i' = rest))"

text \<open>The documented behaviour of the iterator and of the addresses, which have at most 20 bytes.\<close>

definition io_ok :: "('i, 'a) io \<Rightarrow> ('i, 'a) view \<Rightarrow> bool" where
  "io_ok B V =
     ((\<forall>v. length (bytes16 V v) = 2) \<and> (\<forall>v. length (bytes32 V v) = 4) \<and> (\<forall>v. length (bytes64 V v) = 8)
      \<and> (\<forall>a. length (address_bytes V a) = unat (GetLength B a) \<and> unat (GetLength B a) \<le> 20)
      \<and> (\<forall>v. writes V (WriteU8 B v) [v]) \<and> (\<forall>v n. writes V (WriteU8s B v n) (replicate (unat n) v))
      \<and> (\<forall>v. writes V (WriteU16 B v) (bytes16 V v)) \<and> (\<forall>v. writes V (WriteU32 B v) (bytes32 V v))
      \<and> (\<forall>bs. writes V (Write_bytes B bs) bs) \<and> (\<forall>a. writes V (WriteTo B a) (address_bytes V a))
      \<and> (\<forall>v. reads V (ReadU8 B) [v] v) \<and> (\<forall>v. reads V (ReadU16 B) (bytes16 V v) v)
      \<and> (\<forall>v. reads V (ReadU32 B) (bytes32 V v) v) \<and> (\<forall>v. reads V (ReadU64 B) (bytes64 V v) v)
      \<and> (\<forall>n bs. length bs = unat n \<longrightarrow> reads V (Read_bytes B n) bs bs)
      \<and> (\<forall>old n bs. length bs = unat n \<and> length bs \<le> 20 \<longrightarrow>
           (\<exists>a. reads V (ReadFrom B old n) bs a \<and> address_bytes V a = bs)))"

lemma io_okD:
  assumes "io_ok B V"
  shows "length (bytes16 V v2) = 2" "length (bytes32 V v4) = 4" "length (bytes64 V v8) = 8"
    "length (address_bytes V a) = unat (GetLength B a)" "unat (GetLength B a) \<le> 20"
  using assms unfolding io_ok_def by blast+

lemma io_ok_writes:
  assumes "io_ok B V"
  shows "writes V (WriteU8 B v1) [v1]" "writes V (WriteU8s B v1 n) (replicate (unat n) v1)"
    "writes V (WriteU16 B v2) (bytes16 V v2)" "writes V (WriteU32 B v4) (bytes32 V v4)"
    "writes V (Write_bytes B bs) bs" "writes V (WriteTo B a) (address_bytes V a)"
  using assms unfolding io_ok_def by blast+

lemma io_ok_reads:
  assumes "io_ok B V"
  shows "reads V (ReadU8 B) [v1] v1" "reads V (ReadU16 B) (bytes16 V v2) v2"
    "reads V (ReadU32 B) (bytes32 V v4) v4" "reads V (ReadU64 B) (bytes64 V v8) v8"
    "length bs = unat n \<Longrightarrow> reads V (Read_bytes B n) bs bs"
    "length bs = unat n \<Longrightarrow> length bs \<le> 20 \<Longrightarrow> \<exists>a. reads V (ReadFrom B old n) bs a \<and> address_bytes V a = bs"
  using assms unfolding io_ok_def by blast+

lemma writes_nothing: "writes V Some []" by (simp add: writes_def)

lemma writesD:
  "writes V f bs \<Longrightarrow> length bs \<le> length (after V i) \<Longrightarrow>
   \<exists>i'. f i = Some i' \<and> before V i' = before V i @ bs \<and> after V i' = drop (length bs) (after V i)"
  unfolding writes_def by blast

lemma writes_bind:
  assumes "writes V f bs" and "writes V g cs"
  shows "writes V (\<lambda>i. f i \<bind> g) (bs @ cs)"
proof (unfold writes_def, intro allI impI)
  fix i
  assume n: "length (bs @ cs) \<le> length (after V i)"
  then have "length bs \<le> length (after V i)" by simp
  from writesD [OF assms(1) this] obtain j where
    j: "f i = Some j" "before V j = before V i @ bs" "after V j = drop (length bs) (after V i)" by blast
  have "length cs \<le> length (after V j)" using n j(3) by simp
  from writesD [OF assms(2) this] obtain k where
    "g j = Some k" "before V k = before V j @ cs" "after V k = drop (length cs) (after V j)" by blast
  with j show "\<exists>i'. f i \<bind> g = Some i' \<and> before V i' = before V i @ bs @ cs
      \<and> after V i' = drop (length (bs @ cs)) (after V i)" by (simp add: add.commute)
qed

lemma reads_return: "reads V (\<lambda>i. Some (r, i)) [] r" by (simp add: reads_def)

lemma reads_bind:
  assumes "reads V f bs r" and "reads V (g r) cs q"
  shows "reads V (\<lambda>i. f i \<bind> (\<lambda>(r, i). g r i)) (bs @ cs) q"
proof (unfold reads_def, intro allI impI)
  fix i rest
  assume "after V i = (bs @ cs) @ rest"
  then obtain j where j: "f i = Some (r, j)" "before V j = before V i @ bs" "after V j = cs @ rest"
    using assms(1) by (fastforce simp: reads_def)
  then obtain k where "g r j = Some (q, k)" "before V k = before V j @ cs" "after V k = rest"
    using assms(2) by (fastforce simp: reads_def)
  with j show "\<exists>i'. f i \<bind> (\<lambda>(r, i). g r i) = Some (q, i') \<and> before V i' = before V i @ bs @ cs
      \<and> after V i' = rest" by simp
qed

lemma reads_Nil: "reads V f [] r \<Longrightarrow> reads V (g r) cs q \<Longrightarrow> reads V (\<lambda>i. f i \<bind> (\<lambda>(r, i). g r i)) cs q"
  using reads_bind [of V f "[]"] by simp

lemma reads_finish: "reads V f bs r \<Longrightarrow> reads V (\<lambda>i. f i \<bind> (\<lambda>(r, i). Some (h r, i))) bs (h r)"
  using reads_bind [OF _ reads_return, of V f bs r h] by simp

lemmas reads_number = reads_bind [OF io_ok_reads(1)] reads_bind [OF io_ok_reads(2)] reads_bind [OF io_ok_reads(3)]

lemma readsD:
  "reads V f bs r \<Longrightarrow> after V i = bs @ rest \<Longrightarrow>
   \<exists>i'. f i = Some (r, i') \<and> before V i' = before V i @ bs \<and> after V i' = rest"
  unfolding reads_def by blast

section \<open>An iterator over a list of bytes\<close>

text \<open>
  An instance of the interface, on which the theorems are applied: the bytes before and after the
  position, numbers with their low byte first, an address as its kind and its bytes.
\<close>

type_synonym list_iterator = "byte list \<times> byte list"
type_synonym list_address = "byte \<times> byte list"

fun word_bytes :: "nat \<Rightarrow> 'w::len word \<Rightarrow> byte list" where
  "word_bytes 0 v = []"
| "word_bytes (Suc n) v = ucast v # word_bytes n (drop_bit 8 v)"

fun bytes_word :: "byte list \<Rightarrow> 'w::len word" where
  "bytes_word [] = 0"
| "bytes_word (b # bs) = ucast b OR push_bit 8 (bytes_word bs)"

definition put_bytes :: "byte list \<Rightarrow> list_iterator \<Rightarrow> list_iterator option" where
  "put_bytes bs i = (if length bs \<le> length (snd i) then Some (fst i @ bs, drop (length bs) (snd i)) else None)"

definition get_bytes :: "nat \<Rightarrow> list_iterator \<Rightarrow> (byte list \<times> list_iterator) option" where
  "get_bytes n i =
     (if n \<le> length (snd i) then Some (take n (snd i), fst i @ take n (snd i), drop n (snd i)) else None)"

definition address_list :: "list_address \<Rightarrow> byte list" where
  "address_list a = take 20 (snd a)"

definition list_io :: "(list_iterator, list_address) io" where
  "list_io = \<lparr>
     WriteU8 = (\<lambda>v. put_bytes [v]),
     WriteU8s = (\<lambda>v n. put_bytes (replicate (unat n) v)),
     WriteU16 = (\<lambda>v. put_bytes (word_bytes 2 v)),
     WriteU32 = (\<lambda>v. put_bytes (word_bytes 4 v)),
     Write_bytes = put_bytes,
     ReadU8 = (\<lambda>i. map_option (map_prod hd id) (get_bytes 1 i)),
     ReadU16 = (\<lambda>i. map_option (map_prod bytes_word id) (get_bytes 2 i)),
     ReadU32 = (\<lambda>i. map_option (map_prod bytes_word id) (get_bytes 4 i)),
     ReadU64 = (\<lambda>i. map_option (map_prod bytes_word id) (get_bytes 8 i)),
     Read_bytes = (\<lambda>n. get_bytes (unat n)),
     GetLength = (\<lambda>a. of_nat (length (address_list a))),
     WriteTo = (\<lambda>a. put_bytes (address_list a)),
     ReadFrom = (\<lambda>old n i. if unat n \<le> 20 then map_option (map_prod (Pair (fst old)) id) (get_bytes (unat n) i) else None),
     no_address = (0, []),
     uninit = \<lparr>v_type = U8, v_u64 = 1, v_u32 = 2, v_u16 = 3, v_u8 = 4, v_string = [5], v_address = (6, [7])\<rparr>\<rparr>"

definition list_view :: "(list_iterator, list_address) view" where
  "list_view = \<lparr>before = fst, after = snd, bytes16 = word_bytes 2, bytes32 = word_bytes 4,
     bytes64 = word_bytes 8, address_bytes = address_list\<rparr>"

lemma length_word_bytes [simp]: "length (word_bytes n v) = n"
  by (induction n arbitrary: v) auto

lemma put_bytes_writes: "writes list_view (put_bytes bs) bs"
  by (simp add: writes_def put_bytes_def list_view_def)

lemma get_bytes_reads:
  "length bs = n \<Longrightarrow> reads list_view (\<lambda>i. map_option (map_prod f id) (get_bytes n i)) bs (f bs)"
  by (auto simp: reads_def get_bytes_def list_view_def)

lemma bytes_word_bytes:
  fixes v :: "'w::len word"
  shows "LENGTH('w) \<le> 8 * n \<Longrightarrow> bytes_word (word_bytes n v) = v"
proof -
  have "bytes_word (word_bytes n v) = take_bit (8 * n) v" for v :: "'w word"
  proof (induction n arbitrary: v)
    case (Suc n)
    show ?case
    proof (rule bit_eqI)
      fix k
      assume "possible_bit TYPE('w word) k"
      then show "bit (bytes_word (word_bytes (Suc n) v) :: 'w word) k = bit (take_bit (8 * Suc n) v) k"
        by (auto simp: Suc.IH bit_or_iff bit_push_bit_iff bit_take_bit_iff bit_drop_bit_eq bit_ucast_iff)
    qed
  qed simp
  moreover assume "LENGTH('w) \<le> 8 * n"
  ultimately show ?thesis by (simp add: take_bit_word_eq_self)
qed

lemma list_io_ok: "io_ok list_io list_view"
  unfolding io_ok_def
proof (intro conjI allI impI)
  fix a :: list_address
  show "length (address_bytes list_view a) = unat (GetLength list_io a)"
    by (simp add: list_view_def list_io_def address_list_def unat_of_nat)
  show "unat (GetLength list_io a) \<le> 20"
    by (simp add: list_io_def address_list_def unat_of_nat)
next
  fix old n and bs :: "byte list"
  assume "length bs = unat (n :: uint32) \<and> length bs \<le> 20"
  then have "reads list_view (ReadFrom list_io old n) bs (fst old, bs)"
    and "address_bytes list_view (fst old, bs) = bs"
    using get_bytes_reads [of bs "unat n" "Pair (fst old)"]
    by (simp_all add: list_io_def list_view_def address_list_def)
  then show "\<exists>a. reads list_view (ReadFrom list_io old n) bs a \<and> address_bytes list_view a = bs" by blast
next
  fix v :: byte
  show "reads list_view (ReadU8 list_io) [v] v"
    using get_bytes_reads [of "[v]" 1 hd] by (simp add: list_io_def)
next
  fix v :: uint16
  show "reads list_view (ReadU16 list_io) (bytes16 list_view v) v"
    using get_bytes_reads [of "word_bytes 2 v" 2 "bytes_word :: byte list \<Rightarrow> uint16"] bytes_word_bytes [of 2 v]
    by (simp add: list_io_def list_view_def)
next
  fix v :: uint32
  show "reads list_view (ReadU32 list_io) (bytes32 list_view v) v"
    using get_bytes_reads [of "word_bytes 4 v" 4 "bytes_word :: byte list \<Rightarrow> uint32"] bytes_word_bytes [of 4 v]
    by (simp add: list_io_def list_view_def)
next
  fix v :: uint64
  show "reads list_view (ReadU64 list_io) (bytes64 list_view v) v"
    using get_bytes_reads [of "word_bytes 8 v" 8 "bytes_word :: byte list \<Rightarrow> uint64"] bytes_word_bytes [of 8 v]
    by (simp add: list_io_def list_view_def)
next
  fix n :: uint32 and bs :: "byte list"
  assume "length bs = unat n"
  then show "reads list_view (Read_bytes list_io n) bs bs"
    using get_bytes_reads [of bs "unat n" id] by (simp add: list_io_def prod.map_id0 option.map_id0 flip: id_def)
qed (auto simp: list_io_def list_view_def intro!: put_bytes_writes [unfolded list_view_def])

end
