(* ===== verification/Netlink_Attribute.thy ===== *)
theory Netlink_Attribute
  imports Netlink_Buffer
begin

text \<open>
  The netlink attributes (\<open>netlink/netlink-attribute.cc\<close>): their values, how a value and an
  attribute are built, written to and read from a packet, with the bytes they are on the wire.
\<close>

definition NETLINK_MSG_ALIGN :: "uint32 \<Rightarrow> uint32" where
  "NETLINK_MSG_ALIGN x = (x + 4 - 1) AND NOT (4 - 1)"

section \<open>Values\<close>

definition NetlinkAttributeValue :: "('i, 'a) io \<Rightarrow> 'a attribute_value" where
  "NetlinkAttributeValue B =
     (uninit B)\<lparr>v_type := UNSPEC, v_u32 := 0, v_string := [], v_address := no_address B\<rparr>"

definition fresh_value :: "('i, 'a) io \<Rightarrow> 'a attribute_value" where
  "fresh_value B = (uninit B)\<lparr>v_string := [], v_address := no_address B\<rparr>"

text \<open>The constructors with a value; the type each of them asserts is the one it sets.\<close>

definition value_u8 :: "('i, 'a) io \<Rightarrow> byte \<Rightarrow> 'a attribute_value" where
  "value_u8 B x = (fresh_value B)\<lparr>v_type := U8, v_u8 := x\<rparr>"
definition value_u16 :: "('i, 'a) io \<Rightarrow> uint16 \<Rightarrow> 'a attribute_value" where
  "value_u16 B x = (fresh_value B)\<lparr>v_type := U16, v_u16 := x\<rparr>"
definition value_u32 :: "('i, 'a) io \<Rightarrow> uint32 \<Rightarrow> 'a attribute_value" where
  "value_u32 B x = (fresh_value B)\<lparr>v_type := U32, v_u32 := x\<rparr>"
definition value_u64 :: "('i, 'a) io \<Rightarrow> uint64 \<Rightarrow> 'a attribute_value" where
  "value_u64 B x = (fresh_value B)\<lparr>v_type := U64, v_u64 := x\<rparr>"
definition value_string :: "('i, 'a) io \<Rightarrow> byte list \<Rightarrow> 'a attribute_value" where
  "value_string B x = (fresh_value B)\<lparr>v_type := STRING, v_string := x\<rparr>"
definition value_address :: "('i, 'a) io \<Rightarrow> 'a \<Rightarrow> 'a attribute_value" where
  "value_address B x = (fresh_value B)\<lparr>v_type := ADDRESS, v_address := x\<rparr>"

definition val_SetType :: "value_type \<Rightarrow> 'a attribute_value \<Rightarrow> 'a attribute_value" where
  "val_SetType t v = v\<lparr>v_type := t\<rparr>"
definition val_SetAddress :: "'a \<Rightarrow> 'a attribute_value \<Rightarrow> 'a attribute_value" where
  "val_SetAddress x v = v\<lparr>v_address := x\<rparr>"
definition val_SetString :: "byte list \<Rightarrow> 'a attribute_value \<Rightarrow> 'a attribute_value" where
  "val_SetString x v = v\<lparr>v_string := x\<rparr>"
definition val_SetU64 :: "uint64 \<Rightarrow> 'a attribute_value \<Rightarrow> 'a attribute_value" where
  "val_SetU64 x v = v\<lparr>v_u64 := x\<rparr>"
definition val_SetU32 :: "uint32 \<Rightarrow> 'a attribute_value \<Rightarrow> 'a attribute_value" where
  "val_SetU32 x v = v\<lparr>v_u32 := x\<rparr>"
definition val_SetU16 :: "uint16 \<Rightarrow> 'a attribute_value \<Rightarrow> 'a attribute_value" where
  "val_SetU16 x v = v\<lparr>v_u16 := x\<rparr>"
definition val_SetU8 :: "byte \<Rightarrow> 'a attribute_value \<Rightarrow> 'a attribute_value" where
  "val_SetU8 x v = v\<lparr>v_u8 := x\<rparr>"

definition val_Serialize :: "('i, 'a) io \<Rightarrow> 'a attribute_value \<Rightarrow> 'i \<Rightarrow> 'i option" where
  "val_Serialize B v i =
     do { (len, i) \<leftarrow> (case v_type v of
            U8 \<Rightarrow> do { i \<leftarrow> WriteU8 B (v_u8 v) i; Some (1, i) }
          | U16 \<Rightarrow> do { i \<leftarrow> WriteU16 B (v_u16 v) i; Some (2, i) }
          | U32 \<Rightarrow> do { i \<leftarrow> WriteU32 B (v_u32 v) i; Some (4, i) }
          | STRING \<Rightarrow> do { i \<leftarrow> Write_bytes B (v_string v @ [0]) i; Some (of_nat (length (v_string v)) + 1, i) }
          | ADDRESS \<Rightarrow> do { i \<leftarrow> WriteTo B (v_address v) i; Some (ucast (GetLength B (v_address v)), i) }
          | _ \<Rightarrow> Some (0, i));
          WriteU8s B 0 (NETLINK_MSG_ALIGN len - len) i }"

text \<open>The loop that reads a string into an array of 512 bytes; \<open>n\<close> bytes are in it.\<close>

function read_string :: "('i, 'a) io \<Rightarrow> nat \<Rightarrow> 'i \<Rightarrow> (byte list \<times> 'i) option" where
  "read_string B n i =
     (if 512 \<le> n then None
      else do { (b, i) \<leftarrow> ReadU8 B i;
                if b = 0 then Some ([], i)
                else do { (bs, i) \<leftarrow> read_string B (Suc n) i; Some (b # bs, i) } })"
  by pat_completeness auto
termination by (relation "measure (\<lambda>(B, n, i). 512 - n)") auto

declare read_string.simps [simp del]

text \<open>The branches of \<open>DeserializeWithType\<close>, with the \<open>len\<close> they leave, and its alignment.\<close>

definition read_value ::
  "('i, 'a) io \<Rightarrow> value_type \<Rightarrow> uint16 \<Rightarrow> 'a attribute_value \<Rightarrow> 'i \<Rightarrow> ((uint32 \<times> 'a attribute_value) \<times> 'i) option" where
  "read_value B t remaining v i =
     (case t of
        U8 \<Rightarrow> do { (x, i) \<leftarrow> ReadU8 B i; Some ((1, v\<lparr>v_u8 := x\<rparr>), i) }
      | U16 \<Rightarrow> do { (x, i) \<leftarrow> ReadU16 B i; Some ((2, v\<lparr>v_u16 := x\<rparr>), i) }
      | U32 \<Rightarrow> do { (x, i) \<leftarrow> ReadU32 B i; Some ((4, v\<lparr>v_u32 := x\<rparr>), i) }
      | U64 \<Rightarrow> do { (x, i) \<leftarrow> ReadU64 B i; Some ((0, v\<lparr>v_u64 := x\<rparr>), i) }
      | STRING \<Rightarrow> do { (s, i) \<leftarrow> read_string B 0 i;
                        Some ((of_nat (length s) + 1, v\<lparr>v_string := s\<rparr>), i) }
      | ADDRESS \<Rightarrow> do { (x, i) \<leftarrow> ReadFrom B (v_address v) (ucast remaining) i;
                         Some ((ucast (GetLength B x), v\<lparr>v_address := x\<rparr>), i) }
      | UNSPEC \<Rightarrow> Some ((0, v), i))"

definition val_DeserializeWithType ::
  "('i, 'a) io \<Rightarrow> value_type \<Rightarrow> uint16 \<Rightarrow> 'a attribute_value \<Rightarrow> 'i \<Rightarrow> ((uint32 \<times> 'a attribute_value) \<times> 'i) option" where
  "val_DeserializeWithType B t remaining v i =
     do { ((len, v), i) \<leftarrow> read_value B t remaining (v\<lparr>v_type := t\<rparr>) i;
          (buf, i) \<leftarrow> Read_bytes B (NETLINK_MSG_ALIGN len - len) i;
          Some ((NETLINK_MSG_ALIGN len, v), i) }"

definition val_GetSize :: "('i, 'a) io \<Rightarrow> 'a attribute_value \<Rightarrow> uint32" where
  "val_GetSize B v =
     (case v_type v of U8 \<Rightarrow> 1 | U16 \<Rightarrow> 2 | U32 \<Rightarrow> 4 | STRING \<Rightarrow> of_nat (length (v_string v)) + 1
      | ADDRESS \<Rightarrow> ucast (GetLength B (v_address v)) | _ \<Rightarrow> 0)"

definition val_GetSerializedSize :: "('i, 'a) io \<Rightarrow> 'a attribute_value \<Rightarrow> uint32" where
  "val_GetSerializedSize B v = NETLINK_MSG_ALIGN (val_GetSize B v)"

section \<open>Attributes\<close>

record 'a attribute =
  a_len :: uint16
  a_type :: uint16
  a_payload :: "'a attribute_value"

definition NetlinkAttribute :: "('i, 'a) io \<Rightarrow> 'a attribute" where
  "NetlinkAttribute B = \<lparr>a_len = 4, a_type = 0, a_payload = NetlinkAttributeValue B\<rparr>"

text \<open>The constructors with a value differ in the type of the value only; the length is cut to 16 bits.\<close>

definition attribute_of :: "('i, 'a) io \<Rightarrow> uint16 \<Rightarrow> 'a attribute_value \<Rightarrow> 'a attribute" where
  "attribute_of B t v = \<lparr>a_len = ucast (4 + val_GetSize B v), a_type = t, a_payload = v\<rparr>"

definition SetAttrLen :: "uint16 \<Rightarrow> 'a attribute \<Rightarrow> 'a attribute" where
  "SetAttrLen x a = a\<lparr>a_len := x\<rparr>"
definition SetAttrType :: "uint16 \<Rightarrow> 'a attribute \<Rightarrow> 'a attribute" where
  "SetAttrType x a = a\<lparr>a_type := x\<rparr>"
definition SetAttrPayload :: "'a attribute_value \<Rightarrow> 'a attribute \<Rightarrow> 'a attribute" where
  "SetAttrPayload x a = a\<lparr>a_payload := x\<rparr>"

definition attr_GetSerializedSize :: "('i, 'a) io \<Rightarrow> 'a attribute \<Rightarrow> uint32" where
  "attr_GetSerializedSize B a = 4 + val_GetSerializedSize B (a_payload a)"

definition attr_Serialize :: "('i, 'a) io \<Rightarrow> 'a attribute \<Rightarrow> 'i \<Rightarrow> 'i option" where
  "attr_Serialize B a i =
     do { i \<leftarrow> WriteU16 B (a_len a) i; i \<leftarrow> WriteU16 B (a_type a) i; val_Serialize B (a_payload a) i }"

text \<open>\<open>vtypes\<close> is indexed with the type in the packet, which may be beyond its end.\<close>

definition attr_Deserialize ::
  "('i, 'a) io \<Rightarrow> value_type list \<Rightarrow> 'a attribute \<Rightarrow> 'i \<Rightarrow> ((uint32 \<times> 'a attribute) \<times> 'i) option" where
  "attr_Deserialize B vtypes a i =
     do { (l, i) \<leftarrow> ReadU16 B i;
          (t, i) \<leftarrow> ReadU16 B i;
          if unat t < length vtypes then
            do { ((n, v), i) \<leftarrow> val_DeserializeWithType B (vtypes ! unat t) (l - 4) (a_payload a) i;
                 let a' = \<lparr>a_len = l, a_type = t, a_payload = v\<rparr> in
                 Some ((attr_GetSerializedSize B a', a'), i) }
          else None }"

section \<open>The bytes of a value and of an attribute\<close>

text \<open>What a value shows: the member its type names.\<close>

datatype shown = Shows_nothing | Shows8 byte | Shows16 uint16 | Shows32 uint32 | Shows64 uint64
  | Shows_string "byte list" | Shows_address "byte list"

definition val_shown :: "('i, 'a) view \<Rightarrow> 'a attribute_value \<Rightarrow> shown" where
  "val_shown V v =
     (case v_type v of UNSPEC \<Rightarrow> Shows_nothing | U8 \<Rightarrow> Shows8 (v_u8 v) | U16 \<Rightarrow> Shows16 (v_u16 v)
      | U32 \<Rightarrow> Shows32 (v_u32 v) | U64 \<Rightarrow> Shows64 (v_u64 v) | STRING \<Rightarrow> Shows_string (v_string v)
      | ADDRESS \<Rightarrow> Shows_address (address_bytes V (v_address v)))"

definition attr_shown :: "('i, 'a) view \<Rightarrow> 'a attribute \<Rightarrow> uint16 \<times> uint16 \<times> shown" where
  "attr_shown V a = (a_len a, a_type a, val_shown V (a_payload a))"

definition padded :: "byte list \<Rightarrow> byte list" where
  "padded bs = bs @ replicate ((4 - length bs mod 4) mod 4) 0"

definition val_raw :: "('i, 'a) view \<Rightarrow> 'a attribute_value \<Rightarrow> byte list" where
  "val_raw V v =
     (case v_type v of U8 \<Rightarrow> [v_u8 v] | U16 \<Rightarrow> bytes16 V (v_u16 v) | U32 \<Rightarrow> bytes32 V (v_u32 v)
      | STRING \<Rightarrow> v_string v @ [0] | ADDRESS \<Rightarrow> address_bytes V (v_address v) | _ \<Rightarrow> [])"

definition val_bytes :: "('i, 'a) view \<Rightarrow> 'a attribute_value \<Rightarrow> byte list" where
  "val_bytes V v = padded (val_raw V v)"

definition attr_bytes :: "('i, 'a) view \<Rightarrow> 'a attribute \<Rightarrow> byte list" where
  "attr_bytes V a = bytes16 V (a_len a) @ bytes16 V (a_type a) @ val_bytes V (a_payload a)"

text \<open>A value that the format can carry: no 64-bit number, and a string that the reader's array holds.\<close>

definition val_ok :: "'a attribute_value \<Rightarrow> bool" where
  "val_ok v = (v_type v \<noteq> U64 \<and> (v_type v = STRING \<longrightarrow> 0 \<notin> set (v_string v) \<and> length (v_string v) < 512))"

text \<open>An attribute whose length is that of its value, and whose type is one of a table of types.\<close>

definition attr_ok :: "('i, 'a) io \<Rightarrow> value_type list \<Rightarrow> 'a attribute \<Rightarrow> bool" where
  "attr_ok B vtypes a = (val_ok (a_payload a) \<and> a_len a = ucast (4 + val_GetSize B (a_payload a))
     \<and> unat (a_type a) < length vtypes \<and> vtypes ! unat (a_type a) = v_type (a_payload a))"

section \<open>Sizes\<close>

lemma align_bits: "NETLINK_MSG_ALIGN x = push_bit 2 (drop_bit 2 (x + 3))"
proof -
  have "(4 - 1 :: uint32) = mask 2" by (simp add: mask_eq_exp_minus_1)
  moreover have "x + 4 - 1 = x + 3" by simp
  ultimately have "NETLINK_MSG_ALIGN x = (x + 3) AND NOT (mask 2)" by (simp only: NETLINK_MSG_ALIGN_def)
  also have "\<dots> = push_bit 2 (drop_bit 2 (x + 3))"
  proof (rule bit_eqI)
    fix n
    assume "possible_bit TYPE(uint32) n"
    show "bit ((x + 3) AND NOT (mask 2)) n = bit (push_bit 2 (drop_bit 2 (x + 3))) n"
    proof (cases "n < 2")
      case False
      then obtain m where "n = 2 + m" by (metis le_Suc_ex not_less)
      then show ?thesis using \<open>possible_bit TYPE(uint32) n\<close>
        by (simp add: bit_and_iff bit_not_iff bit_mask_iff bit_push_bit_iff bit_drop_bit_eq)
    qed (simp add: bit_and_iff bit_not_iff bit_mask_iff bit_push_bit_iff)
  qed
  finally show ?thesis .
qed

lemma align_unat:
  assumes "unat x + 3 < 2 ^ 32"
  shows "unat (NETLINK_MSG_ALIGN x) = (unat x + 3) div 4 * 4"
proof -
  have n: "unat (x + 3) = unat x + 3" using assms by (simp add: unat_plus_word)
  have "take_bit 32 (unat (x + 3)) = unat (x + 3)"
    by (rule take_bit_nat_eq_self) (use unat_lt [of "x + 3"] in simp)
  then have "unat (NETLINK_MSG_ALIGN x) = take_bit 32 (push_bit 2 (drop_bit 2 (unat (x + 3))))"
    by (simp add: align_bits unsigned_push_bit_eq unsigned_drop_bit_eq)
  also have "\<dots> = (unat x + 3) div 4 * 4"
    using assms n by (simp add: push_bit_nat_def drop_bit_nat_def take_bit_nat_def)
  finally show ?thesis .
qed

lemma pad_nat: "(n + 3) div 4 * 4 = n + (4 - n mod 4) mod 4" for n :: nat
proof -
  define q r where "q = n div 4" and "r = n mod 4"
  then have n: "n = r + 4 * q" and "r < 4" by simp_all
  then have "(n + 3) div 4 = (r + 3) div 4 + q" by (metis add.assoc add.commute div_mult_self2 zero_neq_numeral)
  moreover have "r = 0 \<or> r = 1 \<or> r = 2 \<or> r = 3" using \<open>r < 4\<close> by linarith
  then have "(r + 3) div 4 * 4 = r + (4 - r) mod 4" by (elim disjE) simp_all
  ultimately have "(n + 3) div 4 * 4 = r + (4 - r) mod 4 + q * 4" by (simp only: distrib_right)
  then show ?thesis using div_mult_mod_eq [of n 4] unfolding q_def r_def by linarith
qed

lemma pad_unat:
  assumes "unat x + 3 < 2 ^ 32"
  shows "unat (NETLINK_MSG_ALIGN x - x) = (4 - unat x mod 4) mod 4"
proof -
  have a: "unat (NETLINK_MSG_ALIGN x) = unat x + (4 - unat x mod 4) mod 4"
    using align_unat [OF assms] unfolding pad_nat .
  then have "x \<le> NETLINK_MSG_ALIGN x" unfolding word_le_unat by linarith
  from unat_diff_word [OF this] a show ?thesis by linarith
qed

lemma length_padded: "length (padded bs) = (length bs + 3) div 4 * 4"
  by (simp add: padded_def pad_nat)

lemma string_size:
  "val_ok v \<Longrightarrow> v_type v = STRING \<Longrightarrow>
   unat (1 + of_nat (length (v_string v)) :: uint32) = Suc (length (v_string v)) \<and> Suc (length (v_string v)) \<le> 512"
  by (simp add: val_ok_def unat_word_ariths unat_of_nat)

lemma val_raw_size:
  assumes "io_ok B V" and "val_ok v"
  shows "length (val_raw V v) = unat (val_GetSize B v)" and "unat (val_GetSize B v) \<le> 512"
proof -
  note s = string_size [OF assms(2)]
  have "length (val_raw V v) = unat (val_GetSize B v) \<and> unat (val_GetSize B v) \<le> 512"
  proof (cases "v_type v")
    case STRING
    then show ?thesis using s by (simp add: val_raw_def val_GetSize_def add.commute)
  next
    case ADDRESS
    then show ?thesis using io_okD(4,5) [OF assms(1), of "v_address v"]
      by (simp add: val_raw_def val_GetSize_def unat_ucast_small)
  qed (simp_all add: val_raw_def val_GetSize_def io_okD(1,2) [OF assms(1)])
  then show "length (val_raw V v) = unat (val_GetSize B v)" and "unat (val_GetSize B v) \<le> 512" by simp_all
qed

lemma val_bytes_size:
  assumes "io_ok B V" and "val_ok v"
  shows "unat (val_GetSerializedSize B v) = length (val_bytes V v)" and "length (val_bytes V v) \<le> 512"
  using val_raw_size [OF assms] align_unat [of "val_GetSize B v"]
  by (simp_all add: val_GetSerializedSize_def val_bytes_def length_padded)

lemma shown_size:
  assumes "io_ok B V" and "val_shown V v' = val_shown V v"
  shows "v_type v' = v_type v" and "val_GetSize B v' = val_GetSize B v"
proof -
  show t: "v_type v' = v_type v" using assms(2) by (simp add: val_shown_def split: value_type.splits)
  have "GetLength B (v_address v') = GetLength B (v_address v)" if "v_type v = ADDRESS"
    using assms(2) t that io_okD(4) [OF assms(1), of "v_address v"] io_okD(4) [OF assms(1), of "v_address v'"]
    by (simp add: val_shown_def word_unat_eq_iff)
  then show "val_GetSize B v' = val_GetSize B v"
    using assms(2) t by (cases "v_type v") (simp_all add: val_shown_def val_GetSize_def)
qed

section \<open>Writing and reading\<close>

lemma val_Serialize_writes:
  assumes "io_ok B V" and "val_ok v"
  shows "writes V (val_Serialize B v) (val_bytes V v)"
proof -
  note w = io_ok_writes [OF assms(1)]
  define n where "n = NETLINK_MSG_ALIGN (val_GetSize B v) - val_GetSize B v"
  have "unat n = (4 - length (val_raw V v) mod 4) mod 4"
    using pad_unat [of "val_GetSize B v"] val_raw_size [OF assms] by (simp add: n_def)
  then have pad: "writes V (WriteU8s B 0 n) (replicate ((4 - length (val_raw V v) mod 4) mod 4) 0)"
    using w(2) [of 0 n] by simp
  have "\<exists>f. writes V f (val_raw V v) \<and> val_Serialize B v = (\<lambda>i. f i \<bind> WriteU8s B 0 n)"
  proof (cases "v_type v")
    case U8
    then show ?thesis using w(1) [of "v_u8 v"]
      by (auto simp: val_Serialize_def val_raw_def val_GetSize_def n_def fun_eq_iff)
  next
    case U16
    then show ?thesis using w(3) [of "v_u16 v"]
      by (auto simp: val_Serialize_def val_raw_def val_GetSize_def n_def fun_eq_iff)
  next
    case U32
    then show ?thesis using w(4) [of "v_u32 v"]
      by (auto simp: val_Serialize_def val_raw_def val_GetSize_def n_def fun_eq_iff)
  next
    case STRING
    then show ?thesis using w(5) [of "v_string v @ [0]"]
      by (auto simp: val_Serialize_def val_raw_def val_GetSize_def n_def fun_eq_iff)
  next
    case ADDRESS
    then show ?thesis using w(6) [of "v_address v"]
      by (auto simp: val_Serialize_def val_raw_def val_GetSize_def n_def fun_eq_iff)
  qed (use writes_nothing [of V] in \<open>auto simp: val_Serialize_def val_raw_def val_GetSize_def n_def fun_eq_iff intro!: exI [of _ Some]\<close>)
  with writes_bind [OF _ pad] show ?thesis by (auto simp: val_bytes_def padded_def)
qed

lemma read_string_unfold:
  "n < 512 \<Longrightarrow> read_string B n = (\<lambda>i. ReadU8 B i \<bind> (\<lambda>(b, i). if b = 0 then Some ([], i)
     else read_string B (Suc n) i \<bind> (\<lambda>(bs, i). Some (b # bs, i))))"
  by (rule ext, subst read_string.simps) simp

lemma read_string_reads:
  assumes "io_ok B V" and "0 \<notin> set s" and "n + length s < 512"
  shows "reads V (read_string B n) (s @ [0]) s"
  using assms(2,3)
proof (induction s arbitrary: n)
  case Nil
  then have "n < 512" by simp
  have "reads V (\<lambda>i. if (0 :: byte) = 0 then Some ([], i)
      else read_string B (Suc n) i \<bind> (\<lambda>(bs, i). Some (0 # bs, i))) [] []"
    using reads_return [of V "[]"] by simp
  from reads_bind [where g = "\<lambda>b i. if b = 0 then Some ([], i)
      else read_string B (Suc n) i \<bind> (\<lambda>(bs, i). Some (b # bs, i))", OF io_ok_reads(1) [OF assms(1), of 0] this]
  show ?case unfolding read_string_unfold [OF \<open>n < 512\<close>] by simp
next
  case (Cons b s)
  then have "n < 512" by simp
  have "reads V (read_string B (Suc n)) (s @ [0]) s" using Cons by simp
  then have "reads V (\<lambda>i. read_string B (Suc n) i \<bind> (\<lambda>(bs, i). Some (b # bs, i))) (s @ [0]) (b # s)"
    by (rule reads_finish)
  then have "reads V (\<lambda>i. if b = 0 then Some ([], i)
      else read_string B (Suc n) i \<bind> (\<lambda>(bs, i). Some (b # bs, i))) (s @ [0]) (b # s)"
    using Cons.prems by auto
  from reads_bind [where g = "\<lambda>b i. if b = 0 then Some ([], i)
      else read_string B (Suc n) i \<bind> (\<lambda>(bs, i). Some (b # bs, i))", OF io_ok_reads(1) [OF assms(1), of b] this]
  show ?case unfolding read_string_unfold [OF \<open>n < 512\<close>] by simp
qed

text \<open>Reading takes the place of writing: what is read shows what was written.\<close>

lemma read_value_reads:
  assumes "io_ok B V" and "val_ok v" and "v_type v = ADDRESS \<Longrightarrow> unat remaining = unat (val_GetSize B v)"
    and "v_type v0 = v_type v"
  shows "\<exists>v'. reads V (read_value B (v_type v) remaining v0) (val_raw V v) (val_GetSize B v, v')
    \<and> val_shown V v' = val_shown V v"
proof (cases "v_type v")
  case ADDRESS
  have "length (val_raw V v) = unat (ucast remaining :: uint32)" "length (val_raw V v) \<le> 20"
    using val_raw_size [OF assms(1,2)] assms(3) [OF ADDRESS] ADDRESS io_okD(4,5) [OF assms(1), of "v_address v"]
    by (simp_all add: unat_ucast_small val_raw_def)
  from io_ok_reads(6) [OF assms(1) this, of "v_address v0"] obtain a where
    a: "reads V (ReadFrom B (v_address v0) (ucast remaining)) (val_raw V v) a" "address_bytes V a = val_raw V v" by blast
  have s: "val_shown V (v0\<lparr>v_address := a\<rparr>) = val_shown V v"
    using ADDRESS assms(4) a(2) by (simp add: val_shown_def val_raw_def)
  have "ucast (GetLength B a) = val_GetSize B v"
    using shown_size(2) [OF assms(1) s] ADDRESS assms(4) by (simp add: val_GetSize_def)
  with reads_finish [OF a(1), of "\<lambda>x. (ucast (GetLength B x) :: uint32, v0\<lparr>v_address := x\<rparr>)"] ADDRESS s
  show ?thesis by (intro exI [of _ "v0\<lparr>v_address := a\<rparr>"]) (simp add: read_value_def [abs_def])
next
  case STRING
  then have "reads V (read_string B 0) (val_raw V v) (v_string v)"
    using read_string_reads [OF assms(1), of "v_string v" 0] assms(2) by (simp add: val_ok_def val_raw_def)
  from reads_finish [OF this, of "\<lambda>s. (of_nat (length s) + 1, v0\<lparr>v_string := s\<rparr>)"] STRING assms(4)
  show ?thesis by (intro exI [of _ "v0\<lparr>v_string := v_string v\<rparr>"])
      (simp add: read_value_def [abs_def] val_GetSize_def val_shown_def)
next
  case U8
  with reads_finish [OF io_ok_reads(1) [OF assms(1), of "v_u8 v"], of "\<lambda>x. (1, v0\<lparr>v_u8 := x\<rparr>)"] assms(4)
  show ?thesis by (intro exI [of _ "v0\<lparr>v_u8 := v_u8 v\<rparr>"])
      (simp add: read_value_def [abs_def] val_GetSize_def val_shown_def val_raw_def)
next
  case U16
  with reads_finish [OF io_ok_reads(2) [OF assms(1), of "v_u16 v"], of "\<lambda>x. (2, v0\<lparr>v_u16 := x\<rparr>)"] assms(4)
  show ?thesis by (intro exI [of _ "v0\<lparr>v_u16 := v_u16 v\<rparr>"])
      (simp add: read_value_def [abs_def] val_GetSize_def val_shown_def val_raw_def)
next
  case U32
  with reads_finish [OF io_ok_reads(3) [OF assms(1), of "v_u32 v"], of "\<lambda>x. (4, v0\<lparr>v_u32 := x\<rparr>)"] assms(4)
  show ?thesis by (intro exI [of _ "v0\<lparr>v_u32 := v_u32 v\<rparr>"])
      (simp add: read_value_def [abs_def] val_GetSize_def val_shown_def val_raw_def)
next
  case UNSPEC
  with reads_return [of V "(0, v0)"] assms(4)
  show ?thesis by (intro exI [of _ v0])
      (simp add: read_value_def [abs_def] val_GetSize_def val_shown_def val_raw_def)
qed (use assms(2) in \<open>simp add: val_ok_def\<close>)

lemma val_Deserialize_reads:
  assumes "io_ok B V" and "val_ok v" and "v_type v = ADDRESS \<Longrightarrow> unat remaining = unat (val_GetSize B v)"
  shows "\<exists>v'. reads V (val_DeserializeWithType B (v_type v) remaining v0) (val_bytes V v)
      (val_GetSerializedSize B v, v') \<and> val_shown V v' = val_shown V v"
proof -
  have "v_type (v0\<lparr>v_type := v_type v\<rparr>) = v_type v" by simp
  from read_value_reads [OF assms this] obtain v' where
    r: "reads V (read_value B (v_type v) remaining (v0\<lparr>v_type := v_type v\<rparr>)) (val_raw V v) (val_GetSize B v, v')"
    and s: "val_shown V v' = val_shown V v" by blast
  define n where "n = NETLINK_MSG_ALIGN (val_GetSize B v) - val_GetSize B v"
  have "length (replicate ((4 - length (val_raw V v) mod 4) mod 4) (0 :: byte)) = unat n"
    using pad_unat [of "val_GetSize B v"] val_raw_size [OF assms(1,2)] by (simp add: n_def)
  from reads_finish [OF io_ok_reads(5) [OF assms(1) this], of "\<lambda>buf. (NETLINK_MSG_ALIGN (val_GetSize B v), v')"]
  have "reads V (\<lambda>i. Read_bytes B n i \<bind> (\<lambda>(buf, i). Some ((NETLINK_MSG_ALIGN (val_GetSize B v), v'), i)))
     (replicate ((4 - length (val_raw V v) mod 4) mod 4) 0) (val_GetSerializedSize B v, v')"
    by (simp add: val_GetSerializedSize_def)
  with reads_bind [where g = "\<lambda>(len, v) i. Read_bytes B (NETLINK_MSG_ALIGN len - len) i \<bind>
      (\<lambda>(buf, i). Some ((NETLINK_MSG_ALIGN len, v), i))", OF r]
  have "reads V (\<lambda>i. read_value B (v_type v) remaining (v0\<lparr>v_type := v_type v\<rparr>) i \<bind>
      (\<lambda>(r, i). (\<lambda>(len, v) i. Read_bytes B (NETLINK_MSG_ALIGN len - len) i \<bind>
      (\<lambda>(buf, i). Some ((NETLINK_MSG_ALIGN len, v), i))) r i)) (val_bytes V v) (val_GetSerializedSize B v, v')"
    by (simp add: n_def val_bytes_def padded_def)
  with s show ?thesis by (auto simp: val_DeserializeWithType_def [abs_def] split_def)
qed

section \<open>Attributes and lists of them\<close>

lemma attr_bytes_size:
  assumes "io_ok B V" and "val_ok (a_payload a)"
  shows "unat (attr_GetSerializedSize B a) = length (attr_bytes V a)" and "length (attr_bytes V a) \<le> 516"
    and "4 \<le> length (attr_bytes V a)"
proof -
  note n = val_bytes_size [OF assms]
  have "unat (4 + val_GetSerializedSize B (a_payload a)) = 4 + unat (val_GetSerializedSize B (a_payload a))"
    using n by (subst unat_plus_word) simp_all
  then show "unat (attr_GetSerializedSize B a) = length (attr_bytes V a)" and "length (attr_bytes V a) \<le> 516"
    and "4 \<le> length (attr_bytes V a)"
    using n by (simp_all add: attr_GetSerializedSize_def attr_bytes_def io_okD [OF assms(1)])
qed

lemma attr_Serialize_writes:
  assumes "io_ok B V" and "val_ok (a_payload a)"
  shows "writes V (attr_Serialize B a) (attr_bytes V a)"
proof -
  note w = io_ok_writes(3) [OF assms(1)]
  from writes_bind [OF w [of "a_len a"] writes_bind [OF w [of "a_type a"] val_Serialize_writes [OF assms]]]
  show ?thesis by (simp add: attr_Serialize_def [abs_def] attr_bytes_def)
qed

lemma attr_remaining:
  assumes "io_ok B V" and "attr_ok B vtypes a"
  shows "unat (a_len a - 4) = unat (val_GetSize B (a_payload a))"
proof -
  have n: "unat (val_GetSize B (a_payload a)) \<le> 512"
    using val_raw_size(2) [OF assms(1)] assms(2) by (simp add: attr_ok_def)
  have "unat (4 + val_GetSize B (a_payload a)) = 4 + unat (val_GetSize B (a_payload a))"
    using n by (subst unat_plus_word) simp_all
  then have len: "unat (a_len a) = 4 + unat (val_GetSize B (a_payload a))"
    using n assms(2) by (simp add: attr_ok_def unsigned_ucast_eq take_bit_nat_eq_self)
  then have "4 \<le> a_len a" by (simp add: word_le_unat)
  from unat_diff_word [OF this] len show ?thesis by simp
qed

lemma attr_Deserialize_reads:
  assumes "io_ok B V" and "attr_ok B vtypes a"
  shows "\<exists>a'. reads V (attr_Deserialize B vtypes a0) (attr_bytes V a) (attr_GetSerializedSize B a, a')
    \<and> attr_shown V a' = attr_shown V a"
proof -
  note r = io_ok_reads(2) [OF assms(1)]
  have ok: "val_ok (a_payload a)" using assms(2) by (simp add: attr_ok_def)
  obtain v' where v: "reads V (val_DeserializeWithType B (v_type (a_payload a)) (a_len a - 4) (a_payload a0))
      (val_bytes V (a_payload a)) (val_GetSerializedSize B (a_payload a), v')"
    and s: "val_shown V v' = val_shown V (a_payload a)"
    using val_Deserialize_reads [OF assms(1) ok] attr_remaining [OF assms] by blast
  let ?a = "\<lparr>a_len = a_len a, a_type = a_type a, a_payload = v'\<rparr>"
  have n: "attr_GetSerializedSize B ?a = attr_GetSerializedSize B a"
    using shown_size(2) [OF assms(1) s] by (simp add: attr_GetSerializedSize_def val_GetSerializedSize_def)
  define g where "g l t i = (if unat t < length vtypes then
      do { ((n, v), i) \<leftarrow> val_DeserializeWithType B (vtypes ! unat t) (l - 4) (a_payload a0) i;
           let a' = \<lparr>a_len = l, a_type = t, a_payload = v\<rparr> in
           Some ((attr_GetSerializedSize B a', a'), i) }
      else None)" for l t i
  have "reads V (g (a_len a) (a_type a)) (val_bytes V (a_payload a)) (attr_GetSerializedSize B a, ?a)"
    using reads_finish [OF v, of "\<lambda>(n, v). let a' = \<lparr>a_len = a_len a, a_type = a_type a, a_payload = v\<rparr> in
        (attr_GetSerializedSize B a', a')"] assms(2) n
    by (simp add: g_def [abs_def] attr_ok_def Let_def split_def)
  from reads_bind [where g = "g (a_len a)", OF r [of "a_type a"] this]
  have "reads V (\<lambda>i. ReadU16 B i \<bind> (\<lambda>(t, i). g (a_len a) t i)) (bytes16 V (a_type a) @ val_bytes V (a_payload a))
      (attr_GetSerializedSize B a, ?a)" .
  from reads_bind [where g = "\<lambda>l i. ReadU16 B i \<bind> (\<lambda>(t, i). g l t i)", OF r [of "a_len a"] this]
  have "reads V (attr_Deserialize B vtypes a0) (attr_bytes V a) (attr_GetSerializedSize B a, ?a)"
    by (simp add: attr_Deserialize_def [abs_def] attr_bytes_def g_def)
  moreover have "attr_shown V ?a = attr_shown V a" using s by (simp add: attr_shown_def)
  ultimately show ?thesis by blast
qed

end
