(* ===== verification/Netlink_Route.thy ===== *)
theory Netlink_Route
  imports Netlink_Attribute
begin

text \<open>
  The messages of the route family (\<open>netlink/netlink-message-route.cc\<close>): the general message, the
  interface, the address and the route message, each a fixed part and a list of attributes. The
  classes that extend \<open>GeneralMessage\<close> are records that extend its record; the table
  \<open>m_attributeTypes\<close>, which the constructors fill and nothing changes, is a constant of each. A member of type \<open>int32_t\<close> is kept as its 32 bits.
\<close>

section \<open>The general message\<close>

record 'a general_message =
  m_family :: byte
  m_attributes :: "'a attribute list"

definition GeneralMessage :: "'a general_message" where
  "GeneralMessage = \<lparr>m_family = 0, m_attributes = []\<rparr>"

definition gen_SetFamily :: "byte \<Rightarrow> ('a, 'z) general_message_scheme \<Rightarrow> ('a, 'z) general_message_scheme" where
  "gen_SetFamily x m = m\<lparr>m_family := x\<rparr>"

definition gen_GetSerializedSize :: uint32 where
  "gen_GetSerializedSize = NETLINK_MSG_ALIGN 1"

definition gen_Serialize :: "('i, 'a) io \<Rightarrow> ('a, 'z) general_message_scheme \<Rightarrow> 'i \<Rightarrow> 'i option" where
  "gen_Serialize B m i = do { i \<leftarrow> WriteU8 B (m_family m) i; WriteU8s B 0 3 i }"

definition gen_Deserialize :: "('i, 'a) io \<Rightarrow> uint32 \<Rightarrow> ('a, 'z) general_message_scheme \<Rightarrow> 'i
    \<Rightarrow> ((uint32 \<times> ('a, 'z) general_message_scheme) \<times> 'i) option" where
  "gen_Deserialize B len m i =
     do { (x, i) \<leftarrow> ReadU8 B i; (buf, i) \<leftarrow> Read_bytes B 3 i;
          Some ((gen_GetSerializedSize, m\<lparr>m_family := x\<rparr>), i) }"

definition GetNNetlinkAttribute :: "('a, 'z) general_message_scheme \<Rightarrow> uint32" where
  "GetNNetlinkAttribute m = of_nat (length (m_attributes m))"

definition GetNetlinkAttribute :: "uint32 \<Rightarrow> ('a, 'z) general_message_scheme \<Rightarrow> 'a attribute option" where
  "GetNetlinkAttribute n m = (if n < GetNNetlinkAttribute m then Some (m_attributes m ! unat n) else None)"

definition GetAttributeSerializedSize :: "('i, 'a) io \<Rightarrow> ('a, 'z) general_message_scheme \<Rightarrow> uint32" where
  "GetAttributeSerializedSize B m = sum_list (map (attr_GetSerializedSize B) (m_attributes m))"

definition GetAttributeByType :: "uint16 \<Rightarrow> ('a, 'z) general_message_scheme \<Rightarrow> 'a attribute option" where
  "GetAttributeByType t m = find (\<lambda>a. t = a_type a) (m_attributes m)"

definition AppendAttribute :: "'a attribute \<Rightarrow> ('a, 'z) general_message_scheme \<Rightarrow> ('a, 'z) general_message_scheme" where
  "AppendAttribute a m = m\<lparr>m_attributes := m_attributes m @ [a]\<rparr>"

fun SerializeAttribute :: "('i, 'a) io \<Rightarrow> 'a attribute list \<Rightarrow> 'i \<Rightarrow> 'i option" where
  "SerializeAttribute B [] i = Some i"
| "SerializeAttribute B (a # as) i = do { i \<leftarrow> attr_Serialize B a i; SerializeAttribute B as i }"

text \<open>The loop \<open>while (len)\<close> of the messages with attributes: it ends when \<open>len\<close> is exactly used up.\<close>

partial_function (option) attributes_loop :: "('i, 'a) io \<Rightarrow> value_type list \<Rightarrow> uint32 \<Rightarrow> 'a attribute list \<Rightarrow> 'i
    \<Rightarrow> ('a attribute list \<times> 'i) option" where
  "attributes_loop B vtypes len as i =
     (if len = 0 then Some (as, i)
      else do { ((n, a), i) \<leftarrow> attr_Deserialize B vtypes (NetlinkAttribute B) i;
                attributes_loop B vtypes (len - n) (as @ [a]) i })"

section \<open>The interface message\<close>

record 'a interface_info = "'a general_message" +
  m_reserved :: byte
  m_deviceType :: uint16
  m_interfaceIndex :: uint32
  m_deviceFlags :: uint32
  m_changeMask :: uint32

definition ifl_attributeTypes :: "value_type list" where
  "ifl_attributeTypes = [UNSPEC, ADDRESS, ADDRESS, STRING, U32, U32, U8, UNSPEC, UNSPEC] @ replicate 9 UNSPEC"

definition InterfaceInfoMessage :: "'a interface_info" where
  "InterfaceInfoMessage = 
    \<lparr>m_family = 0, m_attributes = [], m_reserved = 0, m_deviceType = 0, m_interfaceIndex =
     0, m_deviceFlags = 0, m_changeMask = 0\<rparr>"

definition ifl_SetDeviceType :: "uint16 \<Rightarrow> 'a interface_info \<Rightarrow> 'a interface_info" where
  "ifl_SetDeviceType x m = m\<lparr>m_deviceType := x\<rparr>"
definition ifl_SetInterfaceIndex :: "uint32 \<Rightarrow> 'a interface_info \<Rightarrow> 'a interface_info" where
  "ifl_SetInterfaceIndex x m = m\<lparr>m_interfaceIndex := x\<rparr>"
definition ifl_SetDeviceFlags :: "uint32 \<Rightarrow> 'a interface_info \<Rightarrow> 'a interface_info" where
  "ifl_SetDeviceFlags x m = m\<lparr>m_deviceFlags := x\<rparr>"
definition ifl_SetChangeMask :: "uint32 \<Rightarrow> 'a interface_info \<Rightarrow> 'a interface_info" where
  "ifl_SetChangeMask x m = m\<lparr>m_changeMask := x\<rparr>"

definition ifl_GetSerializedSize :: "('i, 'a) io \<Rightarrow> 'a interface_info \<Rightarrow> uint32" where
  "ifl_GetSerializedSize B m = 16 + GetAttributeSerializedSize B m"

definition ifl_Serialize :: "('i, 'a) io \<Rightarrow> 'a interface_info \<Rightarrow> 'i \<Rightarrow> 'i option" where
  "ifl_Serialize B m i =
     do { i \<leftarrow> WriteU8 B (m_family m) i;
          i \<leftarrow> WriteU8 B (m_reserved m) i;
          i \<leftarrow> WriteU16 B (m_deviceType m) i;
          i \<leftarrow> WriteU32 B (m_interfaceIndex m) i;
          i \<leftarrow> WriteU32 B (m_deviceFlags m) i;
          i \<leftarrow> WriteU32 B (m_changeMask m) i;
          SerializeAttribute B (m_attributes m) i }"

definition ifl_Deserialize :: "('i, 'a) io \<Rightarrow> uint32 \<Rightarrow> 'a interface_info \<Rightarrow> 'i
    \<Rightarrow> ((uint32 \<times> 'a interface_info) \<times> 'i) option" where
  "ifl_Deserialize B len m i =
     do { (x0, i) \<leftarrow> ReadU8 B i;
          (x1, i) \<leftarrow> ReadU8 B i;
          (x2, i) \<leftarrow> ReadU16 B i;
          (x3, i) \<leftarrow> ReadU32 B i;
          (x4, i) \<leftarrow> ReadU32 B i;
          (x5, i) \<leftarrow> ReadU32 B i;
          (as, i) \<leftarrow> attributes_loop B ifl_attributeTypes (len - 16) (m_attributes m) i;
          let m' = m\<lparr>m_family := x0, m_reserved := x1, m_deviceType := x2,
                     m_interfaceIndex := x3, m_deviceFlags := x4, m_changeMask := x5,
                     m_attributes := as\<rparr> in
          Some ((ifl_GetSerializedSize B m', m'), i) }"

section \<open>The address message\<close>

record 'a interface_address = "'a general_message" +
  m_length :: byte
  ifa_flags :: byte
  ifa_scope :: byte
  m_index :: uint32

definition ifa_attributeTypes :: "value_type list" where
  "ifa_attributeTypes = [UNSPEC, ADDRESS, ADDRESS, STRING, ADDRESS, ADDRESS, UNSPEC, ADDRESS]"

definition InterfaceAddressMessage :: "'a interface_address" where
  "InterfaceAddressMessage = 
    \<lparr>m_family = 0, m_attributes = [], m_length = 0, ifa_flags = 0, ifa_scope = 0, m_index =
     0\<rparr>"

definition ifa_SetFamily :: "byte \<Rightarrow> 'a interface_address \<Rightarrow> 'a interface_address" where
  "ifa_SetFamily x m = m\<lparr>m_family := x\<rparr>"
definition ifa_SetLength :: "byte \<Rightarrow> 'a interface_address \<Rightarrow> 'a interface_address" where
  "ifa_SetLength x m = m\<lparr>m_length := x\<rparr>"
definition ifa_SetFlags :: "byte \<Rightarrow> 'a interface_address \<Rightarrow> 'a interface_address" where
  "ifa_SetFlags x m = m\<lparr>ifa_flags := x\<rparr>"
definition ifa_SetScope :: "byte \<Rightarrow> 'a interface_address \<Rightarrow> 'a interface_address" where
  "ifa_SetScope x m = m\<lparr>ifa_scope := x\<rparr>"
definition ifa_SetInterfaceIndex :: "uint32 \<Rightarrow> 'a interface_address \<Rightarrow> 'a interface_address" where
  "ifa_SetInterfaceIndex x m = m\<lparr>m_index := x\<rparr>"

definition ifa_GetSerializedSize :: "('i, 'a) io \<Rightarrow> 'a interface_address \<Rightarrow> uint32" where
  "ifa_GetSerializedSize B m = 8 + GetAttributeSerializedSize B m"

definition ifa_Serialize :: "('i, 'a) io \<Rightarrow> 'a interface_address \<Rightarrow> 'i \<Rightarrow> 'i option" where
  "ifa_Serialize B m i =
     do { i \<leftarrow> WriteU8 B (m_family m) i;
          i \<leftarrow> WriteU8 B (m_length m) i;
          i \<leftarrow> WriteU8 B (ifa_flags m) i;
          i \<leftarrow> WriteU8 B (ifa_scope m) i;
          i \<leftarrow> WriteU32 B (m_index m) i;
          SerializeAttribute B (m_attributes m) i }"

definition ifa_Deserialize :: "('i, 'a) io \<Rightarrow> uint32 \<Rightarrow> 'a interface_address \<Rightarrow> 'i
    \<Rightarrow> ((uint32 \<times> 'a interface_address) \<times> 'i) option" where
  "ifa_Deserialize B len m i =
     do { (x0, i) \<leftarrow> ReadU8 B i;
          (x1, i) \<leftarrow> ReadU8 B i;
          (x2, i) \<leftarrow> ReadU8 B i;
          (x3, i) \<leftarrow> ReadU8 B i;
          (x4, i) \<leftarrow> ReadU32 B i;
          (as, i) \<leftarrow> attributes_loop B ifa_attributeTypes (len - 8) (m_attributes m) i;
          let m' = m\<lparr>m_family := x0, m_length := x1, ifa_flags := x2,
                     ifa_scope := x3, m_index := x4, m_attributes := as\<rparr> in
          Some ((ifa_GetSerializedSize B m', m'), i) }"

section \<open>The route message\<close>

record 'a route_message = "'a general_message" +
  m_dstLen :: byte
  m_srcLen :: byte
  m_tos :: byte
  m_tableId :: byte
  m_protocol :: byte
  rt_scope :: byte
  rt_type :: byte
  rt_flags :: uint32

definition rt_attributeTypes :: "value_type list" where
  "rt_attributeTypes = [UNSPEC, ADDRESS, ADDRESS, U32, U32, ADDRESS, U32, ADDRESS, UNSPEC] @ replicate 7 UNSPEC"

definition RouteMessage :: "'a route_message" where
  "RouteMessage = 
    \<lparr>m_family = 0, m_attributes = [], m_dstLen = 0, m_srcLen = 0, m_tos = 0, m_tableId = 0,
     m_protocol = 0, rt_scope = 0, rt_type = 0, rt_flags = 0\<rparr>"

definition rt_SetFamily :: "byte \<Rightarrow> 'a route_message \<Rightarrow> 'a route_message" where
  "rt_SetFamily x m = m\<lparr>m_family := x\<rparr>"
definition rt_SetDstLength :: "byte \<Rightarrow> 'a route_message \<Rightarrow> 'a route_message" where
  "rt_SetDstLength x m = m\<lparr>m_dstLen := x\<rparr>"
definition rt_SetSrcLength :: "byte \<Rightarrow> 'a route_message \<Rightarrow> 'a route_message" where
  "rt_SetSrcLength x m = m\<lparr>m_srcLen := x\<rparr>"
definition rt_SetTos :: "byte \<Rightarrow> 'a route_message \<Rightarrow> 'a route_message" where
  "rt_SetTos x m = m\<lparr>m_tos := x\<rparr>"
definition rt_SetTableId :: "byte \<Rightarrow> 'a route_message \<Rightarrow> 'a route_message" where
  "rt_SetTableId x m = m\<lparr>m_tableId := x\<rparr>"
definition rt_SetProtocol :: "byte \<Rightarrow> 'a route_message \<Rightarrow> 'a route_message" where
  "rt_SetProtocol x m = m\<lparr>m_protocol := x\<rparr>"
definition rt_SetScope :: "byte \<Rightarrow> 'a route_message \<Rightarrow> 'a route_message" where
  "rt_SetScope x m = m\<lparr>rt_scope := x\<rparr>"
definition rt_SetType :: "byte \<Rightarrow> 'a route_message \<Rightarrow> 'a route_message" where
  "rt_SetType x m = m\<lparr>rt_type := x\<rparr>"
definition rt_SetFlags :: "uint32 \<Rightarrow> 'a route_message \<Rightarrow> 'a route_message" where
  "rt_SetFlags x m = m\<lparr>rt_flags := x\<rparr>"

definition rt_GetSerializedSize :: "('i, 'a) io \<Rightarrow> 'a route_message \<Rightarrow> uint32" where
  "rt_GetSerializedSize B m = 12 + GetAttributeSerializedSize B m"

definition rt_Serialize :: "('i, 'a) io \<Rightarrow> 'a route_message \<Rightarrow> 'i \<Rightarrow> 'i option" where
  "rt_Serialize B m i =
     do { i \<leftarrow> WriteU8 B (m_family m) i;
          i \<leftarrow> WriteU8 B (m_dstLen m) i;
          i \<leftarrow> WriteU8 B (m_srcLen m) i;
          i \<leftarrow> WriteU8 B (m_tos m) i;
          i \<leftarrow> WriteU8 B (m_tableId m) i;
          i \<leftarrow> WriteU8 B (m_protocol m) i;
          i \<leftarrow> WriteU8 B (rt_scope m) i;
          i \<leftarrow> WriteU8 B (rt_type m) i;
          i \<leftarrow> WriteU32 B (rt_flags m) i;
          SerializeAttribute B (m_attributes m) i }"

definition rt_Deserialize :: "('i, 'a) io \<Rightarrow> uint32 \<Rightarrow> 'a route_message \<Rightarrow> 'i
    \<Rightarrow> ((uint32 \<times> 'a route_message) \<times> 'i) option" where
  "rt_Deserialize B len m i =
     do { (x0, i) \<leftarrow> ReadU8 B i;
          (x1, i) \<leftarrow> ReadU8 B i;
          (x2, i) \<leftarrow> ReadU8 B i;
          (x3, i) \<leftarrow> ReadU8 B i;
          (x4, i) \<leftarrow> ReadU8 B i;
          (x5, i) \<leftarrow> ReadU8 B i;
          (x6, i) \<leftarrow> ReadU8 B i;
          (x7, i) \<leftarrow> ReadU8 B i;
          (x8, i) \<leftarrow> ReadU32 B i;
          (as, i) \<leftarrow> attributes_loop B rt_attributeTypes (len - 12) (m_attributes m) i;
          let m' = m\<lparr>m_family := x0, m_dstLen := x1, m_srcLen := x2, m_tos := x3,
                     m_tableId := x4, m_protocol := x5, rt_scope := x6, rt_type := x7, rt_flags := x8,
                     m_attributes := as\<rparr> in
          Some ((rt_GetSerializedSize B m', m'), i) }"

end
