(* ===== verification/Netlink_Message.thy ===== *)
theory Netlink_Message
  imports Netlink_Route
begin

text \<open>
  The netlink messages (\<open>netlink/netlink-message.cc\<close>): the header, the error message, the message
  with its body, and the sequence of messages of one packet.
\<close>

section \<open>The header\<close>

record header =
  m_nlmsgLen :: uint32
  m_nlmsgType :: uint16
  m_nlmsgFlags :: uint16
  m_nlmsgSeq :: uint32
  m_nlmsgPid :: uint32

definition NETLINK_MSG_HEADER_SIZE :: uint32 where "NETLINK_MSG_HEADER_SIZE = 16"

definition NetlinkMessageHeader_default :: header where
  "NetlinkMessageHeader_default =
     \<lparr>m_nlmsgLen = 16, m_nlmsgType = 0, m_nlmsgFlags = 0, m_nlmsgSeq = 0, m_nlmsgPid = 0\<rparr>"

definition NetlinkMessageHeader :: "uint16 \<Rightarrow> uint16 \<Rightarrow> uint32 \<Rightarrow> uint32 \<Rightarrow> header" where
  "NetlinkMessageHeader t flags seq pid =
     \<lparr>m_nlmsgLen = 16, m_nlmsgType = t, m_nlmsgFlags = flags, m_nlmsgSeq = seq, m_nlmsgPid = pid\<rparr>"

definition SetMsgLen :: "uint32 \<Rightarrow> header \<Rightarrow> header" where "SetMsgLen v h = h\<lparr>m_nlmsgLen := v\<rparr>"
definition SetMsgFlags :: "uint16 \<Rightarrow> header \<Rightarrow> header" where "SetMsgFlags v h = h\<lparr>m_nlmsgFlags := v\<rparr>"
definition SetMsgType :: "uint16 \<Rightarrow> header \<Rightarrow> header" where "SetMsgType v h = h\<lparr>m_nlmsgType := v\<rparr>"
definition SetMsgSeq :: "uint32 \<Rightarrow> header \<Rightarrow> header" where "SetMsgSeq v h = h\<lparr>m_nlmsgSeq := v\<rparr>"
definition SetMsgPid :: "uint32 \<Rightarrow> header \<Rightarrow> header" where "SetMsgPid v h = h\<lparr>m_nlmsgPid := v\<rparr>"

definition hdr_GetPayloadSize :: "header \<Rightarrow> uint32" where
  "hdr_GetPayloadSize h = NETLINK_MSG_ALIGN (m_nlmsgLen h - NETLINK_MSG_HEADER_SIZE)"

definition hdr_GetSerializedSize :: uint32 where
  "hdr_GetSerializedSize = NETLINK_MSG_HEADER_SIZE"

definition hdr_Serialize :: "('i, 'a) io \<Rightarrow> header \<Rightarrow> 'i \<Rightarrow> 'i option" where
  "hdr_Serialize B h i =
     do { i \<leftarrow> WriteU32 B (m_nlmsgLen h) i; i \<leftarrow> WriteU16 B (m_nlmsgType h) i;
          i \<leftarrow> WriteU16 B (m_nlmsgFlags h) i; i \<leftarrow> WriteU32 B (m_nlmsgSeq h) i;
          WriteU32 B (m_nlmsgPid h) i }"

definition hdr_Deserialize :: "('i, 'a) io \<Rightarrow> 'i \<Rightarrow> ((uint32 \<times> header) \<times> 'i) option" where
  "hdr_Deserialize B i =
     do { (len, i) \<leftarrow> ReadU32 B i; (t, i) \<leftarrow> ReadU16 B i; (flags, i) \<leftarrow> ReadU16 B i;
          (seq, i) \<leftarrow> ReadU32 B i; (pid, i) \<leftarrow> ReadU32 B i;
          Some ((hdr_GetSerializedSize, \<lparr>m_nlmsgLen = len, m_nlmsgType = t, m_nlmsgFlags = flags,
                   m_nlmsgSeq = seq, m_nlmsgPid = pid\<rparr>), i) }"

section \<open>The error message\<close>

record error_message =
  m_error :: uint32
  m_msg :: header

definition NetlinkMessageError :: error_message where
  "NetlinkMessageError = \<lparr>m_error = 0, m_msg = NetlinkMessageHeader_default\<rparr>"

definition SetError :: "uint32 \<Rightarrow> error_message \<Rightarrow> error_message" where "SetError v m = m\<lparr>m_error := v\<rparr>"
definition SetMsg :: "header \<Rightarrow> error_message \<Rightarrow> error_message" where "SetMsg v m = m\<lparr>m_msg := v\<rparr>"

definition err_GetSerializedSize :: uint32 where "err_GetSerializedSize = 20"

definition err_Serialize :: "('i, 'a) io \<Rightarrow> error_message \<Rightarrow> 'i \<Rightarrow> 'i option" where
  "err_Serialize B m i = do { i \<leftarrow> WriteU32 B (m_error m) i; hdr_Serialize B (m_msg m) i }"

definition err_Deserialize :: "('i, 'a) io \<Rightarrow> 'i \<Rightarrow> ((uint32 \<times> error_message) \<times> 'i) option" where
  "err_Deserialize B i =
     do { (e, i) \<leftarrow> ReadU32 B i; ((n, h), i) \<leftarrow> hdr_Deserialize B i;
          Some ((err_GetSerializedSize, \<lparr>m_error = e, m_msg = h\<rparr>), i) }"

section \<open>Types and flags\<close>

definition NETLINK_MSG_F_REQUEST :: uint16 where "NETLINK_MSG_F_REQUEST = 1"
definition NETLINK_MSG_F_MULTI :: uint16 where "NETLINK_MSG_F_MULTI = 2"
definition NETLINK_MSG_F_ACK :: uint16 where "NETLINK_MSG_F_ACK = 4"
definition NETLINK_MSG_F_DUMP :: uint16 where "NETLINK_MSG_F_DUMP = 0x100 OR 0x200"

definition NETLINK_MSG_ERROR :: uint16 where "NETLINK_MSG_ERROR = 2"
definition NETLINK_MSG_DONE :: uint16 where "NETLINK_MSG_DONE = 3"

definition NETLINK_RTM_BASE :: uint16 where "NETLINK_RTM_BASE = 16"
definition NETLINK_RTM_NEWLINK :: uint16 where "NETLINK_RTM_NEWLINK = 16"
definition NETLINK_RTM_DELLINK :: uint16 where "NETLINK_RTM_DELLINK = 17"
definition NETLINK_RTM_GETLINK :: uint16 where "NETLINK_RTM_GETLINK = 18"
definition NETLINK_RTM_SETLINK :: uint16 where "NETLINK_RTM_SETLINK = 19"
definition NETLINK_RTM_NEWADDR :: uint16 where "NETLINK_RTM_NEWADDR = 20"
definition NETLINK_RTM_DELADDR :: uint16 where "NETLINK_RTM_DELADDR = 21"
definition NETLINK_RTM_GETADDR :: uint16 where "NETLINK_RTM_GETADDR = 22"
definition NETLINK_RTM_NEWROUTE :: uint16 where "NETLINK_RTM_NEWROUTE = 24"
definition NETLINK_RTM_DELROUTE :: uint16 where "NETLINK_RTM_DELROUTE = 25"
definition NETLINK_RTM_GETROUTE :: uint16 where "NETLINK_RTM_GETROUTE = 26"
definition NETLINK_RTM_MAX :: uint16 where "NETLINK_RTM_MAX = 27"

definition IsMessageNetlinkControl :: "uint16 \<Rightarrow> bool" where
  "IsMessageNetlinkControl t = (t < NETLINK_RTM_BASE)"
definition IsMessageNetlinkRoute :: "uint16 \<Rightarrow> bool" where
  "IsMessageNetlinkRoute t = (t \<ge> NETLINK_RTM_BASE \<and> t < NETLINK_RTM_MAX)"
definition IsMessageAddress :: "uint16 \<Rightarrow> bool" where
  "IsMessageAddress t = (t \<ge> NETLINK_RTM_NEWADDR \<and> t \<le> NETLINK_RTM_GETADDR)"
definition IsMessageInterface :: "uint16 \<Rightarrow> bool" where
  "IsMessageInterface t = (t \<ge> NETLINK_RTM_NEWLINK \<and> t \<le> NETLINK_RTM_SETLINK)"
definition IsMessageRoute :: "uint16 \<Rightarrow> bool" where
  "IsMessageRoute t = (t \<ge> NETLINK_RTM_NEWROUTE \<and> t \<le> NETLINK_RTM_GETROUTE)"

text \<open>The subtraction is one of \<open>int\<close>s.\<close>

definition IsMessageTypeGet :: "uint16 \<Rightarrow> bool" where
  "IsMessageTypeGet t = ((ucast t - ucast NETLINK_RTM_BASE :: uint32) AND 3 = 2)"
definition IsMessageFlagsAck :: "uint16 \<Rightarrow> bool" where
  "IsMessageFlagsAck flags = (flags AND NETLINK_MSG_F_ACK \<noteq> 0)"
definition IsMessageFlagsRequest :: "uint16 \<Rightarrow> bool" where
  "IsMessageFlagsRequest flags = (flags AND NETLINK_MSG_F_REQUEST \<noteq> 0)"
definition IsMessageFlagsDump :: "uint16 \<Rightarrow> bool" where
  "IsMessageFlagsDump flags = (flags AND NETLINK_MSG_F_DUMP \<noteq> 0)"

section \<open>The message\<close>

record 'a message =
  m_hdr :: header
  m_errorMessage :: error_message
  m_genmsg :: "'a general_message"
  m_interfaceTemplate :: "'a interface_info"
  m_addressTemplate :: "'a interface_address"
  m_routeTemplate :: "'a route_message"

definition NetlinkMessage :: "'a message" where
  "NetlinkMessage = \<lparr>m_hdr = NetlinkMessageHeader_default, m_errorMessage = NetlinkMessageError,
     m_genmsg = GeneralMessage, m_interfaceTemplate = InterfaceInfoMessage,
     m_addressTemplate = InterfaceAddressMessage, m_routeTemplate = RouteMessage\<rparr>"

definition SetHeader :: "header \<Rightarrow> 'a message \<Rightarrow> 'a message" where
  "SetHeader h m = m\<lparr>m_hdr := h\<rparr>"

definition set_len :: "uint32 \<Rightarrow> 'a message \<Rightarrow> 'a message" where
  "set_len n m = m\<lparr>m_hdr := SetMsgLen (hdr_GetSerializedSize + n) (m_hdr m)\<rparr>"

definition SetGeneralMessage :: "'a general_message \<Rightarrow> 'a message \<Rightarrow> 'a message" where
  "SetGeneralMessage v m = set_len gen_GetSerializedSize (m\<lparr>m_genmsg := v\<rparr>)"
definition SetErrorMessage :: "error_message \<Rightarrow> 'a message \<Rightarrow> 'a message" where
  "SetErrorMessage v m = set_len err_GetSerializedSize (m\<lparr>m_errorMessage := v\<rparr>)"
definition SetInterfaceInfoMessage :: "('i, 'a) io \<Rightarrow> 'a interface_info \<Rightarrow> 'a message \<Rightarrow> 'a message" where
  "SetInterfaceInfoMessage B v m = set_len (ifl_GetSerializedSize B v) (m\<lparr>m_interfaceTemplate := v\<rparr>)"
definition SetInterfaceAddressMessage :: "('i, 'a) io \<Rightarrow> 'a interface_address \<Rightarrow> 'a message \<Rightarrow> 'a message" where
  "SetInterfaceAddressMessage B v m = set_len (ifa_GetSerializedSize B v) (m\<lparr>m_addressTemplate := v\<rparr>)"
definition SetRouteMessage :: "('i, 'a) io \<Rightarrow> 'a route_message \<Rightarrow> 'a message \<Rightarrow> 'a message" where
  "SetRouteMessage B v m = set_len (rt_GetSerializedSize B v) (m\<lparr>m_routeTemplate := v\<rparr>)"

definition GetTotalSize :: "'a message \<Rightarrow> uint32" where
  "GetTotalSize m = NETLINK_MSG_ALIGN (m_nlmsgLen (m_hdr m))"
definition GetMsgSize :: "'a message \<Rightarrow> uint32" where "GetMsgSize m = m_nlmsgLen (m_hdr m)"
definition GetPayloadSize :: "'a message \<Rightarrow> uint32" where "GetPayloadSize m = hdr_GetPayloadSize (m_hdr m)"
definition GetMsgType :: "'a message \<Rightarrow> uint16" where "GetMsgType m = m_nlmsgType (m_hdr m)"

definition GetFamily :: "'a message \<Rightarrow> byte" where
  "GetFamily m =
     (if IsMessageAddress (GetMsgType m) then m_family (m_addressTemplate m)
      else if IsMessageInterface (GetMsgType m) then m_family (m_interfaceTemplate m)
      else if IsMessageRoute (GetMsgType m) then m_family (m_routeTemplate m)
      else if IsMessageFlagsDump (m_nlmsgFlags (m_hdr m)) then m_family (m_genmsg m)
      else 0)"

definition msg_GetSerializedSize :: "'a message \<Rightarrow> uint32" where
  "msg_GetSerializedSize m = NETLINK_MSG_ALIGN (m_nlmsgLen (m_hdr m))"

text \<open>Which body a message with this type and these flags has on the wire.\<close>

datatype body_kind = No_body | Error_body | General_body | Route_body | Address_body | Interface_body

definition body_kind :: "uint16 \<Rightarrow> uint16 \<Rightarrow> body_kind" where
  "body_kind t flags =
     (if t = NETLINK_MSG_DONE then No_body
      else if t = NETLINK_MSG_ERROR then Error_body
      else if IsMessageFlagsDump flags
              \<and> (t = NETLINK_RTM_GETROUTE \<or> t = NETLINK_RTM_GETADDR \<or> t = NETLINK_RTM_GETLINK) then General_body
      else if t = NETLINK_RTM_NEWROUTE \<or> t = NETLINK_RTM_DELROUTE \<or> t = NETLINK_RTM_GETROUTE then Route_body
      else if t = NETLINK_RTM_NEWADDR \<or> t = NETLINK_RTM_DELADDR then Address_body
      else if t = NETLINK_RTM_NEWLINK \<or> t = NETLINK_RTM_SETLINK then Interface_body
      else No_body)"

definition msg_Serialize :: "('i, 'a) io \<Rightarrow> 'a message \<Rightarrow> 'i \<Rightarrow> 'i option" where
  "msg_Serialize B m i =
     do { i \<leftarrow> hdr_Serialize B (m_hdr m) i;
          case body_kind (m_nlmsgType (m_hdr m)) (m_nlmsgFlags (m_hdr m)) of
            No_body \<Rightarrow> Some i
          | Error_body \<Rightarrow> err_Serialize B (m_errorMessage m) i
          | General_body \<Rightarrow> gen_Serialize B (m_genmsg m) i
          | Route_body \<Rightarrow> rt_Serialize B (m_routeTemplate m) i
          | Address_body \<Rightarrow> ifa_Serialize B (m_addressTemplate m) i
          | Interface_body \<Rightarrow> ifl_Serialize B (m_interfaceTemplate m) i }"

text \<open>\<open>body_Deserialize\<close> is the part for a message whose header says that it has a body.\<close>

definition body_Deserialize :: "('i, 'a) io \<Rightarrow> uint32 \<Rightarrow> 'a message \<Rightarrow> 'i \<Rightarrow> ((uint32 \<times> 'a message) \<times> 'i) option" where
  "body_Deserialize B remaining m i =
     (case body_kind (m_nlmsgType (m_hdr m)) (m_nlmsgFlags (m_hdr m)) of
        No_body \<Rightarrow> Some ((msg_GetSerializedSize m, m), i)
      | Error_body \<Rightarrow>
          do { ((n, b), i) \<leftarrow> err_Deserialize B i;
               Some ((msg_GetSerializedSize m, m\<lparr>m_errorMessage := b\<rparr>), i) }
      | General_body \<Rightarrow>
          do { ((n, b), i) \<leftarrow> gen_Deserialize B remaining (m_genmsg m) i;
               Some ((msg_GetSerializedSize m, m\<lparr>m_genmsg := b\<rparr>), i) }
      | Route_body \<Rightarrow>
          do { ((n, b), i) \<leftarrow> rt_Deserialize B remaining (m_routeTemplate m) i;
               Some ((msg_GetSerializedSize m, m\<lparr>m_routeTemplate := b\<rparr>), i) }
      | Address_body \<Rightarrow>
          do { ((n, b), i) \<leftarrow> ifa_Deserialize B remaining (m_addressTemplate m) i;
               Some ((msg_GetSerializedSize m, m\<lparr>m_addressTemplate := b\<rparr>), i) }
      | Interface_body \<Rightarrow>
          do { ((n, b), i) \<leftarrow> ifl_Deserialize B remaining (m_interfaceTemplate m) i;
               Some ((msg_GetSerializedSize m, m\<lparr>m_interfaceTemplate := b\<rparr>), i) })"

definition msg_Deserialize :: "('i, 'a) io \<Rightarrow> 'a message \<Rightarrow> 'i \<Rightarrow> ((uint32 \<times> 'a message) \<times> 'i) option" where
  "msg_Deserialize B m0 i =
     do { ((n, h), i) \<leftarrow> hdr_Deserialize B i;
          let m = m0\<lparr>m_hdr := h\<rparr>;
              remaining = NETLINK_MSG_ALIGN (m_nlmsgLen h) - hdr_GetSerializedSize in
          if remaining = 0 then Some ((msg_GetSerializedSize m, m), i)
          else body_Deserialize B remaining m i }"

section \<open>The messages of a packet\<close>

record 'a multipart = m_netlinkMessages :: "'a message list"

definition MultipartNetlinkMessage :: "'a multipart" where
  "MultipartNetlinkMessage = \<lparr>m_netlinkMessages = []\<rparr>"

definition AppendMessage :: "'a message \<Rightarrow> 'a multipart \<Rightarrow> 'a multipart" where
  "AppendMessage m p = p\<lparr>m_netlinkMessages := m_netlinkMessages p @ [m]\<rparr>"

definition to_multipart :: "'a message \<Rightarrow> 'a multipart" where
  "to_multipart m = AppendMessage m MultipartNetlinkMessage"

definition Clear :: "'a multipart \<Rightarrow> 'a multipart" where
  "Clear p = p\<lparr>m_netlinkMessages := []\<rparr>"

definition GetNMessages :: "'a multipart \<Rightarrow> uint32" where
  "GetNMessages p = of_nat (length (m_netlinkMessages p))"

definition GetMessage :: "uint32 \<Rightarrow> 'a multipart \<Rightarrow> 'a message option" where
  "GetMessage n p = (if unat n < length (m_netlinkMessages p) then Some (m_netlinkMessages p ! unat n) else None)"

definition multi_GetSerializedSize :: "'a multipart \<Rightarrow> uint32" where
  "multi_GetSerializedSize p = sum_list (map msg_GetSerializedSize (m_netlinkMessages p))"

fun serialize_all :: "('i, 'a) io \<Rightarrow> 'a message list \<Rightarrow> 'i \<Rightarrow> 'i option" where
  "serialize_all B [] i = Some i"
| "serialize_all B (m # ms) i = do { i \<leftarrow> msg_Serialize B m i; serialize_all B ms i }"

definition multi_Serialize :: "('i, 'a) io \<Rightarrow> 'a multipart \<Rightarrow> 'i \<Rightarrow> 'i option" where
  "multi_Serialize B p i = serialize_all B (m_netlinkMessages p) i"

partial_function (option) multi_loop :: "('i, 'a) io \<Rightarrow> 'a multipart \<Rightarrow> 'i \<Rightarrow> ('a multipart \<times> 'i) option" where
  "multi_loop B p i =
     do { ((n, m), i) \<leftarrow> msg_Deserialize B NetlinkMessage i;
          let p' = AppendMessage m p in
          if m_nlmsgFlags (m_hdr m) AND NETLINK_MSG_F_MULTI = 0 then Some (p', i)
          else if m_nlmsgType (m_hdr m) = NETLINK_MSG_DONE then Some (p', i)
          else multi_loop B p' i }"

definition multi_Deserialize :: "('i, 'a) io \<Rightarrow> 'a multipart \<Rightarrow> 'i \<Rightarrow> ((uint32 \<times> 'a multipart) \<times> 'i) option" where
  "multi_Deserialize B p i =
     do { (p, i) \<leftarrow> multi_loop B p i; Some ((multi_GetSerializedSize p, p), i) }"

end
