(* ===== verification/Netlink_Codec.thy ===== *)
theory Netlink_Codec
  imports Netlink_Message
begin

text \<open>
  The bytes of the netlink messages on the wire, and that reading gives back what was written: for
  every class a list of its bytes, that its \<open>Serialize\<close> writes exactly them, that its
  \<open>Deserialize\<close> reads them back, and that \<open>GetSerializedSize\<close> is their number. The properties are at
  the end.
\<close>

section \<open>Lists of attributes\<close>

lemma list_attr_val_ok: "list_all (attr_ok B vtypes) as \<Longrightarrow> list_all (val_ok \<circ> a_payload) as"
  by (auto simp: list_all_iff attr_ok_def)

lemma attr_word_size:
  assumes "io_ok B V" and "val_ok (a_payload a)"
  shows "attr_GetSerializedSize B a = of_nat (length (attr_bytes V a))"
  using attr_bytes_size(1,2) [OF assms] by (simp add: word_unat_eq_iff unat_of_nat)

lemma attributes_size:
  assumes "io_ok B V" and "list_all (val_ok \<circ> a_payload) (m_attributes m)"
  shows "GetAttributeSerializedSize B m = of_nat (length (concat (map (attr_bytes V) (m_attributes m))))"
proof -
  have "sum_list (map (attr_GetSerializedSize B) as) = of_nat (length (concat (map (attr_bytes V) as)))"
    if "list_all (val_ok \<circ> a_payload) as" for as
    using that by (induction as) (simp_all add: attr_word_size [OF assms(1)])
  with assms(2) show ?thesis by (simp add: GetAttributeSerializedSize_def)
qed

lemma shown_attributes_size:
  assumes "io_ok B V" and "map (attr_shown V) as = map (attr_shown V) bs"
  shows "sum_list (map (attr_GetSerializedSize B) as) = sum_list (map (attr_GetSerializedSize B) bs)"
proof -
  have "attr_GetSerializedSize B a = attr_GetSerializedSize B b" if "attr_shown V a = attr_shown V b" for a b
  proof -
    have "val_shown V (a_payload a) = val_shown V (a_payload b)" using that by (simp add: attr_shown_def)
    from shown_size(2) [OF assms(1) this] show ?thesis
      by (simp add: attr_GetSerializedSize_def val_GetSerializedSize_def)
  qed
  note eq = this
  from assms(2) show ?thesis
  proof (induction as bs rule: list_induct2')
    case (4 a as b bs)
    then have "attr_GetSerializedSize B a = attr_GetSerializedSize B b" by (intro eq) simp
    with 4 show ?case by simp
  qed simp_all
qed

lemma SerializeAttribute_writes:
  assumes "io_ok B V" and "list_all (val_ok \<circ> a_payload) as"
  shows "writes V (SerializeAttribute B as) (concat (map (attr_bytes V) as))"
  using assms(2)
proof (induction as)
  case Nil
  have "SerializeAttribute B [] = Some" by (simp add: fun_eq_iff)
  then show ?case using writes_nothing [of V] by simp
next
  case (Cons a as)
  then have "writes V (\<lambda>i. attr_Serialize B a i \<bind> SerializeAttribute B as)
      (attr_bytes V a @ concat (map (attr_bytes V) as))"
    by (intro writes_bind attr_Serialize_writes [OF assms(1)]) simp_all
  moreover have "SerializeAttribute B (a # as) = (\<lambda>i. attr_Serialize B a i \<bind> SerializeAttribute B as)"
    by (simp add: fun_eq_iff)
  ultimately show ?case by simp
qed

lemma attributes_loop_0: "attributes_loop B vtypes 0 as = (\<lambda>i. Some (as, i))"
  by (rule ext) (subst attributes_loop.simps, simp)

lemma attributes_loop_step:
  "len \<noteq> 0 \<Longrightarrow> attributes_loop B vtypes len as = (\<lambda>i. attr_Deserialize B vtypes (NetlinkAttribute B) i \<bind>
     (\<lambda>(r, i). attributes_loop B vtypes (len - fst r) (as @ [snd r]) i))"
  by (rule ext, subst attributes_loop.simps) (simp add: split_def)

lemma attributes_loop_reads:
  assumes "io_ok B V" and "list_all (attr_ok B vtypes) as"
    and "length (concat (map (attr_bytes V) as)) < 2 ^ 32"
  shows "\<exists>as'. reads V (attributes_loop B vtypes (of_nat (length (concat (map (attr_bytes V) as)))) done0)
      (concat (map (attr_bytes V) as)) (done0 @ as') \<and> map (attr_shown V) as' = map (attr_shown V) as"
  using assms(2,3)
proof (induction as arbitrary: done0)
  case Nil
  show ?case using reads_return [of V "done0"] by (intro exI [of _ "[]"]) (simp add: attributes_loop_0)
next
  case (Cons a as)
  let ?bs = "concat (map (attr_bytes V) as)" and ?n = "of_nat (length (attr_bytes V a)) :: uint32"
  have a: "attr_ok B vtypes a" and ok: "val_ok (a_payload a)" using Cons.prems(1) by (simp_all add: attr_ok_def)
  obtain a' where ra: "reads V (attr_Deserialize B vtypes (NetlinkAttribute B)) (attr_bytes V a) (?n, a')"
    and sa: "attr_shown V a' = attr_shown V a"
    using attr_Deserialize_reads [OF assms(1) a] attr_word_size [OF assms(1) ok] by metis
  obtain as' where rs: "reads V (attributes_loop B vtypes (of_nat (length ?bs)) (done0 @ [a'])) ?bs ((done0 @ [a']) @ as')"
    and ss: "map (attr_shown V) as' = map (attr_shown V) as"
    using Cons.IH [of "done0 @ [a']"] Cons.prems by auto
  let ?len = "of_nat (length (attr_bytes V a @ ?bs)) :: uint32"
  have ne: "?len \<noteq> 0"
  proof
    assume "?len = 0"
    then have "unat ?len = 0" by simp
    then have "length (attr_bytes V a @ ?bs) = 0"
      using Cons.prems(2) by (simp only: unat_of_nat) simp
    then show False using attr_bytes_size(3) [OF assms(1) ok] by simp
  qed
  have "?len - ?n = of_nat (length ?bs)" by simp
  then have "reads V (\<lambda>i. (\<lambda>r i. attributes_loop B vtypes (?len - fst r) (done0 @ [snd r]) i) (?n, a') i) ?bs
      ((done0 @ [a']) @ as')"
    using rs by simp
  from reads_bind [where g = "\<lambda>r i. attributes_loop B vtypes (?len - fst r) (done0 @ [snd r]) i", OF ra this]
  have "reads V (attributes_loop B vtypes ?len done0) (attr_bytes V a @ ?bs) (done0 @ a' # as')"
    unfolding attributes_loop_step [OF ne] by simp
  then show ?case using sa ss by (intro exI [of _ "a' # as'"]) simp
qed

section \<open>The messages with attributes\<close>

definition ifl_bytes :: "('i, 'a) view \<Rightarrow> 'a interface_info \<Rightarrow> byte list" where
  "ifl_bytes V m = [m_family m] @ [m_reserved m] @ bytes16 V (m_deviceType m) @ bytes32 V (m_interfaceIndex m) @ bytes32 V (m_deviceFlags m) @ bytes32 V (m_changeMask m)
     @ concat (map (attr_bytes V) (m_attributes m))"

type_synonym ifl_content = "byte \<times> byte \<times> uint16 \<times> uint32 \<times> uint32 \<times> uint32 \<times> (uint16 \<times> uint16 \<times> shown) list"

definition ifl_shown :: "('i, 'a) view \<Rightarrow> 'a interface_info \<Rightarrow> ifl_content" where
  "ifl_shown V m = (m_family m, m_reserved m, m_deviceType m, m_interfaceIndex m, m_deviceFlags m, m_changeMask m,
     map (attr_shown V) (m_attributes m))"

lemma ifl_size:
  assumes "io_ok B V" and "list_all (val_ok \<circ> a_payload) (m_attributes m)"
  shows "ifl_GetSerializedSize B m = of_nat (length (ifl_bytes V m))"
    and "length (ifl_bytes V m) = 16 + length (concat (map (attr_bytes V) (m_attributes m)))"
  using attributes_size [OF assms] io_okD(1,2) [OF assms(1)]
  by (simp_all add: ifl_GetSerializedSize_def ifl_bytes_def)

lemma ifl_Serialize_writes:
  assumes "io_ok B V" and "list_all (val_ok \<circ> a_payload) (m_attributes m)"
  shows "writes V (ifl_Serialize B m) (ifl_bytes V m)"
  unfolding ifl_Serialize_def [abs_def] ifl_bytes_def
  by (intro writes_bind io_ok_writes [OF assms(1)] SerializeAttribute_writes [OF assms])

lemma ifl_Deserialize_reads:
  assumes "io_ok B V" and "list_all (attr_ok B ifl_attributeTypes) (m_attributes m)"
    and "m_attributes m0 = []" and "length (ifl_bytes V m) < 2 ^ 32"
  shows "\<exists>m'. reads V (ifl_Deserialize B (of_nat (length (ifl_bytes V m))) m0) (ifl_bytes V m)
      (of_nat (length (ifl_bytes V m)), m') \<and> ifl_shown V m' = ifl_shown V m"
proof -
  let ?bs = "concat (map (attr_bytes V) (m_attributes m))"
  note ok = list_attr_val_ok [OF assms(2)]
  note len = ifl_size(2) [OF assms(1) ok]
  obtain as where loop: "reads V (attributes_loop B ifl_attributeTypes (of_nat (length ?bs)) []) ?bs as"
    and shown: "map (attr_shown V) as = map (attr_shown V) (m_attributes m)"
    using attributes_loop_reads [OF assms(1,2), of "[]"] assms(4) len by auto
  let ?m = "m0\<lparr>m_family := m_family m, m_reserved := m_reserved m, m_deviceType := m_deviceType m, m_interfaceIndex := m_interfaceIndex m, m_deviceFlags := m_deviceFlags m, m_changeMask := m_changeMask m, m_attributes := as\<rparr>"
  have "of_nat (length (ifl_bytes V m)) - 16 = (of_nat (length ?bs) :: uint32)" by (simp add: len)
  with loop have "reads V (attributes_loop B ifl_attributeTypes (of_nat (length (ifl_bytes V m)) - 16)
      (m_attributes m0)) ?bs as"
    by (simp add: assms(3))
  then have "reads V (ifl_Deserialize B (of_nat (length (ifl_bytes V m))) m0) (ifl_bytes V m)
      (ifl_GetSerializedSize B ?m, ?m)"
    unfolding ifl_Deserialize_def [abs_def] Let_def
    by (subst (2) ifl_bytes_def) ((rule reads_number [OF assms(1)])+, rule reads_finish)
  moreover have "ifl_GetSerializedSize B ?m = of_nat (length (ifl_bytes V m))"
    using shown_attributes_size [OF assms(1) shown] ifl_size(1) [OF assms(1) ok]
    by (simp add: ifl_GetSerializedSize_def GetAttributeSerializedSize_def)
  moreover have "ifl_shown V ?m = ifl_shown V m" using shown by (simp add: ifl_shown_def)
  ultimately show ?thesis by metis
qed

definition ifa_bytes :: "('i, 'a) view \<Rightarrow> 'a interface_address \<Rightarrow> byte list" where
  "ifa_bytes V m = [m_family m] @ [m_length m] @ [ifa_flags m] @ [ifa_scope m] @ bytes32 V (m_index m)
     @ concat (map (attr_bytes V) (m_attributes m))"

type_synonym ifa_content = "byte \<times> byte \<times> byte \<times> byte \<times> uint32 \<times> (uint16 \<times> uint16 \<times> shown) list"

definition ifa_shown :: "('i, 'a) view \<Rightarrow> 'a interface_address \<Rightarrow> ifa_content" where
  "ifa_shown V m = (m_family m, m_length m, ifa_flags m, ifa_scope m, m_index m,
     map (attr_shown V) (m_attributes m))"

lemma ifa_size:
  assumes "io_ok B V" and "list_all (val_ok \<circ> a_payload) (m_attributes m)"
  shows "ifa_GetSerializedSize B m = of_nat (length (ifa_bytes V m))"
    and "length (ifa_bytes V m) = 8 + length (concat (map (attr_bytes V) (m_attributes m)))"
  using attributes_size [OF assms] io_okD(1,2) [OF assms(1)]
  by (simp_all add: ifa_GetSerializedSize_def ifa_bytes_def)

lemma ifa_Serialize_writes:
  assumes "io_ok B V" and "list_all (val_ok \<circ> a_payload) (m_attributes m)"
  shows "writes V (ifa_Serialize B m) (ifa_bytes V m)"
  unfolding ifa_Serialize_def [abs_def] ifa_bytes_def
  by (intro writes_bind io_ok_writes [OF assms(1)] SerializeAttribute_writes [OF assms])

lemma ifa_Deserialize_reads:
  assumes "io_ok B V" and "list_all (attr_ok B ifa_attributeTypes) (m_attributes m)"
    and "m_attributes m0 = []" and "length (ifa_bytes V m) < 2 ^ 32"
  shows "\<exists>m'. reads V (ifa_Deserialize B (of_nat (length (ifa_bytes V m))) m0) (ifa_bytes V m)
      (of_nat (length (ifa_bytes V m)), m') \<and> ifa_shown V m' = ifa_shown V m"
proof -
  let ?bs = "concat (map (attr_bytes V) (m_attributes m))"
  note ok = list_attr_val_ok [OF assms(2)]
  note len = ifa_size(2) [OF assms(1) ok]
  obtain as where loop: "reads V (attributes_loop B ifa_attributeTypes (of_nat (length ?bs)) []) ?bs as"
    and shown: "map (attr_shown V) as = map (attr_shown V) (m_attributes m)"
    using attributes_loop_reads [OF assms(1,2), of "[]"] assms(4) len by auto
  let ?m = "m0\<lparr>m_family := m_family m, m_length := m_length m, ifa_flags := ifa_flags m, ifa_scope := ifa_scope m, m_index := m_index m, m_attributes := as\<rparr>"
  have "of_nat (length (ifa_bytes V m)) - 8 = (of_nat (length ?bs) :: uint32)" by (simp add: len)
  with loop have "reads V (attributes_loop B ifa_attributeTypes (of_nat (length (ifa_bytes V m)) - 8)
      (m_attributes m0)) ?bs as"
    by (simp add: assms(3))
  then have "reads V (ifa_Deserialize B (of_nat (length (ifa_bytes V m))) m0) (ifa_bytes V m)
      (ifa_GetSerializedSize B ?m, ?m)"
    unfolding ifa_Deserialize_def [abs_def] Let_def
    by (subst (2) ifa_bytes_def) ((rule reads_number [OF assms(1)])+, rule reads_finish)
  moreover have "ifa_GetSerializedSize B ?m = of_nat (length (ifa_bytes V m))"
    using shown_attributes_size [OF assms(1) shown] ifa_size(1) [OF assms(1) ok]
    by (simp add: ifa_GetSerializedSize_def GetAttributeSerializedSize_def)
  moreover have "ifa_shown V ?m = ifa_shown V m" using shown by (simp add: ifa_shown_def)
  ultimately show ?thesis by metis
qed

definition rt_bytes :: "('i, 'a) view \<Rightarrow> 'a route_message \<Rightarrow> byte list" where
  "rt_bytes V m = [m_family m] @ [m_dstLen m] @ [m_srcLen m] @ [m_tos m] @ [m_tableId m] @ [m_protocol m] @ [rt_scope m] @ [rt_type m] @ bytes32 V (rt_flags m)
     @ concat (map (attr_bytes V) (m_attributes m))"

type_synonym rt_content = "byte \<times> byte \<times> byte \<times> byte \<times> byte \<times> byte \<times> byte \<times> byte \<times> uint32 \<times> (uint16 \<times> uint16 \<times> shown) list"

definition rt_shown :: "('i, 'a) view \<Rightarrow> 'a route_message \<Rightarrow> rt_content" where
  "rt_shown V m = (m_family m, m_dstLen m, m_srcLen m, m_tos m, m_tableId m, m_protocol m, rt_scope m, rt_type m, rt_flags m,
     map (attr_shown V) (m_attributes m))"

lemma rt_size:
  assumes "io_ok B V" and "list_all (val_ok \<circ> a_payload) (m_attributes m)"
  shows "rt_GetSerializedSize B m = of_nat (length (rt_bytes V m))"
    and "length (rt_bytes V m) = 12 + length (concat (map (attr_bytes V) (m_attributes m)))"
  using attributes_size [OF assms] io_okD(1,2) [OF assms(1)]
  by (simp_all add: rt_GetSerializedSize_def rt_bytes_def)

lemma rt_Serialize_writes:
  assumes "io_ok B V" and "list_all (val_ok \<circ> a_payload) (m_attributes m)"
  shows "writes V (rt_Serialize B m) (rt_bytes V m)"
  unfolding rt_Serialize_def [abs_def] rt_bytes_def
  by (intro writes_bind io_ok_writes [OF assms(1)] SerializeAttribute_writes [OF assms])

lemma rt_Deserialize_reads:
  assumes "io_ok B V" and "list_all (attr_ok B rt_attributeTypes) (m_attributes m)"
    and "m_attributes m0 = []" and "length (rt_bytes V m) < 2 ^ 32"
  shows "\<exists>m'. reads V (rt_Deserialize B (of_nat (length (rt_bytes V m))) m0) (rt_bytes V m)
      (of_nat (length (rt_bytes V m)), m') \<and> rt_shown V m' = rt_shown V m"
proof -
  let ?bs = "concat (map (attr_bytes V) (m_attributes m))"
  note ok = list_attr_val_ok [OF assms(2)]
  note len = rt_size(2) [OF assms(1) ok]
  obtain as where loop: "reads V (attributes_loop B rt_attributeTypes (of_nat (length ?bs)) []) ?bs as"
    and shown: "map (attr_shown V) as = map (attr_shown V) (m_attributes m)"
    using attributes_loop_reads [OF assms(1,2), of "[]"] assms(4) len by auto
  let ?m = "m0\<lparr>m_family := m_family m, m_dstLen := m_dstLen m, m_srcLen := m_srcLen m, m_tos := m_tos m, m_tableId := m_tableId m, m_protocol := m_protocol m, rt_scope := rt_scope m, rt_type := rt_type m, rt_flags := rt_flags m, m_attributes := as\<rparr>"
  have "of_nat (length (rt_bytes V m)) - 12 = (of_nat (length ?bs) :: uint32)" by (simp add: len)
  with loop have "reads V (attributes_loop B rt_attributeTypes (of_nat (length (rt_bytes V m)) - 12)
      (m_attributes m0)) ?bs as"
    by (simp add: assms(3))
  then have "reads V (rt_Deserialize B (of_nat (length (rt_bytes V m))) m0) (rt_bytes V m)
      (rt_GetSerializedSize B ?m, ?m)"
    unfolding rt_Deserialize_def [abs_def] Let_def
    by (subst (2) rt_bytes_def) ((rule reads_number [OF assms(1)])+, rule reads_finish)
  moreover have "rt_GetSerializedSize B ?m = of_nat (length (rt_bytes V m))"
    using shown_attributes_size [OF assms(1) shown] rt_size(1) [OF assms(1) ok]
    by (simp add: rt_GetSerializedSize_def GetAttributeSerializedSize_def)
  moreover have "rt_shown V ?m = rt_shown V m" using shown by (simp add: rt_shown_def)
  ultimately show ?thesis by metis
qed

section \<open>The message\<close>

definition hdr_bytes :: "('i, 'a) view \<Rightarrow> header \<Rightarrow> byte list" where
  "hdr_bytes V h = bytes32 V (m_nlmsgLen h) @ bytes16 V (m_nlmsgType h) @ bytes16 V (m_nlmsgFlags h)
     @ bytes32 V (m_nlmsgSeq h) @ bytes32 V (m_nlmsgPid h)"

definition body_bytes :: "('i, 'a) view \<Rightarrow> 'a message \<Rightarrow> byte list" where
  "body_bytes V m =
     (case body_kind (m_nlmsgType (m_hdr m)) (m_nlmsgFlags (m_hdr m)) of
        No_body \<Rightarrow> []
      | Error_body \<Rightarrow> bytes32 V (m_error (m_errorMessage m)) @ hdr_bytes V (m_msg (m_errorMessage m))
      | General_body \<Rightarrow> [m_family (m_genmsg m)] @ [0, 0, 0]
      | Route_body \<Rightarrow> rt_bytes V (m_routeTemplate m)
      | Address_body \<Rightarrow> ifa_bytes V (m_addressTemplate m)
      | Interface_body \<Rightarrow> ifl_bytes V (m_interfaceTemplate m))"

definition msg_bytes :: "('i, 'a) view \<Rightarrow> 'a message \<Rightarrow> byte list" where
  "msg_bytes V m = hdr_bytes V (m_hdr m) @ body_bytes V m"

datatype content = Shows_none | Shows_error error_message | Shows_general byte | Shows_route rt_content
  | Shows_address ifa_content | Shows_interface ifl_content

definition msg_shown :: "('i, 'a) view \<Rightarrow> 'a message \<Rightarrow> header \<times> content" where
  "msg_shown V m = (m_hdr m,
     case body_kind (m_nlmsgType (m_hdr m)) (m_nlmsgFlags (m_hdr m)) of
       No_body \<Rightarrow> Shows_none
     | Error_body \<Rightarrow> Shows_error (m_errorMessage m)
     | General_body \<Rightarrow> Shows_general (m_family (m_genmsg m))
     | Route_body \<Rightarrow> Shows_route (rt_shown V (m_routeTemplate m))
     | Address_body \<Rightarrow> Shows_address (ifa_shown V (m_addressTemplate m))
     | Interface_body \<Rightarrow> Shows_interface (ifl_shown V (m_interfaceTemplate m)))"

text \<open>
  A message that can be sent: its attributes have the types of their table, and its length is that of
  its header and its body.
\<close>

definition body_ok :: "('i, 'a) io \<Rightarrow> 'a message \<Rightarrow> bool" where
  "body_ok B m =
     (case body_kind (m_nlmsgType (m_hdr m)) (m_nlmsgFlags (m_hdr m)) of
        Route_body \<Rightarrow> list_all (attr_ok B rt_attributeTypes) (m_attributes (m_routeTemplate m))
      | Address_body \<Rightarrow> list_all (attr_ok B ifa_attributeTypes) (m_attributes (m_addressTemplate m))
      | Interface_body \<Rightarrow> list_all (attr_ok B ifl_attributeTypes) (m_attributes (m_interfaceTemplate m))
      | _ \<Rightarrow> True)"

definition msg_ok :: "('i, 'a) io \<Rightarrow> ('i, 'a) view \<Rightarrow> 'a message \<Rightarrow> bool" where
  "msg_ok B V m = (body_ok B m \<and> m_nlmsgLen (m_hdr m) = 16 + of_nat (length (body_bytes V m))
     \<and> length (body_bytes V m) + 20 < 2 ^ 32)"

lemma attr_bytes_aligned:
  assumes "io_ok B V"
  shows "4 dvd length (concat (map (attr_bytes V) as))"
proof (induction as)
  case (Cons a as)
  have "length (attr_bytes V a) = 4 + (length (val_raw V (a_payload a)) + 3) div 4 * 4"
    by (simp add: attr_bytes_def val_bytes_def length_padded io_okD [OF assms] del: add_Suc)
  then have "4 dvd length (attr_bytes V a)" by (metis dvd_add dvd_refl dvd_triv_right)
  with Cons show ?case by (simp add: dvd_add)
qed simp

lemma hdr_length: "io_ok B V \<Longrightarrow> length (hdr_bytes V h) = 16"
  by (simp add: hdr_bytes_def io_okD)

lemma body_aligned:
  assumes "io_ok B V" and "body_ok B m"
  shows "4 dvd length (body_bytes V m)"
proof -
  have "4 dvd length (rt_bytes V r)" "4 dvd length (ifa_bytes V a)" "4 dvd length (ifl_bytes V l)" for r a l
    using attr_bytes_aligned [OF assms(1)]
    by (simp_all add: rt_bytes_def ifa_bytes_def ifl_bytes_def io_okD [OF assms(1)] dvd_add_right_iff)
  moreover have "length (bytes32 V e @ hdr_bytes V h) = 20" "length ([f] @ [0, 0, 0 :: byte]) = 4" for e h f
    by (simp_all add: hdr_length [OF assms(1)] io_okD [OF assms(1)])
  ultimately show ?thesis unfolding body_bytes_def
    by (cases "body_kind (m_nlmsgType (m_hdr m)) (m_nlmsgFlags (m_hdr m))") (simp_all only: body_kind.case list.size, simp_all)
qed

lemma msg_sizes:
  assumes "io_ok B V" and "msg_ok B V m"
  shows "msg_GetSerializedSize m = of_nat (length (msg_bytes V m))"
    and "NETLINK_MSG_ALIGN (m_nlmsgLen (m_hdr m)) - hdr_GetSerializedSize = of_nat (length (body_bytes V m))"
    and "unat (msg_GetSerializedSize m) = length (msg_bytes V m)"
proof -
  let ?n = "length (body_bytes V m)"
  have n: "m_nlmsgLen (m_hdr m) = 16 + of_nat ?n" "?n + 20 < 2 ^ 32" and "4 dvd ?n"
    using assms body_aligned [OF assms(1)] by (simp_all add: msg_ok_def)
  then have u: "unat (16 + of_nat ?n :: uint32) = 16 + ?n"
    by (subst unat_plus_word) (simp_all add: unat_of_nat)
  have "(16 + ?n + 3) div 4 * 4 = 16 + ?n" using \<open>4 dvd ?n\<close> by (elim dvdE) simp
  then have "unat (NETLINK_MSG_ALIGN (16 + of_nat ?n)) = 16 + ?n"
    using align_unat [of "16 + of_nat ?n"] u n(2) by simp
  then have al: "NETLINK_MSG_ALIGN (16 + of_nat ?n) = 16 + of_nat ?n" using u by (simp add: word_unat_eq_iff)
  show "msg_GetSerializedSize m = of_nat (length (msg_bytes V m))"
    by (simp add: msg_GetSerializedSize_def msg_bytes_def hdr_length [OF assms(1)] n(1) al)
  show "NETLINK_MSG_ALIGN (m_nlmsgLen (m_hdr m)) - hdr_GetSerializedSize = of_nat ?n"
    by (simp add: n(1) al hdr_GetSerializedSize_def NETLINK_MSG_HEADER_SIZE_def)
  show "unat (msg_GetSerializedSize m) = length (msg_bytes V m)"
    by (simp add: msg_GetSerializedSize_def msg_bytes_def hdr_length [OF assms(1)] n(1) al u)
qed

lemma hdr_Serialize_writes: "io_ok B V \<Longrightarrow> writes V (hdr_Serialize B h) (hdr_bytes V h)"
  unfolding hdr_Serialize_def [abs_def] hdr_bytes_def by (intro writes_bind io_ok_writes)

lemma hdr_Deserialize_reads: "io_ok B V \<Longrightarrow> reads V (hdr_Deserialize B) (hdr_bytes V h) (hdr_GetSerializedSize, h)"
proof -
  assume io: "io_ok B V"
  have "reads V (hdr_Deserialize B) (hdr_bytes V h) (hdr_GetSerializedSize, \<lparr>m_nlmsgLen = m_nlmsgLen h,
     m_nlmsgType = m_nlmsgType h, m_nlmsgFlags = m_nlmsgFlags h, m_nlmsgSeq = m_nlmsgSeq h, m_nlmsgPid = m_nlmsgPid h\<rparr>)"
    unfolding hdr_Deserialize_def [abs_def] hdr_bytes_def
    by ((rule reads_number [OF io])+, rule reads_finish, rule io_ok_reads [OF io])
  then show ?thesis by (cases h) simp
qed

lemma msg_Serialize_writes:
  assumes "io_ok B V" and "body_ok B m"
  shows "writes V (msg_Serialize B m) (msg_bytes V m)"
proof -
  have rt: "list_all (attr_ok B rt_attributeTypes) (m_attributes r) \<Longrightarrow> writes V (rt_Serialize B r) (rt_bytes V r)"
    and ifa: "list_all (attr_ok B ifa_attributeTypes) (m_attributes a) \<Longrightarrow> writes V (ifa_Serialize B a) (ifa_bytes V a)"
    and ifl: "list_all (attr_ok B ifl_attributeTypes) (m_attributes l) \<Longrightarrow> writes V (ifl_Serialize B l) (ifl_bytes V l)"
    for r a l
    using assms(1) by (blast intro: rt_Serialize_writes ifa_Serialize_writes ifl_Serialize_writes list_attr_val_ok)+
  have err: "writes V (err_Serialize B e) (bytes32 V (m_error e) @ hdr_bytes V (m_msg e))" for e
    unfolding err_Serialize_def [abs_def]
    by (intro writes_bind io_ok_writes [OF assms(1)] hdr_Serialize_writes [OF assms(1)])
  have gen: "writes V (gen_Serialize B g) ([m_family g] @ [0, 0, 0])" for g :: "'b general_message"
  proof -
    have "unat (3 :: uint32) = 3" by simp
    then have "replicate (unat (3 :: uint32)) 0 = [0, 0, 0 :: byte]" by (simp only: numeral_3_eq_3 replicate.simps)
    with writes_bind [OF io_ok_writes(1) [OF assms(1), of "m_family g"] io_ok_writes(2) [OF assms(1), of 0 3]]
    show ?thesis by (simp add: gen_Serialize_def [abs_def])
  qed
  have "writes V (\<lambda>i. case body_kind (m_nlmsgType (m_hdr m)) (m_nlmsgFlags (m_hdr m)) of
            No_body \<Rightarrow> Some i
          | Error_body \<Rightarrow> err_Serialize B (m_errorMessage m) i
          | General_body \<Rightarrow> gen_Serialize B (m_genmsg m) i
          | Route_body \<Rightarrow> rt_Serialize B (m_routeTemplate m) i
          | Address_body \<Rightarrow> ifa_Serialize B (m_addressTemplate m) i
          | Interface_body \<Rightarrow> ifl_Serialize B (m_interfaceTemplate m) i) (body_bytes V m)"
    using assms(2) rt ifa ifl err gen writes_nothing [of V]
    by (auto simp: body_ok_def body_bytes_def split: body_kind.splits)
  from writes_bind [OF hdr_Serialize_writes [OF assms(1)] this]
  show ?thesis by (simp add: msg_Serialize_def [abs_def] msg_bytes_def)
qed

lemma reads_body:
  "reads V f bs (n, b) \<Longrightarrow> reads V (\<lambda>i. f i \<bind> (\<lambda>((n, b), i). Some ((sz, h b), i))) bs (sz, h b)"
  using reads_finish [of V f bs "(n, b)" "\<lambda>r. (sz, h (snd r))"] by (simp add: split_def)

lemma err_Deserialize_reads:
  assumes "io_ok B V"
  shows "reads V (err_Deserialize B) (bytes32 V (m_error e) @ hdr_bytes V (m_msg e)) (err_GetSerializedSize, e)"
proof -
  have "reads V (\<lambda>i. hdr_Deserialize B i \<bind> (\<lambda>((n, h), i).
      Some ((err_GetSerializedSize, \<lparr>m_error = m_error e, m_msg = h\<rparr>), i)))
    (hdr_bytes V (m_msg e)) (err_GetSerializedSize, \<lparr>m_error = m_error e, m_msg = m_msg e\<rparr>)"
    by (rule reads_body [OF hdr_Deserialize_reads [OF assms]])
  then have "reads V (err_Deserialize B) (bytes32 V (m_error e) @ hdr_bytes V (m_msg e))
    (err_GetSerializedSize, \<lparr>m_error = m_error e, m_msg = m_msg e\<rparr>)"
    unfolding err_Deserialize_def [abs_def] by (rule reads_number [OF assms])
  then show ?thesis by (cases e) simp
qed

lemma gen_Deserialize_reads:
  assumes "io_ok B V"
  shows "reads V (gen_Deserialize B len g0) ([m_family g] @ [0, 0, 0]) (gen_GetSerializedSize, g0\<lparr>m_family := m_family g\<rparr>)"
  unfolding gen_Deserialize_def [abs_def]
  by (rule reads_number [OF assms], rule reads_finish [of _ _ _ "[0, 0, 0]"], rule io_ok_reads(5) [OF assms]) simp

text \<open>The message after its header, \<open>m\<close> being what has been read so far.\<close>

lemma msg_rest_reads:
  assumes "io_ok B V" and "msg_ok B V m" and "m0 = NetlinkMessage\<lparr>m_hdr := m_hdr m\<rparr>"
    and "remaining = of_nat (length (body_bytes V m))"
    and "sz = msg_GetSerializedSize m"
  shows "\<exists>m'. reads V (\<lambda>i. if remaining = 0 then Some ((sz, m0), i) else body_Deserialize B remaining m0 i)
      (body_bytes V m) (sz, m') \<and> msg_shown V m' = msg_shown V m"
proof -
  let ?k = "body_kind (m_nlmsgType (m_hdr m)) (m_nlmsgFlags (m_hdr m))"
  have ok: "body_ok B m" "length (body_bytes V m) < 2 ^ 32" using assms(2) by (simp_all add: msg_ok_def)
  note d = body_Deserialize_def [abs_def]
  have h: "m_hdr m0 = m_hdr m" "sz = msg_GetSerializedSize m0" "m_attributes (m_routeTemplate m0) = []" "m_attributes (m_addressTemplate m0) = []"
    "m_attributes (m_interfaceTemplate m0) = []"
    by (simp_all add: assms(3,5) msg_GetSerializedSize_def NetlinkMessage_def RouteMessage_def InterfaceAddressMessage_def InterfaceInfoMessage_def)
  have ne: "remaining \<noteq> 0" if "0 < length (body_bytes V m)"
    using that ok(2) assms(4) by (auto simp: word_unat_eq_iff unat_of_nat)
  show ?thesis
  proof (cases ?k)
    case No_body
    then show ?thesis using reads_return [of V "(sz, m0)"] assms(4) h
      by (intro exI [of _ m0]) (simp add: body_bytes_def msg_shown_def)
  next
    case Error_body
    then have b: "body_bytes V m = bytes32 V (m_error (m_errorMessage m)) @ hdr_bytes V (m_msg (m_errorMessage m))"
      by (simp add: body_bytes_def)
    show ?thesis using reads_body [OF err_Deserialize_reads [OF assms(1), of "m_errorMessage m"], of sz
          "\<lambda>b. m0\<lparr>m_errorMessage := b\<rparr>"] Error_body ne h
      by (intro exI [of _ "m0\<lparr>m_errorMessage := m_errorMessage m\<rparr>"])
         (simp add: d b msg_shown_def hdr_length [OF assms(1)] io_okD [OF assms(1)])
  next
    case General_body
    then have b: "body_bytes V m = [m_family (m_genmsg m)] @ [0, 0, 0]" by (simp add: body_bytes_def)
    show ?thesis using reads_body [OF gen_Deserialize_reads [OF assms(1), of remaining "m_genmsg m0" "m_genmsg m"], of sz
          "\<lambda>b. m0\<lparr>m_genmsg := b\<rparr>"] General_body ne h
      by (intro exI [of _ "m0\<lparr>m_genmsg := (m_genmsg m0)\<lparr>m_family := m_family (m_genmsg m)\<rparr>\<rparr>"]) (simp add: d b msg_shown_def)
  next
    case Route_body
    then have b: "body_bytes V m = rt_bytes V (m_routeTemplate m)"
      and a: "list_all (attr_ok B rt_attributeTypes) (m_attributes (m_routeTemplate m))"
      using ok(1) by (simp_all add: body_bytes_def body_ok_def)
    have n: "remaining \<noteq> 0" by (rule ne) (simp add: b rt_size(2) [OF assms(1) list_attr_val_ok [OF a]])
    from rt_Deserialize_reads [OF assms(1) a h(3)] ok(2) b obtain r where
      r: "reads V (rt_Deserialize B remaining (m_routeTemplate m0)) (body_bytes V m) (remaining, r)"
      and s: "rt_shown V r = rt_shown V (m_routeTemplate m)" by (auto simp: assms(4))
    show ?thesis using reads_body [OF r, of sz "\<lambda>b. m0\<lparr>m_routeTemplate := b\<rparr>"] Route_body n h s
      by (intro exI [of _ "m0\<lparr>m_routeTemplate := r\<rparr>"]) (simp add: d msg_shown_def)
  next
    case Address_body
    then have b: "body_bytes V m = ifa_bytes V (m_addressTemplate m)"
      and a: "list_all (attr_ok B ifa_attributeTypes) (m_attributes (m_addressTemplate m))"
      using ok(1) by (simp_all add: body_bytes_def body_ok_def)
    have n: "remaining \<noteq> 0" by (rule ne) (simp add: b ifa_size(2) [OF assms(1) list_attr_val_ok [OF a]])
    from ifa_Deserialize_reads [OF assms(1) a h(4)] ok(2) b obtain r where
      r: "reads V (ifa_Deserialize B remaining (m_addressTemplate m0)) (body_bytes V m) (remaining, r)"
      and s: "ifa_shown V r = ifa_shown V (m_addressTemplate m)" by (auto simp: assms(4))
    show ?thesis using reads_body [OF r, of sz "\<lambda>b. m0\<lparr>m_addressTemplate := b\<rparr>"] Address_body n h s
      by (intro exI [of _ "m0\<lparr>m_addressTemplate := r\<rparr>"]) (simp add: d msg_shown_def)
  next
    case Interface_body
    then have b: "body_bytes V m = ifl_bytes V (m_interfaceTemplate m)"
      and a: "list_all (attr_ok B ifl_attributeTypes) (m_attributes (m_interfaceTemplate m))"
      using ok(1) by (simp_all add: body_bytes_def body_ok_def)
    have n: "remaining \<noteq> 0" by (rule ne) (simp add: b ifl_size(2) [OF assms(1) list_attr_val_ok [OF a]])
    from ifl_Deserialize_reads [OF assms(1) a h(5)] ok(2) b obtain r where
      r: "reads V (ifl_Deserialize B remaining (m_interfaceTemplate m0)) (body_bytes V m) (remaining, r)"
      and s: "ifl_shown V r = ifl_shown V (m_interfaceTemplate m)" by (auto simp: assms(4))
    show ?thesis using reads_body [OF r, of sz "\<lambda>b. m0\<lparr>m_interfaceTemplate := b\<rparr>"] Interface_body n h s
      by (intro exI [of _ "m0\<lparr>m_interfaceTemplate := r\<rparr>"]) (simp add: d msg_shown_def)
  qed
qed

lemma msg_Deserialize_reads:
  fixes m :: "'a message"
  assumes "io_ok B V" and "msg_ok B V m"
  shows "\<exists>m'. reads V (msg_Deserialize B NetlinkMessage) (msg_bytes V m) (msg_GetSerializedSize m, m')
    \<and> msg_shown V m' = msg_shown V m"
proof -
  let ?m0 = "NetlinkMessage\<lparr>m_hdr := m_hdr m\<rparr> :: 'a message"
  have sz: "msg_GetSerializedSize ?m0 = msg_GetSerializedSize m" by (simp add: msg_GetSerializedSize_def)
  obtain m' where r: "reads V (\<lambda>i. if NETLINK_MSG_ALIGN (m_nlmsgLen (m_hdr m)) - hdr_GetSerializedSize = 0
          then Some ((msg_GetSerializedSize m, ?m0), i)
          else body_Deserialize B (NETLINK_MSG_ALIGN (m_nlmsgLen (m_hdr m)) - hdr_GetSerializedSize) ?m0 i)
       (body_bytes V m) (msg_GetSerializedSize m, m')" and shown: "msg_shown V m' = msg_shown V m"
    using msg_rest_reads [OF assms refl msg_sizes(2) [OF assms] refl] by blast
  define g where "g r i = (case r of (n :: uint32, h) \<Rightarrow>
     (let m = NetlinkMessage\<lparr>m_hdr := h\<rparr> :: 'a message;
          remaining = NETLINK_MSG_ALIGN (m_nlmsgLen h) - hdr_GetSerializedSize in
      if remaining = 0 then Some ((msg_GetSerializedSize m, m), i) else body_Deserialize B remaining m i))" for r and i
  have "reads V (g (hdr_GetSerializedSize, m_hdr m)) (body_bytes V m) (msg_GetSerializedSize m, m')"
    using r by (simp add: g_def [abs_def] Let_def sz cong: if_cong)
  from reads_bind [where g = g, OF hdr_Deserialize_reads [OF assms(1)] this]
  have "reads V (msg_Deserialize B NetlinkMessage) (msg_bytes V m) (msg_GetSerializedSize m, m')"
    by (simp add: msg_Deserialize_def [abs_def] msg_bytes_def g_def split_def)
  with shown show ?thesis by blast
qed

section \<open>The messages of a packet\<close>

definition is_multi :: "'a message \<Rightarrow> bool" where
  "is_multi m = (m_nlmsgFlags (m_hdr m) AND NETLINK_MSG_F_MULTI \<noteq> 0)"

text \<open>Where a reader stops: after a message without the flag, or after the end of a dump.\<close>

fun terminated :: "'a message list \<Rightarrow> bool" where
  "terminated [] = False"
| "terminated [m] = (\<not> is_multi m \<or> m_nlmsgType (m_hdr m) = NETLINK_MSG_DONE)"
| "terminated (m # ms) = (is_multi m \<and> m_nlmsgType (m_hdr m) \<noteq> NETLINK_MSG_DONE \<and> terminated ms)"

lemma serialize_all_writes:
  assumes "io_ok B V" and "list_all (body_ok B) ms"
  shows "writes V (serialize_all B ms) (concat (map (msg_bytes V) ms))"
  using assms(2)
proof (induction ms)
  case Nil
  have "serialize_all B [] = Some" by (simp add: fun_eq_iff)
  then show ?case using writes_nothing [of V] by simp
next
  case (Cons m ms)
  then have "writes V (\<lambda>i. msg_Serialize B m i \<bind> serialize_all B ms) (msg_bytes V m @ concat (map (msg_bytes V) ms))"
    by (intro writes_bind msg_Serialize_writes [OF assms(1)]) simp_all
  moreover have "serialize_all B (m # ms) = (\<lambda>i. msg_Serialize B m i \<bind> serialize_all B ms)" by (simp add: fun_eq_iff)
  ultimately show ?case by simp
qed

lemma multi_loop_unfold:
  "multi_loop B p = (\<lambda>i. msg_Deserialize B NetlinkMessage i \<bind> (\<lambda>(r, i).
     if is_multi (snd r) \<and> m_nlmsgType (m_hdr (snd r)) \<noteq> NETLINK_MSG_DONE
     then multi_loop B (AppendMessage (snd r) p) i else Some (AppendMessage (snd r) p, i)))"
proof (rule ext)
  fix i
  show "multi_loop B p i = msg_Deserialize B NetlinkMessage i \<bind> (\<lambda>(r, i).
     if is_multi (snd r) \<and> m_nlmsgType (m_hdr (snd r)) \<noteq> NETLINK_MSG_DONE
     then multi_loop B (AppendMessage (snd r) p) i else Some (AppendMessage (snd r) p, i))"
    by (subst multi_loop.simps, cases "msg_Deserialize B NetlinkMessage i") (auto simp: is_multi_def Let_def)
qed

lemma multi_loop_reads:
  assumes "io_ok B V" and "list_all (msg_ok B V) ms" and "terminated ms"
  shows "\<exists>ms'. reads V (multi_loop B p) (concat (map (msg_bytes V) ms))
      (p\<lparr>m_netlinkMessages := m_netlinkMessages p @ ms'\<rparr>) \<and> map (msg_shown V) ms' = map (msg_shown V) ms"
  using assms(2,3)
proof (induction ms arbitrary: p)
  case (Cons m ms)
  obtain m' where r: "reads V (msg_Deserialize B NetlinkMessage) (msg_bytes V m) (msg_GetSerializedSize m, m')"
    and s: "msg_shown V m' = msg_shown V m"
    using msg_Deserialize_reads [OF assms(1)] Cons.prems(1) by fastforce
  have h: "m_hdr m' = m_hdr m" using s by (simp add: msg_shown_def)
  let ?g = "\<lambda>r i. if is_multi (snd r) \<and> m_nlmsgType (m_hdr (snd r)) \<noteq> NETLINK_MSG_DONE
     then multi_loop B (AppendMessage (snd r) p) i else Some (AppendMessage (snd r) p, i)"
  show ?case
  proof (cases ms)
    case Nil
    then have "reads V (?g (msg_GetSerializedSize m, m')) [] (AppendMessage m' p)"
    proof -
      have "\<not> (is_multi m' \<and> m_nlmsgType (m_hdr m') \<noteq> NETLINK_MSG_DONE)"
        using Cons.prems(2) h Nil by (simp add: is_multi_def)
      then have "?g (msg_GetSerializedSize m, m') = (\<lambda>i. Some (AppendMessage m' p, i))" by auto
      then show ?thesis using reads_return [of V "AppendMessage m' p"] by simp
    qed
    from reads_bind [where g = ?g, OF r this]
    have "reads V (multi_loop B p) (msg_bytes V m) (AppendMessage m' p)"
      unfolding multi_loop_unfold [of B p] by simp
    then show ?thesis using s Nil by (intro exI [of _ "[m']"]) (simp add: AppendMessage_def)
  next
    case (Cons m2 ms2)
    then obtain ms' where loop: "reads V (multi_loop B (AppendMessage m' p)) (concat (map (msg_bytes V) ms))
        ((AppendMessage m' p)\<lparr>m_netlinkMessages := m_netlinkMessages (AppendMessage m' p) @ ms'\<rparr>)"
      and ss: "map (msg_shown V) ms' = map (msg_shown V) ms"
      using Cons.IH [of "AppendMessage m' p"] Cons.prems by auto
    have "reads V (?g (msg_GetSerializedSize m, m')) (concat (map (msg_bytes V) ms))
        (p\<lparr>m_netlinkMessages := m_netlinkMessages p @ m' # ms'\<rparr>)"
      using loop Cons Cons.prems(2) h by (simp add: is_multi_def AppendMessage_def)
    from reads_bind [where g = ?g, OF r this]
    have "reads V (multi_loop B p) (msg_bytes V m @ concat (map (msg_bytes V) ms))
        (p\<lparr>m_netlinkMessages := m_netlinkMessages p @ m' # ms'\<rparr>)"
      unfolding multi_loop_unfold [of B p] .
    then show ?thesis using s ss by (intro exI [of _ "m' # ms'"]) simp
  qed
qed simp

end
