(* ===== verification/Netlink_Properties.thy ===== *)
theory Netlink_Properties
  imports Netlink_Codec
begin

text \<open>
  The properties of the netlink messages, over every iterator and address that keeps the laws of
  \<open>io_ok\<close>, and applied to messages over a list of bytes.
\<close>

section \<open>Sending and receiving\<close>

lemma multi_size:
  assumes "io_ok B V" and "list_all (msg_ok B V) (m_netlinkMessages p)"
    and "length (concat (map (msg_bytes V) (m_netlinkMessages p))) < 2 ^ 32"
  shows "unat (multi_GetSerializedSize p) = length (concat (map (msg_bytes V) (m_netlinkMessages p)))"
proof -
  have "sum_list (map msg_GetSerializedSize ms) = of_nat (length (concat (map (msg_bytes V) ms)))"
    if "list_all (msg_ok B V) ms" for ms
    using that by (induction ms) (simp_all add: msg_sizes(1) [OF assms(1)])
  with assms show ?thesis by (simp add: multi_GetSerializedSize_def unat_of_nat)
qed

lemma shown_total_size:
  assumes "map (msg_shown V) ms = map (msg_shown V) ms'"
  shows "sum_list (map msg_GetSerializedSize ms) = sum_list (map msg_GetSerializedSize ms')"
  using assms
proof (induction ms ms' rule: list_induct2')
  case (4 m ms m' ms')
  then have "m_hdr m = m_hdr m'" by (simp add: msg_shown_def)
  with 4 show ?case by (simp add: msg_GetSerializedSize_def)
qed simp_all

text \<open>C7. What is sent is what is received: a packet of messages that can be sent takes exactly the
  space that its \<open>GetSerializedSize\<close> reserves, and a reader that finds those bytes gets the same
  messages, each with its header, its members and its attributes, and stops right behind them.\<close>

theorem netlink_roundtrip:
  assumes "io_ok B V" and "list_all (msg_ok B V) (m_netlinkMessages p)" and "terminated (m_netlinkMessages p)"
    and "length (concat (map (msg_bytes V) (m_netlinkMessages p))) < 2 ^ 32"
    and "unat (multi_GetSerializedSize p) \<le> length (after V i)"
  shows "\<exists>i' w. multi_Serialize B p i = Some i' \<and> before V i' = before V i @ w
    \<and> length w = unat (multi_GetSerializedSize p)
    \<and> (\<forall>j rest. after V j = w @ rest \<longrightarrow>
        (\<exists>p' j'. multi_Deserialize B MultipartNetlinkMessage j = Some ((multi_GetSerializedSize p, p'), j')
           \<and> after V j' = rest
           \<and> map (msg_shown V) (m_netlinkMessages p') = map (msg_shown V) (m_netlinkMessages p)))"
proof -
  let ?ms = "m_netlinkMessages p" and ?w = "concat (map (msg_bytes V) (m_netlinkMessages p))"
  note size = multi_size [OF assms(1,2,4)]
  have "list_all (body_ok B) ?ms" using assms(2) by (simp add: list_all_iff msg_ok_def)
  from writesD [OF serialize_all_writes [OF assms(1) this]] assms(5) size
  obtain i' where i': "multi_Serialize B p i = Some i'" "before V i' = before V i @ ?w"
    by (auto simp: multi_Serialize_def)
  obtain ms' where loop: "reads V (multi_loop B MultipartNetlinkMessage) ?w
      (MultipartNetlinkMessage\<lparr>m_netlinkMessages := ms'\<rparr>)" and shown: "map (msg_shown V) ms' = map (msg_shown V) ?ms"
    using multi_loop_reads [OF assms(1-3), of MultipartNetlinkMessage] by (auto simp: MultipartNetlinkMessage_def)
  let ?p = "MultipartNetlinkMessage\<lparr>m_netlinkMessages := ms'\<rparr>"
  have "multi_GetSerializedSize ?p = multi_GetSerializedSize p"
    using shown_total_size [OF shown] by (simp add: multi_GetSerializedSize_def)
  with reads_finish [OF loop, of "\<lambda>p. (multi_GetSerializedSize p, p)"]
  have "reads V (multi_Deserialize B MultipartNetlinkMessage) ?w (multi_GetSerializedSize p, ?p)"
    by (simp add: multi_Deserialize_def [abs_def])
  from readsD [OF this] have "\<exists>j'. multi_Deserialize B MultipartNetlinkMessage j = Some ((multi_GetSerializedSize p, ?p), j')
      \<and> after V j' = rest" if "after V j = ?w @ rest" for j rest
    using that by blast
  with i' size shown show ?thesis
    by (intro exI [of _ i'] exI [of _ ?w] conjI allI impI) (simp_all, fastforce)
qed

abbreviation kind_of :: "header \<Rightarrow> body_kind" where
  "kind_of h \<equiv> body_kind (m_nlmsgType h) (m_nlmsgFlags h)"

lemma attribute_of_ok:
  "val_ok v \<Longrightarrow> unat t < length vtypes \<Longrightarrow> vtypes ! unat t = v_type v \<Longrightarrow> attr_ok B vtypes (attribute_of B t v)"
  by (simp add: attr_ok_def attribute_of_def)

lemma header_built: "kind_of h = No_body \<Longrightarrow> m_nlmsgLen h = 16 \<Longrightarrow> msg_ok B V (SetHeader h m)"
  by (simp add: msg_ok_def body_ok_def body_bytes_def SetHeader_def)

lemma error_built:
  "io_ok B V \<Longrightarrow> kind_of h = Error_body \<Longrightarrow> msg_ok B V (SetErrorMessage e (SetHeader h m))"
  by (simp add: msg_ok_def body_ok_def body_bytes_def SetHeader_def SetErrorMessage_def set_len_def SetMsgLen_def
      hdr_length io_okD err_GetSerializedSize_def hdr_GetSerializedSize_def NETLINK_MSG_HEADER_SIZE_def)

lemma general_built:
  "io_ok B V \<Longrightarrow> kind_of h = General_body \<Longrightarrow> msg_ok B V (SetGeneralMessage g (SetHeader h m))"
  using align_unat [of 1]
  by (simp add: msg_ok_def body_ok_def body_bytes_def SetHeader_def SetGeneralMessage_def set_len_def SetMsgLen_def
      gen_GetSerializedSize_def hdr_GetSerializedSize_def NETLINK_MSG_HEADER_SIZE_def NETLINK_MSG_ALIGN_def)

lemma route_built:
  assumes "io_ok B V" and "kind_of h = Route_body" and "list_all (attr_ok B rt_attributeTypes) (m_attributes r)"
    and "length (rt_bytes V r) < 2 ^ 32 - 20"
  shows "msg_ok B V (SetRouteMessage B r (SetHeader h m))"
  using assms rt_size(1) [OF assms(1) list_attr_val_ok [OF assms(3)]]
  by (simp add: msg_ok_def body_ok_def body_bytes_def SetHeader_def SetRouteMessage_def set_len_def SetMsgLen_def
      hdr_GetSerializedSize_def NETLINK_MSG_HEADER_SIZE_def)

lemma address_built:
  assumes "io_ok B V" and "kind_of h = Address_body" and "list_all (attr_ok B ifa_attributeTypes) (m_attributes a)"
    and "length (ifa_bytes V a) < 2 ^ 32 - 20"
  shows "msg_ok B V (SetInterfaceAddressMessage B a (SetHeader h m))"
  using assms ifa_size(1) [OF assms(1) list_attr_val_ok [OF assms(3)]]
  by (simp add: msg_ok_def body_ok_def body_bytes_def SetHeader_def SetInterfaceAddressMessage_def set_len_def
      SetMsgLen_def hdr_GetSerializedSize_def NETLINK_MSG_HEADER_SIZE_def)

lemma interface_built:
  assumes "io_ok B V" and "kind_of h = Interface_body" and "list_all (attr_ok B ifl_attributeTypes) (m_attributes l)"
    and "length (ifl_bytes V l) < 2 ^ 32 - 20"
  shows "msg_ok B V (SetInterfaceInfoMessage B l (SetHeader h m))"
  using assms ifl_size(1) [OF assms(1) list_attr_val_ok [OF assms(3)]]
  by (simp add: msg_ok_def body_ok_def body_bytes_def SetHeader_def SetInterfaceInfoMessage_def set_len_def
      SetMsgLen_def hdr_GetSerializedSize_def NETLINK_MSG_HEADER_SIZE_def)

text \<open>A dump of one route, as the socket of the kernel side answers it, and its end.\<close>

definition one_route :: "list_address route_message" where
  "one_route = AppendAttribute (attribute_of list_io 1 (value_address list_io (1, [10, 1, 0, 0])))
     (AppendAttribute (attribute_of list_io 4 (value_u32 list_io 2)) (rt_SetDstLength 16 (rt_SetFamily 2 RouteMessage)))"

definition one_dump :: "list_address multipart" where
  "one_dump =
     AppendMessage (SetHeader (NetlinkMessageHeader NETLINK_MSG_DONE NETLINK_MSG_F_MULTI 7 1) NetlinkMessage)
      (AppendMessage (SetRouteMessage list_io one_route
         (SetHeader (NetlinkMessageHeader NETLINK_RTM_NEWROUTE NETLINK_MSG_F_MULTI 7 1) NetlinkMessage))
       MultipartNetlinkMessage)"

lemma one_route_ok:
  "list_all (attr_ok list_io rt_attributeTypes) (m_attributes one_route)" "length (rt_bytes list_view one_route) = 28"
proof -
  show ok: "list_all (attr_ok list_io rt_attributeTypes) (m_attributes one_route)"
    by (simp add: one_route_def AppendAttribute_def attribute_of_ok rt_SetDstLength_def rt_SetFamily_def
        RouteMessage_def value_address_def value_u32_def fresh_value_def val_ok_def rt_attributeTypes_def)
  show "length (rt_bytes list_view one_route) = 28"
    unfolding rt_size(2) [OF list_io_ok list_attr_val_ok [OF ok]]
    by (simp add: one_route_def AppendAttribute_def attribute_of_def rt_SetDstLength_def rt_SetFamily_def
        RouteMessage_def value_address_def value_u32_def fresh_value_def attr_bytes_def val_bytes_def
        length_padded val_raw_def list_view_def address_list_def)
qed

lemma one_dump_ok:
  "list_all (msg_ok list_io list_view) (m_netlinkMessages one_dump)" "terminated (m_netlinkMessages one_dump)"
  "length (concat (map (msg_bytes list_view) (m_netlinkMessages one_dump))) = 60"
proof -
  note k = body_kind_def NETLINK_MSG_DONE_def NETLINK_MSG_ERROR_def IsMessageFlagsDump_def NETLINK_MSG_F_DUMP_def
    NETLINK_MSG_F_MULTI_def NETLINK_RTM_NEWROUTE_def NETLINK_RTM_GETROUTE_def NETLINK_RTM_GETADDR_def NETLINK_RTM_GETLINK_def
  note d = one_dump_def AppendMessage_def MultipartNetlinkMessage_def
  have r: "msg_ok list_io list_view (SetRouteMessage list_io one_route
         (SetHeader (NetlinkMessageHeader NETLINK_RTM_NEWROUTE NETLINK_MSG_F_MULTI 7 1) NetlinkMessage))"
    by (rule route_built [OF list_io_ok _ one_route_ok(1)]) (simp_all add: NetlinkMessageHeader_def k one_route_ok(2))
  have n: "msg_ok list_io list_view (SetHeader (NetlinkMessageHeader NETLINK_MSG_DONE NETLINK_MSG_F_MULTI 7 1) NetlinkMessage)"
    by (rule header_built) (simp_all add: NetlinkMessageHeader_def k)
  show "list_all (msg_ok list_io list_view) (m_netlinkMessages one_dump)" using r n by (simp add: d)
  show "terminated (m_netlinkMessages one_dump)"
    by (simp add: d is_multi_def SetRouteMessage_def set_len_def SetHeader_def NetlinkMessageHeader_def SetMsgLen_def k)
  show "length (concat (map (msg_bytes list_view) (m_netlinkMessages one_dump))) = 60"
    by (simp add: d msg_bytes_def hdr_length [OF list_io_ok] body_bytes_def SetRouteMessage_def set_len_def SetHeader_def
        NetlinkMessageHeader_def SetMsgLen_def k one_route_ok(2))
qed

lemma one_dump_size: "unat (multi_GetSerializedSize one_dump) = 60"
  using multi_size [OF list_io_ok one_dump_ok(1)] one_dump_ok(3) by simp

theorem netlink_roundtrip_witness:
  "\<exists>i' w p' j'. multi_Serialize list_io one_dump ([], replicate 64 0) = Some i' \<and> fst i' = w \<and> length w = 60
    \<and> multi_Deserialize list_io MultipartNetlinkMessage ([], w @ [1, 2]) = Some ((60, p'), j') \<and> snd j' = [1, 2]
    \<and> map (msg_shown list_view) (m_netlinkMessages p') = map (msg_shown list_view) (m_netlinkMessages one_dump)"
proof -
  note ok = one_dump_ok one_dump_size
  have "\<exists>i' w. multi_Serialize list_io one_dump ([], replicate 64 0) = Some i'
    \<and> before list_view i' = before list_view ([], replicate 64 0) @ w
    \<and> length w = unat (multi_GetSerializedSize one_dump)
    \<and> (\<forall>j rest. after list_view j = w @ rest \<longrightarrow>
        (\<exists>p' j'. multi_Deserialize list_io MultipartNetlinkMessage j = Some ((multi_GetSerializedSize one_dump, p'), j')
           \<and> after list_view j' = rest
           \<and> map (msg_shown list_view) (m_netlinkMessages p') = map (msg_shown list_view) (m_netlinkMessages one_dump)))"
    by (rule netlink_roundtrip [OF list_io_ok]) (use ok in \<open>simp_all add: list_view_def\<close>)
  then obtain i' w where i': "multi_Serialize list_io one_dump ([], replicate 64 0) = Some i'" "fst i' = w" "length w = 60"
    and r: "\<forall>j rest. after list_view j = w @ rest \<longrightarrow>
        (\<exists>p' j'. multi_Deserialize list_io MultipartNetlinkMessage j = Some ((multi_GetSerializedSize one_dump, p'), j')
           \<and> after list_view j' = rest
           \<and> map (msg_shown list_view) (m_netlinkMessages p') = map (msg_shown list_view) (m_netlinkMessages one_dump))"
    using ok by (auto simp: list_view_def)
  have "multi_GetSerializedSize one_dump = 60" using ok by (simp add: word_unat_eq_iff)
  with r [rule_format, of "([], w @ [1, 2])" "[1, 2]"] i' show ?thesis by (auto simp: list_view_def)
qed

section \<open>Messages as they are built\<close>

text \<open>C23. The way the messages are built makes them ones that can be sent: the header first, then
  the body, whose attributes come from the constructors with a value and have the type that the
  reader expects. The length in the header is then that of the message.\<close>

theorem built_messages_ok:
  assumes "io_ok B V"
  shows "(val_ok v \<and> unat t < length vtypes \<and> vtypes ! unat t = v_type v \<longrightarrow> attr_ok B vtypes (attribute_of B t v))
    \<and> (kind_of h = No_body \<and> m_nlmsgLen h = 16 \<longrightarrow> msg_ok B V (SetHeader h m))
    \<and> (kind_of h = Error_body \<longrightarrow> msg_ok B V (SetErrorMessage e (SetHeader h m)))
    \<and> (kind_of h = General_body \<longrightarrow> msg_ok B V (SetGeneralMessage g (SetHeader h m)))
    \<and> (kind_of h = Route_body \<and> list_all (attr_ok B rt_attributeTypes) (m_attributes r)
       \<and> length (rt_bytes V r) < 2 ^ 32 - 20 \<longrightarrow> msg_ok B V (SetRouteMessage B r (SetHeader h m)))
    \<and> (kind_of h = Address_body \<and> list_all (attr_ok B ifa_attributeTypes) (m_attributes a)
       \<and> length (ifa_bytes V a) < 2 ^ 32 - 20 \<longrightarrow> msg_ok B V (SetInterfaceAddressMessage B a (SetHeader h m)))
    \<and> (kind_of h = Interface_body \<and> list_all (attr_ok B ifl_attributeTypes) (m_attributes l)
       \<and> length (ifl_bytes V l) < 2 ^ 32 - 20 \<longrightarrow> msg_ok B V (SetInterfaceInfoMessage B l (SetHeader h m)))"
  by (intro conjI impI)
    ((elim conjE)?, (rule attribute_of_ok header_built error_built [OF assms] general_built [OF assms]
        route_built [OF assms] address_built [OF assms] interface_built [OF assms]; assumption))+

theorem built_messages_ok_witness:
  "msg_ok list_io list_view (SetRouteMessage list_io one_route
     (SetHeader (NetlinkMessageHeader NETLINK_RTM_NEWROUTE 0 7 1) NetlinkMessage))"
proof -
  have "kind_of (NetlinkMessageHeader NETLINK_RTM_NEWROUTE 0 7 1) = Route_body"
    by (simp add: NetlinkMessageHeader_def body_kind_def NETLINK_MSG_DONE_def NETLINK_MSG_ERROR_def
        IsMessageFlagsDump_def NETLINK_RTM_NEWROUTE_def)
  with built_messages_ok [OF list_io_ok, of undefined undefined undefined "NetlinkMessageHeader NETLINK_RTM_NEWROUTE 0 7 1"
      NetlinkMessage undefined undefined one_route undefined undefined] one_route_ok
  show ?thesis by simp
qed

section \<open>What is not checked\<close>

text \<open>C35. The body of a message that announces the removal of an interface is never written: the
  length in its header and the space reserved for it count the body, and 16 bytes are written.\<close>

theorem dellink_body_lost:
  assumes "io_ok B V" and "m_nlmsgType h = NETLINK_RTM_DELLINK"
    and "list_all (attr_ok B ifl_attributeTypes) (m_attributes l)" and "length (ifl_bytes V l) < 2 ^ 32 - 20"
    and "16 \<le> length (after V i)"
  shows "\<exists>i' w. msg_Serialize B (SetInterfaceInfoMessage B l (SetHeader h m)) i = Some i'
    \<and> before V i' = before V i @ w \<and> length w = 16
    \<and> unat (msg_GetSerializedSize (SetInterfaceInfoMessage B l (SetHeader h m))) = 16 + length (ifl_bytes V l)
    \<and> 16 \<le> length (ifl_bytes V l)"
proof -
  let ?m = "SetInterfaceInfoMessage B l (SetHeader h m)"
  note val = list_attr_val_ok [OF assms(3)]
  have k: "body_kind (m_nlmsgType (m_hdr ?m)) (m_nlmsgFlags (m_hdr ?m)) = No_body"
    using assms(2) by (simp add: SetInterfaceInfoMessage_def set_len_def SetHeader_def SetMsgLen_def body_kind_def
        NETLINK_RTM_DELLINK_def NETLINK_MSG_DONE_def NETLINK_MSG_ERROR_def NETLINK_RTM_GETROUTE_def
        NETLINK_RTM_GETADDR_def NETLINK_RTM_GETLINK_def NETLINK_RTM_NEWROUTE_def NETLINK_RTM_DELROUTE_def
        NETLINK_RTM_NEWADDR_def NETLINK_RTM_DELADDR_def NETLINK_RTM_NEWLINK_def NETLINK_RTM_SETLINK_def)
  have n: "m_nlmsgLen (m_hdr ?m) = 16 + of_nat (length (ifl_bytes V l))"
    by (simp add: SetInterfaceInfoMessage_def set_len_def SetMsgLen_def hdr_GetSerializedSize_def
        NETLINK_MSG_HEADER_SIZE_def ifl_size(1) [OF assms(1) val])
  have u: "unat (16 + of_nat (length (ifl_bytes V l)) :: uint32) = 16 + length (ifl_bytes V l)"
    using assms(4) by (subst unat_plus_word) (simp_all add: unat_of_nat)
  have "4 dvd 16 + length (concat (map (attr_bytes V) (m_attributes l)))"
    using attr_bytes_aligned [OF assms(1)] by (simp add: dvd_add_right_iff)
  then have "4 dvd 16 + length (ifl_bytes V l)" by (simp add: ifl_size(2) [OF assms(1) val] dvd_add_right_iff)
  then have "(16 + length (ifl_bytes V l) + 3) div 4 * 4 = 16 + length (ifl_bytes V l)" by (elim dvdE) simp
  then have size: "unat (msg_GetSerializedSize ?m) = 16 + length (ifl_bytes V l)"
    using align_unat [of "16 + of_nat (length (ifl_bytes V l))"] u n assms(4) by (simp add: msg_GetSerializedSize_def)
  have "length (hdr_bytes V (m_hdr ?m)) \<le> length (after V i)" using assms(5) by (simp add: hdr_length [OF assms(1)])
  from writesD [OF hdr_Serialize_writes [OF assms(1)] this] obtain i' where
    "hdr_Serialize B (m_hdr ?m) i = Some i'" "before V i' = before V i @ hdr_bytes V (m_hdr ?m)" by blast
  with k size ifl_size(2) [OF assms(1) val] show ?thesis
    by (intro exI [of _ i'] exI [of _ "hdr_bytes V (m_hdr ?m)"]) (simp add: msg_Serialize_def hdr_length [OF assms(1)])
qed

theorem dellink_body_lost_witness:
  "\<exists>i'. msg_Serialize list_io (SetInterfaceInfoMessage list_io InterfaceInfoMessage
       (SetHeader (NetlinkMessageHeader NETLINK_RTM_DELLINK 0 1 1) NetlinkMessage)) ([], replicate 32 0) = Some i'
    \<and> length (fst i') = 16"
  using dellink_body_lost [OF list_io_ok, of "NetlinkMessageHeader NETLINK_RTM_DELLINK 0 1 1" InterfaceInfoMessage
      "([], replicate 32 0)" NetlinkMessage]
  by (simp add: NetlinkMessageHeader_def InterfaceInfoMessage_def list_view_def ifl_bytes_def) blast

lemma read_string_overflows:
  assumes "io_ok B V" and "0 \<notin> set s" and "512 \<le> n + length s" and "n \<le> 512" and "after V j = s @ rest"
  shows "read_string B n j = None"
  using assms(2-)
proof (induction s arbitrary: n j)
  case Nil
  then show ?case by (subst read_string.simps) simp
next
  case (Cons b s)
  show ?case
  proof (cases "n < 512")
    case True
    obtain j' where j': "ReadU8 B j = Some (b, j')" "after V j' = s @ rest"
      using readsD [OF io_ok_reads(1) [OF assms(1), of b], of j "s @ rest"] Cons.prems(4) by auto
    have "read_string B (Suc n) j' = None" by (rule Cons.IH) (use Cons.prems True j' in auto)
    with j' Cons.prems show ?thesis by (simp add: read_string_unfold [OF True])
  qed (use Cons.prems in \<open>subst read_string.simps, simp\<close>)
qed

text \<open>C36. The reader of an attribute trusts the packet: it uses the type it finds as an index into the
  table of the message, also beyond its end, and it copies a string into an array of 512 bytes
  without looking at its length. A longer string can be sent, and breaks the receiver.\<close>

theorem attribute_reader_unchecked:
  assumes "io_ok B V"
  shows "(length vtypes \<le> unat t \<and> after V j = bytes16 V l @ bytes16 V t @ rest \<longrightarrow>
      attr_Deserialize B vtypes a j = None)
    \<and> (0 \<notin> set s \<and> 512 \<le> length s \<and> after V j = s @ rest \<longrightarrow>
      val_DeserializeWithType B STRING remaining v j = None)"
proof (intro conjI impI; elim conjE)
  assume t: "length vtypes \<le> unat t" and j: "after V j = bytes16 V l @ bytes16 V t @ rest"
  from readsD [OF io_ok_reads(2) [OF assms] j] obtain j1 where
    j1: "ReadU16 B j = Some (l, j1)" "after V j1 = bytes16 V t @ rest" by blast
  from readsD [OF io_ok_reads(2) [OF assms] j1(2)] obtain j2 where "ReadU16 B j1 = Some (t, j2)" by blast
  with j1 t show "attr_Deserialize B vtypes a j = None" by (simp add: attr_Deserialize_def)
next
  assume "0 \<notin> set s" "512 \<le> length s" "after V j = s @ rest"
  then show "val_DeserializeWithType B STRING remaining v j = None"
    using read_string_overflows [OF assms, of s 0 j rest] by (simp add: val_DeserializeWithType_def read_value_def)
qed

lemma two_bytes: "word_bytes 2 (8 :: uint16) = [8, 0]"
  by code_simp

theorem attribute_reader_unchecked_witness:
  "attr_Deserialize list_io ifa_attributeTypes (NetlinkAttribute list_io) ([], [8, 0, 8, 0, 1, 0, 0, 0]) = None
   \<and> val_DeserializeWithType list_io STRING 0 (NetlinkAttributeValue list_io) ([], replicate 512 65 @ [0]) = None"
  using attribute_reader_unchecked [OF list_io_ok, of ifa_attributeTypes 8 "([], [8, 0, 8, 0, 1, 0, 0, 0])" 8
      "[1, 0, 0, 0]" "NetlinkAttribute list_io" "[]" 0 "NetlinkAttributeValue list_io"]
    attribute_reader_unchecked [OF list_io_ok, of "[]" 0 "([], replicate 512 65 @ [0])" 0 "[0]"
      "NetlinkAttribute list_io" "replicate 512 65" 0 "NetlinkAttributeValue list_io"]
  by (simp add: ifa_attributeTypes_def list_view_def two_bytes)

end
