(* ===== verification/Io_State.thy ===== *)
theory Io_State
  imports Task_Runs Fifo_Buffer
begin

text \<open>
  The objects behind the file descriptors of the simulated processes of a node, and what the
  implementations of the descriptors share: errno, signals, and the wait queues of
  \<open>model/wait-queue.cc\<close> and \<open>model/unix-fd.cc\<close>.

  As in \<open>Pthread_Sync\<close> a call that has to wait is cut where its thread goes to sleep: it is
  \<open>Blocked\<close> with the frames where it and its callers go on. Objects are named by the address \<open>new\<close>
  gave them, which is never given again, so that \<^term>\<open>None\<close> also stands for an access to a deleted
  object. A thread is named by its task.
\<close>

section \<open>The objects\<close>

type_synonym short = "16 word"
type_synonym pid = uint16

text \<open>
  A pipe has two \<open>PipeFd\<close>s; the bytes are in the buffer of the reading one. \<open>pipe_flags\<close> is the
  \<open>m_statusFlags\<close> that \<open>PipeFd\<close> declares itself and that hides the one of \<open>UnixFd\<close>.
\<close>

record pipe_end =
  m_peer :: "nat option"
  m_readSide :: bool
  pipe_flags :: uint32
  m_buf :: fifo

record timer_end =
  m_period :: time
  m_skipped :: uint64
  m_timer :: "event_id option"
  m_waiter :: "task option"

datatype fd_body = Pipe_end pipe_end | Timer_end timer_end

record unix_fd =
  m_fdCount :: int
  m_refs :: nat
  m_waitQueueList :: "nat list"
  m_fdFlags :: uint32
  m_statusFlags :: uint32
  m_body :: fd_body

text \<open>
  \<open>FileUsage\<close> (\<open>model/file-usage.h\<close>): an entry of the descriptor table of a process, with the number
  of calls that are using it.
\<close>

record file_usage =
  u_count :: int
  u_fd :: int
  u_file :: nat
  u_closing :: bool

text \<open>
  The entries of a wait queue: a \<open>WaitQueueEntryTimeout\<close> with its event mask, its waiting thread
  and \<open>m_lastTime\<close>, or a \<open>WaitQueueEntryPoll\<close> with the \<open>PollTable\<close> its callback belongs to and the event
  mask of its \<open>PollTableEntry\<close>.
\<close>

datatype wait_entry = Entry_timeout short "task option" time | Entry_poll nat short

record poll_table =
  m_pollEntryList :: "(nat \<times> nat) list"
  m_eventMask :: short
  m_waitTask :: "task option"

datatype wait_result = INTERRUPTED | TIMEOUT | OK

text \<open>An element of the array of \<open>poll\<close>.\<close>

record pollfd =
  poll_fd :: int
  poll_events :: short
  poll_revents :: short

text \<open>An array of \<open>poll\<close> is the program's, or one that \<open>select\<close> has on its stack.\<close>

datatype place = User addr | Stack nat

text \<open>\<open>struct timespec\<close> is the pair of its seconds and nanoseconds.\<close>

type_synonym timespec = "int \<times> int"

record itimerspec =
  it_interval :: timespec
  it_value :: timespec

text \<open>\<open>SignalHandler\<close> (\<open>model/process.h\<close>); the two functions by their addresses.\<close>

record signal_handler =
  sh_signal :: int
  sh_flags :: uint32
  sh_mask :: "int set"
  sh_handler :: addr
  sh_sigaction :: addr

text \<open>What has gone through the reading end of a pipe.\<close>

datatype traffic = Sent nat "byte list" | Received nat "byte list"

text \<open>Where a suspended call goes on; \<open>Pthread_Cond\<close> says the same of the pthread functions.\<close>

datatype io_frame =
    Read_wait nat addr size_t nat time
  | Recv_wait nat addr size_t nat time
  | Write_return nat
  | Timer_wait nat addr
  | Method_return int nat bool
  | Poll_wait place nat int time nat "(int \<times> nat) list"
  | Advance_wait int
  | Select_return place nat "addr option" "addr option" "addr option"

text \<open>
  \<open>openFiles\<close>, \<open>threads\<close>, \<open>pendingSignals\<close> and \<open>signalHandlers\<close> are those of each process;
  \<open>threadSignals\<close> and \<open>signalMask\<close> those of each thread. \<open>umem\<close>, \<open>itimers\<close>, \<open>poll_array\<close>,
  \<open>fd_pair\<close> and \<open>fd_set\<close> are the memory of the program. \<open>handled\<close> is the sequence of the calls of signal handlers: a handler is code
  of the program, and what it does are calls of its own. \<open>moved\<close> is the history of the bytes that
  the pipes accepted and delivered; no code looks at it.
\<close>

record 'x io =
  files :: "nat \<rightharpoonup> unix_fd"
  usages :: "nat \<rightharpoonup> file_usage"
  entries :: "nat \<rightharpoonup> wait_entry"
  tables :: "nat \<rightharpoonup> poll_table"
  next_new :: nat
  openFiles :: "pid \<Rightarrow> int \<rightharpoonup> nat"
  pid_of :: "task \<Rightarrow> pid"
  threads :: "pid \<Rightarrow> task list"
  pendingSignals :: "pid \<Rightarrow> int set"
  signalHandlers :: "pid \<Rightarrow> signal_handler list"
  threadSignals :: "task \<Rightarrow> int set"
  signalMask :: "task \<Rightarrow> int set"
  handled :: "(task \<times> int) list"
  moved :: "traffic list"
  ioWait :: "task \<Rightarrow> (nat \<times> nat) option"
  pollTable :: "task \<Rightarrow> nat option"
  lastTime :: "task \<Rightarrow> time"
  io_err :: "task \<Rightarrow> errno option"
  umem :: "addr \<Rightarrow> byte"
  itimers :: "addr \<Rightarrow> itimerspec"
  poll_array :: "place \<Rightarrow> pollfd list"
  fd_pair :: "addr \<Rightarrow> int \<times> int"
  fd_set :: "addr \<Rightarrow> int set"
  frames :: "task \<Rightarrow> io_frame list"
  io_tm :: "'x task_manager"

text \<open>
  What the calls run in: the simulator, the delay the delay model reports, \<open>malloc\<close>, and ns-3's
  \<open>Simulator::GetDelayLeft\<close>.
\<close>

record 'x io_env =
  io_sim :: "'x simulator"
  io_delay :: time
  io_malloc :: "size_t \<Rightarrow> byte list option"
  io_delay_left :: "event_id \<Rightarrow> 'x \<Rightarrow> time"

datatype 'p io_result = Done int 'p | Blocked "io_frame list" 'p

definition new_io :: "'x task_manager \<Rightarrow> 'x io" where
  "new_io m = \<lparr>files = Map.empty, usages = Map.empty, entries = Map.empty, tables = Map.empty,
     next_new = 1, openFiles = (\<lambda>p. Map.empty), pid_of = (\<lambda>t. 0), threads = (\<lambda>p. []),
     pendingSignals = (\<lambda>p. {}), signalHandlers = (\<lambda>p. []), threadSignals = (\<lambda>t. {}),
     signalMask = (\<lambda>t. {}), handled = [], moved = [], ioWait = (\<lambda>t. None), pollTable = (\<lambda>t. None),
     lastTime = (\<lambda>t. 0), io_err = (\<lambda>t. None), umem = (\<lambda>a. 0),
     itimers = (\<lambda>a. \<lparr>it_interval = (0, 0), it_value = (0, 0)\<rparr>), poll_array = (\<lambda>a. []), fd_pair = (\<lambda>a. (0, 0)),
     fd_set = (\<lambda>a. {}),
     frames = (\<lambda>t. []), io_tm = m\<rparr>"

section \<open>Small steps on the state\<close>

definition set_err :: "errno \<Rightarrow> task \<Rightarrow> 'x io \<Rightarrow> 'x io" where
  "set_err e t s = s\<lparr>io_err := (io_err s)(t := Some e)\<rparr>"

text \<open>A call that fails sets \<open>errno\<close> and returns -1.\<close>

definition io_fails :: "errno \<Rightarrow> task \<Rightarrow> 'x io \<Rightarrow> 'x io io_result" where
  "io_fails e t s = Done (-1) (set_err e t s)"

definition put_file :: "nat \<Rightarrow> unix_fd \<Rightarrow> 'x io \<Rightarrow> 'x io" where
  "put_file f x s = s\<lparr>files := (files s)(f \<mapsto> x)\<rparr>"

definition put_usage :: "nat \<Rightarrow> file_usage \<Rightarrow> 'x io \<Rightarrow> 'x io" where
  "put_usage u x s = s\<lparr>usages := (usages s)(u \<mapsto> x)\<rparr>"

definition put_entry :: "nat \<Rightarrow> wait_entry \<Rightarrow> 'x io \<Rightarrow> 'x io" where
  "put_entry w x s = s\<lparr>entries := (entries s)(w \<mapsto> x)\<rparr>"

definition put_table :: "nat \<Rightarrow> poll_table \<Rightarrow> 'x io \<Rightarrow> 'x io" where
  "put_table p x s = s\<lparr>tables := (tables s)(p \<mapsto> x)\<rparr>"

definition new_entry :: "wait_entry \<Rightarrow> 'x io \<Rightarrow> nat \<times> 'x io" where
  "new_entry x s = (next_new s, put_entry (next_new s) x (s\<lparr>next_new := next_new s + 1\<rparr>))"

definition free_entry :: "nat option \<Rightarrow> 'x io \<Rightarrow> 'x io" where
  "free_entry w s = (case w of None \<Rightarrow> s | Some a \<Rightarrow> s\<lparr>entries := (entries s)(a := None)\<rparr>)"

definition io_now :: "'x io_env \<Rightarrow> 'x io \<Rightarrow> time" where
  "io_now E s = Now (io_sim E) (sim (io_tm s))"

text \<open>A caller goes on with the value, or leaves its frame below those of the blocked call.\<close>

definition and_then ::
  "io_frame \<Rightarrow> (int \<Rightarrow> 'x io \<Rightarrow> 'x io io_result option) \<Rightarrow> 'x io io_result \<Rightarrow> 'x io io_result option" where
  "and_then fr k r =
     (case r of Done v s \<Rightarrow> k v s | Blocked fs s \<Rightarrow> Some (Blocked (fs @ [fr]) s))"

lemma and_then_simps [simp]:
  "and_then fr k (Done v s) = k v s" "and_then fr k (Blocked fs s) = Some (Blocked (fs @ [fr]) s)"
  by (simp_all add: and_then_def)

section \<open>Signals\<close>

definition SIGKILL :: int where "SIGKILL = 9"
definition SIGPIPE :: int where "SIGPIPE = 13"
definition SIGSTOP :: int where "SIGSTOP = 19"

definition HasPendingSignal :: "task \<Rightarrow> 'x io \<Rightarrow> bool" where
  "HasPendingSignal t s = (pendingSignals s (pid_of s t) \<noteq> {})"

text \<open>\<open>DceManager::Wakeup\<close> and \<open>Wait\<close> hand over to the task manager.\<close>

definition io_Wakeup :: "'x io_env \<Rightarrow> task \<Rightarrow> 'x io \<Rightarrow> 'x io option" where
  "io_Wakeup E t s = do { m \<leftarrow> Wakeup (io_sim E) t (io_tm s); Some (s\<lparr>io_tm := m\<rparr>) }"

definition io_Wait :: "'x io_env \<Rightarrow> 'x io \<Rightarrow> 'x io option" where
  "io_Wait E s = do { m \<leftarrow> Sleep (io_sim E) (io_delay E) (io_tm s); Some (s\<lparr>io_tm := m\<rparr>) }"

definition io_Wait_timeout :: "'x io_env \<Rightarrow> time \<Rightarrow> 'x io \<Rightarrow> 'x io option" where
  "io_Wait_timeout E to s =
     do { m \<leftarrow> Sleep_timeout (io_sim E) (io_delay E) to (io_tm s); Some (s\<lparr>io_tm := m\<rparr>) }"

text \<open>The first blocked thread of the process that does not mask the signal is woken up.\<close>

fun signal_threads :: "'x io_env \<Rightarrow> int \<Rightarrow> task list \<Rightarrow> 'x io \<Rightarrow> 'x io option" where
  "signal_threads E sig [] s = Some s"
| "signal_threads E sig (t # ts) s =
     (if sig \<in> signalMask s t then signal_threads E sig ts s
      else do { k \<leftarrow> tasks (io_tm s) t;
                if IsBlocked k then io_Wakeup E t s else signal_threads E sig ts s })"

definition UtilsSendSignal :: "'x io_env \<Rightarrow> pid \<Rightarrow> int \<Rightarrow> 'x io \<Rightarrow> 'x io option" where
  "UtilsSendSignal E p sig s =
     signal_threads E sig (threads s p)
       (s\<lparr>pendingSignals := (pendingSignals s)(p := insert sig (pendingSignals s p))\<rparr>)"

definition deliver_thread :: "task \<Rightarrow> int \<Rightarrow> 'x io \<Rightarrow> 'x io" where
  "deliver_thread t sig s =
     (if sig \<in> threadSignals s t
      then s\<lparr>handled := handled s @ [(t, sig)],
             threadSignals := (threadSignals s)(t := threadSignals s t - {sig})\<rparr>
      else s)"

definition deliver_process :: "task \<Rightarrow> int \<Rightarrow> 'x io \<Rightarrow> 'x io" where
  "deliver_process t sig s =
     (let p = pid_of s t in
      if sig \<in> pendingSignals s p
      then s\<lparr>handled := handled s @ [(t, sig)],
             pendingSignals := (pendingSignals s)(p := pendingSignals s p - {sig})\<rparr>
      else s)"

fun deliver_signals :: "task \<Rightarrow> int list \<Rightarrow> 'x io \<Rightarrow> 'x io" where
  "deliver_signals t [] s = s"
| "deliver_signals t (h # hs) s =
     deliver_signals t hs
       (if h \<in> signalMask s t \<and> h \<noteq> SIGKILL \<and> h \<noteq> SIGSTOP then s
        else deliver_process t h (deliver_thread t h s))"

definition UtilsDoSignal :: "task \<Rightarrow> 'x io \<Rightarrow> 'x io" where
  "UtilsDoSignal t s = deliver_signals t (map sh_signal (signalHandlers s (pid_of s t))) s"

section \<open>Wait queues\<close>

definition POLLIN :: short where "POLLIN = 1"
definition POLLPRI :: short where "POLLPRI = 2"
definition POLLOUT :: short where "POLLOUT = 4"
definition POLLERR :: short where "POLLERR = 8"
definition POLLHUP :: short where "POLLHUP = 16"

text \<open>
  \<open>WaitPoint::WakeUpCallback\<close>: the waiting thread, when there is one, is blocked or has been woken up
  and does not run yet.
\<close>

definition WakeUpCallback :: "'x io_env \<Rightarrow> task option \<Rightarrow> 'x io \<Rightarrow> 'x io option" where
  "WakeUpCallback E w s =
     (case w of
        None \<Rightarrow> Some s
      | Some t \<Rightarrow>
          do { k \<leftarrow> tasks (io_tm s) t;
               if IsBlocked k then io_Wakeup E t s else if IsActive k then Some s else None })"

text \<open>\<open>WakeUp\<close> of the two kinds of entries, for the events \<open>key\<close>.\<close>

definition entry_WakeUp :: "'x io_env \<Rightarrow> short \<Rightarrow> nat \<Rightarrow> 'x io \<Rightarrow> 'x io option" where
  "entry_WakeUp E key w s =
     do { x \<leftarrow> entries s w;
          case x of
            Entry_timeout em waiter deadline \<Rightarrow>
              if key AND em \<noteq> 0 then WakeUpCallback E waiter s else Some s
          | Entry_poll p em \<Rightarrow>
              if key AND em \<noteq> 0 then do { y \<leftarrow> tables s p; WakeUpCallback E (m_waitTask y) s }
              else Some s }"

fun wake_entries :: "'x io_env \<Rightarrow> short \<Rightarrow> nat list \<Rightarrow> 'x io \<Rightarrow> 'x io option" where
  "wake_entries E key [] s = Some s"
| "wake_entries E key (w # ws) s = do { s' \<leftarrow> entry_WakeUp E key w s; wake_entries E key ws s' }"

definition WakeWaiters :: "'x io_env \<Rightarrow> short \<Rightarrow> nat \<Rightarrow> 'x io \<Rightarrow> 'x io option" where
  "WakeWaiters E key f s = do { x \<leftarrow> files s f; wake_entries E key (m_waitQueueList x) s }"

definition AddWaitQueue :: "nat \<Rightarrow> nat \<Rightarrow> bool \<Rightarrow> task \<Rightarrow> 'x io \<Rightarrow> 'x io option" where
  "AddWaitQueue f w register t s =
     do { x \<leftarrow> files s f;
          let s1 = put_file f (x\<lparr>m_waitQueueList := m_waitQueueList x @ [w]\<rparr>) s;
          Some (if register then s1\<lparr>ioWait := (ioWait s1)(t := Some (f, w))\<rparr> else s1) }"

definition RemoveWaitQueue :: "nat \<Rightarrow> nat \<Rightarrow> bool \<Rightarrow> task \<Rightarrow> 'x io \<Rightarrow> 'x io option" where
  "RemoveWaitQueue f w unregister t s =
     do { x \<leftarrow> files s f;
          let s1 = put_file f (x\<lparr>m_waitQueueList := filter (\<lambda>v. v \<noteq> w) (m_waitQueueList x)\<rparr>) s;
          Some (if unregister then s1\<lparr>ioWait := (ioWait s1)(t := None)\<rparr> else s1) }"

text \<open>The constructor of \<open>WaitQueueEntryTimeout\<close>.\<close>

definition WaitQueueEntryTimeout :: "'x io_env \<Rightarrow> short \<Rightarrow> time \<Rightarrow> 'x io \<Rightarrow> nat \<times> 'x io" where
  "WaitQueueEntryTimeout E em to s =
     new_entry (Entry_timeout em None (if to = 0 then to else io_now E s + to)) s"

text \<open>
  \<open>WaitQueueEntryTimeout::Wait\<close> up to the call of the task manager: the time left when the thread
  sleeps, or \<^term>\<open>None\<close> when the time is over already. ns-3's \<open>Time::IsNegative\<close> holds of zero too,
  so that an entry without a deadline waits without a timer.
\<close>

definition entry_Wait :: "'x io_env \<Rightarrow> nat \<Rightarrow> task \<Rightarrow> 'x io \<Rightarrow> (time option \<times> 'x io) option" where
  "entry_Wait E w t s =
     do { x \<leftarrow> entries s w;
          case x of
            Entry_poll p em \<Rightarrow> None
          | Entry_timeout em waiter deadline \<Rightarrow>
              let rest = (if deadline \<le> 0 then 0 else deadline - io_now E s) in
              if deadline > 0 \<and> rest \<le> 0 then Some (None, s)
              else do { s' \<leftarrow> io_Wait_timeout E rest (put_entry w (Entry_timeout em (Some t) deadline) s);
                        Some (Some rest, s') } }"

text \<open>The result of \<open>WaitPoint::Wait\<close> once its thread runs again.\<close>

definition wait_outcome :: "time \<Rightarrow> task \<Rightarrow> 'x io \<Rightarrow> wait_result" where
  "wait_outcome to t s =
     (if HasPendingSignal t s then INTERRUPTED
      else if to \<noteq> 0 \<and> time_left (io_tm s) = 0 then TIMEOUT else OK)"

definition entry_woken :: "nat \<Rightarrow> time \<Rightarrow> task \<Rightarrow> 'x io \<Rightarrow> (wait_result \<times> 'x io) option" where
  "entry_woken w to t s =
     do { x \<leftarrow> entries s w;
          case x of
            Entry_poll p em \<Rightarrow> None
          | Entry_timeout em waiter deadline \<Rightarrow>
              Some (wait_outcome to t s, put_entry w (Entry_timeout em None deadline) s) }"

section \<open>Poll tables\<close>

definition PollTable :: "'x io \<Rightarrow> nat \<times> 'x io" where
  "PollTable s =
     (next_new s, put_table (next_new s) \<lparr>m_pollEntryList = [], m_eventMask = 0, m_waitTask = None\<rparr>
        (s\<lparr>next_new := next_new s + 1\<rparr>))"

definition SetEventMask :: "nat \<Rightarrow> short \<Rightarrow> 'x io \<Rightarrow> 'x io option" where
  "SetEventMask p e s = do { x \<leftarrow> tables s p; Some (put_table p (x\<lparr>m_eventMask := e\<rparr>) s) }"

definition PollWait :: "nat \<Rightarrow> nat \<Rightarrow> task \<Rightarrow> 'x io \<Rightarrow> 'x io option" where
  "PollWait p f t s =
     do { x \<leftarrow> tables s p;
          let (w, s1) = new_entry (Entry_poll p (m_eventMask x)) s;
          AddWaitQueue f w False t
            (put_table p (x\<lparr>m_pollEntryList := m_pollEntryList x @ [(f, w)]\<rparr>) s1) }"

fun free_waits :: "(nat \<times> nat) list \<Rightarrow> task \<Rightarrow> 'x io \<Rightarrow> 'x io option" where
  "free_waits [] t s = Some s"
| "free_waits ((f, w) # es) t s = do { s' \<leftarrow> RemoveWaitQueue f w False t s; free_waits es t s' }"

definition FreeWait :: "nat \<Rightarrow> task \<Rightarrow> 'x io \<Rightarrow> 'x io option" where
  "FreeWait p t s = do { x \<leftarrow> tables s p; free_waits (m_pollEntryList x) t s }"

text \<open>The destructor deletes the entries and, with each of them, its \<open>WaitQueueEntryPoll\<close>.\<close>

definition delete_table :: "nat \<Rightarrow> 'x io \<Rightarrow> 'x io option" where
  "delete_table p s =
     do { x \<leftarrow> tables s p;
          let s1 = fold (\<lambda>(f, w). free_entry (Some w)) (m_pollEntryList x) s;
          Some (s1\<lparr>tables := (tables s1)(p := None)\<rparr>) }"

end
