(* ===== verification/Pipe_Fd.thy ===== *)
theory Pipe_Fd
  imports Io_State
begin

text \<open>
  Pipes, \<open>model/pipe-fd.cc\<close>. Two \<open>PipeFd\<close>s point to each other; the bytes are in the buffer of the
  reading end, and a writer that has to wait does so in the wait queue of the reading end.
\<close>

section \<open>The operations of a descriptor\<close>

text \<open>
  The virtual methods of \<open>UnixFd\<close> that a program can call through a descriptor, with the arguments
  that the modelled classes look at.
\<close>

datatype fd_op =
    Op_Write addr size_t | Op_Read addr size_t
  | Op_Recvmsg | Op_Sendmsg | Op_Setsockopt | Op_Getsockopt | Op_Getsockname | Op_Getpeername
  | Op_Ioctl | Op_Bind | Op_Connect | Op_Listen | Op_Shutdown | Op_Accept
  | Op_Mmap | Op_Lseek | Op_Fxstat | Op_Fxstat64 | Op_Ftruncate | Op_Isatty | Op_Ttyname
  | Op_Fcntl int uint64 | Op_Settime int addr "addr option" | Op_Gettime addr

definition F_DUPFD :: int where "F_DUPFD = 0"
definition F_GETFD :: int where "F_GETFD = 1"
definition F_SETFD :: int where "F_SETFD = 2"
definition F_GETFL :: int where "F_GETFL = 3"
definition F_SETFL :: int where "F_SETFL = 4"

definition O_NONBLOCK :: uint32 where "O_NONBLOCK = 0x800"

section \<open>Making and reaching the ends\<close>

definition PIPE_CAPACITY :: size_t where "PIPE_CAPACITY = 65536"

definition pipe_at :: "'x io \<Rightarrow> nat \<Rightarrow> pipe_end option" where
  "pipe_at s f =
     do { x \<leftarrow> files s f; case m_body x of Pipe_end p \<Rightarrow> Some p | Timer_end y \<Rightarrow> None }"

definition put_pipe :: "nat \<Rightarrow> pipe_end \<Rightarrow> 'x io \<Rightarrow> 'x io option" where
  "put_pipe f p s = do { x \<leftarrow> files s f; Some (put_file f (x\<lparr>m_body := Pipe_end p\<rparr>) s) }"

definition new_file :: "fd_body \<Rightarrow> 'x io \<Rightarrow> nat \<times> 'x io" where
  "new_file b s =
     (next_new s,
      put_file (next_new s)
        \<lparr>m_fdCount = 0, m_refs = 1, m_waitQueueList = [], m_fdFlags = 0, m_statusFlags = 0, m_body = b\<rparr>
        (s\<lparr>next_new := next_new s + 1\<rparr>))"

text \<open>The two constructors: a reading end, and a writing end for the reading end \<open>peer\<close>.\<close>

definition PipeFd_reader :: "'x io \<Rightarrow> nat \<times> 'x io" where
  "PipeFd_reader s =
     new_file (Pipe_end \<lparr>m_peer = None, m_readSide = True, pipe_flags = 0,
                         m_buf = FifoBuffer PIPE_CAPACITY\<rparr>) s"

definition PipeFd_writer :: "nat \<Rightarrow> 'x io \<Rightarrow> (nat \<times> 'x io) option" where
  "PipeFd_writer peer s =
     (let (w, s1) = new_file (Pipe_end \<lparr>m_peer = Some peer, m_readSide = False, pipe_flags = 0,
                                        m_buf = FifoBuffer 0\<rparr>) s in
      do { p \<leftarrow> pipe_at s1 peer; s2 \<leftarrow> put_pipe peer (p\<lparr>m_peer := Some w\<rparr>) s1; Some (w, s2) })"

section \<open>Close\<close>

text \<open>\<open>Close\<close> of one end closes the other, which by then has no peer.\<close>

partial_function (option) pipe_Close :: "'x io_env \<Rightarrow> nat \<Rightarrow> task \<Rightarrow> 'x io \<Rightarrow> (int \<times> 'x io) option" where
  "pipe_Close E f t s =
     do { p \<leftarrow> pipe_at s f;
          case m_peer p of
            None \<Rightarrow> Some (-1, set_err EBADF t s)
          | Some q \<Rightarrow>
              do { s1 \<leftarrow> put_pipe f (p\<lparr>m_peer := None\<rparr>) s;
                   (r, s2) \<leftarrow> pipe_Close E q t s1;
                   s3 \<leftarrow> WakeWaiters E POLLHUP f s2;
                   Some (0, s3) } }"

section \<open>Write\<close>

definition note_moved :: "traffic \<Rightarrow> 'x io \<Rightarrow> 'x io" where
  "note_moved x s = s\<lparr>moved := moved s @ [x]\<rparr>"

text \<open>The bytes of the program's buffer; no buffer has \<open>2 ^ 62\<close> bytes.\<close>

definition user_bytes :: "addr \<Rightarrow> size_t \<Rightarrow> 'x io \<Rightarrow> byte list option" where
  "user_bytes buf n s =
     (if unat n < 2 ^ 62 then Some (map (umem s) [buf ..< buf + unat n]) else None)"

definition wait_entry_for :: "'x io_env \<Rightarrow> short \<Rightarrow> nat option \<Rightarrow> 'x io \<Rightarrow> nat \<times> 'x io" where
  "wait_entry_for E em wq s =
     (case wq of Some w \<Rightarrow> (w, s) | None \<Rightarrow> WaitQueueEntryTimeout E em 0 s)"

text \<open>
  The loop of \<open>DoRecvPacket\<close>, up to its return or to the sleep of its thread; \<open>wq\<close> is the wait queue
  entry, once there is one.
\<close>

definition recv_loop ::
  "'x io_env \<Rightarrow> nat \<Rightarrow> addr \<Rightarrow> size_t \<Rightarrow> nat option \<Rightarrow> task \<Rightarrow> 'x io \<Rightarrow> 'x io io_result option" where
  "recv_loop E q buf len wq t s =
     do { p \<leftarrow> pipe_at s q;
          bs \<leftarrow> user_bytes buf len s;
          (r, b) \<leftarrow> fifo_Write (io_malloc E) (m_buf p) bs len;
          s1 \<leftarrow> put_pipe q (p\<lparr>m_buf := b\<rparr>) s;
          if r > 0 then
            do { s2 \<leftarrow> WakeWaiters E POLLIN q (note_moved (Sent q (take (nat r) bs)) s1);
                 Some (Done r (free_entry wq s2)) }
          else
            do { w \<leftarrow> m_peer p;
                 x \<leftarrow> pipe_at s1 w;
                 if pipe_flags x AND O_NONBLOCK \<noteq> 0 then Some (io_fails EAGAIN t (free_entry wq s1))
                 else
                   let (e, s2) = wait_entry_for E (POLLOUT OR POLLHUP) wq s1 in
                   do { s3 \<leftarrow> AddWaitQueue q e True t s2;
                        (to, s4) \<leftarrow> entry_Wait E e t s3;
                        case to of
                          Some d \<Rightarrow> Some (Blocked [Recv_wait q buf len e d] s4)
                        | None \<Rightarrow>
                            do { s5 \<leftarrow> RemoveWaitQueue q e True t s4;
                                 Some (io_fails EAGAIN t (free_entry (Some e) s5)) } } } }"

text \<open>The thread runs again.\<close>

definition recv_woken ::
  "'x io_env \<Rightarrow> nat \<Rightarrow> addr \<Rightarrow> size_t \<Rightarrow> nat \<Rightarrow> time \<Rightarrow> task \<Rightarrow> 'x io \<Rightarrow> 'x io io_result option" where
  "recv_woken E q buf len w to t s =
     do { (res, s1) \<leftarrow> entry_woken w to t s;
          s2 \<leftarrow> RemoveWaitQueue q w True t s1;
          case res of
            OK \<Rightarrow> recv_loop E q buf len (Some w) t s2
          | INTERRUPTED \<Rightarrow> Some (io_fails EINTR t (free_entry (Some w) (UtilsDoSignal t s2)))
          | TIMEOUT \<Rightarrow> Some (io_fails EAGAIN t (free_entry (Some w) s2)) }"

text \<open>
  What \<open>Write\<close> does after \<open>DoRecvPacket\<close>: it keeps the result in a \<open>size_t\<close>, so that its test \<open>r > 0\<close>
  holds of an error too.
\<close>

definition write_return :: "'x io_env \<Rightarrow> nat \<Rightarrow> int \<Rightarrow> 'x io \<Rightarrow> 'x io io_result option" where
  "write_return E f v s =
     (let r = (word_of_int v :: size_t) in
      if r > 0 then do { s1 \<leftarrow> WakeWaiters E POLLOUT f s; Some (Done (sint r) s1) }
      else Some (Done (sint r) s))"

definition pipe_Write ::
  "'x io_env \<Rightarrow> nat \<Rightarrow> addr \<Rightarrow> size_t \<Rightarrow> task \<Rightarrow> 'x io \<Rightarrow> 'x io io_result option" where
  "pipe_Write E f buf count t s =
     do { p \<leftarrow> pipe_at s f;
          case m_peer p of
            None \<Rightarrow>
              do { s1 \<leftarrow> UtilsSendSignal E (pid_of s t) SIGPIPE s;
                   Some (io_fails EPIPE t (UtilsDoSignal t s1)) }
          | Some q \<Rightarrow>
              if m_readSide p then Some (io_fails EBADF t s)
              else do { r \<leftarrow> recv_loop E q buf count None t s;
                        and_then (Write_return f) (write_return E f) r } }"

section \<open>Read\<close>

definition store_bytes :: "addr \<Rightarrow> byte list \<Rightarrow> 'x io \<Rightarrow> 'x io" where
  "store_bytes buf bs s =
     s\<lparr>umem := (\<lambda>a. if buf \<le> a \<and> a < buf + length bs then bs ! (a - buf) else umem s a)\<rparr>"

definition read_loop ::
  "'x io_env \<Rightarrow> nat \<Rightarrow> addr \<Rightarrow> size_t \<Rightarrow> nat option \<Rightarrow> task \<Rightarrow> 'x io \<Rightarrow> 'x io io_result option" where
  "read_loop E f buf count wq t s =
     do { p \<leftarrow> pipe_at s f;
          (r, bs, b) \<leftarrow> fifo_Read (m_buf p) count;
          s1 \<leftarrow> put_pipe f (p\<lparr>m_buf := b\<rparr>) (store_bytes buf bs s);
          if r > 0 then
            do { let s1' = note_moved (Received f bs) s1;
                 s2 \<leftarrow> (case m_peer p of None \<Rightarrow> Some s1' | Some q \<Rightarrow> WakeWaiters E POLLOUT q s1');
                 s3 \<leftarrow> WakeWaiters E POLLOUT f s2;
                 Some (Done r (free_entry wq s3)) }
          else if m_peer p = None then Some (io_fails EPIPE t (free_entry wq s1))
          else if pipe_flags p AND O_NONBLOCK \<noteq> 0 then Some (io_fails EAGAIN t (free_entry wq s1))
          else
            let (e, s2) = wait_entry_for E (POLLIN OR POLLHUP) wq s1 in
            do { s3 \<leftarrow> AddWaitQueue f e True t s2;
                 (to, s4) \<leftarrow> entry_Wait E e t s3;
                 case to of
                   Some d \<Rightarrow> Some (Blocked [Read_wait f buf count e d] s4)
                 | None \<Rightarrow>
                     do { s5 \<leftarrow> RemoveWaitQueue f e True t s4;
                          Some (io_fails EAGAIN t (free_entry (Some e) s5)) } } }"

definition read_woken ::
  "'x io_env \<Rightarrow> nat \<Rightarrow> addr \<Rightarrow> size_t \<Rightarrow> nat \<Rightarrow> time \<Rightarrow> task \<Rightarrow> 'x io \<Rightarrow> 'x io io_result option" where
  "read_woken E f buf count w to t s =
     do { (res, s1) \<leftarrow> entry_woken w to t s;
          s2 \<leftarrow> RemoveWaitQueue f w True t s1;
          case res of
            OK \<Rightarrow> read_loop E f buf count (Some w) t s2
          | INTERRUPTED \<Rightarrow> Some (io_fails EINTR t (free_entry (Some w) (UtilsDoSignal t s2)))
          | TIMEOUT \<Rightarrow> Some (io_fails EAGAIN t (free_entry (Some w) s2)) }"

definition pipe_Read ::
  "'x io_env \<Rightarrow> nat \<Rightarrow> addr \<Rightarrow> size_t \<Rightarrow> task \<Rightarrow> 'x io \<Rightarrow> 'x io io_result option" where
  "pipe_Read E f buf count t s =
     do { p \<leftarrow> pipe_at s f;
          if \<not> m_readSide p then Some (io_fails EBADF t s) else read_loop E f buf count None t s }"

section \<open>The other operations\<close>

text \<open>The operations of a socket: \<open>Recvmsg\<close> to \<open>Accept\<close>, with \<open>Ioctl\<close> among them.\<close>

fun pipe_socket_op :: "fd_op \<Rightarrow> task \<Rightarrow> 'x io \<Rightarrow> 'x io io_result option" where
  "pipe_socket_op Op_Recvmsg t s = Some (io_fails ENOTSOCK t s)"
| "pipe_socket_op Op_Sendmsg t s = Some (io_fails ENOTSOCK t s)"
| "pipe_socket_op Op_Setsockopt t s = Some (io_fails ENOTSOCK t s)"
| "pipe_socket_op Op_Getsockopt t s = Some (io_fails ENOTSOCK t s)"
| "pipe_socket_op Op_Getsockname t s = Some (io_fails ENOTSOCK t s)"
| "pipe_socket_op Op_Getpeername t s = Some (io_fails ENOTSOCK t s)"
| "pipe_socket_op Op_Ioctl t s = Some (io_fails EINVAL t s)"
| "pipe_socket_op Op_Bind t s = Some (io_fails ENOTSOCK t s)"
| "pipe_socket_op Op_Connect t s = Some (io_fails ENOTSOCK t s)"
| "pipe_socket_op Op_Listen t s = Some (io_fails ENOTSOCK t s)"
| "pipe_socket_op Op_Shutdown t s = Some (io_fails ENOTSOCK t s)"
| "pipe_socket_op Op_Accept t s = Some (io_fails ENOTSOCK t s)"
| "pipe_socket_op op t s = None"

text \<open>The operations of a file or a timer; a null pointer is the value 0.\<close>

fun pipe_file_op :: "fd_op \<Rightarrow> task \<Rightarrow> 'x io \<Rightarrow> 'x io io_result option" where
  "pipe_file_op Op_Mmap t s = Some (Done 0 (set_err EBADF t s))"
| "pipe_file_op Op_Lseek t s = Some (io_fails EBADF t s)"
| "pipe_file_op Op_Fxstat t s = Some (io_fails EBADF t s)"
| "pipe_file_op Op_Fxstat64 t s = Some (io_fails EBADF t s)"
| "pipe_file_op op t s = None"

fun pipe_timer_op :: "fd_op \<Rightarrow> task \<Rightarrow> 'x io \<Rightarrow> 'x io io_result option" where
  "pipe_timer_op (Op_Settime flags new_value old_value) t s = Some (io_fails EINVAL t s)"
| "pipe_timer_op (Op_Gettime cur_value) t s = Some (io_fails EINVAL t s)"
| "pipe_timer_op Op_Ftruncate t s = Some (io_fails EINVAL t s)"
| "pipe_timer_op op t s = None"

text \<open>\<open>NS_FATAL_ERROR\<close> ends the simulation: any command but these two does.\<close>

definition pipe_Fcntl :: "nat \<Rightarrow> int \<Rightarrow> uint64 \<Rightarrow> 'x io \<Rightarrow> 'x io io_result option" where
  "pipe_Fcntl f cmd arg s =
     do { p \<leftarrow> pipe_at s f;
          if cmd = F_GETFL then Some (Done (sint (pipe_flags p)) s)
          else if cmd = F_SETFL then
            do { s1 \<leftarrow> put_pipe f (p\<lparr>pipe_flags := ucast arg\<rparr>) s; Some (Done 0 s1) }
          else None }"

definition pipe_HangupReceived :: "pipe_end \<Rightarrow> bool" where
  "pipe_HangupReceived p = (m_peer p = None)"

definition pipe_Isatty :: int where "pipe_Isatty = 0"

definition unix_Ttyname :: int where "unix_Ttyname = 0"

text \<open>\<open>Poll\<close>, which enters the wait queue of the descriptor when it is given a table.\<close>

definition pipe_events :: "nat \<Rightarrow> 'x io \<Rightarrow> short option" where
  "pipe_events f s =
     do { p \<leftarrow> pipe_at s f;
          e \<leftarrow> (if m_readSide p then Some (if fifo_GetSize (m_buf p) > 0 then POLLIN else 0)
                else case m_peer p of
                  None \<Rightarrow> Some 0
                | Some q \<Rightarrow>
                    do { r \<leftarrow> pipe_at s q; Some (if fifo_GetSpace (m_buf r) > 0 then POLLOUT else 0) });
          Some (if m_peer p = None then e OR POLLHUP else e) }"

definition pipe_Poll :: "nat \<Rightarrow> nat option \<Rightarrow> task \<Rightarrow> 'x io \<Rightarrow> (short \<times> 'x io) option" where
  "pipe_Poll f ptable t s =
     do { e \<leftarrow> pipe_events f s;
          s1 \<leftarrow> (case ptable of None \<Rightarrow> Some s | Some p \<Rightarrow> PollWait p f t s);
          Some (e, s1) }"

fun pipe_op :: "'x io_env \<Rightarrow> fd_op \<Rightarrow> nat \<Rightarrow> task \<Rightarrow> 'x io \<Rightarrow> 'x io io_result option" where
  "pipe_op E (Op_Write buf count) f t s = pipe_Write E f buf count t s"
| "pipe_op E (Op_Read buf count) f t s = pipe_Read E f buf count t s"
| "pipe_op E (Op_Fcntl cmd arg) f t s = pipe_Fcntl f cmd arg s"
| "pipe_op E Op_Isatty f t s = Some (Done pipe_Isatty s)"
| "pipe_op E Op_Ttyname f t s = Some (Done unix_Ttyname s)"
| "pipe_op E op f t s =
     (case pipe_socket_op op t s of
        Some r \<Rightarrow> Some r
      | None \<Rightarrow> (case pipe_file_op op t s of Some r \<Rightarrow> Some r | None \<Rightarrow> pipe_timer_op op t s))"

end
