(* ===== verification/Timer_Fd.thy ===== *)
theory Timer_Fd
  imports Pipe_Fd "HOL-Library.Signed_Division"
begin

text \<open>
  Timer descriptors, \<open>model/unix-timer-fd.cc\<close>, with the conversions of \<open>model/utils.cc\<close> between the
  times of the program and those of the simulator. The simulator counts nanoseconds; its event for
  the timer of the descriptor \<open>f\<close> is \<^term>\<open>Do_other f\<close>.
\<close>

section \<open>Times\<close>

text \<open>C's division cuts towards zero.\<close>

definition UtilsTimeToTimeval :: "time \<Rightarrow> int \<times> int" where
  "UtilsTimeToTimeval a = (let m = a sdiv 1000 in (m sdiv 1000000, m smod 1000000))"

definition UtilsTimeToTimespec :: "time \<Rightarrow> timespec" where
  "UtilsTimeToTimespec a = (a sdiv 1000000000, a smod 1000000000)"

definition UtilsTimevalToTime :: "(int \<times> int) option \<Rightarrow> time" where
  "UtilsTimevalToTime tv =
     (case tv of None \<Rightarrow> 0 | Some (sec, usec) \<Rightarrow> sec * 1000000000 + usec * 1000)"

definition UtilsTimespecToTime :: "timespec \<Rightarrow> time" where
  "UtilsTimespecToTime tm = fst tm * 1000000000 + snd tm"

text \<open>\<open>base\<close> is the value of \<open>SimulationTimeBase\<close>, in seconds.\<close>

definition UtilsSimulationTimeToTime :: "nat \<Rightarrow> time \<Rightarrow> time" where
  "UtilsSimulationTimeToTime base a = a + int base * 1000000000"

definition UtilsTimeToSimulationTime :: "nat \<Rightarrow> time \<Rightarrow> time" where
  "UtilsTimeToSimulationTime base a = a - int base * 1000000000"

lemma timespec_roundtrip: "UtilsTimespecToTime (UtilsTimeToTimespec a) = a"
  by (simp add: UtilsTimespecToTime_def UtilsTimeToTimespec_def sdiv_mult_smod_eq)

section \<open>The timer\<close>

definition UnixTimerFd :: "'x io \<Rightarrow> nat \<times> 'x io" where
  "UnixTimerFd s =
     new_file (Timer_end \<lparr>m_period = 0, m_skipped = 0, m_timer = None, m_waiter = None\<rparr>) s"

definition timer_at :: "'x io \<Rightarrow> nat \<Rightarrow> timer_end option" where
  "timer_at s f =
     do { x \<leftarrow> files s f; case m_body x of Timer_end y \<Rightarrow> Some y | Pipe_end p \<Rightarrow> None }"

definition put_timer :: "nat \<Rightarrow> timer_end \<Rightarrow> 'x io \<Rightarrow> 'x io option" where
  "put_timer f y s = do { x \<leftarrow> files s f; Some (put_file f (x\<lparr>m_body := Timer_end y\<rparr>) s) }"

definition on_sim :: "('x \<Rightarrow> 'x) \<Rightarrow> 'x io \<Rightarrow> 'x io" where
  "on_sim g s = s\<lparr>io_tm := (io_tm s)\<lparr>sim := g (sim (io_tm s))\<rparr>\<rparr>"

definition timer_Cancel :: "'x io_env \<Rightarrow> timer_end \<Rightarrow> 'x io \<Rightarrow> 'x io" where
  "timer_Cancel E y s =
     (case m_timer y of None \<Rightarrow> s | Some i \<Rightarrow> on_sim (Cancel (io_sim E) i) s)"

definition wake_waiter :: "'x io_env \<Rightarrow> timer_end \<Rightarrow> 'x io \<Rightarrow> 'x io option" where
  "wake_waiter E y s = (case m_waiter y of None \<Rightarrow> Some s | Some t \<Rightarrow> io_Wakeup E t s)"

definition timer_Close :: "'x io_env \<Rightarrow> nat \<Rightarrow> 'x io \<Rightarrow> (int \<times> 'x io) option" where
  "timer_Close E f s =
     do { y \<leftarrow> timer_at s f; s1 \<leftarrow> wake_waiter E y (timer_Cancel E y s); Some (0, s1) }"

text \<open>The counter is written to the program's memory, its lowest byte first.\<close>

definition counter_bytes :: "uint64 \<Rightarrow> byte list" where
  "counter_bytes n = map (\<lambda>i. ucast (drop_bit (8 * i) n)) [0 ..< 8]"

text \<open>The program gets the number of expirations; the call returns 0.\<close>

definition timer_taken :: "nat \<Rightarrow> addr \<Rightarrow> timer_end \<Rightarrow> 'x io \<Rightarrow> 'x io io_result option" where
  "timer_taken f buf y s =
     do { s1 \<leftarrow> put_timer f (y\<lparr>m_skipped := 0\<rparr>) (store_bytes buf (counter_bytes (m_skipped y)) s);
          Some (Done 0 s1) }"

definition timer_Read ::
  "'x io_env \<Rightarrow> nat \<Rightarrow> addr \<Rightarrow> size_t \<Rightarrow> task \<Rightarrow> 'x io \<Rightarrow> 'x io io_result option" where
  "timer_Read E f buf count t s =
     do { y \<leftarrow> timer_at s f;
          if count < 8 then Some (io_fails EINVAL t s)
          else if m_skipped y > 0 then timer_taken f buf y s
          else
            do { s1 \<leftarrow> put_timer f (y\<lparr>m_waiter := Some t\<rparr>) s;
                 s2 \<leftarrow> io_Wait E s1;
                 Some (Blocked [Timer_wait f buf] s2) } }"

definition timer_woken :: "nat \<Rightarrow> addr \<Rightarrow> 'x io \<Rightarrow> 'x io io_result option" where
  "timer_woken f buf s = do { y \<leftarrow> timer_at s f; timer_taken f buf (y\<lparr>m_waiter := None\<rparr>) s }"

text \<open>\<open>TimerExpired\<close> is the event; a periodic timer schedules it again.\<close>

definition schedule_timer :: "'x io_env \<Rightarrow> time \<Rightarrow> nat \<Rightarrow> 'x io \<Rightarrow> event_id \<times> 'x io" where
  "schedule_timer E d f s =
     (let (i, x) = Sched (io_sim E) d (Do_other f) (sim (io_tm s)) in (i, on_sim (\<lambda>_. x) s))"

definition TimerExpired :: "'x io_env \<Rightarrow> nat \<Rightarrow> 'x io \<Rightarrow> 'x io option" where
  "TimerExpired E f s =
     do { y \<leftarrow> timer_at s f;
          let (y1, s1) = (if m_period y \<noteq> 0
                          then let (i, s') = schedule_timer E (m_period y) f s
                               in (y\<lparr>m_timer := Some i\<rparr>, s')
                          else (y, s)) in
          do { s2 \<leftarrow> put_timer f (y1\<lparr>m_skipped := m_skipped y1 + 1\<rparr>) s1;
               wake_waiter E y1 s2 } }"

text \<open>\<open>SettimeMain\<close> runs on the main fiber.\<close>

definition SettimeMain :: "'x io_env \<Rightarrow> time \<Rightarrow> nat \<Rightarrow> 'x io \<Rightarrow> 'x io option" where
  "SettimeMain E d f s =
     do { y \<leftarrow> timer_at s f;
          let (i, s1) = schedule_timer E d f s in
          put_timer f (y\<lparr>m_timer := Some i\<rparr>) s1 }"

definition timer_Gettime :: "'x io_env \<Rightarrow> nat \<Rightarrow> addr \<Rightarrow> 'x io \<Rightarrow> (int \<times> 'x io) option" where
  "timer_Gettime E f cur_value s =
     do { y \<leftarrow> timer_at s f;
          let x = sim (io_tm s);
              left = (case m_timer y of
                        None \<Rightarrow> (0, 0)
                      | Some i \<Rightarrow> if IsPending (io_sim E) i x
                                  then UtilsTimeToTimespec (io_delay_left E i x) else (0, 0)) in
          Some (0, s\<lparr>itimers := (itimers s)(cur_value :=
                     \<lparr>it_interval = UtilsTimeToTimespec (m_period y), it_value = left\<rparr>)\<rparr>) }"

text \<open>The old value is stored first, in the new one's place when the program passes one address.\<close>

definition timer_Settime ::
  "'x io_env \<Rightarrow> nat \<Rightarrow> int \<Rightarrow> addr \<Rightarrow> addr option \<Rightarrow> 'x io \<Rightarrow> 'x io io_result option" where
  "timer_Settime E f flags new_value old_value s =
     (if flags \<noteq> 0 then None
      else
        do { s1 \<leftarrow> (case old_value of
                      None \<Rightarrow> Some s
                    | Some a \<Rightarrow> do { (r, s') \<leftarrow> timer_Gettime E f a s; Some s' });
             y \<leftarrow> timer_at s1 f;
             let new = itimers s1 new_value;
                 s2 = timer_Cancel E y s1;
                 initial = UtilsTimespecToTime (it_value new) in
             do { s3 \<leftarrow> put_timer f (y\<lparr>m_skipped := 0, m_period := UtilsTimespecToTime (it_interval new)\<rparr>) s2;
                  s4 \<leftarrow> (if initial \<noteq> 0
                        then SettimeMain E initial f (s3\<lparr>io_tm := ExecOnMain (\<lambda>m. m) (io_tm s3)\<rparr>)
                        else Some s3);
                  Some (Done 0 s4) } })"

section \<open>The other operations\<close>

definition timer_Write :: "task \<Rightarrow> 'x io \<Rightarrow> 'x io io_result" where
  "timer_Write t s = io_fails EINVAL t s"

fun timer_socket_op :: "fd_op \<Rightarrow> task \<Rightarrow> 'x io \<Rightarrow> 'x io io_result option" where
  "timer_socket_op Op_Recvmsg t s = Some (io_fails ENOTSOCK t s)"
| "timer_socket_op Op_Sendmsg t s = Some (io_fails ENOTSOCK t s)"
| "timer_socket_op Op_Isatty t s = Some (Done 0 s)"
| "timer_socket_op Op_Setsockopt t s = Some (io_fails ENOTSOCK t s)"
| "timer_socket_op Op_Getsockopt t s = Some (io_fails ENOTSOCK t s)"
| "timer_socket_op Op_Getsockname t s = Some (io_fails ENOTSOCK t s)"
| "timer_socket_op Op_Getpeername t s = Some (io_fails ENOTSOCK t s)"
| "timer_socket_op Op_Ioctl t s = Some (Done (-1) s)"
| "timer_socket_op Op_Bind t s = Some (io_fails ENOTSOCK t s)"
| "timer_socket_op Op_Connect t s = Some (io_fails ENOTSOCK t s)"
| "timer_socket_op Op_Listen t s = Some (io_fails ENOTSOCK t s)"
| "timer_socket_op Op_Shutdown t s = Some (io_fails ENOTSOCK t s)"
| "timer_socket_op Op_Accept t s = Some (io_fails ENOTSOCK t s)"
| "timer_socket_op op t s = None"

text \<open>\<open>MAP_FAILED\<close> is -1.\<close>

fun timer_file_op :: "fd_op \<Rightarrow> task \<Rightarrow> 'x io \<Rightarrow> 'x io io_result option" where
  "timer_file_op Op_Mmap t s = Some (io_fails EINVAL t s)"
| "timer_file_op Op_Lseek t s = Some (io_fails ESPIPE t s)"
| "timer_file_op Op_Fxstat t s = Some (Done 0 s)"
| "timer_file_op Op_Fxstat64 t s = Some (Done 0 s)"
| "timer_file_op (Op_Fcntl cmd arg) t s = Some (Done 0 s)"
| "timer_file_op op t s = None"

definition timer_Ftruncate :: "task \<Rightarrow> 'x io \<Rightarrow> 'x io io_result" where
  "timer_Ftruncate t s = io_fails EINVAL t s"

definition timer_CanRecv :: bool where "timer_CanRecv = False"
definition timer_CanSend :: bool where "timer_CanSend = False"
definition timer_HangupReceived :: bool where "timer_HangupReceived = False"

definition timer_Poll :: "nat \<Rightarrow> nat option \<Rightarrow> task \<Rightarrow> 'x io \<Rightarrow> (short \<times> 'x io) option" where
  "timer_Poll f ptable t s =
     (let e0 = (if timer_CanRecv then POLLIN else 0);
          e1 = (if timer_CanSend then e0 OR POLLOUT else e0);
          e2 = (if timer_HangupReceived then e1 OR POLLHUP else e1) in
      do { s1 \<leftarrow> (case ptable of None \<Rightarrow> Some s | Some p \<Rightarrow> PollWait p f t s);
           Some (e2, s1) })"

fun timer_op :: "'x io_env \<Rightarrow> fd_op \<Rightarrow> nat \<Rightarrow> task \<Rightarrow> 'x io \<Rightarrow> 'x io io_result option" where
  "timer_op E (Op_Write buf count) f t s = Some (timer_Write t s)"
| "timer_op E (Op_Read buf count) f t s = timer_Read E f buf count t s"
| "timer_op E Op_Ttyname f t s = Some (Done unix_Ttyname s)"
| "timer_op E (Op_Settime flags new_value old_value) f t s = timer_Settime E f flags new_value old_value s"
| "timer_op E (Op_Gettime cur_value) f t s =
     do { (r, s1) \<leftarrow> timer_Gettime E f cur_value s; Some (Done r s1) }"
| "timer_op E Op_Ftruncate f t s = Some (timer_Ftruncate t s)"
| "timer_op E op f t s =
     (case timer_socket_op op t s of Some r \<Rightarrow> Some r | None \<Rightarrow> timer_file_op op t s)"

section \<open>Any descriptor\<close>

text \<open>The virtual calls.\<close>

definition file_op :: "'x io_env \<Rightarrow> fd_op \<Rightarrow> nat \<Rightarrow> task \<Rightarrow> 'x io \<Rightarrow> 'x io io_result option" where
  "file_op E op f t s =
     do { x \<leftarrow> files s f;
          case m_body x of Pipe_end p \<Rightarrow> pipe_op E op f t s | Timer_end y \<Rightarrow> timer_op E op f t s }"

definition file_Close :: "'x io_env \<Rightarrow> nat \<Rightarrow> task \<Rightarrow> 'x io \<Rightarrow> (int \<times> 'x io) option" where
  "file_Close E f t s =
     do { x \<leftarrow> files s f;
          case m_body x of Pipe_end p \<Rightarrow> pipe_Close E f t s | Timer_end y \<Rightarrow> timer_Close E f s }"

definition file_Poll :: "nat \<Rightarrow> nat option \<Rightarrow> task \<Rightarrow> 'x io \<Rightarrow> (short \<times> 'x io) option" where
  "file_Poll f ptable t s =
     do { x \<leftarrow> files s f;
          case m_body x of Pipe_end p \<Rightarrow> pipe_Poll f ptable t s | Timer_end y \<Rightarrow> timer_Poll f ptable t s }"

end
