(* ===== verification/File_Table.thy ===== *)
theory File_Table
  imports Timer_Fd
begin

text \<open>
  The descriptor tables of the processes: \<open>model/file-usage.cc\<close>, the descriptor functions of
  \<open>model/utils.cc\<close>, the macro \<open>OPENED_FD_METHOD\<close> of \<open>model/utils.h\<close>, and the calls of
  \<open>model/dce-fd.cc\<close> and \<open>model/dce-timerfd.cc\<close> that go through a descriptor.
\<close>

section \<open>Entries of the table\<close>

definition FileUsage :: "int \<Rightarrow> nat \<Rightarrow> 'x io \<Rightarrow> nat \<times> 'x io" where
  "FileUsage fd f s =
     (next_new s, put_usage (next_new s) \<lparr>u_count = 0, u_fd = fd, u_file = f, u_closing = False\<rparr>
        (s\<lparr>next_new := next_new s + 1\<rparr>))"

definition IncFdCount :: "nat \<Rightarrow> 'x io \<Rightarrow> 'x io option" where
  "IncFdCount f s = do { x \<leftarrow> files s f; Some (put_file f (x\<lparr>m_fdCount := m_fdCount x + 1\<rparr>) s) }"

definition Ref :: "nat \<Rightarrow> 'x io \<Rightarrow> 'x io option" where
  "Ref f s = do { x \<leftarrow> files s f; Some (put_file f (x\<lparr>m_refs := m_refs x + 1\<rparr>) s) }"

text \<open>The object is deleted with its last reference.\<close>

definition Unref :: "nat \<Rightarrow> 'x io \<Rightarrow> 'x io option" where
  "Unref f s =
     do { x \<leftarrow> files s f;
          Some (if m_refs x - 1 = 0 then s\<lparr>files := (files s)(f := None)\<rparr>
                else put_file f (x\<lparr>m_refs := m_refs x - 1\<rparr>) s) }"

definition DecFdCount :: "nat \<Rightarrow> 'x io \<Rightarrow> 'x io option" where
  "DecFdCount f s = do { x \<leftarrow> files s f; Some (put_file f (x\<lparr>m_fdCount := m_fdCount x - 1\<rparr>) s) }"

definition delete_usage :: "nat \<Rightarrow> 'x io \<Rightarrow> 'x io option" where
  "delete_usage u s =
     do { x \<leftarrow> usages s u;
          s1 \<leftarrow> DecFdCount (u_file x) s;
          s2 \<leftarrow> Unref (u_file x) s1;
          Some (s2\<lparr>usages := (usages s2)(u := None)\<rparr>) }"

definition GetFileInc :: "nat \<Rightarrow> 'x io \<Rightarrow> (nat \<times> 'x io) option" where
  "GetFileInc u s =
     do { x \<leftarrow> usages s u; Some (u_file x, put_usage u (x\<lparr>u_count := u_count x + 1\<rparr>) s) }"

definition DecUsage :: "nat \<Rightarrow> 'x io \<Rightarrow> (bool \<times> 'x io) option" where
  "DecUsage u s =
     do { x \<leftarrow> usages s u;
          Some (u_count x - 1 = 0 \<and> u_closing x, put_usage u (x\<lparr>u_count := u_count x - 1\<rparr>) s) }"

definition CanForget :: "nat \<Rightarrow> 'x io \<Rightarrow> (bool \<times> 'x io) option" where
  "CanForget u s =
     do { x \<leftarrow> usages s u;
          Some (if u_count x = 0 then (True, s) else (False, put_usage u (x\<lparr>u_closing := True\<rparr>) s)) }"

definition NullifyUsage :: "nat \<Rightarrow> 'x io \<Rightarrow> 'x io option" where
  "NullifyUsage u s = do { x \<leftarrow> usages s u; Some (put_usage u (x\<lparr>u_count := 0\<rparr>) s) }"

section \<open>The table\<close>

definition MAX_FDS :: nat where "MAX_FDS = 1024"

definition UtilsAllocateFd :: "pid \<Rightarrow> 'x io \<Rightarrow> int" where
  "UtilsAllocateFd p s =
     (case find (\<lambda>fd. openFiles s p (int fd) = None) [0 ..< MAX_FDS] of Some fd \<Rightarrow> int fd | None \<Rightarrow> -1)"

definition CheckFdExists :: "pid \<Rightarrow> int \<Rightarrow> bool \<Rightarrow> 'x io \<Rightarrow> bool option" where
  "CheckFdExists p fd opened s =
     (case openFiles s p fd of
        None \<Rightarrow> Some False
      | Some u \<Rightarrow> do { x \<leftarrow> usages s u; Some (\<not> opened \<or> \<not> u_closing x) })"

definition set_fd :: "pid \<Rightarrow> int \<Rightarrow> nat option \<Rightarrow> 'x io \<Rightarrow> 'x io" where
  "set_fd p fd u s = s\<lparr>openFiles := (openFiles s)(p := (openFiles s p)(fd := u))\<rparr>"

definition FdDecUsage :: "int \<Rightarrow> task \<Rightarrow> 'x io \<Rightarrow> 'x io option" where
  "FdDecUsage fd t s =
     do { u \<leftarrow> openFiles s (pid_of s t) fd;
          (free, s1) \<leftarrow> DecUsage u s;
          if free then delete_usage u (set_fd (pid_of s t) fd None s1) else Some s1 }"

text \<open>Neither a pipe nor a timer has a descriptor of the host.\<close>

definition getRealFd :: "int \<Rightarrow> task \<Rightarrow> 'x io \<Rightarrow> int option" where
  "getRealFd fd t s =
     (case openFiles s (pid_of s t) fd of
        None \<Rightarrow> Some (-1)
      | Some u \<Rightarrow> do { x \<leftarrow> usages s u; if u_closing x then Some (-1) else do { y \<leftarrow> files s (u_file x); Some (-1) } })"

section \<open>\<open>OPENED_FD_METHOD\<close>\<close>

text \<open>\<open>narrow\<close> says that the macro is used with the result type \<open>int\<close>, which cuts a \<open>ssize_t\<close>.\<close>

definition as_int :: "bool \<Rightarrow> int \<Rightarrow> int" where
  "as_int narrow v = (if narrow then sint (word_of_int v :: uint32) else v)"

definition method_return :: "int \<Rightarrow> nat \<Rightarrow> bool \<Rightarrow> task \<Rightarrow> int \<Rightarrow> 'x io \<Rightarrow> 'x io io_result option" where
  "method_return fd u narrow t v s =
     do { (free, s1) \<leftarrow> DecUsage u s;
          s2 \<leftarrow> (if free then delete_usage u (set_fd (pid_of s t) fd None s1) else Some s1);
          Some (Done (as_int narrow v) s2) }"

definition opened_fd_method ::
  "'x io_env \<Rightarrow> int \<Rightarrow> bool \<Rightarrow> int \<Rightarrow> fd_op \<Rightarrow> 'x io \<Rightarrow> 'x io io_result option" where
  "opened_fd_method E errCode narrow fd op s =
     do { t \<leftarrow> m_current (io_tm s);
          case openFiles s (pid_of s t) fd of
            None \<Rightarrow> Some (Done errCode (set_err EBADF t s))
          | Some u \<Rightarrow>
              do { x \<leftarrow> usages s u;
                   if u_closing x then Some (Done errCode (set_err EBADF t s))
                   else
                     do { (f, s1) \<leftarrow> GetFileInc u s;
                          r \<leftarrow> file_op E op f t s1;
                          and_then (Method_return fd u narrow) (method_return fd u narrow t) r } } }"

section \<open>The calls that hand over to a method\<close>

definition dce_write :: "'x io_env \<Rightarrow> int \<Rightarrow> addr \<Rightarrow> size_t \<Rightarrow> 'x io \<Rightarrow> 'x io io_result option" where
  "dce_write E fd buf count = opened_fd_method E (-1) True fd (Op_Write buf count)"

definition dce_read :: "'x io_env \<Rightarrow> int \<Rightarrow> addr \<Rightarrow> size_t \<Rightarrow> 'x io \<Rightarrow> 'x io io_result option" where
  "dce_read E fd buf count = opened_fd_method E (-1) True fd (Op_Read buf count)"

definition dce_isatty :: "'x io_env \<Rightarrow> int \<Rightarrow> 'x io \<Rightarrow> 'x io io_result option" where
  "dce_isatty E fd = opened_fd_method E (-1) True fd Op_Isatty"

definition dce_ttyname :: "'x io_env \<Rightarrow> int \<Rightarrow> 'x io \<Rightarrow> 'x io io_result option" where
  "dce_ttyname E fd = opened_fd_method E (-1) False fd Op_Ttyname"

definition dce_sendmsg :: "'x io_env \<Rightarrow> int \<Rightarrow> 'x io \<Rightarrow> 'x io io_result option" where
  "dce_sendmsg E fd = opened_fd_method E (-1) False fd Op_Sendmsg"

definition dce_sendto :: "'x io_env \<Rightarrow> int \<Rightarrow> 'x io \<Rightarrow> 'x io io_result option" where
  "dce_sendto E fd = dce_sendmsg E fd"

definition dce_send :: "'x io_env \<Rightarrow> int \<Rightarrow> 'x io \<Rightarrow> 'x io io_result option" where
  "dce_send E fd = dce_sendto E fd"

definition dce_recvmsg :: "'x io_env \<Rightarrow> int \<Rightarrow> 'x io \<Rightarrow> 'x io io_result option" where
  "dce_recvmsg E fd = opened_fd_method E (-1) False fd Op_Recvmsg"

definition dce_ioctl :: "'x io_env \<Rightarrow> int \<Rightarrow> 'x io \<Rightarrow> 'x io io_result option" where
  "dce_ioctl E fd = opened_fd_method E (-1) True fd Op_Ioctl"

definition dce_bind :: "'x io_env \<Rightarrow> int \<Rightarrow> 'x io \<Rightarrow> 'x io io_result option" where
  "dce_bind E fd = opened_fd_method E (-1) True fd Op_Bind"

definition dce_connect :: "'x io_env \<Rightarrow> int \<Rightarrow> 'x io \<Rightarrow> 'x io io_result option" where
  "dce_connect E fd = opened_fd_method E (-1) True fd Op_Connect"

definition dce_listen :: "'x io_env \<Rightarrow> int \<Rightarrow> 'x io \<Rightarrow> 'x io io_result option" where
  "dce_listen E fd = opened_fd_method E (-1) True fd Op_Listen"

definition dce_accept :: "'x io_env \<Rightarrow> int \<Rightarrow> 'x io \<Rightarrow> 'x io io_result option" where
  "dce_accept E fd = opened_fd_method E (-1) True fd Op_Accept"

definition dce_shutdown :: "'x io_env \<Rightarrow> int \<Rightarrow> 'x io \<Rightarrow> 'x io io_result option" where
  "dce_shutdown E fd = opened_fd_method E (-1) True fd Op_Shutdown"

definition dce_setsockopt :: "'x io_env \<Rightarrow> int \<Rightarrow> 'x io \<Rightarrow> 'x io io_result option" where
  "dce_setsockopt E fd = opened_fd_method E (-1) True fd Op_Setsockopt"

definition dce_getsockopt :: "'x io_env \<Rightarrow> int \<Rightarrow> 'x io \<Rightarrow> 'x io io_result option" where
  "dce_getsockopt E fd = opened_fd_method E (-1) True fd Op_Getsockopt"

definition dce_getsockname :: "'x io_env \<Rightarrow> int \<Rightarrow> 'x io \<Rightarrow> 'x io io_result option" where
  "dce_getsockname E fd = opened_fd_method E (-1) True fd Op_Getsockname"

definition dce_getpeername :: "'x io_env \<Rightarrow> int \<Rightarrow> 'x io \<Rightarrow> 'x io io_result option" where
  "dce_getpeername E fd = opened_fd_method E (-1) True fd Op_Getpeername"

text \<open>\<open>MAP_FAILED\<close> is -1.\<close>

definition dce_mmap64 :: "'x io_env \<Rightarrow> int \<Rightarrow> 'x io \<Rightarrow> 'x io io_result option" where
  "dce_mmap64 E fd = opened_fd_method E (-1) False fd Op_Mmap"

definition dce_lseek64 :: "'x io_env \<Rightarrow> int \<Rightarrow> 'x io \<Rightarrow> 'x io io_result option" where
  "dce_lseek64 E fd = opened_fd_method E (-1) True fd Op_Lseek"

definition dce_ftruncate :: "'x io_env \<Rightarrow> int \<Rightarrow> 'x io \<Rightarrow> 'x io io_result option" where
  "dce_ftruncate E fd = opened_fd_method E (-1) True fd Op_Ftruncate"

definition dce_timerfd_settime ::
  "'x io_env \<Rightarrow> int \<Rightarrow> int \<Rightarrow> addr \<Rightarrow> addr option \<Rightarrow> 'x io \<Rightarrow> 'x io io_result option" where
  "dce_timerfd_settime E fd flags new_value old_value =
     opened_fd_method E (-1) True fd (Op_Settime flags new_value old_value)"

definition dce_timerfd_gettime :: "'x io_env \<Rightarrow> int \<Rightarrow> addr \<Rightarrow> 'x io \<Rightarrow> 'x io io_result option" where
  "dce_timerfd_gettime E fd cur_value = opened_fd_method E (-1) True fd (Op_Gettime cur_value)"

section \<open>The calls that change the table\<close>

definition dce_close :: "'x io_env \<Rightarrow> int \<Rightarrow> 'x io \<Rightarrow> (int \<times> 'x io) option" where
  "dce_close E fd s =
     do { t \<leftarrow> m_current (io_tm s);
          case openFiles s (pid_of s t) fd of
            None \<Rightarrow> Some (-1, set_err EBADF t s)
          | Some u \<Rightarrow>
              do { x \<leftarrow> usages s u;
                   y \<leftarrow> files s (u_file x);
                   (retval, s1) \<leftarrow> (if m_fdCount y = 1 then file_Close E (u_file x) t s else Some (0, s));
                   (forget, s2) \<leftarrow> CanForget u s1;
                   s3 \<leftarrow> (if forget then delete_usage u (set_fd (pid_of s t) fd None s2) else Some s2);
                   Some (retval, s3) } }"

text \<open>A new descriptor for the file of \<open>oldfd\<close>.\<close>

definition share_fd :: "pid \<Rightarrow> int \<Rightarrow> int \<Rightarrow> 'x io \<Rightarrow> 'x io option" where
  "share_fd p oldfd fd s =
     do { u \<leftarrow> openFiles s p oldfd;
          x \<leftarrow> usages s u;
          s1 \<leftarrow> IncFdCount (u_file x) s;
          s2 \<leftarrow> Ref (u_file x) s1;
          let (v, s3) = FileUsage fd (u_file x) s2 in
          Some (set_fd p fd (Some v) s3) }"

definition dce_dup :: "int \<Rightarrow> 'x io \<Rightarrow> (int \<times> 'x io) option" where
  "dce_dup oldfd s =
     do { t \<leftarrow> m_current (io_tm s);
          ok \<leftarrow> CheckFdExists (pid_of s t) oldfd True s;
          if \<not> ok then Some (-1, set_err EBADF t s)
          else
            let fd = UtilsAllocateFd (pid_of s t) s in
            if fd = -1 then Some (-1, set_err EMFILE t s)
            else do { s1 \<leftarrow> share_fd (pid_of s t) oldfd fd s; Some (fd, s1) } }"

definition dce_dup2 :: "'x io_env \<Rightarrow> int \<Rightarrow> int \<Rightarrow> 'x io \<Rightarrow> (int \<times> 'x io) option" where
  "dce_dup2 E oldfd newfd s =
     do { t \<leftarrow> m_current (io_tm s);
          ok \<leftarrow> CheckFdExists (pid_of s t) oldfd True s;
          if \<not> ok \<or> newfd > int MAX_FDS then Some (-1, set_err EBADF t s)
          else if oldfd = newfd then Some (newfd, s)
          else
            do { opened \<leftarrow> CheckFdExists (pid_of s t) newfd True s;
                 (r, s1) \<leftarrow> (if opened then dce_close E newfd s else Some (0, s));
                 if r \<noteq> 0 then Some (-1, set_err EBADF t s1)
                 else
                   do { busy \<leftarrow> CheckFdExists (pid_of s t) newfd False s1;
                        if busy then Some (-1, set_err EBADF t s1)
                        else do { s2 \<leftarrow> share_fd (pid_of s t) oldfd newfd s1; Some (newfd, s2) } } } }"

definition dce_fcntl :: "'x io_env \<Rightarrow> int \<Rightarrow> int \<Rightarrow> uint64 \<Rightarrow> 'x io \<Rightarrow> 'x io io_result option" where
  "dce_fcntl E fd cmd arg s =
     (if cmd = F_DUPFD then do { (r, s1) \<leftarrow> dce_dup fd s; Some (Done r s1) }
      else opened_fd_method E (-1) True fd (Op_Fcntl cmd arg) s)"

text \<open>
  \<open>new\<close> does not return a null pointer, so that the tests of its result in \<open>dce_pipe\<close> never hold.
  When there is no second descriptor the deletion of the entry of the first deletes the reading end,
  which is then deleted again.
\<close>

definition delete_file :: "nat \<Rightarrow> 'x io \<Rightarrow> 'x io option" where
  "delete_file f s = do { x \<leftarrow> files s f; Some (s\<lparr>files := (files s)(f := None)\<rparr>) }"

definition dce_pipe :: "addr option \<Rightarrow> 'x io \<Rightarrow> (int \<times> 'x io) option" where
  "dce_pipe pipefd s =
     do { t \<leftarrow> m_current (io_tm s);
          let p = pid_of s t in
          case pipefd of
            None \<Rightarrow> Some (-1, set_err EFAULT t s)
          | Some a \<Rightarrow>
              let fdRead = UtilsAllocateFd p s in
              if fdRead = -1 then Some (-1, set_err EMFILE t s)
              else
                let (reader, s1) = PipeFd_reader s;
                    (u, s2) = FileUsage fdRead reader s1;
                    s3 = set_fd p fdRead (Some u) s2;
                    fdWrite = UtilsAllocateFd p s3 in
                if fdWrite = -1 then
                  do { s4 \<leftarrow> delete_usage u s3;
                       s5 \<leftarrow> delete_file reader (set_fd p fdRead None s4);
                       Some (-1, set_err EMFILE t s5) }
                else
                  do { (writer, s4) \<leftarrow> PipeFd_writer reader s3;
                       let (v, s5) = FileUsage fdWrite writer s4;
                           s6 = set_fd p fdWrite (Some v) s5 in
                       do { s7 \<leftarrow> IncFdCount reader s6;
                            s8 \<leftarrow> IncFdCount writer s7;
                            Some (0, s8\<lparr>fd_pair := (fd_pair s8)(a := (fdRead, fdWrite))\<rparr>) } } }"

definition dce_timerfd_create :: "'x io \<Rightarrow> (int \<times> 'x io) option" where
  "dce_timerfd_create s =
     do { t \<leftarrow> m_current (io_tm s);
          let p = pid_of s t; fd = UtilsAllocateFd p s in
          if fd = -1 then Some (-1, set_err EMFILE t s)
          else
            let (f, s1) = UnixTimerFd s in
            do { s2 \<leftarrow> IncFdCount f s1;
                 let (u, s3) = FileUsage fd f s2 in
                 Some (fd, set_fd p fd (Some u) s3) } }"

section \<open>Fork and exit\<close>

text \<open>The descriptors of a process in the order of the map.\<close>

definition open_fds :: "pid \<Rightarrow> 'x io \<Rightarrow> int list" where
  "open_fds p s = sorted_list_of_set (dom (openFiles s p))"

fun clone_fds :: "pid \<Rightarrow> pid \<Rightarrow> int list \<Rightarrow> 'x io \<Rightarrow> 'x io option" where
  "clone_fds p c [] s = Some s"
| "clone_fds p c (fd # fds) s =
     do { u \<leftarrow> openFiles s p fd;
          x \<leftarrow> usages s u;
          s1 \<leftarrow> IncFdCount (u_file x) s;
          s2 \<leftarrow> Ref (u_file x) s1;
          let (v, s3) = FileUsage fd (u_file x) s2 in
          clone_fds p c fds (set_fd c fd (Some v) s3) }"

definition clone_files :: "pid \<Rightarrow> pid \<Rightarrow> 'x io \<Rightarrow> 'x io option" where
  "clone_files p c s = clone_fds p c (open_fds p s) s"

fun close_fds :: "'x io_env \<Rightarrow> pid \<Rightarrow> int list \<Rightarrow> 'x io \<Rightarrow> 'x io option" where
  "close_fds E p [] s = Some s"
| "close_fds E p (fd # fds) s =
     do { u \<leftarrow> openFiles s p fd;
          s1 \<leftarrow> NullifyUsage u s;
          (r, s2) \<leftarrow> dce_close E fd s1;
          close_fds E p fds s2 }"

end
