(* ===== verification/Poll_Select.thy ===== *)
theory Poll_Select
  imports File_Table "HOL-Library.AList"
begin

text \<open>
  \<open>poll\<close> and \<open>select\<close>, \<open>model/dce-poll.cc\<close>. A poll that finds nothing leaves an entry in the wait queue
  of each descriptor, all of the same poll table, and sleeps at the table.
\<close>

section \<open>Advancing the time\<close>

definition AdvanceTime_return :: "'x io_env \<Rightarrow> task \<Rightarrow> 'x io \<Rightarrow> 'x io" where
  "AdvanceTime_return E t s = s\<lparr>lastTime := (lastTime s)(t := io_now E s)\<rparr>"

text \<open>A thread that polls twice without waiting at the same time waits for a microsecond.\<close>

definition UtilsAdvanceTime :: "'x io_env \<Rightarrow> int \<Rightarrow> task \<Rightarrow> 'x io \<Rightarrow> 'x io io_result option" where
  "UtilsAdvanceTime E count t s =
     (if io_now E s = lastTime s t
      then do { s1 \<leftarrow> io_Wait_timeout E 1000 s; Some (Blocked [Advance_wait count] s1) }
      else Some (Done count (AdvanceTime_return E t s)))"

section \<open>\<open>poll\<close>\<close>

definition set_revents :: "place \<Rightarrow> nat \<Rightarrow> short \<Rightarrow> 'x io \<Rightarrow> 'x io" where
  "set_revents arr i r s =
     s\<lparr>poll_array := (poll_array s)(arr :=
         (poll_array s arr)[i := (poll_array s arr ! i)\<lparr>poll_revents := r\<rparr>])\<rparr>"

text \<open>
  One pass over the array. With a table the descriptors that are polled before one of them has an
  event enter their wait queues, and are remembered in \<open>toUnRef\<close> by their number.
\<close>

fun poll_scan ::
  "place \<Rightarrow> nat list \<Rightarrow> nat option \<Rightarrow> int \<Rightarrow> (int \<times> nat) list \<Rightarrow> task \<Rightarrow> 'x io \<Rightarrow>
   (int \<times> (int \<times> nat) list \<times> 'x io) option" where
  "poll_scan arr [] currentTable count toUnRef t s = Some (count, toUnRef, s)"
| "poll_scan arr (i # is) currentTable count toUnRef t s =
     (let p = poll_array s arr ! i; fd = poll_fd p; want = poll_events p OR POLLERR OR POLLHUP in
      do { ok \<leftarrow> CheckFdExists (pid_of s t) fd True s;
           if \<not> ok then poll_scan arr is currentTable count toUnRef t s
           else
             do { u \<leftarrow> openFiles s (pid_of s t) fd;
                  (f, unref, s1) \<leftarrow>
                    (case currentTable of
                       None \<Rightarrow> do { x \<leftarrow> usages s u; Some (u_file x, toUnRef, s) }
                     | Some tb \<Rightarrow>
                         do { (f, s1) \<leftarrow> GetFileInc u s;
                              s2 \<leftarrow> SetEventMask tb want s1;
                              Some (f, AList.update fd u toUnRef, s2) });
                  (e, s2) \<leftarrow> file_Poll f currentTable t s1;
                  let got = e AND want; s3 = set_revents arr i got s2 in
                  if got \<noteq> 0 then poll_scan arr is None (count + 1) unref t s3
                  else poll_scan arr is currentTable count unref t s3 } })"

text \<open>The results of \<open>DecUsage\<close> are not looked at.\<close>

fun unref_all :: "(int \<times> nat) list \<Rightarrow> 'x io \<Rightarrow> 'x io option" where
  "unref_all [] s = Some s"
| "unref_all ((fd, u) # us) s = do { (free, s1) \<leftarrow> DecUsage u s; unref_all us s1 }"

definition poll_finish ::
  "'x io_env \<Rightarrow> int \<Rightarrow> int \<Rightarrow> nat \<Rightarrow> (int \<times> nat) list \<Rightarrow> task \<Rightarrow> 'x io \<Rightarrow> 'x io io_result option" where
  "poll_finish E count timeout table toUnRef t s =
     do { s1 \<leftarrow> FreeWait table t s;
          s2 \<leftarrow> delete_table table s1;
          s3 \<leftarrow> unref_all toUnRef s2;
          if count = 0 \<and> timeout = 0 then UtilsAdvanceTime E count t s3 else Some (Done count s3) }"

text \<open>\<open>table->Wait (to)\<close> up to the call of the task manager.\<close>

definition table_Wait :: "'x io_env \<Rightarrow> nat \<Rightarrow> time \<Rightarrow> task \<Rightarrow> 'x io \<Rightarrow> 'x io option" where
  "table_Wait E table to t s =
     do { x \<leftarrow> tables s table;
          io_Wait_timeout E to
            (put_table table (x\<lparr>m_waitTask := Some t\<rparr>) (s\<lparr>pollTable := (pollTable s)(t := Some table)\<rparr>)) }"

definition poll_loop ::
  "'x io_env \<Rightarrow> place \<Rightarrow> nat \<Rightarrow> int \<Rightarrow> time \<Rightarrow> nat \<Rightarrow> nat option \<Rightarrow> (int \<times> nat) list \<Rightarrow> task \<Rightarrow> 'x io \<Rightarrow>
   'x io io_result option" where
  "poll_loop E arr nfds timeout endtime table currentTable toUnRef t s =
     do { (count, unref, s1) \<leftarrow> poll_scan arr [0 ..< nfds] currentTable 0 toUnRef t s;
          if count \<noteq> 0 \<or> timeout = 0 then poll_finish E count timeout table unref t s1
          else if timeout < 0 then
            do { s2 \<leftarrow> table_Wait E table 0 t s1;
                 Some (Blocked [Poll_wait arr nfds timeout endtime table unref] s2) }
          else
            let diff = endtime - io_now E s1 in
            if diff > 0 then
              do { s2 \<leftarrow> table_Wait E table diff t s1;
                   Some (Blocked [Poll_wait arr nfds timeout endtime table unref] s2) }
            else poll_finish E count timeout table unref t s1 }"

definition poll_woken ::
  "'x io_env \<Rightarrow> place \<Rightarrow> nat \<Rightarrow> int \<Rightarrow> time \<Rightarrow> nat \<Rightarrow> (int \<times> nat) list \<Rightarrow> task \<Rightarrow> 'x io \<Rightarrow>
   'x io io_result option" where
  "poll_woken E arr nfds timeout endtime table toUnRef t s =
     do { x \<leftarrow> tables s table;
          poll_loop E arr nfds timeout endtime table None toUnRef t
            (put_table table (x\<lparr>m_waitTask := None\<rparr>) (s\<lparr>pollTable := (pollTable s)(t := None)\<rparr>)) }"

text \<open>\<open>arr\<close> is the place of the array; one that is shorter than \<open>nfds\<close> is overrun.\<close>

definition dce_poll :: "'x io_env \<Rightarrow> place \<Rightarrow> nat \<Rightarrow> int \<Rightarrow> 'x io \<Rightarrow> 'x io io_result option" where
  "dce_poll E arr nfds timeout s =
     do { t \<leftarrow> m_current (io_tm s);
          if length (poll_array s arr) < nfds then None
          else
            let (table, s1) = PollTable s;
                currentTable = (if timeout = 0 then None else Some table);
                endtime = (if timeout > 0 then io_now E s + timeout * 1000000 else 0);
                fds = poll_array s1 arr;
                s2 = s1\<lparr>poll_array := (poll_array s1)(arr :=
                        map (\<lambda>p. p\<lparr>poll_revents := 0\<rparr>) (take nfds fds) @ drop nfds fds)\<rparr> in
            poll_loop E arr nfds timeout endtime table currentTable [] t s2 }"

section \<open>\<open>select\<close>\<close>

definition in_set :: "int \<Rightarrow> addr option \<Rightarrow> 'x io \<Rightarrow> bool" where
  "in_set fd a s = (case a of None \<Rightarrow> False | Some b \<Rightarrow> fd \<in> fd_set s b)"

text \<open>The descriptors to poll with their events; \<^term>\<open>None\<close> inside when one of them is not open.\<close>

fun select_events ::
  "int list \<Rightarrow> addr option \<Rightarrow> addr option \<Rightarrow> addr option \<Rightarrow> pollfd list \<Rightarrow> task \<Rightarrow> 'x io \<Rightarrow>
   pollfd list option option" where
  "select_events [] rd wr ex acc t s = Some (Some acc)"
| "select_events (fd # fds) rd wr ex acc t s =
     (let e = (if in_set fd rd s then POLLIN else 0) OR (if in_set fd wr s then POLLOUT else 0)
              OR (if in_set fd ex s then POLLPRI else 0) in
      if e = 0 then select_events fds rd wr ex acc t s
      else
        do { ok \<leftarrow> CheckFdExists (pid_of s t) fd True s;
             if ok then select_events fds rd wr ex
                          (acc @ [\<lparr>poll_fd = fd, poll_events = e, poll_revents = 0\<rparr>]) t s
             else Some None })"

definition FD_ZERO :: "addr option \<Rightarrow> 'x io \<Rightarrow> 'x io" where
  "FD_ZERO a s = (case a of None \<Rightarrow> s | Some b \<Rightarrow> s\<lparr>fd_set := (fd_set s)(b := {})\<rparr>)"

definition FD_SET :: "int \<Rightarrow> addr \<Rightarrow> 'x io \<Rightarrow> 'x io" where
  "FD_SET fd b s = s\<lparr>fd_set := (fd_set s)(b := insert fd (fd_set s b))\<rparr>"

definition select_one :: "int \<Rightarrow> addr option \<Rightarrow> bool \<Rightarrow> int \<times> 'x io \<Rightarrow> int \<times> 'x io" where
  "select_one fd a hit r =
     (case a of None \<Rightarrow> r | Some b \<Rightarrow> if hit then (fst r + 1, FD_SET fd b (snd r)) else r)"

fun select_collect ::
  "pollfd list \<Rightarrow> addr option \<Rightarrow> addr option \<Rightarrow> addr option \<Rightarrow> int \<times> 'x io \<Rightarrow> int \<times> 'x io" where
  "select_collect [] rd wr ex r = r"
| "select_collect (p # ps) rd wr ex r =
     (let e = poll_revents p; fd = poll_fd p in
      select_collect ps rd wr ex
        (select_one fd ex (POLLPRI AND e \<noteq> 0)
          (select_one fd wr (POLLOUT AND e \<noteq> 0)
            (select_one fd rd (POLLIN AND e \<noteq> 0 \<or> POLLHUP AND e \<noteq> 0 \<or> POLLERR AND e \<noteq> 0) r))))"

definition select_return ::
  "place \<Rightarrow> nat \<Rightarrow> addr option \<Rightarrow> addr option \<Rightarrow> addr option \<Rightarrow> int \<Rightarrow> 'x io \<Rightarrow> 'x io io_result option" where
  "select_return arr nfds rd wr ex v s =
     (let s1 = FD_ZERO ex (FD_ZERO wr (FD_ZERO rd s)) in
      if v > 0 then
        let (n, s2) = select_collect (take nfds (poll_array s1 arr)) rd wr ex (0, s1) in Some (Done n s2)
      else Some (Done v s1))"

text \<open>The timeout is a \<open>timeval\<close>, and \<open>poll\<close> gets its milliseconds as an \<open>int\<close>.\<close>

definition dce_select ::
  "'x io_env \<Rightarrow> int \<Rightarrow> addr option \<Rightarrow> addr option \<Rightarrow> addr option \<Rightarrow> (int \<times> int) option \<Rightarrow>
   'x io \<Rightarrow> 'x io io_result option" where
  "dce_select E nfds rd wr ex timeout s =
     do { t \<leftarrow> m_current (io_tm s);
          if nfds = -1 then Some (io_fails EINVAL t s)
          else if rd = None \<and> wr = None \<and> ex = None then Some (io_fails EINVAL t s)
          else if (case timeout of None \<Rightarrow> False | Some (sec, usec) \<Rightarrow> sec < 0 \<or> usec < 0)
          then Some (io_fails EINVAL t s)
          else
            do { found \<leftarrow> select_events (map int [0 ..< nat nfds]) rd wr ex [] t s;
                 case found of
                   None \<Rightarrow> Some (io_fails EBADF t s)
                 | Some fds \<Rightarrow>
                     let arr = Stack (next_new s);
                         s1 = s\<lparr>next_new := next_new s + 1, poll_array := (poll_array s)(arr := fds)\<rparr>;
                         pollTo = (case timeout of None \<Rightarrow> -1
                                   | Some (sec, usec) \<Rightarrow> as_int True (sec * 1000 + usec sdiv 1000)) in
                     do { r \<leftarrow> dce_poll E arr (length fds) pollTo s1;
                          and_then (Select_return arr (length fds) rd wr ex)
                            (select_return arr (length fds) rd wr ex) r } } }"

end
