(* ===== verification/Io_Calls.thy ===== *)
theory Io_Calls
  imports Poll_Select
begin

text \<open>
  The calls of a program on its descriptors, how a suspended call goes on, and the steps of the
  processes of a node.
\<close>

section \<open>Calls and their continuations\<close>

datatype io_call =
    Write_call int addr size_t | Read_call int addr size_t
  | Method_call int fd_op | Fcntl_call int int uint64
  | Close_call int | Dup_call int | Dup2_call int int | Pipe_call "addr option" | Timer_call
  | Poll_call addr nat int
  | Select_call int "addr option" "addr option" "addr option" "(int \<times> int) option"

text \<open>\<open>Method_call\<close> stands for the calls that only hand over to a method of the descriptor.\<close>

definition returned :: "(int \<times> 'x io) option \<Rightarrow> 'x io io_result option" where
  "returned r = do { (v, s) \<leftarrow> r; Some (Done v s) }"

fun exec_io :: "'x io_env \<Rightarrow> io_call \<Rightarrow> 'x io \<Rightarrow> 'x io io_result option" where
  "exec_io E (Write_call fd buf count) s = dce_write E fd buf count s"
| "exec_io E (Read_call fd buf count) s = dce_read E fd buf count s"
| "exec_io E (Method_call fd op) s = opened_fd_method E (-1) True fd op s"
| "exec_io E (Fcntl_call fd cmd arg) s = dce_fcntl E fd cmd arg s"
| "exec_io E (Close_call fd) s = returned (dce_close E fd s)"
| "exec_io E (Dup_call fd) s = returned (dce_dup fd s)"
| "exec_io E (Dup2_call fd newfd) s = returned (dce_dup2 E fd newfd s)"
| "exec_io E (Pipe_call a) s = returned (dce_pipe a s)"
| "exec_io E Timer_call s = returned (dce_timerfd_create s)"
| "exec_io E (Poll_call a nfds timeout) s = dce_poll E (User a) nfds timeout s"
| "exec_io E (Select_call nfds rd wr ex timeout) s = dce_select E nfds rd wr ex timeout s"

text \<open>The innermost frame goes on when its thread runs, the others when the one above returns \<open>v\<close>.\<close>

fun resume_io :: "'x io_env \<Rightarrow> io_frame \<Rightarrow> int \<Rightarrow> task \<Rightarrow> 'x io \<Rightarrow> 'x io io_result option" where
  "resume_io E (Read_wait f buf count w to) v t s = read_woken E f buf count w to t s"
| "resume_io E (Recv_wait f buf len w to) v t s = recv_woken E f buf len w to t s"
| "resume_io E (Write_return f) v t s = write_return E f v s"
| "resume_io E (Timer_wait f buf) v t s = timer_woken f buf s"
| "resume_io E (Method_return fd u narrow) v t s = method_return fd u narrow t v s"
| "resume_io E (Poll_wait arr nfds timeout endtime table toUnRef) v t s =
     poll_woken E arr nfds timeout endtime table toUnRef t s"
| "resume_io E (Advance_wait count) v t s = Some (Done count (AdvanceTime_return E t s))"
| "resume_io E (Select_return arr nfds rd wr ex) v t s = select_return arr nfds rd wr ex v s"

fun resume_frames :: "'x io_env \<Rightarrow> io_frame list \<Rightarrow> int \<Rightarrow> task \<Rightarrow> 'x io \<Rightarrow> 'x io io_result option" where
  "resume_frames E [] v t s = Some (Done v s)"
| "resume_frames E (fr # fs) v t s =
     do { r \<leftarrow> resume_io E fr v t s;
          case r of
            Done v' s' \<Rightarrow> resume_frames E fs v' t s'
          | Blocked gs s' \<Rightarrow> Some (Blocked (gs @ fs) s') }"

fun io_settle :: "task \<Rightarrow> 'x io io_result \<Rightarrow> 'x io" where
  "io_settle t (Done v s) = s\<lparr>frames := (frames s)(t := [])\<rparr>"
| "io_settle t (Blocked fs s) = s\<lparr>frames := (frames s)(t := fs)\<rparr>"

section \<open>Steps\<close>

text \<open>
  The running thread makes a call or goes on with one; a process forks, or exits when none of its
  threads is in the middle of a call; a thread starts in a process; the program changes its memory
  and the masks and handlers of its signals; a signal is sent; the timer of a descriptor expires;
  or something else happens to the tasks of the node.
\<close>

inductive io_step :: "'x io_env \<Rightarrow> 'x io \<Rightarrow> 'x io \<Rightarrow> bool" for E where
  call: "m_current (io_tm s) = Some t \<Longrightarrow> frames s t = [] \<Longrightarrow> exec_io E c s = Some r \<Longrightarrow>
    io_step E s (io_settle t r)"
| resume: "m_current (io_tm s) = Some t \<Longrightarrow> frames s t \<noteq> [] \<Longrightarrow>
    resume_frames E (frames s t) 0 t s = Some r \<Longrightarrow> io_step E s (io_settle t r)"
| fork: "openFiles s c = Map.empty \<Longrightarrow> clone_files p c s = Some s' \<Longrightarrow> io_step E s s'"
| exit: "m_current (io_tm s) = Some t \<Longrightarrow> (\<And>u. pid_of s u = pid_of s t \<Longrightarrow> frames s u = []) \<Longrightarrow>
    close_fds E (pid_of s t) (open_fds (pid_of s t) s) s = Some s' \<Longrightarrow> io_step E s s'"
| attach: "frames s t = [] \<Longrightarrow>
    io_step E s (s\<lparr>pid_of := (pid_of s)(t := p), threads := (threads s)(p := threads s p @ [t])\<rparr>)"
| program: "io_step E s (s\<lparr>umem := m, itimers := i, fd_pair := d, fd_set := b, signalMask := g,
    signalHandlers := h, threadSignals := k,
    poll_array := (\<lambda>a. case a of User x \<Rightarrow> q x | Stack x \<Rightarrow> poll_array s a)\<rparr>)"
| signal: "UtilsSendSignal E p sig s = Some s' \<Longrightarrow> io_step E s s'"
| expire: "m_current (io_tm s) = None \<Longrightarrow> Fire (io_sim E) (sim (io_tm s)) = Some (Do_other f, x) \<Longrightarrow>
    TimerExpired E f (on_sim (\<lambda>_. x) s) = Some s' \<Longrightarrow> io_step E s s'"
| other: "tm_step (io_sim E) (io_tm s) m \<Longrightarrow> (\<And>t. m_current (io_tm s) = Some t \<Longrightarrow> frames s t = []) \<Longrightarrow>
    io_step E s (s\<lparr>io_tm := m\<rparr>)"

inductive_cases io_stepE: "io_step E s s'"

inductive io_reach :: "'x io_env \<Rightarrow> 'x \<Rightarrow> 'x io \<Rightarrow> bool" for E x where
  init: "io_reach E x (new_io (TaskManager x))"
| step: "io_reach E x s \<Longrightarrow> io_step E s s' \<Longrightarrow> io_reach E x s'"

end
