(* ===== verification/Io_Quiet.thy ===== *)
theory Io_Quiet
  imports Io_Calls
begin

text \<open>
  What most of the code leaves alone: the descriptor tables, the counts of the files, the bytes in the
  pipes. A step that does is \<open>quiet\<close>; waking, waiting, signals, polling, timers and closing an end of
  a pipe are.
\<close>

section \<open>Quiet steps\<close>

fun body_core :: "fd_body \<Rightarrow> (bool \<times> fifo) option" where
  "body_core (Pipe_end p) = Some (m_readSide p, m_buf p)"
| "body_core (Timer_end y) = None"

definition fd_core :: "unix_fd \<Rightarrow> int \<times> nat \<times> (bool \<times> fifo) option" where
  "fd_core x = (m_fdCount x, m_refs x, body_core (m_body x))"

definition cores :: "'x io \<Rightarrow> nat \<Rightarrow> (int \<times> nat \<times> (bool \<times> fifo) option) option" where
  "cores s f = map_option fd_core (files s f)"

text \<open>The tables of the processes and what their threads are doing.\<close>

definition same_tables :: "'x io \<Rightarrow> 'x io \<Rightarrow> bool" where
  "same_tables s s' \<longleftrightarrow> usages s' = usages s \<and> openFiles s' = openFiles s \<and> pid_of s' = pid_of s
     \<and> frames s' = frames s"

definition quiet :: "'x io \<Rightarrow> 'x io \<Rightarrow> bool" where
  "quiet s s' \<longleftrightarrow> same_tables s s' \<and> moved s' = moved s \<and> next_new s \<le> next_new s' \<and> cores s' = cores s"

named_theorems quiet_intros

lemma quiet_refl [simp, intro]: "quiet s s"
  by (simp add: quiet_def same_tables_def)

lemma quiet_trans: "quiet s s1 \<Longrightarrow> quiet s1 s2 \<Longrightarrow> quiet s s2"
  by (simp add: quiet_def same_tables_def)

lemma quietD:
  assumes "quiet s s'"
  shows "usages s' = usages s" "openFiles s' = openFiles s" "pid_of s' = pid_of s" "frames s' = frames s"
    "moved s' = moved s" "next_new s \<le> next_new s'" "cores s' = cores s"
  using assms by (simp_all add: quiet_def same_tables_def)

lemma cores_None: "cores s f = None \<longleftrightarrow> files s f = None"
  by (simp add: cores_def)

lemma cores_pipe: "pipe_at s f = Some p \<longleftrightarrow> (\<exists>x. files s f = Some x \<and> m_body x = Pipe_end p)"
  by (auto simp: pipe_at_def bind_eq_Some_conv split: fd_body.split_asm)

lemma timer_at_iff: "timer_at s f = Some y \<longleftrightarrow> (\<exists>x. files s f = Some x \<and> m_body x = Timer_end y)"
  by (auto simp: timer_at_def bind_eq_Some_conv split: fd_body.split_asm)

lemma cores_upd [simp]:
  "cores (s\<lparr>usages := a1\<rparr>) = cores s" "cores (s\<lparr>entries := a2\<rparr>) = cores s" "cores (s\<lparr>tables := a3\<rparr>) = cores s"
  "cores (s\<lparr>next_new := a4\<rparr>) = cores s" "cores (s\<lparr>openFiles := a5\<rparr>) = cores s" "cores (s\<lparr>pid_of := a6\<rparr>) = cores s"
  "cores (s\<lparr>pendingSignals := a7\<rparr>) = cores s" "cores (s\<lparr>moved := a8\<rparr>) = cores s" "cores (s\<lparr>frames := a9\<rparr>) = cores s"
  "cores (s\<lparr>io_tm := a10\<rparr>) = cores s" "cores (s\<lparr>poll_array := a11\<rparr>) = cores s" "cores (s\<lparr>fd_pair := a12\<rparr>) = cores s"
  "cores (s\<lparr>threads := a13\<rparr>) = cores s" "cores (s\<lparr>pollTable := a14\<rparr>) = cores s" "cores (s\<lparr>umem := a15\<rparr>) = cores s"
  "cores (s\<lparr>itimers := a16\<rparr>) = cores s"
  by (simp_all add: cores_def fun_eq_iff)

lemma cores_cong: "files s' = files s \<Longrightarrow> cores s' = cores s"
  by (simp add: cores_def fun_eq_iff)

lemma put_file_quiet:
  "files s f = Some x \<Longrightarrow> fd_core y = fd_core x \<Longrightarrow> quiet s (put_file f y s)"
  by (auto simp: quiet_def same_tables_def put_file_def cores_def fun_eq_iff)

text \<open>Changes of the parts of the state that are none of these.\<close>

lemma quiet_updates [quiet_intros]:
  "quiet s (set_err e t s)" "quiet s (put_entry w x s)" "quiet s (put_table p y s)" "quiet s (free_entry wq s)"
  "quiet s (s\<lparr>io_tm := m\<rparr>)" "quiet s (on_sim g s)" "quiet s (store_bytes buf bs s)"
  "quiet s (deliver_thread t sig s)" "quiet s (deliver_process t sig s)" "quiet s (AdvanceTime_return E t s)"
  "quiet s (set_revents arr i r s)" "quiet s (FD_ZERO a s)" "quiet s (FD_SET fd b s)"
  "quiet s (timer_Cancel E tm s)"
  by (auto simp: quiet_def same_tables_def cores_def set_err_def put_entry_def put_table_def free_entry_def on_sim_def
      store_bytes_def deliver_thread_def deliver_process_def AdvanceTime_return_def set_revents_def FD_ZERO_def
      FD_SET_def timer_Cancel_def Let_def split: option.splits)

lemma quiet_new_entry: "new_entry x s = (w, s') \<Longrightarrow> quiet s s'"
  by (auto simp: new_entry_def put_entry_def quiet_def same_tables_def cores_def)

lemma quiet_deliver: "quiet s (deliver_signals t hs s)"
proof (induction hs arbitrary: s)
  case (Cons h hs)
  have q: "quiet s (deliver_process t h (deliver_thread t h s))"
    using quiet_trans quiet_updates(8,9) by blast
  show ?case using Cons.IH [of s] quiet_trans [OF q Cons.IH] by simp
qed simp

lemma quiet_DoSignal [quiet_intros]: "quiet s (UtilsDoSignal t s)"
  by (simp add: UtilsDoSignal_def quiet_deliver)

lemma quiet_Wakeup: "io_Wakeup E t s = Some s' \<Longrightarrow> quiet s s'"
  by (auto simp: io_Wakeup_def bind_eq_Some_conv quiet_intros)

lemma quiet_Wait: "io_Wait E s = Some s' \<Longrightarrow> quiet s s'"
  by (auto simp: io_Wait_def bind_eq_Some_conv quiet_intros)

lemma quiet_Wait_timeout: "io_Wait_timeout E to s = Some s' \<Longrightarrow> quiet s s'"
  by (auto simp: io_Wait_timeout_def bind_eq_Some_conv quiet_intros)

lemma quiet_signal_threads: "signal_threads E sig ts s = Some s' \<Longrightarrow> quiet s s'"
proof (induction ts)
  case (Cons t ts)
  then show ?case by (auto simp: bind_eq_Some_conv quiet_Wakeup split: if_splits)
qed simp

lemma quiet_SendSignal: "UtilsSendSignal E p sig s = Some s' \<Longrightarrow> quiet s s'"
  unfolding UtilsSendSignal_def
  by (rule quiet_trans [OF _ quiet_signal_threads]) (auto simp: quiet_def same_tables_def)

lemma quiet_WakeUpCallback: "WakeUpCallback E w s = Some s' \<Longrightarrow> quiet s s'"
  by (auto simp: WakeUpCallback_def bind_eq_Some_conv quiet_Wakeup split: option.split_asm if_split_asm)

lemma quiet_entry_WakeUp: "entry_WakeUp E key w s = Some s' \<Longrightarrow> quiet s s'"
proof -
  assume "entry_WakeUp E key w s = Some s'"
  then obtain x where "(case x of
      Entry_timeout em waiter deadline \<Rightarrow> if key AND em \<noteq> 0 then WakeUpCallback E waiter s else Some s
    | Entry_poll p em \<Rightarrow> if key AND em \<noteq> 0 then do { y \<leftarrow> tables s p; WakeUpCallback E (m_waitTask y) s } else Some s)
      = Some s'" by (auto simp: entry_WakeUp_def bind_eq_Some_conv)
  then show ?thesis by (cases x) (auto simp: bind_eq_Some_conv quiet_WakeUpCallback split: if_split_asm)
qed

lemma quiet_wake_entries: "wake_entries E key ws s = Some s' \<Longrightarrow> quiet s s'"
proof (induction ws arbitrary: s)
  case (Cons w ws)
  then show ?case using quiet_entry_WakeUp quiet_trans by (fastforce simp: bind_eq_Some_conv)
qed simp

lemma quiet_WakeWaiters: "WakeWaiters E key f s = Some s' \<Longrightarrow> quiet s s'"
  by (auto simp: WakeWaiters_def bind_eq_Some_conv quiet_wake_entries)

lemma quiet_AddWaitQueue: "AddWaitQueue f w reg t s = Some s' \<Longrightarrow> quiet s s'"
  by (auto simp: AddWaitQueue_def Let_def bind_eq_Some_conv quiet_def same_tables_def put_file_def cores_def
      fd_core_def fun_eq_iff)

lemma quiet_RemoveWaitQueue: "RemoveWaitQueue f w reg t s = Some s' \<Longrightarrow> quiet s s'"
  by (auto simp: RemoveWaitQueue_def Let_def bind_eq_Some_conv quiet_def same_tables_def put_file_def cores_def
      fd_core_def fun_eq_iff)

lemma quiet_entry_Wait: "entry_Wait E w t s = Some (r, s') \<Longrightarrow> quiet s s'"
proof -
  assume a: "entry_Wait E w t s = Some (r, s')"
  then obtain x where x: "entries s w = Some x" by (auto simp: entry_Wait_def bind_eq_Some_conv)
  with a show ?thesis
    by (cases x) (auto simp: entry_Wait_def Let_def bind_eq_Some_conv split: if_split_asm
        intro: quiet_trans [OF quiet_updates(2) quiet_Wait_timeout])
qed

lemma quiet_entry_woken: "entry_woken w to t s = Some (r, s') \<Longrightarrow> quiet s s'"
proof -
  assume a: "entry_woken w to t s = Some (r, s')"
  then obtain x where x: "entries s w = Some x" by (auto simp: entry_woken_def bind_eq_Some_conv)
  with a show ?thesis by (cases x) (auto simp: entry_woken_def quiet_intros)
qed

lemma quiet_SetEventMask: "SetEventMask p e s = Some s' \<Longrightarrow> quiet s s'"
  by (auto simp: SetEventMask_def bind_eq_Some_conv quiet_intros)

lemma quiet_PollWait: "PollWait p f t s = Some s' \<Longrightarrow> quiet s s'"
proof -
  assume "PollWait p f t s = Some s'"
  then obtain x where "(let (w, s1) = new_entry (Entry_poll p (m_eventMask x)) s in AddWaitQueue f w False t
      (put_table p (x\<lparr>m_pollEntryList := m_pollEntryList x @ [(f, w)]\<rparr>) s1)) = Some s'"
    by (auto simp: PollWait_def bind_eq_Some_conv)
  then obtain w s1 where "new_entry (Entry_poll p (m_eventMask x)) s = (w, s1)"
    "AddWaitQueue f w False t (put_table p (x\<lparr>m_pollEntryList := m_pollEntryList x @ [(f, w)]\<rparr>) s1) = Some s'"
    by (cases "new_entry (Entry_poll p (m_eventMask x)) s") simp
  with quiet_new_entry quiet_updates(3) quiet_AddWaitQueue quiet_trans show ?thesis by metis
qed

lemma quiet_free_waits: "free_waits es t s = Some s' \<Longrightarrow> quiet s s'"
proof (induction es arbitrary: s)
  case (Cons e es)
  then show ?case using quiet_RemoveWaitQueue quiet_trans by (cases e) (fastforce simp: bind_eq_Some_conv)
qed simp

lemma quiet_FreeWait: "FreeWait p t s = Some s' \<Longrightarrow> quiet s s'"
  by (auto simp: FreeWait_def bind_eq_Some_conv quiet_free_waits)

lemma quiet_free_entries: "quiet s (fold (\<lambda>(f, w). free_entry (Some w)) es s)"
proof (induction es arbitrary: s)
  case (Cons e es)
  obtain f w where e: "e = (f, w)" by (cases e)
  show ?case using quiet_trans [OF quiet_updates(4) Cons.IH, of s "Some w"] by (simp add: e)
qed simp

lemma quiet_delete_table: "delete_table p s = Some s' \<Longrightarrow> quiet s s'"
proof -
  assume "delete_table p s = Some s'"
  then obtain x :: poll_table where x: "(fold (\<lambda>(f, w). free_entry (Some w)) (m_pollEntryList x) s)\<lparr>tables :=
      (tables (fold (\<lambda>(f, w). free_entry (Some w)) (m_pollEntryList x) s))(p := None)\<rparr> = s'"
    unfolding delete_table_def Let_def bind_eq_Some_conv option.inject by blast
  have "quiet (fold (\<lambda>(f, w). free_entry (Some w)) (m_pollEntryList x) s) s'"
    unfolding x [symmetric] by (simp add: quiet_def same_tables_def)
  then show ?thesis by (rule quiet_trans [OF quiet_free_entries])
qed

section \<open>Pipes and timers\<close>

lemma put_pipe_quiet:
  assumes "put_pipe f p' s = Some s'" and "pipe_at s f = Some p" and "m_readSide p' = m_readSide p" and "m_buf p' = m_buf p"
  shows "quiet s s'"
  using assms by (auto simp: put_pipe_def cores_pipe bind_eq_Some_conv fd_core_def intro!: put_file_quiet)

lemma put_timer_quiet: "put_timer f y' s = Some s' \<Longrightarrow> timer_at s f = Some y \<Longrightarrow> quiet s s'"
  by (auto simp: put_timer_def timer_at_iff bind_eq_Some_conv fd_core_def intro!: put_file_quiet)

lemma pipe_Close_unfold:
  "pipe_Close E f t s =
     do { p \<leftarrow> pipe_at s f;
          case m_peer p of
            None \<Rightarrow> Some (-1, set_err EBADF t s)
          | Some q \<Rightarrow>
              do { s1 \<leftarrow> put_pipe f (p\<lparr>m_peer := None\<rparr>) s;
                   (r, s2) \<leftarrow> pipe_Close E q t s1;
                   s3 \<leftarrow> WakeWaiters E POLLHUP f s2;
                   Some (0, s3) } }"
  by (subst pipe_Close.simps) simp

lemma quiet_pipe_Close: "pipe_Close E f t s = Some r \<Longrightarrow> quiet s (snd r)"
proof (induction E f t s r rule: pipe_Close.raw_induct [rotated, consumes 1])
  case (1 close E f t s r)
  then obtain p where p: "pipe_at s f = Some p" by (auto simp: bind_eq_Some_conv)
  show ?case
  proof (cases "m_peer p")
    case None
    with 1(2) p have "r = (-1, set_err EBADF t s)" by simp
    then show ?thesis by (simp add: quiet_updates)
  next
    case (Some q)
    with 1(2) p obtain s1 r2 s2 s3 where s1: "put_pipe f (p\<lparr>m_peer := None\<rparr>) s = Some s1"
      "close E q t s1 = Some (r2, s2)" "WakeWaiters E POLLHUP f s2 = Some s3" "r = (0, s3)"
      by (auto simp: bind_eq_Some_conv)
    have "quiet s s1" by (rule put_pipe_quiet [OF s1(1) p]) simp_all
    from quiet_trans [OF quiet_trans [OF this] quiet_WakeWaiters [OF s1(3)]] 1(1) [OF s1(2)] s1(4)
    show ?thesis by simp
  qed
qed

end
