(* ===== verification/Io_Pipes.thy ===== *)
theory Io_Pipes
  imports Io_Quiet
begin

text \<open>
  Every operation on a descriptor leaves the descriptor tables alone, and keeps the bytes of the
  pipes in order: what a pipe accepted is what it delivered followed by what is in its buffer.
\<close>

section \<open>The bytes of the pipes\<close>

fun sent :: "nat \<Rightarrow> traffic list \<Rightarrow> byte list" where
  "sent q [] = []"
| "sent q (Sent f bs # xs) = (if f = q then bs @ sent q xs else sent q xs)"
| "sent q (Received f bs # xs) = sent q xs"

fun received :: "nat \<Rightarrow> traffic list \<Rightarrow> byte list" where
  "received q [] = []"
| "received q (Sent f bs # xs) = received q xs"
| "received q (Received f bs # xs) = (if f = q then bs @ received q xs else received q xs)"

fun traffic_end :: "traffic \<Rightarrow> nat" where
  "traffic_end (Sent f bs) = f"
| "traffic_end (Received f bs) = f"

lemma traffic_append [simp]:
  "sent q (xs @ ys) = sent q xs @ sent q ys" "received q (xs @ ys) = received q xs @ received q ys"
  by (induction xs rule: sent.induct) auto

lemma no_traffic: "\<forall>x \<in> set xs. traffic_end x \<noteq> q \<Longrightarrow> sent q xs = [] \<and> received q xs = []"
  by (induction xs rule: sent.induct) auto

text \<open>What the code relies on from the C library.\<close>

definition env_ok :: "'x io_env \<Rightarrow> bool" where
  "env_ok E \<longleftrightarrow> malloc_ok (io_malloc E) \<and> (\<forall>n \<le> PIPE_CAPACITY. io_malloc E n \<noteq> None)"

definition buf_ok :: "nat \<Rightarrow> fifo \<Rightarrow> traffic list \<Rightarrow> bool" where
  "buf_ok q b xs \<longleftrightarrow> fifo_inv b \<and> m_maxSize b \<le> PIPE_CAPACITY \<and> sent q xs = received q xs @ fifo_abs b"

definition pipe_ok :: "'x io \<Rightarrow> bool" where
  "pipe_ok s \<longleftrightarrow> (\<forall>f. files s f \<noteq> None \<longrightarrow> f < next_new s) \<and> (\<forall>x \<in> set (moved s). traffic_end x < next_new s)
     \<and> (\<forall>f p. pipe_at s f = Some p \<longrightarrow> buf_ok f (m_buf p) (moved s))"

lemma pipe_okD:
  assumes "pipe_ok s"
  shows "files s f = Some x \<Longrightarrow> f < next_new s" "x' \<in> set (moved s) \<Longrightarrow> traffic_end x' < next_new s"
    "pipe_at s f = Some p \<Longrightarrow> buf_ok f (m_buf p) (moved s)"
  using assms by (auto simp: pipe_ok_def)

section \<open>Operations leave the tables alone\<close>

definition counts :: "'x io \<Rightarrow> nat \<Rightarrow> (int \<times> nat) option" where
  "counts s f = map_option (\<lambda>x. (m_fdCount x, m_refs x)) (files s f)"

definition flow :: "'x io \<Rightarrow> 'x io \<Rightarrow> bool" where
  "flow s s' \<longleftrightarrow> same_tables s s' \<and> next_new s \<le> next_new s' \<and> counts s' = counts s \<and> (pipe_ok s \<longrightarrow> pipe_ok s')"

lemma flow_refl [simp, intro]: "flow s s"
  by (simp add: flow_def same_tables_def)

lemma flow_trans: "flow s s1 \<Longrightarrow> flow s1 s2 \<Longrightarrow> flow s s2"
  by (simp add: flow_def same_tables_def)

lemma cores_pipe_at:
  assumes "cores s' = cores s" and "pipe_at s' f = Some p'"
  shows "\<exists>p. pipe_at s f = Some p \<and> m_buf p = m_buf p' \<and> m_readSide p = m_readSide p'"
proof -
  obtain x' where x': "files s' f = Some x'" "m_body x' = Pipe_end p'" using assms(2) by (auto simp: cores_pipe)
  have "cores s f = cores s' f" using assms(1) by simp
  also have "\<dots> = Some (fd_core x')" using x' by (simp add: cores_def)
  finally have "cores s f = Some (fd_core x')" .
  then obtain x where x: "files s f = Some x" "fd_core x = fd_core x'" by (auto simp: cores_def)
  with x' obtain p where "m_body x = Pipe_end p" "m_buf p = m_buf p'" "m_readSide p = m_readSide p'"
    by (cases "m_body x") (auto simp: fd_core_def)
  with x show ?thesis by (auto simp: cores_pipe)
qed

lemma cores_counts: "cores s' = cores s \<Longrightarrow> counts s' = counts s"
proof
  fix f
  assume "cores s' = cores s"
  then have "cores s' f = cores s f" by simp
  then show "counts s' f = counts s f" by (cases "files s f"; cases "files s' f") (auto simp: cores_def counts_def fd_core_def)
qed

lemma quiet_pipe_ok: "quiet s s' \<Longrightarrow> pipe_ok s \<Longrightarrow> pipe_ok s'"
proof -
  assume q: "quiet s s'" and ok: "pipe_ok s"
  note d = quietD [OF q]
  have "f < next_new s'" if "files s' f \<noteq> None" for f
  proof -
    have "files s f \<noteq> None" using that cores_None [of s' f] cores_None [of s f] d(7) by simp
    then show ?thesis using pipe_okD(1) [OF ok] d(6) by fastforce
  qed
  moreover have "traffic_end x < next_new s'" if "x \<in> set (moved s')" for x
    using that pipe_okD(2) [OF ok, of x] d(5,6) by auto
  moreover have "buf_ok f (m_buf p) (moved s')" if w: "pipe_at s' f = Some p" for f p
  proof -
    obtain p0 where "pipe_at s f = Some p0" "m_buf p0 = m_buf p" using cores_pipe_at [OF d(7) w] by blast
    with pipe_okD(3) [OF ok, of f p0] d(5) show ?thesis by simp
  qed
  ultimately show ?thesis by (auto simp: pipe_ok_def)
qed

lemma quiet_flow: "quiet s s' \<Longrightarrow> flow s s'"
  using quiet_pipe_ok cores_counts unfolding flow_def quiet_def by blast

fun res_state :: "'x io io_result \<Rightarrow> 'x io" where
  "res_state (Done v s) = s"
| "res_state (Blocked fs s) = s"

section \<open>Moving bytes\<close>

text \<open>The buffer of a pipe changes together with the history.\<close>

lemma move_flow:
  assumes f: "files s f = Some x" and b: "m_body x = Pipe_end p" and mv: "traffic_end y = f"
    and ok: "pipe_ok s \<Longrightarrow> buf_ok f b (moved s @ [y])"
    and s': "s' = note_moved y (put_file f (x\<lparr>m_body := Pipe_end (p\<lparr>m_buf := b\<rparr>)\<rparr>) s0)"
    and s0: "files s0 = files s" "moved s0 = moved s" "next_new s0 = next_new s" "same_tables s s0"
  shows "flow s s'"
proof -
  have n: "next_new s' = next_new s" and m: "moved s' = moved s @ [y]"
    and fs: "files s' = (files s)(f \<mapsto> x\<lparr>m_body := Pipe_end (p\<lparr>m_buf := b\<rparr>)\<rparr>)"
    by (simp_all add: s' s0 note_moved_def put_file_def)
  have "pipe_ok s'" if "pipe_ok s"
    unfolding pipe_ok_def n m
  proof (intro conjI allI impI ballI)
    fix g assume "files s' g \<noteq> None"
    then show "g < next_new s" using pipe_okD(1) [OF that] f by (cases "g = f") (auto simp: fs)
  next
    fix z assume "z \<in> set (moved s @ [y])"
    then show "traffic_end z < next_new s" using pipe_okD(1) [OF that f] pipe_okD(2) [OF that] mv by auto
  next
    fix g p' assume g: "pipe_at s' g = Some p'"
    show "buf_ok g (m_buf p') (moved s @ [y])"
    proof (cases "g = f")
      case True
      with g ok [OF that] show ?thesis by (auto simp: cores_pipe fs)
    next
      case False
      with g have "pipe_at s g = Some p'" by (auto simp: cores_pipe fs)
      with pipe_okD(3) [OF that] False mv no_traffic [of "[y]" g] show ?thesis by (auto simp: buf_ok_def)
    qed
  qed
  moreover have "counts s' = counts s" using f by (auto simp: counts_def fs fun_eq_iff)
  moreover have "same_tables s s'" using s0(4) by (simp add: s' same_tables_def note_moved_def put_file_def)
  ultimately show ?thesis by (simp add: flow_def n)
qed

text \<open>A buffer that is replaced by one with the same bytes.\<close>

lemma same_bytes_flow:
  assumes f: "files s f = Some x" and b: "m_body x = Pipe_end p"
    and ok: "pipe_ok s \<Longrightarrow> buf_ok f b (moved s)"
    and s': "s' = put_file f (x\<lparr>m_body := Pipe_end (p\<lparr>m_buf := b\<rparr>)\<rparr>) s0"
    and s0: "files s0 = files s" "moved s0 = moved s" "next_new s0 = next_new s" "same_tables s s0"
  shows "flow s s'"
proof -
  have n: "next_new s' = next_new s" and m: "moved s' = moved s"
    and fs: "files s' = (files s)(f \<mapsto> x\<lparr>m_body := Pipe_end (p\<lparr>m_buf := b\<rparr>)\<rparr>)"
    by (simp_all add: s' s0 put_file_def)
  have "pipe_ok s'" if "pipe_ok s"
    unfolding pipe_ok_def n m
  proof (intro conjI allI impI ballI)
    fix g assume "files s' g \<noteq> None"
    then show "g < next_new s" using pipe_okD(1) [OF that] f by (cases "g = f") (auto simp: fs)
  next
    fix z assume "z \<in> set (moved s)"
    then show "traffic_end z < next_new s" using pipe_okD(2) [OF that] by auto
  next
    fix g p' assume g: "pipe_at s' g = Some p'"
    show "buf_ok g (m_buf p') (moved s)"
      by (cases "g = f") (use g ok [OF that] pipe_okD(3) [OF that, of g] in \<open>auto simp: cores_pipe fs\<close>)
  qed
  moreover have "counts s' = counts s" using f by (auto simp: counts_def fs fun_eq_iff)
  moreover have "same_tables s s'" using s0(4) by (simp add: s' same_tables_def put_file_def)
  ultimately show ?thesis by (simp add: flow_def n)
qed

lemma put_pipe_Some:
  "pipe_at s f = Some p \<Longrightarrow> \<exists>x. files s f = Some x \<and> m_body x = Pipe_end p
    \<and> put_pipe f p' s = Some (put_file f (x\<lparr>m_body := Pipe_end p'\<rparr>) s)"
  by (auto simp: cores_pipe put_pipe_def)

lemma free_entry_flow: "flow s s1 \<Longrightarrow> flow s (free_entry w s1)"
  by (rule flow_trans [OF _ quiet_flow]) (auto simp: quiet_intros)

lemma fails_flow: "flow s s1 \<Longrightarrow> flow s (res_state (io_fails e t s1))"
  by (rule flow_trans [OF _ quiet_flow]) (auto simp: io_fails_def quiet_intros)

lemma wait_entry_quiet: "wait_entry_for E em wq s = (e, s') \<Longrightarrow> quiet s s'"
  by (auto simp: wait_entry_for_def WaitQueueEntryTimeout_def intro: quiet_new_entry split: option.split_asm)

text \<open>The end of a loop that finds nothing to do: a failure, or the sleep in the wait queue of \<open>q\<close>.\<close>

lemma sleep_flow:
  assumes "wait_entry_for E em wq s1 = (e, s2)" and "AddWaitQueue q e True t s2 = Some s3"
    and "entry_Wait E e t s3 = Some (to, s4)"
    and "(case to of Some d \<Rightarrow> Some (Blocked [fr d] s4)
      | None \<Rightarrow> do { s5 \<leftarrow> RemoveWaitQueue q e True t s4; Some (io_fails EAGAIN t (free_entry (Some e) s5)) })
      = Some r'"
  shows "quiet s1 (res_state r')"
proof -
  have q4: "quiet s1 s4"
    using quiet_trans [OF quiet_trans [OF wait_entry_quiet [OF assms(1)] quiet_AddWaitQueue [OF assms(2)]]
      quiet_entry_Wait [OF assms(3)]] .
  show ?thesis
  proof (cases to)
    case None
    with assms(4) obtain s5 where s5: "RemoveWaitQueue q e True t s4 = Some s5"
      "r' = io_fails EAGAIN t (free_entry (Some e) s5)" by (auto simp: bind_eq_Some_conv)
    have "quiet s1 s5" using q4 quiet_RemoveWaitQueue [OF s5(1)] quiet_trans by blast
    then have "quiet s1 (set_err EAGAIN t (free_entry (Some e) s5))"
      using quiet_updates(1,4) quiet_trans by blast
    then show ?thesis by (simp add: s5(2) io_fails_def)
  qed (use assms(4) q4 in auto)
qed

lemma buf_ok_ready: "env_ok E \<Longrightarrow> buf_ok q b xs \<Longrightarrow> malloc_ok (io_malloc E) \<and> (\<forall>n \<le> m_maxSize b. io_malloc E n \<noteq> None)"
  by (auto simp: env_ok_def buf_ok_def)

text \<open>What a write into the buffer of a pipe makes of it.\<close>

lemma write_buf:
  assumes E: "env_ok E" and ok: "buf_ok q b xs" and len: "unat len < 2 ^ 62" and bs: "length bs = unat len"
    and w: "fifo_Write (io_malloc E) b bs len = Some (r, b')"
  shows "0 \<le> r" and "buf_ok q b' (xs @ [Sent q (take (nat r) bs)])"
proof -
  have inv: "fifo_inv b" using ok by (simp add: buf_ok_def)
  note m = buf_ok_ready [OF E ok]
  from fifo_Write_refines [OF inv _ len, of bs "io_malloc E"] m bs w
  have r: "r = int (min (unat len) (unat (m_maxSize b) - length (fifo_abs b)))" and b': "fifo_inv b'" "m_maxSize b' = m_maxSize b"
    and a: "fifo_abs b' = fifo_abs b @ take (unat (m_maxSize b) - length (fifo_abs b)) (take (unat len) bs)" by auto
  show "0 \<le> r" by (simp add: r)
  have "take (nat r) bs = take (unat (m_maxSize b) - length (fifo_abs b)) (take (unat len) bs)"
    by (simp add: r min.commute)
  with ok b' a show "buf_ok q b' (xs @ [Sent q (take (nat r) bs)])" by (simp add: buf_ok_def)
qed

lemma read_buf:
  assumes ok: "buf_ok q b xs" and w: "fifo_Read b len = Some (r, bs, b')"
  shows "r = int (length bs)" and "buf_ok q b' (xs @ [Received q bs])"
proof -
  have inv: "fifo_inv b" using ok by (simp add: buf_ok_def)
  from fifo_Read_refines [OF inv, of len] w have r: "r = int (min (unat len) (length (fifo_abs b)))"
    and bs: "bs = take (unat len) (fifo_abs b)" and b': "fifo_inv b'" "m_maxSize b' = m_maxSize b"
    and a: "fifo_abs b' = drop (unat len) (fifo_abs b)" by auto
  show "r = int (length bs)" by (simp add: r bs min.commute)
  show "buf_ok q b' (xs @ [Received q bs])" using ok b' by (simp add: buf_ok_def bs a)
qed

lemma buf_ok_nothing: "buf_ok q b (xs @ [Sent q []]) \<Longrightarrow> buf_ok q b xs" "buf_ok q b (xs @ [Received q []]) \<Longrightarrow> buf_ok q b xs"
  by (simp_all add: buf_ok_def)

lemma user_bytes_length: "user_bytes buf len s = Some bs \<Longrightarrow> length bs = unat len \<and> unat len < 2 ^ 62"
  by (auto simp: user_bytes_def split: if_split_asm)

lemma recv_loop_flow:
  assumes E: "env_ok E" and r: "recv_loop E q buf len wq t s = Some r"
  shows "flow s (res_state r)"
proof -
  obtain p bs v b s1 where p: "pipe_at s q = Some p" and bs: "user_bytes buf len s = Some bs"
    and v: "fifo_Write (io_malloc E) (m_buf p) bs len = Some (v, b)" and s1: "put_pipe q (p\<lparr>m_buf := b\<rparr>) s = Some s1"
    using r by (auto simp: recv_loop_def bind_eq_Some_conv)
  obtain x where x: "files s q = Some x" "m_body x = Pipe_end p"
    and s1': "s1 = put_file q (x\<lparr>m_body := Pipe_end (p\<lparr>m_buf := b\<rparr>)\<rparr>) s"
    using put_pipe_Some [OF p, of "p\<lparr>m_buf := b\<rparr>"] s1 by auto
  note len = user_bytes_length [OF bs]
  have wb: "0 \<le> v \<and> buf_ok q b (moved s @ [Sent q (take (nat v) bs)])" if "pipe_ok s"
    using write_buf [OF E pipe_okD(3) [OF that p] conjunct2 [OF len] conjunct1 [OF len] v] by blast
  show ?thesis
  proof (cases "v > 0")
    case True
    have f: "flow s (note_moved (Sent q (take (nat v) bs)) s1)"
      by (rule move_flow [OF x(1,2) _ _ arg_cong [OF s1', of "note_moved (Sent q (take (nat v) bs))"]]) (use wb in \<open>auto simp: same_tables_def\<close>)
    from True r p bs v s1 obtain s2 where
      "WakeWaiters E POLLIN q (note_moved (Sent q (take (nat v) bs)) s1) = Some s2" "r = Done v (free_entry wq s2)"
      by (auto simp: recv_loop_def bind_eq_Some_conv)
    with free_entry_flow [OF flow_trans [OF f quiet_flow [OF quiet_WakeWaiters]]] show ?thesis by simp
  next
    case False
    have f: "flow s s1"
      by (rule same_bytes_flow [OF x(1,2) _ s1']) (use wb False buf_ok_nothing(1) in \<open>auto simp: same_tables_def\<close>)
    from False r p bs v s1 obtain w y where w: "pipe_at s1 w = Some y"
      and tl: "(if pipe_flags y AND O_NONBLOCK \<noteq> 0 then Some (io_fails EAGAIN t (free_entry wq s1))
        else let (e, s2) = wait_entry_for E (POLLOUT OR POLLHUP) wq s1 in
             do { s3 \<leftarrow> AddWaitQueue q e True t s2;
                  (to, s4) \<leftarrow> entry_Wait E e t s3;
                  case to of Some d \<Rightarrow> Some (Blocked [Recv_wait q buf len e d] s4)
                  | None \<Rightarrow> do { s5 \<leftarrow> RemoveWaitQueue q e True t s4;
                               Some (io_fails EAGAIN t (free_entry (Some e) s5)) } }) = Some r"
      by (auto simp: recv_loop_def bind_eq_Some_conv)
    show ?thesis
    proof (cases "pipe_flags y AND O_NONBLOCK \<noteq> 0")
      case True
      with tl have "r = io_fails EAGAIN t (free_entry wq s1)" by simp
      with fails_flow [OF free_entry_flow [OF f]] show ?thesis by simp
    next
      case False
      obtain e s2 where e: "wait_entry_for E (POLLOUT OR POLLHUP) wq s1 = (e, s2)" by fastforce
      with False tl obtain s3 to s4 where s3: "AddWaitQueue q e True t s2 = Some s3" "entry_Wait E e t s3 = Some (to, s4)"
        and c: "(case to of Some d \<Rightarrow> Some (Blocked [Recv_wait q buf len e d] s4)
          | None \<Rightarrow> do { s5 \<leftarrow> RemoveWaitQueue q e True t s4; Some (io_fails EAGAIN t (free_entry (Some e) s5)) }) = Some r"
        by (auto simp: bind_eq_Some_conv)
      from quiet_flow [OF sleep_flow [OF e s3 c]] f show ?thesis by (blast intro: flow_trans)
    qed
  qed
qed

lemma store_bytes_same: "files (store_bytes buf bs s) = files s" "moved (store_bytes buf bs s) = moved s"
  "next_new (store_bytes buf bs s) = next_new s" "same_tables s (store_bytes buf bs s)"
  "pipe_at (store_bytes buf bs s) f = pipe_at s f"
  by (simp_all add: store_bytes_def same_tables_def pipe_at_def)

lemma read_loop_flow:
  assumes r: "read_loop E f buf count wq t s = Some r"
  shows "flow s (res_state r)"
proof -
  obtain p v bs b s1 where p: "pipe_at s f = Some p" and v: "fifo_Read (m_buf p) count = Some (v, bs, b)"
    and s1: "put_pipe f (p\<lparr>m_buf := b\<rparr>) (store_bytes buf bs s) = Some s1"
    using r by (auto simp: read_loop_def bind_eq_Some_conv)
  have p0: "pipe_at (store_bytes buf bs s) f = Some p" using p by (simp add: store_bytes_same)
  obtain x where x: "files s f = Some x" "m_body x = Pipe_end p"
    and s1': "s1 = put_file f (x\<lparr>m_body := Pipe_end (p\<lparr>m_buf := b\<rparr>)\<rparr>) (store_bytes buf bs s)"
    using put_pipe_Some [OF p0, of "p\<lparr>m_buf := b\<rparr>"] s1 by (auto simp: store_bytes_same)
  have wb: "v = int (length bs) \<and> buf_ok f b (moved s @ [Received f bs])" if "pipe_ok s"
    using read_buf [OF pipe_okD(3) [OF that p] v] by blast
  show ?thesis
  proof (cases "v > 0")
    case True
    let ?s1 = "note_moved (Received f bs) s1"
    have f: "flow s ?s1"
      by (rule move_flow [OF x(1,2) _ _ arg_cong [OF s1', of "note_moved (Received f bs)"]])
        (use wb in \<open>auto simp: store_bytes_same\<close>)
    from True r p v s1 obtain s2 s3 where
      "(case m_peer p of None \<Rightarrow> Some ?s1 | Some q \<Rightarrow> WakeWaiters E POLLOUT q ?s1) = Some s2"
      and s3: "WakeWaiters E POLLOUT f s2 = Some s3" "r = Done v (free_entry wq s3)"
      by (auto simp: read_loop_def bind_eq_Some_conv Let_def)
    then have "quiet ?s1 s2" by (auto intro: quiet_WakeWaiters split: option.split_asm)
    from free_entry_flow [OF flow_trans [OF f quiet_flow [OF quiet_trans [OF this quiet_WakeWaiters [OF s3(1)]]]]] s3(2)
    show ?thesis by simp
  next
    case False
    have f: "flow s s1"
      by (rule same_bytes_flow [OF x(1,2) _ s1'])
        (use wb False buf_ok_nothing(2) in \<open>auto simp: store_bytes_same\<close>)
    from False r p v s1 have
      tl: "(if m_peer p = None then Some (io_fails EPIPE t (free_entry wq s1))
        else if pipe_flags p AND O_NONBLOCK \<noteq> 0 then Some (io_fails EAGAIN t (free_entry wq s1))
        else let (e, s2) = wait_entry_for E (POLLIN OR POLLHUP) wq s1 in
             do { s3 \<leftarrow> AddWaitQueue f e True t s2;
                  (to, s4) \<leftarrow> entry_Wait E e t s3;
                  case to of Some d \<Rightarrow> Some (Blocked [Read_wait f buf count e d] s4)
                  | None \<Rightarrow> do { s5 \<leftarrow> RemoveWaitQueue f e True t s4;
                               Some (io_fails EAGAIN t (free_entry (Some e) s5)) } }) = Some r"
      by (simp add: read_loop_def)
    show ?thesis
    proof (cases "m_peer p = None \<or> pipe_flags p AND O_NONBLOCK \<noteq> 0")
      case True
      with tl have "r = io_fails EPIPE t (free_entry wq s1) \<or> r = io_fails EAGAIN t (free_entry wq s1)"
        by (auto split: if_split_asm)
      with fails_flow [OF free_entry_flow [OF f]] show ?thesis by blast
    next
      case False
      obtain e s2 where e: "wait_entry_for E (POLLIN OR POLLHUP) wq s1 = (e, s2)" by fastforce
      with False tl obtain s3 to s4 where s3: "AddWaitQueue f e True t s2 = Some s3" "entry_Wait E e t s3 = Some (to, s4)"
        and c: "(case to of Some d \<Rightarrow> Some (Blocked [Read_wait f buf count e d] s4)
          | None \<Rightarrow> do { s5 \<leftarrow> RemoveWaitQueue f e True t s4; Some (io_fails EAGAIN t (free_entry (Some e) s5)) }) = Some r"
        by (auto simp: bind_eq_Some_conv)
      from quiet_flow [OF sleep_flow [OF e s3 c]] f show ?thesis by (blast intro: flow_trans)
    qed
  qed
qed

text \<open>What a woken call does first.\<close>

lemma woken_flow:
  assumes "(do { (res, s1) \<leftarrow> entry_woken w to t s;
          s2 \<leftarrow> RemoveWaitQueue q w True t s1;
          case res of
            OK \<Rightarrow> k s2
          | INTERRUPTED \<Rightarrow> Some (io_fails EINTR t (free_entry (Some w) (UtilsDoSignal t s2)))
          | TIMEOUT \<Rightarrow> Some (io_fails EAGAIN t (free_entry (Some w) s2)) }) = Some r"
    and k: "\<And>s2. k s2 = Some r \<Longrightarrow> flow s2 (res_state r)"
  shows "flow s (res_state r)"
proof -
  obtain res s1 s2 where s1: "entry_woken w to t s = Some (res, s1)" "RemoveWaitQueue q w True t s1 = Some s2"
    and c: "(case res of OK \<Rightarrow> k s2
          | INTERRUPTED \<Rightarrow> Some (io_fails EINTR t (free_entry (Some w) (UtilsDoSignal t s2)))
          | TIMEOUT \<Rightarrow> Some (io_fails EAGAIN t (free_entry (Some w) s2))) = Some r"
    using assms(1) by (auto simp: bind_eq_Some_conv)
  have f: "flow s s2"
    by (rule quiet_flow [OF quiet_trans [OF quiet_entry_woken [OF s1(1)] quiet_RemoveWaitQueue [OF s1(2)]]])
  show ?thesis
  proof (cases res)
    case INTERRUPTED
    with c have "r = io_fails EINTR t (free_entry (Some w) (UtilsDoSignal t s2))" by simp
    moreover have "flow s (UtilsDoSignal t s2)" using f quiet_flow [OF quiet_DoSignal] flow_trans by blast
    ultimately show ?thesis using fails_flow free_entry_flow by blast
  next
    case TIMEOUT
    with c have "r = io_fails EAGAIN t (free_entry (Some w) s2)" by simp
    with f show ?thesis using fails_flow free_entry_flow by blast
  next
    case OK
    with c k [of s2] f flow_trans show ?thesis by auto
  qed
qed

lemma recv_woken_flow: "env_ok E \<Longrightarrow> recv_woken E q buf len w to t s = Some r \<Longrightarrow> flow s (res_state r)"
  unfolding recv_woken_def by (erule woken_flow) (rule recv_loop_flow)

lemma read_woken_flow: "read_woken E f buf count w to t s = Some r \<Longrightarrow> flow s (res_state r)"
  unfolding read_woken_def by (erule woken_flow) (rule read_loop_flow)

lemma write_return_flow: "write_return E f v s = Some r \<Longrightarrow> flow s (res_state r)"
  by (auto simp: write_return_def Let_def bind_eq_Some_conv split: if_split_asm intro: quiet_flow [OF quiet_WakeWaiters])

lemma and_then_flow:
  assumes "and_then fr k r0 = Some r" and "flow s (res_state r0)"
    and "\<And>v s1. k v s1 = Some r \<Longrightarrow> flow s1 (res_state r)"
  shows "flow s (res_state r)"
  using assms by (cases r0) (auto intro: flow_trans)

lemma pipe_Write_flow:
  assumes "env_ok E" and "pipe_Write E f buf count t s = Some r"
  shows "flow s (res_state r)"
proof -
  obtain p where p: "pipe_at s f = Some p" using assms(2) by (auto simp: pipe_Write_def bind_eq_Some_conv)
  show ?thesis
  proof (cases "m_peer p")
    case None
    with assms(2) p obtain s1 where "UtilsSendSignal E (pid_of s t) SIGPIPE s = Some s1"
      "r = io_fails EPIPE t (UtilsDoSignal t s1)" by (auto simp: pipe_Write_def bind_eq_Some_conv)
    with fails_flow [OF quiet_flow [OF quiet_trans [OF quiet_SendSignal quiet_DoSignal]]] show ?thesis by blast
  next
    case (Some q)
    with assms(2) p have "r = io_fails EBADF t s \<or> (\<exists>r0. recv_loop E q buf count None t s = Some r0
        \<and> and_then (Write_return f) (write_return E f) r0 = Some r)"
      by (auto simp: pipe_Write_def bind_eq_Some_conv split: if_split_asm)
    then show ?thesis
      by (elim disjE exE conjE)
        (auto intro: fails_flow and_then_flow recv_loop_flow [OF assms(1)] write_return_flow)
  qed
qed

lemma pipe_Read_flow: "pipe_Read E f buf count t s = Some r \<Longrightarrow> flow s (res_state r)"
  by (auto simp: pipe_Read_def bind_eq_Some_conv split: if_split_asm intro: read_loop_flow fails_flow)

section \<open>The other operations\<close>

lemma pipe_Fcntl_quiet: "pipe_Fcntl f cmd arg s = Some r \<Longrightarrow> quiet s (res_state r)"
  by (auto simp: pipe_Fcntl_def bind_eq_Some_conv split: if_split_asm intro: put_pipe_quiet)

lemma pipe_other_quiet:
  "pipe_socket_op op t s = Some r \<Longrightarrow> quiet s (res_state r)" "pipe_file_op op t s = Some r \<Longrightarrow> quiet s (res_state r)"
  "pipe_timer_op op t s = Some r \<Longrightarrow> quiet s (res_state r)"
  by (cases op; auto simp: io_fails_def quiet_intros)+

lemma pipe_others_quiet:
  "(case pipe_socket_op op t s of Some r \<Rightarrow> Some r
    | None \<Rightarrow> (case pipe_file_op op t s of Some r \<Rightarrow> Some r | None \<Rightarrow> pipe_timer_op op t s)) = Some r \<Longrightarrow>
   quiet s (res_state r)"
  by (auto split: option.split_asm intro: pipe_other_quiet)

lemma pipe_op_flow: "env_ok E \<Longrightarrow> pipe_op E op f t s = Some r \<Longrightarrow> flow s (res_state r)"
  by (cases op)
    (auto simp del: pipe_socket_op.simps pipe_file_op.simps pipe_timer_op.simps
      intro: pipe_Write_flow pipe_Read_flow quiet_flow pipe_Fcntl_quiet pipe_others_quiet)

lemma timer_at_same: "files s' = files s \<Longrightarrow> timer_at s' f = timer_at s f"
  by (simp add: timer_at_def)

lemma on_sim_files [simp]: "files (on_sim g s) = files s" "files (timer_Cancel E y s) = files s"
  "files (store_bytes buf bs s) = files s"
  by (simp_all add: on_sim_def timer_Cancel_def store_bytes_def split: option.split)

lemma wake_waiter_quiet: "wake_waiter E y s = Some s' \<Longrightarrow> quiet s s'"
  by (auto simp: wake_waiter_def split: option.split_asm intro: quiet_Wakeup)

lemma timer_Close_quiet: "timer_Close E f s = Some r \<Longrightarrow> quiet s (snd r)"
  by (auto simp: timer_Close_def bind_eq_Some_conv intro: quiet_trans [OF quiet_updates(14) wake_waiter_quiet])

text \<open>A timer is put back after parts of the state that do not concern the files have changed.\<close>

lemma put_timer_after: "put_timer f y' s0 = Some s' \<Longrightarrow> timer_at s f = Some y \<Longrightarrow> files s0 = files s \<Longrightarrow> quiet s s0 \<Longrightarrow> quiet s s'"
  using put_timer_quiet [of f y' s0 s' y] timer_at_same [of s0 s f] quiet_trans [of s s0 s'] by simp

lemma timer_taken_quiet:
  assumes "timer_taken f buf y' s = Some r" and "timer_at s f = Some y"
  shows "quiet s (res_state r)"
  using assms by (auto simp: timer_taken_def bind_eq_Some_conv quiet_intros intro: put_timer_after)

lemma timer_Read_quiet: "timer_Read E f buf count t s = Some r \<Longrightarrow> quiet s (res_state r)"
  by (auto simp: timer_Read_def bind_eq_Some_conv io_fails_def quiet_intros split: if_split_asm
      intro: timer_taken_quiet quiet_trans [OF put_timer_quiet quiet_Wait])

lemma timer_woken_quiet: "timer_woken f buf s = Some r \<Longrightarrow> quiet s (res_state r)"
  by (auto simp: timer_woken_def bind_eq_Some_conv intro: timer_taken_quiet)

lemma schedule_timer_quiet: "schedule_timer E d f s = (i, s') \<Longrightarrow> quiet s s' \<and> files s' = files s"
  by (auto simp: schedule_timer_def quiet_intros split: prod.split_asm)

lemma SettimeMain_quiet:
  assumes "SettimeMain E d f s = Some s'"
  shows "quiet s s'"
proof -
  obtain i s1 where i: "schedule_timer E d f s = (i, s1)" by fastforce
  with assms obtain y where "timer_at s f = Some y" "put_timer f (y\<lparr>m_timer := Some i\<rparr>) s1 = Some s'"
    by (auto simp: SettimeMain_def bind_eq_Some_conv)
  with schedule_timer_quiet [OF i] show ?thesis by (auto intro: put_timer_after)
qed

lemma TimerExpired_quiet:
  assumes "TimerExpired E f s = Some s'"
  shows "quiet s s'"
proof -
  obtain y where y: "timer_at s f = Some y" using assms by (auto simp: TimerExpired_def bind_eq_Some_conv)
  obtain y1 s1 where ys: "(if m_period y \<noteq> 0 then let (i, s') = schedule_timer E (m_period y) f s
      in (y\<lparr>m_timer := Some i\<rparr>, s') else (y, s)) = (y1, s1)" by fastforce
  then have "quiet s s1 \<and> files s1 = files s" by (auto split: if_split_asm prod.split_asm dest: schedule_timer_quiet)
  moreover obtain s2 where "put_timer f (y1\<lparr>m_skipped := m_skipped y1 + 1\<rparr>) s1 = Some s2" "wake_waiter E y1 s2 = Some s'"
    using assms ys y by (auto simp: TimerExpired_def bind_eq_Some_conv)
  ultimately show ?thesis using put_timer_after [OF _ y] wake_waiter_quiet quiet_trans by blast
qed

lemma timer_Gettime_quiet: "timer_Gettime E f a s = Some r \<Longrightarrow> quiet s (snd r) \<and> files (snd r) = files s"
  by (auto simp: timer_Gettime_def bind_eq_Some_conv Let_def quiet_def same_tables_def)

lemma timer_Settime_quiet:
  assumes "timer_Settime E f flags a b s = Some r"
  shows "quiet s (res_state r)"
proof -
  obtain s1 y where s1: "(case b of None \<Rightarrow> Some s | Some a \<Rightarrow> do { (r, s') \<leftarrow> timer_Gettime E f a s; Some s' }) = Some s1"
    and y: "timer_at s1 f = Some y"
    using assms by (auto simp: timer_Settime_def bind_eq_Some_conv split: if_split_asm)
  have q1: "quiet s s1" using s1 timer_Gettime_quiet by (fastforce simp: bind_eq_Some_conv split: option.split_asm)
  from assms s1 y obtain s3 s4 where s3: "put_timer f (y\<lparr>m_skipped := 0,
        m_period := UtilsTimespecToTime (it_interval (itimers s1 a))\<rparr>) (timer_Cancel E y s1) = Some s3"
    and s4: "(if UtilsTimespecToTime (it_value (itimers s1 a)) \<noteq> 0
        then SettimeMain E (UtilsTimespecToTime (it_value (itimers s1 a))) f (s3\<lparr>io_tm := ExecOnMain (\<lambda>m. m) (io_tm s3)\<rparr>)
        else Some s3) = Some s4" and r: "r = Done 0 s4"
    unfolding timer_Settime_def Let_def by (force simp: bind_eq_Some_conv split: if_split_asm)
  have "quiet s1 s3" by (rule put_timer_after [OF s3 y]) (auto simp: quiet_intros)
  moreover have "quiet s3 s4"
    using s4 quiet_trans [OF quiet_updates(5) SettimeMain_quiet] by (auto split: if_split_asm)
  ultimately have "quiet s s4" using q1 quiet_trans by blast
  then show ?thesis by (simp add: r)
qed

lemma timer_other_quiet: "timer_socket_op op t s = Some r \<Longrightarrow> quiet s (res_state r)"
  "timer_file_op op t s = Some r \<Longrightarrow> quiet s (res_state r)"
  by (cases op; auto simp: io_fails_def quiet_intros)+

lemma timer_others_quiet:
  "(case timer_socket_op op t s of Some r \<Rightarrow> Some r | None \<Rightarrow> timer_file_op op t s) = Some r \<Longrightarrow> quiet s (res_state r)"
  by (auto split: option.split_asm intro: timer_other_quiet)

lemma timer_op_quiet: "timer_op E op f t s = Some r \<Longrightarrow> quiet s (res_state r)"
proof (cases op)
  case (Op_Gettime a)
  then show "timer_op E op f t s = Some r \<Longrightarrow> ?thesis"
    using timer_Gettime_quiet by (fastforce simp: bind_eq_Some_conv)
qed (auto simp: timer_Write_def timer_Ftruncate_def io_fails_def quiet_intros
    simp del: timer_socket_op.simps timer_file_op.simps
    intro: timer_Read_quiet timer_Settime_quiet timer_others_quiet)

lemma file_op_flow:
  assumes "env_ok E" and "file_op E op f t s = Some r"
  shows "flow s (res_state r)"
proof -
  obtain x where x: "files s f = Some x" using assms(2) by (auto simp: file_op_def bind_eq_Some_conv)
  with assms show ?thesis
    by (cases "m_body x") (auto simp: file_op_def intro: pipe_op_flow quiet_flow [OF timer_op_quiet])
qed

lemma file_Close_quiet:
  assumes "file_Close E f t s = Some r"
  shows "quiet s (snd r)"
proof -
  obtain x where x: "files s f = Some x" using assms by (auto simp: file_Close_def bind_eq_Some_conv)
  with assms show ?thesis
    by (cases "m_body x") (auto simp: file_Close_def intro: quiet_pipe_Close timer_Close_quiet)
qed

lemma pipe_Poll_quiet: "pipe_Poll f tb t s = Some r \<Longrightarrow> quiet s (snd r)"
  by (auto simp: pipe_Poll_def bind_eq_Some_conv split: option.split_asm intro: quiet_PollWait)

lemma timer_Poll_quiet: "timer_Poll f tb t s = Some r \<Longrightarrow> quiet s (snd r)"
  by (auto simp: timer_Poll_def Let_def bind_eq_Some_conv split: option.split_asm intro: quiet_PollWait)

lemma file_Poll_quiet:
  assumes "file_Poll f tb t s = Some r"
  shows "quiet s (snd r)"
proof -
  obtain x where x: "files s f = Some x" using assms by (auto simp: file_Poll_def bind_eq_Some_conv)
  with assms show ?thesis
    by (cases "m_body x") (auto simp: file_Poll_def intro: pipe_Poll_quiet timer_Poll_quiet)
qed

end
