(* ===== verification/Io_Tables.thy ===== *)
theory Io_Tables
  imports Io_Pipes
begin

text \<open>
  The invariant of the descriptor tables: every entry of a table names a \<open>FileUsage\<close> of its own, the
  file it stands for exists, and the two counts of a file are the number of its entries in all
  processes. A call in the middle of which a thread is suspended keeps its entry.
\<close>

section \<open>The invariant\<close>

definition users :: "(nat \<rightharpoonup> file_usage) \<Rightarrow> nat \<Rightarrow> nat set" where
  "users us f = {u. \<exists>x. us u = Some x \<and> u_file x = f}"

definition tables_ok ::
  "(nat \<rightharpoonup> file_usage) \<Rightarrow> (pid \<Rightarrow> int \<rightharpoonup> nat) \<Rightarrow> (nat \<Rightarrow> (int \<times> nat) option) \<Rightarrow> nat \<Rightarrow> bool" where
  "tables_ok us fds cs n \<longleftrightarrow>
     finite (dom us)
     \<and> (\<forall>u x. us u = Some x \<longrightarrow> u < n \<and> (\<exists>p. fds p (u_fd x) = Some u) \<and> cs (u_file x) \<noteq> None)
     \<and> (\<forall>p fd u. fds p fd = Some u \<longrightarrow> (\<exists>x. us u = Some x \<and> u_fd x = fd))
     \<and> (\<forall>p p' fd u. fds p fd = Some u \<and> fds p' fd = Some u \<longrightarrow> p = p')
     \<and> (\<forall>f k c. cs f = Some (k, c) \<longrightarrow> f < n \<and> k = int (card (users us f)) \<and> c = card (users us f) \<and> 0 < c)"

text \<open>The entries that the frames of a suspended call use.\<close>

fun frame_held :: "io_frame \<Rightarrow> (int \<times> nat) set" where
  "frame_held (Method_return fd u narrow) = {(fd, u)}"
| "frame_held (Poll_wait arr nfds timeout endtime table toUnRef) = set toUnRef"
| "frame_held fr = {}"

definition held_of :: "io_frame list \<Rightarrow> (int \<times> nat) set" where
  "held_of fs = (\<Union>fr \<in> set fs. frame_held fr)"

fun frame_distinct :: "io_frame \<Rightarrow> bool" where
  "frame_distinct (Poll_wait arr nfds timeout endtime table toUnRef) = distinct (map fst toUnRef)"
| "frame_distinct fr = True"

text \<open>At most one frame of a call uses entries.\<close>

fun holder :: "io_frame \<Rightarrow> bool" where
  "holder (Method_return fd u narrow) = True"
| "holder (Poll_wait arr nfds timeout endtime table toUnRef) = True"
| "holder fr = False"

fun apart :: "io_frame list \<Rightarrow> bool" where
  "apart [] = True"
| "apart (fr # fs) = ((holder fr \<longrightarrow> held_of fs = {}) \<and> frame_distinct fr \<and> apart fs)"

definition holds_ok ::
  "(task \<Rightarrow> (int \<times> nat) set) \<Rightarrow> (nat \<rightharpoonup> file_usage) \<Rightarrow> (pid \<Rightarrow> int \<rightharpoonup> nat) \<Rightarrow> (task \<Rightarrow> pid) \<Rightarrow> bool" where
  "holds_ok h us fds pids \<longleftrightarrow>
     (\<forall>t fd u. (fd, u) \<in> h t \<longrightarrow> fds (pids t) fd = Some u)
     \<and> (\<forall>u x. us u = Some x \<longrightarrow> finite {t. (u_fd x, u) \<in> h t} \<and> int (card {t. (u_fd x, u) \<in> h t}) \<le> u_count x)"

definition fd_inv :: "(task \<Rightarrow> (int \<times> nat) set) \<Rightarrow> 'x io \<Rightarrow> bool" where
  "fd_inv h s \<longleftrightarrow> tables_ok (usages s) (openFiles s) (counts s) (next_new s)
     \<and> holds_ok h (usages s) (openFiles s) (pid_of s) \<and> pipe_ok s"

definition held :: "'x io \<Rightarrow> task \<Rightarrow> (int \<times> nat) set" where
  "held s t = held_of (frames s t)"

text \<open>The invariant of a node between two steps.\<close>

definition io_inv :: "'x io \<Rightarrow> bool" where
  "io_inv s \<longleftrightarrow> fd_inv (held s) s \<and> (\<forall>t. apart (frames s t))"

lemma held_of_simps [simp]: "held_of [] = {}" "held_of (fr # fs) = frame_held fr \<union> held_of fs"
  "held_of (fs @ gs) = held_of fs \<union> held_of gs"
  by (auto simp: held_of_def)

lemma apart_append:
  "apart fs \<Longrightarrow> apart gs \<Longrightarrow> held_of gs = {} \<or> (\<forall>fr \<in> set fs. \<not> holder fr) \<Longrightarrow> apart (fs @ gs)"
  by (induction fs) auto

lemma apart_tail: "apart (fs @ gs) \<Longrightarrow> apart gs"
  by (induction fs) auto

lemma tables_okD:
  assumes "tables_ok us fds cs n"
  shows "finite (dom us)" "us u = Some x \<Longrightarrow> u < n" "us u = Some x \<Longrightarrow> \<exists>p. fds p (u_fd x) = Some u"
    "us u = Some x \<Longrightarrow> cs (u_file x) \<noteq> None" "fds p fd = Some u \<Longrightarrow> \<exists>x. us u = Some x \<and> u_fd x = fd"
    "fds p fd = Some u \<Longrightarrow> fds p' fd = Some u \<Longrightarrow> p = p'"
    "cs f = Some (k, c) \<Longrightarrow> f < n \<and> k = int (card (users us f)) \<and> c = card (users us f) \<and> 0 < c"
  using assms unfolding tables_ok_def by blast+

lemma counts_upd [simp]: "counts (s\<lparr>usages := a1\<rparr>) = counts s" "counts (s\<lparr>openFiles := a2\<rparr>) = counts s"
  "counts (s\<lparr>frames := a3\<rparr>) = counts s" "counts (s\<lparr>next_new := a4\<rparr>) = counts s" "counts (s\<lparr>fd_pair := a5\<rparr>) = counts s"
  "counts (s\<lparr>pid_of := a6\<rparr>) = counts s" "counts (s\<lparr>threads := a7\<rparr>) = counts s"
  by (simp_all add: counts_def fun_eq_iff)

lemma pipe_ok_upd [simp]: "pipe_ok (s\<lparr>usages := a1\<rparr>) = pipe_ok s" "pipe_ok (s\<lparr>openFiles := a2\<rparr>) = pipe_ok s"
  "pipe_ok (s\<lparr>frames := a3\<rparr>) = pipe_ok s" "pipe_ok (s\<lparr>fd_pair := a5\<rparr>) = pipe_ok s"
  "pipe_ok (s\<lparr>pid_of := a6\<rparr>) = pipe_ok s" "pipe_ok (s\<lparr>threads := a7\<rparr>) = pipe_ok s"
  by (simp_all add: pipe_ok_def pipe_at_def)

lemma finite_users: "finite (dom us) \<Longrightarrow> finite (users us f)"
  by (rule finite_subset [of _ "dom us"]) (auto simp: users_def)

lemma inv_flow: "fd_inv h s \<Longrightarrow> flow s s' \<Longrightarrow> fd_inv h s'"
proof -
  assume i: "fd_inv h s" and f: "flow s s'"
  then have e: "usages s' = usages s" "openFiles s' = openFiles s" "pid_of s' = pid_of s" "counts s' = counts s"
    "next_new s \<le> next_new s'" "pipe_ok s'"
    by (auto simp: flow_def same_tables_def fd_inv_def)
  have "tables_ok (usages s) (openFiles s) (counts s) (next_new s')"
    using i e(5) unfolding fd_inv_def tables_ok_def by (meson less_le_trans)
  with i e show ?thesis by (simp add: fd_inv_def)
qed

section \<open>Taking and releasing an entry\<close>

lemma users_same_file: "us u = Some x \<Longrightarrow> u_file y = u_file x \<Longrightarrow> users (us(u \<mapsto> y)) f = users us f"
  by (auto simp: users_def)

lemma count_tables:
  assumes "tables_ok us fds cs n" and "us u = Some x" and "u_file y = u_file x" and "u_fd y = u_fd x"
  shows "tables_ok (us(u \<mapsto> y)) fds cs n"
  unfolding tables_ok_def
proof (intro conjI allI impI)
  note d = tables_okD [OF assms(1)]
  show "finite (dom (us(u \<mapsto> y)))" using d(1) by simp
  show "v < n" if "(us(u \<mapsto> y)) v = Some z" for v z using that d(2) assms(2) by (cases "v = u") auto
  show "\<exists>p. fds p (u_fd z) = Some v" if "(us(u \<mapsto> y)) v = Some z" for v z
    using that d(3) assms(2,4) by (cases "v = u") auto
  show "cs (u_file z) \<noteq> None" if "(us(u \<mapsto> y)) v = Some z" for v z
    using that d(4) assms(2,3) by (cases "v = u") auto
  show "\<exists>z. (us(u \<mapsto> y)) v = Some z \<and> u_fd z = fd" if "fds p fd = Some v" for p fd v
    using d(5) [OF that] assms(2,4) by (cases "v = u") auto
  show "p = p'" if "fds p fd = Some v \<and> fds p' fd = Some v" for p p' fd v using d(6) that by blast
next
  note d = tables_okD [OF assms(1)]
  fix f k c assume "cs f = Some (k, c)"
  from d(7) [OF this] show "f < n" "k = int (card (users (us(u \<mapsto> y)) f))" "c = card (users (us(u \<mapsto> y)) f)" "0 < c"
    by (simp_all add: users_same_file [where us = us, OF assms(2,3)])
qed

lemma take_entry:
  assumes "fd_inv h s" and "usages s u = Some x" and "openFiles s (pid_of s t) (u_fd x) = Some u"
  shows "fd_inv (h(t := insert (u_fd x, u) (h t))) (put_usage u (x\<lparr>u_count := u_count x + 1\<rparr>) s)"
proof -
  let ?h = "h(t := insert (u_fd x, u) (h t))"
  have i: "tables_ok (usages s) (openFiles s) (counts s) (next_new s)" "holds_ok h (usages s) (openFiles s) (pid_of s)"
    "pipe_ok s" using assms(1) by (auto simp: fd_inv_def)
  have n: "{v. (u_fd y, w) \<in> ?h v} = (if w = u \<and> u_fd y = u_fd x then insert t {v. (u_fd y, w) \<in> h v} else {v. (u_fd y, w) \<in> h v})"
    for w and y :: file_usage by auto
  have "holds_ok ?h ((usages s)(u \<mapsto> x\<lparr>u_count := u_count x + 1\<rparr>)) (openFiles s) (pid_of s)"
    unfolding holds_ok_def
  proof (intro conjI allI impI)
    fix v fd w assume "(fd, w) \<in> ?h v"
    then show "openFiles s (pid_of s v) fd = Some w"
      using i(2) assms(3) by (cases "v = t") (auto simp: holds_ok_def)
  next
    fix w y assume y: "((usages s)(u \<mapsto> x\<lparr>u_count := u_count x + 1\<rparr>)) w = Some y"
    show "finite {v. (u_fd y, w) \<in> ?h v}" "int (card {v. (u_fd y, w) \<in> ?h v}) \<le> u_count y"
    proof -
      have f: "finite {v. (u_fd z, w) \<in> h v} \<and> int (card {v. (u_fd z, w) \<in> h v}) \<le> u_count z"
        if "usages s w = Some z" for z using i(2) that by (auto simp: holds_ok_def)
      show "finite {v. (u_fd y, w) \<in> ?h v}" "int (card {v. (u_fd y, w) \<in> ?h v}) \<le> u_count y"
        using y f f [of x] assms(2) unfolding n by (cases "w = u"; force simp: card_insert_if)+
    qed
  qed
  with count_tables [OF i(1) assms(2)] i(3) show ?thesis
    by (simp add: fd_inv_def put_usage_def)
qed

lemma release_entry:
  assumes "fd_inv h s" and "usages s u = Some x" and "(u_fd x, u) \<in> h t"
  shows "fd_inv (h(t := h t - {(u_fd x, u)})) (put_usage u (x\<lparr>u_count := u_count x - 1\<rparr>) s)"
proof -
  let ?h = "h(t := h t - {(u_fd x, u)})"
  have i: "tables_ok (usages s) (openFiles s) (counts s) (next_new s)" "holds_ok h (usages s) (openFiles s) (pid_of s)"
    "pipe_ok s" using assms(1) by (auto simp: fd_inv_def)
  have n: "{v. (u_fd y, w) \<in> ?h v} = (if w = u \<and> u_fd y = u_fd x then {v. (u_fd y, w) \<in> h v} - {t} else {v. (u_fd y, w) \<in> h v})"
    for w and y :: file_usage by auto
  have "holds_ok ?h ((usages s)(u \<mapsto> x\<lparr>u_count := u_count x - 1\<rparr>)) (openFiles s) (pid_of s)"
    unfolding holds_ok_def
  proof (intro conjI allI impI)
    fix v fd w assume "(fd, w) \<in> ?h v"
    then have "(fd, w) \<in> h v" by (cases "v = t") auto
    then show "openFiles s (pid_of s v) fd = Some w" using i(2) by (auto simp: holds_ok_def)
  next
    fix w y assume y: "((usages s)(u \<mapsto> x\<lparr>u_count := u_count x - 1\<rparr>)) w = Some y"
    have f: "finite {v. (u_fd z, w) \<in> h v} \<and> int (card {v. (u_fd z, w) \<in> h v}) \<le> u_count z"
      if "usages s w = Some z" for z using i(2) that by (auto simp: holds_ok_def)
    show "finite {v. (u_fd y, w) \<in> ?h v}" using y f f [of x] assms(2) unfolding n by (cases "w = u") auto
    show "int (card {v. (u_fd y, w) \<in> ?h v}) \<le> u_count y"
    proof (cases "w = u")
      case True
      then have "card {v. (u_fd x, u) \<in> h v} = Suc (card ({v. (u_fd x, u) \<in> h v} - {t}))"
        using f [of x] assms(2,3) by (intro card.remove) auto
      with True y f [of x] assms(2) show ?thesis unfolding n by auto
    next
      case False
      with y have "usages s w = Some y" by simp
      with f False show ?thesis by (simp add: n del: fun_upd_apply)
    qed
  qed
  with count_tables [OF i(1) assms(2)] i(3) show ?thesis
    by (simp add: fd_inv_def put_usage_def)
qed

section \<open>Adding and deleting an entry\<close>

lemma table_upd: "(fds(p := (fds p)(fd := v))) q fd' = (if q = p \<and> fd' = fd then v else fds q fd')"
  by auto

lemma table_upd_inj:
  assumes a: "(fds(p := (fds p)(fd := v))) q fd' = Some u" and b: "(fds(p := (fds p)(fd := v))) q' fd' = Some u"
    and inj: "\<And>q q'. fds q fd' = Some u \<Longrightarrow> fds q' fd' = Some u \<Longrightarrow> q = q'"
    and new: "\<And>q. v = Some u \<Longrightarrow> fds q fd' \<noteq> Some u"
  shows "q = q'"
proof (cases "q = p \<and> fd' = fd")
  case True
  with a have v: "v = Some u" by simp
  show ?thesis
  proof (cases "q' = p \<and> fd' = fd")
    case False
    then have "fds q' fd' = Some u" using b by (simp only: table_upd if_False)
    with new [OF v] show ?thesis by blast
  qed (use True in simp)
next
  case False
  then have q: "fds q fd' = Some u" using a by (simp only: table_upd if_False)
  show ?thesis
  proof (cases "q' = p \<and> fd' = fd")
    case True
    with b new q show ?thesis by simp
  next
    case False
    then have "fds q' fd' = Some u" using b by (simp only: table_upd if_False)
    with q inj show ?thesis by blast
  qed
qed

lemma add_tables:
  assumes "tables_ok us fds cs n" and "fds p fd = None" and "f < n" and "n < n'"
    and x: "u_fd x = fd" "u_file x = f"
    and cs: "cs' = cs(f := Some (case cs f of None \<Rightarrow> (1, 1) | Some (k, c) \<Rightarrow> (k + 1, c + 1)))"
  shows "tables_ok (us(n \<mapsto> x)) (fds(p := (fds p)(fd := Some n))) cs' n'"
proof -
  note d = tables_okD [OF assms(1)]
  have n: "us n = None" using d(2) by (cases "us n") auto
  have fn: "fds q fd' \<noteq> Some n" for q fd' using d(5) n by fastforce
  have uf: "users (us(n \<mapsto> x)) f = insert n (users us f)" and nf: "n \<notin> users us f"
    and ug: "g \<noteq> f \<Longrightarrow> users (us(n \<mapsto> x)) g = users us g" for g
    using n x by (auto simp: users_def)
  have fin: "finite (users us f)" by (rule finite_users [OF d(1)])
  have none: "users us f = {}" if "cs f = None" using d(4) that by (fastforce simp: users_def)
  show ?thesis
    unfolding tables_ok_def
  proof (intro conjI allI impI)
    show "finite (dom (us(n \<mapsto> x)))" using d(1) by simp
    show "u < n'" if "(us(n \<mapsto> x)) u = Some y" for u y
      using that d(2) assms(4) by (cases "u = n") (auto intro: less_trans)
    show "\<exists>q. (fds(p := (fds p)(fd := Some n))) q (u_fd y) = Some u" if "(us(n \<mapsto> x)) u = Some y" for u y
    proof (cases "u = n")
      case False
      with that d(3) obtain q where q: "fds q (u_fd y) = Some u" by auto
      with assms(2) have "\<not> (q = p \<and> u_fd y = fd)" by auto
      with q show ?thesis by (intro exI [of _ q]) auto
    qed (use that x in auto)
    show "cs' (u_file y) \<noteq> None" if "(us(n \<mapsto> x)) u = Some y" for u y
      using that d(4) x by (cases "u = n") (auto simp: cs)
    show "\<exists>y. (us(n \<mapsto> x)) u = Some y \<and> u_fd y = fd'" if "(fds(p := (fds p)(fd := Some n))) q fd' = Some u" for q fd' u
    proof (cases "q = p \<and> fd' = fd")
      case False
      with that have q: "fds q fd' = Some u" by (auto split: if_splits)
      with fn have "u \<noteq> n" by auto
      with d(5) [OF q] show ?thesis by simp
    qed (use that x in auto)
    show "q = q'" if q: "(fds(p := (fds p)(fd := Some n))) q fd' = Some u \<and> (fds(p := (fds p)(fd := Some n))) q' fd' = Some u" for q q' fd' u
      by (rule table_upd_inj [OF conjunct1 [OF q] conjunct2 [OF q]]) (use d(6) fn in blast)+
  next
    fix g k c assume c: "cs' g = Some (k, c)"
    have "g < n' \<and> k = int (card (users (us(n \<mapsto> x)) g)) \<and> c = card (users (us(n \<mapsto> x)) g) \<and> 0 < c"
    proof (cases "g = f")
      case True
      have card: "card (users (us(n \<mapsto> x)) f) = card (users us f) + 1" using fin nf by (simp add: uf)
      have lt: "f < n'" using assms(3,4) by simp
      show ?thesis
      proof (cases "cs f")
        case None
        with c True have "k = 1" "c = 1" by (simp_all add: cs)
        with True card lt none [OF None] show ?thesis by simp
      next
        case (Some kc)
        with c True have "k = fst kc + 1" "c = snd kc + 1" by (simp_all add: cs split: prod.split_asm)
        with True card lt d(7) [of f "fst kc" "snd kc"] Some show ?thesis by simp
      qed
    next
      case False
      with c d(7) [of g k c] show ?thesis using assms(4) by (auto simp: cs ug)
    qed
    then show "g < n'" "k = int (card (users (us(n \<mapsto> x)) g))" "c = card (users (us(n \<mapsto> x)) g)" "0 < c" by blast+
  qed
qed

lemma add_holds:
  assumes "tables_ok us fds cs n" and "holds_ok h us fds pids" and "fds p fd = None" and "u_fd x = fd" and "u_count x = 0"
  shows "holds_ok h (us(n \<mapsto> x)) (fds(p := (fds p)(fd := Some n))) pids"
proof -
  note d = tables_okD [OF assms(1)]
  have n: "us n = None" using d(2) by (cases "us n") auto
  have no: "(fd', n) \<notin> h t" for fd' t using assms(2) d(5) n unfolding holds_ok_def by fastforce
  show ?thesis
    unfolding holds_ok_def
  proof (intro conjI allI impI)
    show "(fds(p := (fds p)(fd := Some n))) (pids t) fd' = Some u" if "(fd', u) \<in> h t" for t fd' u
      using assms(2,3) that unfolding holds_ok_def by auto
    show "finite {t. (u_fd y, u) \<in> h t}" if "(us(n \<mapsto> x)) u = Some y" for u y
      using that assms(2) no unfolding holds_ok_def by (cases "u = n") auto
    show "int (card {t. (u_fd y, u) \<in> h t}) \<le> u_count y" if "(us(n \<mapsto> x)) u = Some y" for u y
      using that assms(2,5) no unfolding holds_ok_def by (cases "u = n") auto
  qed
qed

lemma delete_tables:
  assumes "tables_ok us fds cs n" and "fds p fd = Some u" and u: "us u = Some x"
    and f: "cs (u_file x) = Some (k, c)"
    and cs: "cs' = cs(u_file x := if c = 1 then None else Some (k - 1, c - 1))"
  shows "tables_ok (us(u := None)) (fds(p := (fds p)(fd := None))) cs' n"
proof -
  note d = tables_okD [OF assms(1)]
  have x: "u_fd x = fd" using d(5) [OF assms(2)] u by auto
  have uf: "users (us(u := None)) (u_file x) = users us (u_file x) - {u}" and inu: "u \<in> users us (u_file x)"
    and ug: "g \<noteq> u_file x \<Longrightarrow> users (us(u := None)) g = users us g" for g
    using u by (auto simp: users_def)
  have fin: "finite (users us (u_file x))" by (rule finite_users [OF d(1)])
  note kc = d(7) [OF f]
  show ?thesis
    unfolding tables_ok_def
  proof (intro conjI allI impI)
    show "finite (dom (us(u := None)))" using d(1) by simp
    show "v < n" if "(us(u := None)) v = Some y" for v y using that d(2) by (cases "v = u") auto
    show "\<exists>q. (fds(p := (fds p)(fd := None))) q (u_fd y) = Some v" if v: "(us(u := None)) v = Some y" for v y
    proof -
      from v have "v \<noteq> u" and "us v = Some y" by (auto split: if_splits)
      with d(3) obtain q where q: "fds q (u_fd y) = Some v" by blast
      with assms(2) \<open>v \<noteq> u\<close> have "\<not> (q = p \<and> u_fd y = fd)" by auto
      with q show ?thesis by (intro exI [of _ q]) auto
    qed
    show "cs' (u_file y) \<noteq> None" if v: "(us(u := None)) v = Some y" for v y
    proof (cases "u_file y = u_file x")
      case True
      from v have "v \<noteq> u" and "us v = Some y" by (auto split: if_splits)
      with True inu have sub: "{u, v} \<subseteq> users us (u_file x)" and two: "card {u, v} = 2" by (auto simp: users_def)
      have "2 \<le> c" using card_mono [OF fin sub] kc unfolding two by simp
      with True show ?thesis by (simp add: cs)
    next
      case False
      with v d(4) [of v y] show ?thesis by (auto simp: cs split: if_splits)
    qed
    show "\<exists>y. (us(u := None)) v = Some y \<and> u_fd y = fd'" if v: "(fds(p := (fds p)(fd := None))) q fd' = Some v" for q fd' v
    proof -
      from v have q: "fds q fd' = Some v" and ne: "\<not> (q = p \<and> fd' = fd)" by (auto split: if_splits)
      from d(5) [OF q] obtain y where y: "us v = Some y" "u_fd y = fd'" by blast
      have "v \<noteq> u"
      proof
        assume "v = u"
        with y u x have "fd' = fd" by simp
        with q \<open>v = u\<close> assms(2) d(6) ne show False by blast
      qed
      with y show ?thesis by simp
    qed
    show "q = q'" if q: "(fds(p := (fds p)(fd := None))) q fd' = Some v \<and> (fds(p := (fds p)(fd := None))) q' fd' = Some v" for q q' fd' v
      by (rule table_upd_inj [OF conjunct1 [OF q] conjunct2 [OF q]]) (use d(6) in blast)+
  next
    fix g k' c' assume c: "cs' g = Some (k', c')"
    have "g < n \<and> k' = int (card (users (us(u := None)) g)) \<and> c' = card (users (us(u := None)) g) \<and> 0 < c'"
    proof (cases "g = u_file x")
      case True
      have card: "card (users (us(u := None)) (u_file x)) = c - 1" using inu kc by (simp add: uf)
      from c True have "c \<noteq> 1" "k' = k - 1" "c' = c - 1" by (simp_all add: cs split: if_split_asm)
      with True card kc show ?thesis by (simp add: of_nat_diff)
    next
      case False
      with c d(7) [of g k' c'] show ?thesis by (auto simp: cs ug)
    qed
    then show "g < n" "k' = int (card (users (us(u := None)) g))" "c' = card (users (us(u := None)) g)" "0 < c'" by blast+
  qed
qed

lemma delete_holds:
  assumes "holds_ok h us fds pids" and "fds p fd = Some u" and "\<And>t. (fd, u) \<notin> h t"
  shows "holds_ok h (us(u := None)) (fds(p := (fds p)(fd := None))) pids"
  using assms unfolding holds_ok_def by auto

end
