(* ===== verification/Io_Steps.thy ===== *)
theory Io_Steps
  imports Io_Tables
begin

text \<open>Every step of the processes of a node keeps the invariant of the descriptor tables.\<close>

section \<open>The table operations\<close>

definition same_threads :: "'x io \<Rightarrow> 'x io \<Rightarrow> bool" where
  "same_threads s s' \<longleftrightarrow> frames s' = frames s \<and> pid_of s' = pid_of s"

lemma same_threads_refl [simp, intro]: "same_threads s s"
  by (simp add: same_threads_def)

lemma same_threads_trans: "same_threads s s1 \<Longrightarrow> same_threads s1 s2 \<Longrightarrow> same_threads s s2"
  by (simp add: same_threads_def)

lemma flow_threads: "flow s s' \<Longrightarrow> same_threads s s'"
  by (simp add: flow_def same_tables_def same_threads_def)

text \<open>The bytes of the pipes stay when the counts of a file change or a file goes.\<close>

lemma pipe_ok_sub:
  assumes "pipe_ok s" and "moved s' = moved s" and "next_new s \<le> next_new s'"
    and "\<And>f x. files s' f = Some x \<Longrightarrow> \<exists>y. files s f = Some y \<and> m_body x = m_body y"
  shows "pipe_ok s'"
  unfolding pipe_ok_def assms(2)
proof (intro conjI allI impI ballI)
  fix f assume "files s' f \<noteq> None"
  with assms(4) obtain y where "files s f = Some y" by blast
  with pipe_okD(1) [OF assms(1)] assms(3) show "f < next_new s'" by fastforce
next
  fix x assume "x \<in> set (moved s)"
  with pipe_okD(2) [OF assms(1)] assms(3) show "traffic_end x < next_new s'" by fastforce
next
  fix f p assume "pipe_at s' f = Some p"
  then obtain x where "files s' f = Some x" "m_body x = Pipe_end p" by (auto simp: cores_pipe)
  with assms(4) have "pipe_at s f = Some p" by (fastforce simp: cores_pipe)
  with pipe_okD(3) [OF assms(1)] show "buf_ok f (m_buf p) (moved s)" .
qed

lemma IncFdCount_eq:
  "IncFdCount f s = Some s' \<Longrightarrow> \<exists>x. files s f = Some x \<and> s' = put_file f (x\<lparr>m_fdCount := m_fdCount x + 1\<rparr>) s"
  by (auto simp: IncFdCount_def bind_eq_Some_conv)

lemma share_eq:
  assumes "IncFdCount f s = Some s1" and "Ref f s1 = Some s2"
  shows "\<exists>x. files s f = Some x \<and> s2 = put_file f (x\<lparr>m_fdCount := m_fdCount x + 1, m_refs := m_refs x + 1\<rparr>) s"
  using assms by (auto simp: IncFdCount_def Ref_def put_file_def bind_eq_Some_conv)

lemma delete_usage_eq:
  assumes "delete_usage u s = Some s'"
  shows "\<exists>x y. usages s u = Some x \<and> files s (u_file x) = Some y \<and> usages s' = (usages s)(u := None)
    \<and> counts s' = (counts s)(u_file x := if m_refs y - 1 = 0 then None else Some (m_fdCount y - 1, m_refs y - 1))
    \<and> openFiles s' = openFiles s \<and> same_threads s s' \<and> next_new s' = next_new s
    \<and> (pipe_ok s \<longrightarrow> pipe_ok s')"
proof -
  obtain x where x: "usages s u = Some x" using assms by (auto simp: delete_usage_def bind_eq_Some_conv)
  then obtain y where y: "files s (u_file x) = Some y"
    using assms by (auto simp: delete_usage_def DecFdCount_def bind_eq_Some_conv)
  let ?y = "y\<lparr>m_fdCount := m_fdCount y - 1\<rparr>"
  have s': "s' = s\<lparr>files := (files s)(u_file x := if m_refs y - 1 = 0 then None else Some (?y\<lparr>m_refs := m_refs y - 1\<rparr>)),
      usages := (usages s)(u := None)\<rparr>"
    using assms x y by (auto simp: delete_usage_def DecFdCount_def Unref_def put_file_def bind_eq_Some_conv)
  have c: "counts s' = (counts s)(u_file x := if m_refs y - 1 = 0 then None else Some (m_fdCount y - 1, m_refs y - 1))"
    unfolding s' by (auto simp: counts_def fun_eq_iff)
  have "pipe_ok s'" if "pipe_ok s"
    by (rule pipe_ok_sub [OF that]) (use y in \<open>auto simp: s' split: if_split_asm\<close>)
  then show ?thesis
    using x y c by (intro exI [of _ x] exI [of _ y]) (simp add: s' same_threads_def)
qed

lemma delete_entry:
  assumes i: "fd_inv h s" and p: "openFiles s p fd = Some u" and no: "\<And>t. (fd, u) \<notin> h t"
    and d: "delete_usage u (set_fd p fd None s) = Some s'"
  shows "fd_inv h s' \<and> same_threads s s'"
proof -
  obtain x y where x: "usages s u = Some x" and y: "files s (u_file x) = Some y" and us: "usages s' = (usages s)(u := None)"
    and c: "counts s' = (counts s)(u_file x := if m_refs y - 1 = 0 then None else Some (m_fdCount y - 1, m_refs y - 1))"
    and rest: "openFiles s' = (openFiles s)(p := (openFiles s p)(fd := None))" "same_threads s s'" "next_new s' = next_new s"
    and ok: "pipe_ok s \<longrightarrow> pipe_ok s'"
    using delete_usage_eq [OF d] by (auto simp: set_fd_def same_threads_def)
  have tb: "tables_ok (usages s) (openFiles s) (counts s) (next_new s)"
    and ho: "holds_ok h (usages s) (openFiles s) (pid_of s)" and po: "pipe_ok s" using i by (auto simp: fd_inv_def)
  have cy: "counts s (u_file x) = Some (m_fdCount y, m_refs y)" using y by (simp add: counts_def)
  have "m_refs y - 1 = 0 \<longleftrightarrow> m_refs y = 1" using tables_okD(7) [OF tb cy] by auto
  then have c': "counts s' = (counts s)(u_file x := if m_refs y = 1 then None else Some (m_fdCount y - 1, m_refs y - 1))"
    using c by simp
  have "tables_ok (usages s') (openFiles s') (counts s') (next_new s')"
    unfolding us rest by (rule delete_tables [OF tb p x cy c'])
  moreover have "holds_ok h (usages s') (openFiles s') (pid_of s')"
    using delete_holds [OF ho p no] rest(2) by (simp add: us rest(1) same_threads_def)
  ultimately show ?thesis using ok po rest(2) by (simp add: fd_inv_def)
qed

text \<open>A new entry, for a file that has entries already or for a new one.\<close>

lemma add_entry:
  assumes i: "fd_inv h s" and p: "openFiles s p fd = None"
    and us: "usages s' = (usages s)(n \<mapsto> \<lparr>u_count = 0, u_fd = fd, u_file = f, u_closing = False\<rparr>)"
    and fds: "openFiles s' = (openFiles s)(p := (openFiles s p)(fd := Some n))"
    and n: "next_new s \<le> n" "f < n" "n < next_new s'"
    and cs: "counts s' = (counts s)(f := Some (case counts s f of None \<Rightarrow> (1, 1) | Some (k, c) \<Rightarrow> (k + 1, c + 1)))"
    and same: "same_threads s s'" and ok: "pipe_ok s'"
  shows "fd_inv h s'"
proof -
  have tb: "tables_ok (usages s) (openFiles s) (counts s) n"
    using i n(1) unfolding fd_inv_def tables_ok_def by (meson less_le_trans)
  have ho: "holds_ok h (usages s) (openFiles s) (pid_of s)" using i by (auto simp: fd_inv_def)
  have "tables_ok (usages s') (openFiles s') (counts s') (next_new s')"
    unfolding us fds by (rule add_tables [OF tb p n(2,3) _ _ cs]) simp_all
  moreover have "holds_ok h (usages s') (openFiles s') (pid_of s')"
    using add_holds [OF tb ho p, of "\<lparr>u_count = 0, u_fd = fd, u_file = f, u_closing = False\<rparr>"] same
    by (simp add: us fds same_threads_def)
  ultimately show ?thesis using ok by (simp add: fd_inv_def)
qed

lemma share_entry:
  assumes i: "fd_inv h s" and p: "openFiles s p fd = None" and x: "files s f = Some x"
    and s': "s' = set_fd p fd (Some (next_new s)) (snd (FileUsage fd f
      (put_file f (x\<lparr>m_fdCount := m_fdCount x + 1, m_refs := m_refs x + 1\<rparr>) s)))"
  shows "fd_inv h s' \<and> same_threads s s'"
proof -
  have po: "pipe_ok s" using i by (simp add: fd_inv_def)
  have "pipe_ok s'" by (rule pipe_ok_sub [OF po])
      (use x in \<open>auto simp: s' set_fd_def FileUsage_def put_usage_def put_file_def split: if_split_asm\<close>)
  moreover have "f < next_new s" using pipe_okD(1) [OF po x] .
  ultimately have "fd_inv h s'"
    by (intro add_entry [OF i p, where n = "next_new s" and f = f])
      (use x in \<open>auto simp: s' set_fd_def FileUsage_def put_usage_def put_file_def counts_def same_threads_def fun_eq_iff\<close>)
  then show ?thesis by (simp add: s' set_fd_def FileUsage_def put_usage_def put_file_def same_threads_def)
qed

lemma share_fd_inv:
  assumes "fd_inv h s" and "openFiles s p fd = None" and "share_fd p oldfd fd s = Some s'"
  shows "fd_inv h s' \<and> same_threads s s'"
proof -
  obtain u and x :: file_usage and s1 s2 where s1: "IncFdCount (u_file x) s = Some s1" "Ref (u_file x) s1 = Some s2"
    and s': "s' = set_fd p fd (Some (next_new s2)) (snd (FileUsage fd (u_file x) s2))"
    using assms(3) by (auto simp: share_fd_def bind_eq_Some_conv FileUsage_def)
  obtain y where y: "files s (u_file x) = Some y"
    and s2: "s2 = put_file (u_file x) (y\<lparr>m_fdCount := m_fdCount y + 1, m_refs := m_refs y + 1\<rparr>) s"
    using share_eq [OF s1] by blast
  show ?thesis by (rule share_entry [OF assms(1,2) y]) (simp add: s' s2 put_file_def)
qed

lemma AllocateFd_free: "UtilsAllocateFd p s = fd \<Longrightarrow> fd \<noteq> -1 \<Longrightarrow> openFiles s p fd = None"
  by (auto simp: UtilsAllocateFd_def find_Some_iff split: option.split_asm)

section \<open>Calls through a descriptor\<close>

text \<open>
  What a call of thread \<open>t\<close> does, starting without entries in use: it returns without any, or leaves
  frames behind that use the entries they name.
\<close>

definition good :: "(task \<Rightarrow> (int \<times> nat) set) \<Rightarrow> task \<Rightarrow> 'x io \<Rightarrow> 'x io io_result \<Rightarrow> bool" where
  "good h t s r \<longleftrightarrow> same_threads s (res_state r)
     \<and> (case r of Done v s' \<Rightarrow> fd_inv (h(t := {})) s'
        | Blocked fs s' \<Rightarrow> fd_inv (h(t := held_of fs)) s' \<and> apart fs)"

lemma good_simps [simp]:
  "good h t s (Done v s') \<longleftrightarrow> same_threads s s' \<and> fd_inv (h(t := {})) s'"
  "good h t s (Blocked fs s') \<longleftrightarrow> same_threads s s' \<and> fd_inv (h(t := held_of fs)) s' \<and> apart fs"
  by (simp_all add: good_def)

lemma io_good_fails: "fd_inv (h(t := {})) s \<Longrightarrow> same_threads s0 s \<Longrightarrow> good h t s0 (io_fails e t s)"
  using inv_flow [OF _ quiet_flow [OF quiet_updates(1)]]
  by (fastforce simp: io_fails_def set_err_def same_threads_def)

lemma good_err: "fd_inv (h(t := {})) s \<Longrightarrow> same_threads s0 s \<Longrightarrow> good h t s0 (Done v (set_err e t s))"
  using io_good_fails [of h t s s0 e] by (simp add: io_fails_def)

fun light_frame :: "io_frame \<Rightarrow> bool" where
  "light_frame (Read_wait f buf count w to) = True"
| "light_frame (Recv_wait f buf len w to) = True"
| "light_frame (Write_return f) = True"
| "light_frame (Timer_wait f buf) = True"
| "light_frame fr = False"

definition light :: "'x io io_result \<Rightarrow> bool" where
  "light r \<longleftrightarrow> (\<forall>fs s. r = Blocked fs s \<longrightarrow> (\<forall>fr \<in> set fs. light_frame fr))"

lemma light_frame_held: "light_frame fr \<Longrightarrow> frame_held fr = {} \<and> frame_distinct fr \<and> \<not> holder fr"
  by (cases fr) auto

lemma light_frames:
  "\<forall>fr \<in> set fs. light_frame fr \<Longrightarrow> held_of fs = {} \<and> apart fs \<and> (\<forall>fr \<in> set fs. \<not> holder fr)"
  by (induction fs) (auto dest: light_frame_held)

lemma light_simps [simp]: "light (Done v s)" "light (io_fails e t s)" "light (Blocked fs s) \<longleftrightarrow> (\<forall>fr \<in> set fs. light_frame fr)"
  by (auto simp: light_def io_fails_def)

lemma sleep_light:
  assumes "(case to of Some d \<Rightarrow> Some (Blocked [fr d] s4)
      | None \<Rightarrow> do { s5 \<leftarrow> RemoveWaitQueue q e True t s4; Some (io_fails EAGAIN t (free_entry (Some e) s5)) }) = Some r"
    and "\<And>d. light_frame (fr d)"
  shows "light r"
  using assms by (cases to) (auto simp: bind_eq_Some_conv)

lemma recv_loop_light: "recv_loop E q buf len wq t s = Some r \<Longrightarrow> light r"
  by (auto simp: recv_loop_def Let_def bind_eq_Some_conv split: if_split_asm prod.split_asm
      elim!: sleep_light)

lemma read_loop_light: "read_loop E f buf count wq t s = Some r \<Longrightarrow> light r"
  by (auto simp: read_loop_def Let_def bind_eq_Some_conv split: if_split_asm prod.split_asm
      elim!: sleep_light)

lemma woken_light:
  assumes "(case res of OK \<Rightarrow> k | INTERRUPTED \<Rightarrow> Some (io_fails e1 t s1) | TIMEOUT \<Rightarrow> Some (io_fails e2 t s2)) = Some r"
    and "k = Some r \<Longrightarrow> light r"
  shows "light r"
  using assms by (cases res) auto

lemma recv_woken_light: "recv_woken E q buf len w to t s = Some r \<Longrightarrow> light r"
  by (auto simp: recv_woken_def bind_eq_Some_conv elim!: woken_light intro: recv_loop_light)

lemma read_woken_light: "read_woken E f buf count w to t s = Some r \<Longrightarrow> light r"
  by (auto simp: read_woken_def bind_eq_Some_conv elim!: woken_light intro: read_loop_light)

lemma write_return_light: "write_return E f v s = Some r \<Longrightarrow> light r"
  by (auto simp: write_return_def Let_def bind_eq_Some_conv split: if_split_asm)

lemma and_then_light:
  assumes "and_then fr k r0 = Some r" and "light r0" and "light_frame fr" and "\<And>v s. k v s = Some r \<Longrightarrow> light r"
  shows "light r"
  using assms by (cases r0) auto

lemma pipe_Write_light: "pipe_Write E f buf count t s = Some r \<Longrightarrow> light r"
  by (auto simp: pipe_Write_def bind_eq_Some_conv split: option.split_asm if_split_asm
      elim!: and_then_light intro: recv_loop_light write_return_light)

lemma other_light:
  "pipe_socket_op op t s = Some r \<Longrightarrow> light r" "pipe_file_op op t s = Some r \<Longrightarrow> light r"
  "pipe_timer_op op t s = Some r \<Longrightarrow> light r" "timer_socket_op op t s = Some r \<Longrightarrow> light r"
  "timer_file_op op t s = Some r \<Longrightarrow> light r"
  by (cases op; auto)+

lemma pipe_op_light: "pipe_op E op f t s = Some r \<Longrightarrow> light r"
  by (cases op)
    (auto simp: pipe_Read_def pipe_Fcntl_def bind_eq_Some_conv
      simp del: pipe_socket_op.simps pipe_file_op.simps pipe_timer_op.simps split: if_split_asm option.split_asm
      intro: pipe_Write_light read_loop_light other_light)

lemma timer_taken_light: "timer_taken f buf y s = Some r \<Longrightarrow> light r"
  by (auto simp: timer_taken_def bind_eq_Some_conv)

lemma timer_op_light: "timer_op E op f t s = Some r \<Longrightarrow> light r"
  by (cases op)
    (auto simp: timer_Read_def timer_Settime_def timer_Write_def timer_Ftruncate_def Let_def bind_eq_Some_conv
      simp del: timer_socket_op.simps timer_file_op.simps split: if_split_asm option.split_asm
      intro: timer_taken_light other_light)

lemma file_op_light:
  assumes "file_op E op f t s = Some r"
  shows "light r"
proof -
  obtain x where x: "files s f = Some x" using assms by (auto simp: file_op_def bind_eq_Some_conv)
  with assms show ?thesis by (cases "m_body x") (auto simp: file_op_def intro: pipe_op_light timer_op_light)
qed

text \<open>The end of \<open>OPENED_FD_METHOD\<close> gives its entry back, and deletes it when it was closed meanwhile.\<close>

lemma method_return_inv:
  assumes i: "fd_inv h s" and hu: "(fd, u) \<in> h t" and r: "method_return fd u narrow t v s = Some r"
  shows "\<exists>v' s'. r = Done v' s' \<and> fd_inv (h(t := h t - {(fd, u)})) s' \<and> same_threads s s'"
proof -
  have ho: "holds_ok h (usages s) (openFiles s) (pid_of s)" and tb: "tables_ok (usages s) (openFiles s) (counts s) (next_new s)"
    using i by (auto simp: fd_inv_def)
  have fu: "openFiles s (pid_of s t) fd = Some u" using ho hu by (auto simp: holds_ok_def)
  obtain x where x: "usages s u = Some x" "u_fd x = fd" using tables_okD(5) [OF tb fu] by blast
  let ?s1 = "put_usage u (x\<lparr>u_count := u_count x - 1\<rparr>) s" and ?h = "h(t := h t - {(fd, u)})"
  have i1: "fd_inv ?h ?s1" using release_entry [OF i x(1)] hu x(2) by simp
  have th: "same_threads s ?s1" by (simp add: put_usage_def same_threads_def)
  show ?thesis
  proof (cases "u_count x - 1 = 0 \<and> u_closing x")
    case True
    with r x obtain s2 where s2: "delete_usage u (set_fd (pid_of s t) fd None ?s1) = Some s2" "r = Done (as_int narrow v) s2"
      by (auto simp: method_return_def DecUsage_def bind_eq_Some_conv put_usage_def split: if_split_asm)
    have ho1: "holds_ok ?h (usages ?s1) (openFiles ?s1) (pid_of ?s1)" using i1 by (auto simp: fd_inv_def)
    have "usages ?s1 u = Some (x\<lparr>u_count := u_count x - 1\<rparr>)" by (simp add: put_usage_def)
    with ho1 True x(2) have "finite {v. (fd, u) \<in> ?h v} \<and> card {v. (fd, u) \<in> ?h v} = 0"
      unfolding holds_ok_def by fastforce
    then have no: "(fd, u) \<notin> ?h v" for v by (metis card_0_eq empty_iff mem_Collect_eq)
    have "openFiles ?s1 (pid_of s t) fd = Some u" using fu by (simp add: put_usage_def)
    from delete_entry [OF i1 this no s2(1)] s2(2) th same_threads_trans show ?thesis by blast
  next
    case False
    with r x have "r = Done (as_int narrow v) ?s1"
      by (auto simp: method_return_def DecUsage_def bind_eq_Some_conv split: if_split_asm)
    with i1 th show ?thesis by blast
  qed
qed

lemma method_good:
  assumes E: "env_ok E" and i: "fd_inv (h(t := {})) s" and t: "m_current (io_tm s) = Some t"
    and r: "opened_fd_method E errCode narrow fd op s = Some r"
  shows "good h t s r"
proof (cases "openFiles s (pid_of s t) fd")
  case None
  with r t have "r = Done errCode (set_err EBADF t s)" by (simp add: opened_fd_method_def)
  with good_err [OF i] show ?thesis by blast
next
  case (Some u)
  have tb: "tables_ok (usages s) (openFiles s) (counts s) (next_new s)" using i by (auto simp: fd_inv_def)
  obtain x where x: "usages s u = Some x" "u_fd x = fd" using tables_okD(5) [OF tb Some] by blast
  show ?thesis
  proof (cases "u_closing x")
    case True
    with r t Some x have "r = Done errCode (set_err EBADF t s)" by (simp add: opened_fd_method_def)
    with good_err [OF i] show ?thesis by blast
  next
    case False
    let ?s1 = "put_usage u (x\<lparr>u_count := u_count x + 1\<rparr>) s"
    have i1: "fd_inv (h(t := {(fd, u)})) ?s1" using take_entry [OF i x(1), of t] Some x(2) by simp
    from False r t Some x obtain r0 where r0: "file_op E op (u_file x) t ?s1 = Some r0"
      and tl: "and_then (Method_return fd u narrow) (method_return fd u narrow t) r0 = Some r"
      by (auto simp: opened_fd_method_def GetFileInc_def bind_eq_Some_conv)
    have fl: "flow ?s1 (res_state r0)" and li: "light r0" by (rule file_op_flow [OF E r0], rule file_op_light [OF r0])
    have i2: "fd_inv (h(t := {(fd, u)})) (res_state r0)" by (rule inv_flow [OF i1 fl])
    have th: "same_threads s (res_state r0)" using flow_threads [OF fl] by (simp add: put_usage_def same_threads_def)
    show ?thesis
    proof (cases r0)
      case (Done v s2)
      with method_return_inv [OF i2, of fd u t narrow v r] tl th same_threads_trans show ?thesis by auto
    next
      case (Blocked fs s2)
      with tl have "r = Blocked (fs @ [Method_return fd u narrow]) s2" by simp
      with i2 th Blocked li light_frames [of fs] show ?thesis
        by (auto intro!: apart_append)
    qed
  qed
qed

section \<open>Calls that change the table\<close>

lemma inv_flowI: "fd_inv h s \<Longrightarrow> quiet s s' \<Longrightarrow> fd_inv h s' \<and> same_threads s s'"
  using inv_flow [OF _ quiet_flow] flow_threads [OF quiet_flow] by blast

lemma close_entry:
  assumes i: "fd_inv h s" and p: "openFiles s p fd = Some u" and c: "CanForget u s = Some (forget, s1)"
    and s2: "(if forget then delete_usage u (set_fd p fd None s1) else Some s1) = Some s2"
  shows "fd_inv h s2 \<and> same_threads s s2"
proof -
  have ho: "holds_ok h (usages s) (openFiles s) (pid_of s)" and tb: "tables_ok (usages s) (openFiles s) (counts s) (next_new s)"
    and po: "pipe_ok s" using i by (auto simp: fd_inv_def)
  obtain x where x: "usages s u = Some x" "u_fd x = fd" using tables_okD(5) [OF tb p] by blast
  show ?thesis
  proof (cases "u_count x = 0")
    case True
    with c x have f: "forget" "s1 = s" by (auto simp: CanForget_def)
    have "finite {v. (fd, u) \<in> h v} \<and> card {v. (fd, u) \<in> h v} = 0"
      using ho x True unfolding holds_ok_def by fastforce
    then have "(fd, u) \<notin> h v" for v by (metis card_0_eq empty_iff mem_Collect_eq)
    from delete_entry [OF i p this] s2 f show ?thesis by simp
  next
    case False
    with c x s2 have e: "s2 = put_usage u (x\<lparr>u_closing := True\<rparr>) s" by (auto simp: CanForget_def)
    have "holds_ok h ((usages s)(u \<mapsto> x\<lparr>u_closing := True\<rparr>)) (openFiles s) (pid_of s)"
      using ho x(1) unfolding holds_ok_def by (simp split: if_split_asm)
    with count_tables [OF tb x(1), of "x\<lparr>u_closing := True\<rparr>"] po show ?thesis
      by (simp add: fd_inv_def e put_usage_def same_threads_def)
  qed
qed

lemma close_inv:
  assumes i: "fd_inv h s" and r: "dce_close E fd s = Some (v, s')"
  shows "fd_inv h s' \<and> same_threads s s'"
proof -
  obtain t where t: "m_current (io_tm s) = Some t" using r by (auto simp: dce_close_def bind_eq_Some_conv)
  show ?thesis
  proof (cases "openFiles s (pid_of s t) fd")
    case None
    with r t have "s' = set_err EBADF t s" by (simp add: dce_close_def)
    with inv_flowI [OF i quiet_updates(1)] show ?thesis by blast
  next
    case (Some u)
    obtain x y where x: "usages s u = Some x" and y: "files s (u_file x) = Some y"
      using r t Some by (auto simp: dce_close_def bind_eq_Some_conv)
    obtain s1 forget s2 where
      s1: "(if m_fdCount y = 1 then file_Close E (u_file x) t s else Some (0, s)) = Some (v, s1)"
      and s2: "CanForget u s1 = Some (forget, s2)"
      and s3: "(if forget then delete_usage u (set_fd (pid_of s t) fd None s2) else Some s2) = Some s'"
      using r t Some x y by (auto simp: dce_close_def bind_eq_Some_conv)
    have q: "quiet s s1" using s1 by (auto split: if_split_asm dest: file_Close_quiet)
    from inv_flowI [OF i q] have i1: "fd_inv h s1" and th: "same_threads s s1" by blast+
    have "openFiles s1 (pid_of s t) fd = Some u" using Some quietD(2) [OF q] by simp
    from close_entry [OF i1 this s2 s3] th same_threads_trans show ?thesis by blast
  qed
qed

lemma dup_inv:
  assumes i: "fd_inv h s" and r: "dce_dup fd s = Some (v, s')"
  shows "fd_inv h s' \<and> same_threads s s'"
proof -
  obtain t where t: "m_current (io_tm s) = Some t" using r by (auto simp: dce_dup_def bind_eq_Some_conv)
  let ?p = "pid_of s t"
  from r t consider "s' = set_err EBADF t s" | "s' = set_err EMFILE t s"
    | "UtilsAllocateFd ?p s \<noteq> -1" "share_fd ?p fd (UtilsAllocateFd ?p s) s = Some s'"
    by (auto simp: dce_dup_def bind_eq_Some_conv Let_def split: if_split_asm)
  then show ?thesis
  proof cases
    case 3
    from share_fd_inv [OF i AllocateFd_free [OF refl 3(1)] 3(2)] show ?thesis .
  qed (use inv_flowI [OF i quiet_updates(1)] in blast)+
qed

lemma dup2_inv:
  assumes i: "fd_inv h s" and r: "dce_dup2 E oldfd newfd s = Some (v, s')"
  shows "fd_inv h s' \<and> same_threads s s'"
proof -
  obtain t where t: "m_current (io_tm s) = Some t" using r by (auto simp: dce_dup2_def bind_eq_Some_conv)
  let ?p = "pid_of s t"
  obtain ok where ok: "CheckFdExists ?p oldfd True s = Some ok" using r t by (auto simp: dce_dup2_def bind_eq_Some_conv)
  show ?thesis
  proof (cases "\<not> ok \<or> newfd > int MAX_FDS \<or> oldfd = newfd")
    case True
    with r t ok have "s' = set_err EBADF t s \<or> s' = s"
      by (auto simp: dce_dup2_def split: if_split_asm)
    with inv_flowI [OF i quiet_updates(1)] inv_flowI [OF i quiet_refl] show ?thesis by blast
  next
    case False
    with r t ok obtain opened v1 s1 where "CheckFdExists ?p newfd True s = Some opened"
      and s1: "(if opened then dce_close E newfd s else Some (0, s)) = Some (v1, s1)"
      and tl: "(if v1 \<noteq> 0 then Some (-1, set_err EBADF t s1)
                 else do { busy \<leftarrow> CheckFdExists ?p newfd False s1;
                        if busy then Some (-1, set_err EBADF t s1)
                        else do { s2 \<leftarrow> share_fd ?p oldfd newfd s1; Some (newfd, s2) } }) = Some (v, s')"
      by (auto simp: dce_dup2_def bind_eq_Some_conv)
    have i1: "fd_inv h s1 \<and> same_threads s s1"
      using s1 close_inv [OF i, of E newfd v1 s1] i by (auto split: if_split_asm)
    from tl consider "s' = set_err EBADF t s1" | "CheckFdExists ?p newfd False s1 = Some False" "share_fd ?p oldfd newfd s1 = Some s'"
      by (auto simp: bind_eq_Some_conv split: if_split_asm)
    then show ?thesis
    proof cases
      case 1
      with inv_flowI [OF conjunct1 [OF i1] quiet_updates(1)] i1 same_threads_trans show ?thesis by blast
    next
      case 2
      have "openFiles s1 ?p newfd = None"
        using 2(1) by (auto simp: CheckFdExists_def bind_eq_Some_conv split: option.split_asm)
      from share_fd_inv [OF conjunct1 [OF i1] this 2(2)] i1 same_threads_trans show ?thesis by blast
    qed
  qed
qed

text \<open>A new pipe has two new files, a new timer one.\<close>

lemma AllocateFd_range: "UtilsAllocateFd p s = -1 \<or> (0 \<le> UtilsAllocateFd p s \<and> UtilsAllocateFd p s < int MAX_FDS)"
  by (auto simp: UtilsAllocateFd_def find_Some_iff split: option.split)

text \<open>A file that a call made just now, with the entry for it.\<close>

lemma new_file_entry:
  assumes i: "fd_inv h s" and p: "openFiles s p fd = None" and f: "next_new s \<le> f" "f < n" "n < next_new s'"
    and us: "usages s' = (usages s)(n \<mapsto> \<lparr>u_count = 0, u_fd = fd, u_file = f, u_closing = False\<rparr>)"
    and fds: "openFiles s' = (openFiles s)(p := (openFiles s p)(fd := Some n))"
    and cs: "counts s' = (counts s)(f \<mapsto> (1, 1))" and same: "same_threads s s'" and ok: "pipe_ok s'"
  shows "fd_inv h s'"
proof -
  have tb: "tables_ok (usages s) (openFiles s) (counts s) (next_new s)" using i by (simp add: fd_inv_def)
  have "counts s f = None" using tables_okD(7) [OF tb, of f] f(1) by (cases "counts s f") fastforce+
  then show ?thesis using f by (intro add_entry [OF i p us fds _ _ _ _ same ok]) (auto simp: cs)
qed

lemma FifoBuffer_ok: "m \<le> PIPE_CAPACITY \<Longrightarrow> buf_ok q (FifoBuffer m) xs \<longleftrightarrow> sent q xs = received q xs"
proof -
  assume m: "m \<le> PIPE_CAPACITY"
  have "unat m \<le> unat PIPE_CAPACITY" using m by (simp add: word_order_unat)
  then have "unat m < 2 ^ 62" by (simp add: PIPE_CAPACITY_def)
  with m show ?thesis by (simp add: buf_ok_def FifoBuffer_inv FifoBuffer_empty)
qed

lemma fresh_traffic: "pipe_ok s \<Longrightarrow> next_new s \<le> q \<Longrightarrow> sent q (moved s) = received q (moved s)"
  using no_traffic [of "moved s" q] pipe_okD(2) [of s] by fastforce

text \<open>Files that are added are pipes with empty buffers, or timers.\<close>

lemma pipe_ok_add:
  assumes "pipe_ok s" and "moved s' = moved s" and "next_new s \<le> next_new s'"
    and "\<And>f x. files s' f = Some x \<Longrightarrow> (\<exists>y. files s f = Some y \<and> body_core (m_body x) = body_core (m_body y)) \<or>
      (next_new s \<le> f \<and> f < next_new s' \<and> (\<forall>p. m_body x = Pipe_end p \<longrightarrow> (\<exists>m \<le> PIPE_CAPACITY. m_buf p = FifoBuffer m)))"
  shows "pipe_ok s'"
  unfolding pipe_ok_def assms(2)
proof (intro conjI allI impI ballI)
  fix f assume "files s' f \<noteq> None"
  then obtain x where "files s' f = Some x" by blast
  from assms(4) [OF this] pipe_okD(1) [OF assms(1)] assms(3) show "f < next_new s'" by fastforce
next
  fix x assume "x \<in> set (moved s)"
  with pipe_okD(2) [OF assms(1)] assms(3) show "traffic_end x < next_new s'" by fastforce
next
  fix f p assume "pipe_at s' f = Some p"
  then obtain x where x: "files s' f = Some x" "m_body x = Pipe_end p" by (auto simp: cores_pipe)
  from assms(4) [OF x(1)] show "buf_ok f (m_buf p) (moved s)"
  proof
    assume "\<exists>y. files s f = Some y \<and> body_core (m_body x) = body_core (m_body y)"
    then obtain y where y: "files s f = Some y" "body_core (m_body y) = Some (m_readSide p, m_buf p)" by (auto simp: x)
    then obtain p' where "m_body y = Pipe_end p'" "m_buf p' = m_buf p" by (cases "m_body y") auto
    with y have "pipe_at s f = Some p'" by (simp add: cores_pipe)
    with pipe_okD(3) [OF assms(1)] \<open>m_buf p' = m_buf p\<close> show ?thesis by fastforce
  next
    assume r: "next_new s \<le> f \<and> f < next_new s' \<and> (\<forall>p. m_body x = Pipe_end p \<longrightarrow> (\<exists>m \<le> PIPE_CAPACITY. m_buf p = FifoBuffer m))"
    then obtain m where "m \<le> PIPE_CAPACITY" "m_buf p = FifoBuffer m" using x by blast
    with r fresh_traffic [OF assms(1), of f] show ?thesis by (simp add: FifoBuffer_ok)
  qed
qed

lemma timer_create_inv:
  assumes i: "fd_inv h s" and r: "dce_timerfd_create s = Some (v, s')"
  shows "fd_inv h s' \<and> same_threads s s'"
proof -
  obtain t where t: "m_current (io_tm s) = Some t" using r by (auto simp: dce_timerfd_create_def bind_eq_Some_conv)
  let ?p = "pid_of s t" and ?fd = "UtilsAllocateFd (pid_of s t) s" and ?f = "next_new s"
  let ?b = "Timer_end \<lparr>m_period = 0, m_skipped = 0, m_timer = None, m_waiter = None\<rparr>"
  let ?x = "\<lparr>m_fdCount = 1, m_refs = 1, m_waitQueueList = [], m_fdFlags = 0, m_statusFlags = 0, m_body = ?b\<rparr>"
  show ?thesis
  proof (cases "?fd = -1")
    case True
    with r t have "s' = set_err EMFILE t s" by (simp add: dce_timerfd_create_def Let_def)
    with inv_flowI [OF i quiet_updates(1)] show ?thesis by blast
  next
    case False
    with t have "dce_timerfd_create s = Some (?fd, s\<lparr>files := (files s)(?f \<mapsto> ?x), next_new := next_new s + 2,
        usages := (usages s)(next_new s + 1 \<mapsto> \<lparr>u_count = 0, u_fd = ?fd, u_file = ?f, u_closing = False\<rparr>),
        openFiles := (openFiles s)(?p := (openFiles s ?p)(?fd := Some (next_new s + 1)))\<rparr>)"
      by (simp add: dce_timerfd_create_def Let_def UnixTimerFd_def new_file_def put_file_def IncFdCount_def FileUsage_def
          put_usage_def set_fd_def)
    from trans [OF sym [OF r] this] have s': "s' = s\<lparr>files := (files s)(?f \<mapsto> ?x), next_new := next_new s + 2,
        usages := (usages s)(next_new s + 1 \<mapsto> \<lparr>u_count = 0, u_fd = ?fd, u_file = ?f, u_closing = False\<rparr>),
        openFiles := (openFiles s)(?p := (openFiles s ?p)(?fd := Some (next_new s + 1)))\<rparr>"
      by (simp only: option.inject prod.inject)
    have po: "pipe_ok s" using i by (simp add: fd_inv_def)
    have ok: "pipe_ok s'" by (rule pipe_ok_add [OF po]) (auto simp: s' split: if_split_asm)
    have th: "same_threads s s'" by (simp add: s' same_threads_def)
    have "fd_inv h s'"
      by (rule new_file_entry [OF i AllocateFd_free [OF refl False], where f = ?f and n = "next_new s + 1", OF _ _ _ _ _ _ th ok])
        (auto simp: s' counts_def fun_eq_iff)
    with th show ?thesis by blast
  qed
qed

text \<open>The two ends that \<open>pipe\<close> makes, and the state with the first of them in the table.\<close>

definition new_end :: "nat option \<Rightarrow> bool \<Rightarrow> size_t \<Rightarrow> unix_fd" where
  "new_end peer side m = \<lparr>m_fdCount = 1, m_refs = 1, m_waitQueueList = [], m_fdFlags = 0, m_statusFlags = 0,
     m_body = Pipe_end \<lparr>m_peer = peer, m_readSide = side, pipe_flags = 0, m_buf = FifoBuffer m\<rparr>\<rparr>"

definition with_reader :: "pid \<Rightarrow> int \<Rightarrow> 'x io \<Rightarrow> 'x io" where
  "with_reader p fd s =
     s\<lparr>files := (files s)(next_new s \<mapsto> new_end (Some (next_new s + 2)) True PIPE_CAPACITY),
       usages := (usages s)(next_new s + 1 \<mapsto> \<lparr>u_count = 0, u_fd = fd, u_file = next_new s, u_closing = False\<rparr>),
       next_new := next_new s + 2,
       openFiles := (openFiles s)(p := (openFiles s p)(fd := Some (next_new s + 1)))\<rparr>"

definition with_writer :: "pid \<Rightarrow> int \<Rightarrow> nat \<Rightarrow> 'x io \<Rightarrow> 'x io" where
  "with_writer p fd peer s =
     s\<lparr>files := (files s)(next_new s \<mapsto> new_end (Some peer) False 0),
       usages := (usages s)(next_new s + 1 \<mapsto> \<lparr>u_count = 0, u_fd = fd, u_file = next_new s, u_closing = False\<rparr>),
       next_new := next_new s + 2,
       openFiles := (openFiles s)(p := (openFiles s p)(fd := Some (next_new s + 1)))\<rparr>"

lemma AllocateFd_cong: "openFiles s' p = openFiles s p \<Longrightarrow> UtilsAllocateFd p s' = UtilsAllocateFd p s"
  by (simp add: UtilsAllocateFd_def)

lemma pipe_cases:
  assumes t: "m_current (io_tm s) = Some t"
  shows "dce_pipe (Some a) s =
    (let p = pid_of s t; fdRead = UtilsAllocateFd p s in
     if fdRead = -1 then Some (-1, set_err EMFILE t s)
     else let s1 = with_reader p fdRead s; fdWrite = UtilsAllocateFd p s1 in
       if fdWrite = -1 then None
       else let s2 = with_writer p fdWrite (next_new s) s1 in
         Some (0, s2\<lparr>fd_pair := (fd_pair s)(a := (fdRead, fdWrite))\<rparr>))"
proof -
  let ?p = "pid_of s t" and ?n = "next_new s"
  let ?fd = "UtilsAllocateFd ?p s"
  obtain reader s1 where r: "PipeFd_reader s = (reader, s1)" by fastforce
  obtain u s2 where u: "FileUsage ?fd reader s1 = (u, s2)" by fastforce
  have n: "reader = ?n" "u = ?n + 1" using r u by (auto simp: PipeFd_reader_def new_file_def FileUsage_def put_file_def)
  let ?s3 = "set_fd ?p ?fd (Some u) s2"
  have tab: "openFiles ?s3 ?p = openFiles (with_reader ?p ?fd s) ?p"
    using r u n by (auto simp: PipeFd_reader_def new_file_def FileUsage_def put_file_def put_usage_def set_fd_def with_reader_def)
  note alloc = AllocateFd_cong [OF tab]
  have "delete_usage u ?s3 = Some s4 \<Longrightarrow> delete_file reader (set_fd ?p ?fd None s4) = None" for s4
    using r u n by (auto simp: PipeFd_reader_def new_file_def FileUsage_def put_file_def put_usage_def set_fd_def
        delete_usage_def DecFdCount_def Unref_def delete_file_def bind_eq_Some_conv bind_eq_None_conv)
  then have err: "do { s4 \<leftarrow> delete_usage u ?s3; s5 \<leftarrow> delete_file reader (set_fd ?p ?fd None s4);
      Some (-1, set_err EMFILE t s5) } = None" by (cases "delete_usage u ?s3") auto
  have ok: "do { (writer, s4) \<leftarrow> PipeFd_writer reader ?s3;
       let (v, s5) = FileUsage fdWrite writer s4; s6 = set_fd ?p fdWrite (Some v) s5 in
       do { s7 \<leftarrow> IncFdCount reader s6; s8 \<leftarrow> IncFdCount writer s7;
            Some (0, s8\<lparr>fd_pair := (fd_pair s8)(a := (?fd, fdWrite))\<rparr>) } }
     = Some (0, (with_writer ?p fdWrite ?n (with_reader ?p ?fd s))\<lparr>fd_pair := (fd_pair s)(a := (?fd, fdWrite))\<rparr>)" for fdWrite
    using r u n
    by (auto simp: PipeFd_reader_def PipeFd_writer_def new_file_def FileUsage_def put_file_def put_usage_def set_fd_def
        with_reader_def with_writer_def new_end_def pipe_at_def put_pipe_def IncFdCount_def numeral_2_eq_2 fun_eq_iff)
  show ?thesis
    unfolding dce_pipe_def t Let_def by (simp add: r u alloc err ok [unfolded Let_def] cong: if_cong)
qed

lemma new_buf: "n \<le> PIPE_CAPACITY \<Longrightarrow> \<exists>m \<le> PIPE_CAPACITY. FifoBuffer n = FifoBuffer m"
  by blast

lemma with_inv:
  assumes i: "fd_inv h s" and p: "openFiles s p fd = None"
    and s': "s' = with_reader p fd s \<or> s' = with_writer p fd peer s"
  shows "fd_inv h s' \<and> same_threads s s'"
proof -
  have po: "pipe_ok s" using i by (simp add: fd_inv_def)
  have th: "same_threads s s'" using s' by (auto simp: same_threads_def with_reader_def with_writer_def)
  have ok: "pipe_ok s'"
    by (rule pipe_ok_add [OF po])
      (use s' in \<open>auto simp: new_buf with_reader_def with_writer_def new_end_def split: if_split_asm\<close>)
  have "fd_inv h s'"
    by (rule new_file_entry [OF i p, where f = "next_new s" and n = "next_new s + 1", OF _ _ _ _ _ _ th ok])
      (use s' in \<open>auto simp: with_reader_def with_writer_def new_end_def counts_def fun_eq_iff\<close>)
  with th show ?thesis by blast
qed

lemma pipe_inv:
  assumes i: "fd_inv h s" and r: "dce_pipe a s = Some (v, s')"
  shows "fd_inv h s' \<and> same_threads s s'"
proof -
  obtain t where t: "m_current (io_tm s) = Some t" using r by (auto simp: dce_pipe_def bind_eq_Some_conv)
  let ?p = "pid_of s t"
  let ?s1 = "with_reader ?p (UtilsAllocateFd ?p s) s"
  let ?fd = "UtilsAllocateFd ?p ?s1"
  show ?thesis
  proof (cases a)
    case None
    with r t have "s' = set_err EFAULT t s" by (simp add: dce_pipe_def Let_def)
    with inv_flowI [OF i quiet_updates(1)] show ?thesis by blast
  next
    case (Some b)
    with r pipe_cases [OF t, of b] consider "s' = set_err EMFILE t s"
      | "UtilsAllocateFd ?p s \<noteq> -1" "?fd \<noteq> -1" "s' = (with_writer ?p ?fd (next_new s) ?s1)\<lparr>fd_pair := (fd_pair s)(b := (UtilsAllocateFd ?p s, ?fd))\<rparr>"
      by (auto simp: Let_def split: if_split_asm)
    then show ?thesis
    proof cases
      case 1
      with inv_flowI [OF i quiet_updates(1)] show ?thesis by blast
    next
      case 2
      have i1: "fd_inv h ?s1 \<and> same_threads s ?s1" by (rule with_inv [OF i AllocateFd_free [OF refl 2(1)]]) simp
      have "fd_inv h (with_writer ?p ?fd (next_new s) ?s1) \<and> same_threads ?s1 (with_writer ?p ?fd (next_new s) ?s1)"
        by (rule with_inv [OF conjunct1 [OF i1] AllocateFd_free [OF refl 2(2)] disjI2 [OF refl]])
      with i1 2(3) show ?thesis by (auto simp: fd_inv_def same_threads_def)
    qed
  qed
qed

end
