(* ===== verification/Io_Runs.thy ===== *)
theory Io_Runs
  imports Io_Steps
begin

text \<open>The invariant holds in every state the processes of a node reach.\<close>

section \<open>\<open>poll\<close> and \<open>select\<close>\<close>

lemma set_AList_update:
  "(\<And>v'. (k, v') \<in> set al \<Longrightarrow> v' = v) \<Longrightarrow> set (AList.update k v al) = insert (k, v) (set al)"
  by (induction al) auto

lemma CheckFdExists_True: "CheckFdExists p fd b s = Some True \<Longrightarrow> \<exists>u. openFiles s p fd = Some u"
  by (auto simp: CheckFdExists_def split: option.split_asm)

lemma quiet_step: "fd_inv h s \<and> same_threads s0 s \<Longrightarrow> quiet s s' \<Longrightarrow> fd_inv h s' \<and> same_threads s0 s'"
  using inv_flowI same_threads_trans by blast

lemma poll_scan_inv:
  assumes "fd_inv (h(t := set unref)) s" and "distinct (map fst unref)"
    and "poll_scan arr is current count unref t s = Some (n, unref', s')"
  shows "fd_inv (h(t := set unref')) s' \<and> same_threads s s' \<and> distinct (map fst unref')"
  using assms
proof (induction "is" arbitrary: current count unref s)
  case (Cons i "is")
  let ?p = "poll_array s arr ! i"
  let ?fd = "poll_fd ?p" and ?want = "poll_events ?p OR POLLERR OR POLLHUP"
  obtain ok where ok: "CheckFdExists (pid_of s t) ?fd True s = Some ok"
    using Cons.prems(3) by (auto simp: Let_def bind_eq_Some_conv)
  show ?case
  proof (cases ok)
    case False
    with Cons.prems(3) ok have "poll_scan arr is current count unref t s = Some (n, unref', s')" by (simp add: Let_def)
    from Cons.IH [OF Cons.prems(1,2) this] show ?thesis .
  next
    case True
    with ok obtain u where u: "openFiles s (pid_of s t) ?fd = Some u"
      using CheckFdExists_True [of "pid_of s t" ?fd True s] by auto
    have tb: "tables_ok (usages s) (openFiles s) (counts s) (next_new s)" and
      ho: "holds_ok (h(t := set unref)) (usages s) (openFiles s) (pid_of s)" using Cons.prems(1) unfolding fd_inv_def by blast+
    obtain x where x: "usages s u = Some x" "u_fd x = ?fd" using tables_okD(5) [OF tb u] by blast
    obtain f un s1 where f: "(case current of
         None \<Rightarrow> do { x \<leftarrow> usages s u; Some (u_file x, unref, s) }
       | Some tb \<Rightarrow> do { (f, s1) \<leftarrow> GetFileInc u s; s2 \<leftarrow> SetEventMask tb ?want s1;
                       Some (f, AList.update ?fd u unref, s2) }) = Some (f, un, s1)"
      and rest: "(do { (e, s2) \<leftarrow> file_Poll f current t s1;
         let got = e AND ?want; s3 = set_revents arr i got s2 in
         if got \<noteq> 0 then poll_scan arr is None (count + 1) un t s3
         else poll_scan arr is current count un t s3 }) = Some (n, unref', s')"
      using Cons.prems(3) ok True u by (auto simp: Let_def bind_eq_Some_conv)
    have s1: "(fd_inv (h(t := set un)) s1 \<and> same_threads s s1) \<and> distinct (map fst un)"
    proof (cases current)
      case None
      with f x have "un = unref" "s1 = s" by simp_all
      with Cons.prems(1,2) show ?thesis by blast
    next
      case (Some tb)
      let ?s = "put_usage u (x\<lparr>u_count := u_count x + 1\<rparr>) s"
      have un: "un = AList.update ?fd u unref" and e: "SetEventMask tb ?want ?s = Some s1"
        using f Some x by (auto simp: GetFileInc_def bind_eq_Some_conv)
      have "v = u" if "(?fd, v) \<in> set unref" for v using ho that u unfolding holds_ok_def by fastforce
      then have set: "set un = insert (?fd, u) (set unref)" unfolding un by (rule set_AList_update)
      have "fd_inv (h(t := set un)) ?s"
        using take_entry [OF Cons.prems(1) x(1), of t] u x(2)
        unfolding set fun_upd_same fun_upd_upd by simp
      then have "fd_inv (h(t := set un)) ?s \<and> same_threads s ?s" by (simp add: put_usage_def same_threads_def)
      from quiet_step [OF this quiet_SetEventMask [OF e]] distinct_update [OF Cons.prems(2)] show ?thesis by (simp add: un)
    qed
    obtain e s2 where e: "file_Poll f current t s1 = Some (e, s2)" using rest by (auto simp: bind_eq_Some_conv)
    have "quiet s1 (set_revents arr i (e AND ?want) s2)"
      using file_Poll_quiet [OF e] quiet_updates(11) quiet_trans by fastforce
    from quiet_step [OF conjunct1 [OF s1] this]
    have s3: "fd_inv (h(t := set un)) (set_revents arr i (e AND ?want) s2)" "same_threads s (set_revents arr i (e AND ?want) s2)"
      by blast+
    from rest e have "\<exists>c k. poll_scan arr is c k un t (set_revents arr i (e AND ?want) s2) = Some (n, unref', s')"
      by (auto simp: Let_def split: if_split_asm)
    with Cons.IH [OF s3(1) conjunct2 [OF s1]] s3(2) same_threads_trans show ?thesis by blast
  qed
qed auto

lemma unref_all_inv:
  assumes "fd_inv (h(t := set us)) s" and "distinct (map fst us)" and "unref_all us s = Some s'"
  shows "fd_inv (h(t := {})) s' \<and> same_threads s s'"
  using assms
proof (induction us arbitrary: s)
  case (Cons e us)
  obtain fd u where e: "e = (fd, u)" by (cases e)
  have ho: "holds_ok (h(t := set (e # us))) (usages s) (openFiles s) (pid_of s)"
    and tb: "tables_ok (usages s) (openFiles s) (counts s) (next_new s)" using Cons.prems(1) unfolding fd_inv_def by blast+
  have "openFiles s (pid_of s t) fd = Some u" using ho e by (auto simp: holds_ok_def)
  then obtain x where x: "usages s u = Some x" "u_fd x = fd" using tables_okD(5) [OF tb] by blast
  let ?s = "put_usage u (x\<lparr>u_count := u_count x - 1\<rparr>) s"
  have "set (e # us) - {(fd, u)} = set us" using Cons.prems(2) by (force simp: e)
  with release_entry [OF Cons.prems(1) x(1), of t] x(2) e have "fd_inv ((h(t := set (e # us)))(t := set us)) ?s"
    by (simp del: fun_upd_apply fun_upd_upd add: fun_upd_same)
  then have i: "fd_inv (h(t := set us)) ?s" by (simp only: fun_upd_upd)
  have "unref_all us ?s = Some s'" using Cons.prems(3) x by (auto simp: e DecUsage_def bind_eq_Some_conv)
  from Cons.IH [OF i _ this] Cons.prems(2) have "fd_inv (h(t := {})) s'" "same_threads ?s s'" unfolding e list.map distinct.simps by blast+
  moreover have "same_threads s ?s" by (simp add: put_usage_def same_threads_def)
  ultimately show ?case using same_threads_trans by blast
qed auto

lemma AdvanceTime_good:
  assumes "fd_inv (h(t := {})) s" and "UtilsAdvanceTime E count t s = Some r"
  shows "good h t s r"
  using assms inv_flowI [OF assms(1) quiet_updates(10)] inv_flowI [OF assms(1) quiet_Wait_timeout]
  by (auto simp: UtilsAdvanceTime_def bind_eq_Some_conv split: if_split_asm)

lemma poll_finish_good:
  assumes "fd_inv (h(t := set unref)) s" and "distinct (map fst unref)"
    and "poll_finish E count timeout table unref t s = Some r"
  shows "good h t s r"
proof -
  obtain s1 s2 s3 where s: "FreeWait table t s = Some s1" "delete_table table s1 = Some s2" "unref_all unref s2 = Some s3"
    and r: "(if count = 0 \<and> timeout = 0 then UtilsAdvanceTime E count t s3 else Some (Done count s3)) = Some r"
    using assms(3) by (auto simp: poll_finish_def bind_eq_Some_conv)
  have i2: "fd_inv (h(t := set unref)) s2 \<and> same_threads s s2"
    by (rule inv_flowI [OF assms(1) quiet_trans [OF quiet_FreeWait [OF s(1)] quiet_delete_table [OF s(2)]]])
  with unref_all_inv [OF conjunct1 [OF i2] assms(2) s(3)] same_threads_trans
  have i3: "fd_inv (h(t := {})) s3" "same_threads s s3" by blast+
  show ?thesis
  proof (cases "count = 0 \<and> timeout = 0")
    case True
    with r AdvanceTime_good [OF i3(1), of E count r] have "good h t s3 r" by simp
    with i3(2) show ?thesis by (cases r) (auto intro: same_threads_trans)
  next
    case False
    then have "r = Done count s3" using r by auto
    with i3 show ?thesis by simp
  qed
qed

lemma table_Wait_quiet: "table_Wait E table to t s = Some s' \<Longrightarrow> quiet s s'"
proof -
  assume "table_Wait E table to t s = Some s'"
  then obtain x where "io_Wait_timeout E to (put_table table (x\<lparr>m_waitTask := Some t\<rparr>)
      (s\<lparr>pollTable := (pollTable s)(t := Some table)\<rparr>)) = Some s'" by (auto simp: table_Wait_def bind_eq_Some_conv)
  moreover have "quiet s (s\<lparr>pollTable := (pollTable s)(t := Some table)\<rparr>)" by (simp add: quiet_def same_tables_def)
  ultimately show ?thesis using quiet_trans quiet_updates(3) quiet_Wait_timeout by blast
qed

lemma poll_loop_good:
  assumes i: "fd_inv (h(t := set unref)) s" and d: "distinct (map fst unref)"
    and r: "poll_loop E arr nfds timeout endtime table current unref t s = Some r"
  shows "good h t s r"
proof -
  obtain count un s1 where sc: "poll_scan arr [0 ..< nfds] current 0 unref t s = Some (count, un, s1)"
    using r by (auto simp: poll_loop_def bind_eq_Some_conv)
  note s1 = poll_scan_inv [OF i d sc]
  from r sc consider "poll_finish E count timeout table un t s1 = Some r"
    | to s2 where "table_Wait E table to t s1 = Some s2" "r = Blocked [Poll_wait arr nfds timeout endtime table un] s2"
    by (auto simp: poll_loop_def Let_def bind_eq_Some_conv split: if_split_asm)
  then show ?thesis
  proof cases
    case 1
    with poll_finish_good s1 have "good h t s1 r" by blast
    with s1 show ?thesis by (cases r) (auto intro: same_threads_trans)
  next
    case 2
    from quiet_step [OF _ table_Wait_quiet [OF 2(1)], of "h(t := set un)" s] s1 show ?thesis by (simp add: 2(2))
  qed
qed

lemma poll_woken_good:
  assumes i: "fd_inv (h(t := set unref)) s" and d: "distinct (map fst unref)"
    and r: "poll_woken E arr nfds timeout endtime table unref t s = Some r"
  shows "good h t s r"
proof -
  obtain x where x: "poll_loop E arr nfds timeout endtime table None unref t
      (put_table table (x\<lparr>m_waitTask := None\<rparr>) (s\<lparr>pollTable := (pollTable s)(t := None)\<rparr>)) = Some r" (is "poll_loop _ _ _ _ _ _ _ _ _ ?s = _")
    using r by (auto simp: poll_woken_def bind_eq_Some_conv)
  have "quiet s (s\<lparr>pollTable := (pollTable s)(t := None)\<rparr>)" by (simp add: quiet_def same_tables_def)
  from inv_flowI [OF i quiet_trans [OF this quiet_updates(3)]] have s: "fd_inv (h(t := set unref)) ?s" "same_threads s ?s" by blast+
  from poll_loop_good [OF s(1) d x] s(2) show ?thesis by (cases r) (auto intro: same_threads_trans)
qed

lemma dce_poll_good:
  assumes i: "fd_inv (h(t := {})) s" and t: "m_current (io_tm s) = Some t" and r: "dce_poll E arr nfds timeout s = Some r"
  shows "good h t s r"
proof -
  obtain table s1 where tb: "PollTable s = (table, s1)" by fastforce
  let ?s2 = "s1\<lparr>poll_array := (poll_array s1)(arr :=
      map (\<lambda>p. p\<lparr>poll_revents := 0\<rparr>) (take nfds (poll_array s1 arr)) @ drop nfds (poll_array s1 arr))\<rparr>"
  have l: "poll_loop E arr nfds timeout (if timeout > 0 then io_now E s + timeout * 1000000 else 0) table
      (if timeout = 0 then None else Some table) [] t ?s2 = Some r"
    using r t tb by (auto simp: dce_poll_def Let_def bind_eq_Some_conv split: if_split_asm)
  have "quiet s ?s2" using tb by (auto simp: PollTable_def put_table_def quiet_def same_tables_def)
  from inv_flowI [OF i this] have s: "fd_inv (h(t := set [])) ?s2" "same_threads s ?s2" by simp_all
  from poll_loop_good [OF s(1) _ l] s(2) show ?thesis by (cases r) (auto intro: same_threads_trans)
qed

section \<open>Calls\<close>

lemma good_mono: "same_threads s s1 \<Longrightarrow> good h t s1 r \<Longrightarrow> good h t s r"
  by (cases r) (auto intro: same_threads_trans)

lemma select_one_quiet: "quiet (snd r) (snd (select_one fd a hit r))"
  by (auto simp: select_one_def quiet_intros split: option.split)

lemma select_collect_quiet: "quiet (snd r) (snd (select_collect ps rd wr ex r))"
proof (induction ps arbitrary: r)
  case (Cons p ps)
  show ?case
    unfolding select_collect.simps Let_def
    by (rule quiet_trans [OF quiet_trans [OF quiet_trans [OF select_one_quiet select_one_quiet] select_one_quiet] Cons.IH])
qed simp

lemma select_return_quiet: "select_return arr nfds rd wr ex v s = Some r \<Longrightarrow> \<exists>v' s'. r = Done v' s' \<and> quiet s s'"
proof -
  assume r: "select_return arr nfds rd wr ex v s = Some r"
  let ?s = "FD_ZERO ex (FD_ZERO wr (FD_ZERO rd s))"
  have q: "quiet s ?s" using quiet_updates(12) quiet_trans by blast
  show ?thesis
  proof (cases "v > 0")
    case True
    obtain n s2 where n: "select_collect (take nfds (poll_array ?s arr)) rd wr ex (0, ?s) = (n, s2)" by fastforce
    with r True have "r = Done n s2" by (simp add: select_return_def Let_def)
    moreover have "quiet ?s s2" using select_collect_quiet [of "(0, ?s)" "take nfds (poll_array ?s arr)" rd wr ex] n by simp
    ultimately show ?thesis using q quiet_trans by blast
  next
    case False
    with r q show ?thesis by (auto simp: select_return_def Let_def)
  qed
qed

lemma dce_select_good:
  assumes i: "fd_inv (h(t := {})) s" and t: "m_current (io_tm s) = Some t" and r: "dce_select E nfds rd wr ex timeout s = Some r"
  shows "good h t s r"
proof -
  have err: "good h t s (io_fails e t s)" for e by (rule io_good_fails [OF i same_threads_refl])
  have "(\<exists>e. r = io_fails e t s) \<or> (\<exists>fds pollTo r0.
      dce_poll E (Stack (next_new s)) (length fds) pollTo (s\<lparr>next_new := next_new s + 1,
        poll_array := (poll_array s)(Stack (next_new s) := fds)\<rparr>) = Some r0
      \<and> and_then (Select_return (Stack (next_new s)) (length fds) rd wr ex)
          (select_return (Stack (next_new s)) (length fds) rd wr ex) r0 = Some r)"
    using r t by (auto simp: dce_select_def Let_def bind_eq_Some_conv split: if_split_asm option.split_asm)
  then show ?thesis
  proof
    assume "\<exists>e. r = io_fails e t s"
    with err show ?thesis by blast
  next
    assume "\<exists>fds pollTo r0.
      dce_poll E (Stack (next_new s)) (length fds) pollTo (s\<lparr>next_new := next_new s + 1,
        poll_array := (poll_array s)(Stack (next_new s) := fds)\<rparr>) = Some r0
      \<and> and_then (Select_return (Stack (next_new s)) (length fds) rd wr ex)
          (select_return (Stack (next_new s)) (length fds) rd wr ex) r0 = Some r"
    then obtain fds pollTo r0 where r0: "dce_poll E (Stack (next_new s)) (length fds) pollTo (s\<lparr>next_new := next_new s + 1,
        poll_array := (poll_array s)(Stack (next_new s) := fds)\<rparr>) = Some r0" (is "dce_poll _ _ _ _ ?s = _")
      and tl: "and_then (Select_return (Stack (next_new s)) (length fds) rd wr ex)
          (select_return (Stack (next_new s)) (length fds) rd wr ex) r0 = Some r" by blast
    have q: "quiet s ?s" by (simp add: quiet_def same_tables_def)
    from inv_flowI [OF i this] have s: "fd_inv (h(t := {})) ?s" "same_threads s ?s" by blast+
    from dce_poll_good [OF s(1) _ r0] t have g: "good h t ?s r0" by simp
    have g: "good h t s r0" by (rule good_mono [OF s(2) g])
    show ?thesis
    proof (cases r0)
      case (Done v s2)
      with tl obtain v' s' where "r = Done v' s'" "quiet s2 s'" using select_return_quiet by fastforce
      with g Done quiet_step [of "h(t := {})" s2 s s'] show ?thesis by simp
    next
      case (Blocked fs s2)
      with tl g show ?thesis by (auto intro!: apart_append)
    qed
  qed
qed

lemma returned_good:
  assumes "returned x = Some r" and "\<And>v s'. x = Some (v, s') \<Longrightarrow> fd_inv (h(t := {})) s' \<and> same_threads s s'"
  shows "good h t s r"
  using assms by (auto simp: returned_def bind_eq_Some_conv)

lemma exec_good:
  assumes E: "env_ok E" and i: "fd_inv (h(t := {})) s" and t: "m_current (io_tm s) = Some t" and r: "exec_io E c s = Some r"
  shows "good h t s r"
proof (cases c)
  case (Fcntl_call fd cmd arg)
  show ?thesis
  proof (cases "cmd = F_DUPFD")
    case True
    with r Fcntl_call have "returned (dce_dup fd s) = Some r" by (simp add: dce_fcntl_def returned_def)
    then show ?thesis by (rule returned_good) (rule dup_inv [OF i])
  next
    case False
    with r Fcntl_call method_good [OF E i t] show ?thesis by (simp add: dce_fcntl_def)
  qed
next
  case (Close_call fd)
  show ?thesis by (rule returned_good [OF r [unfolded Close_call exec_io.simps]]) (rule close_inv [OF i])
next
  case (Dup_call fd)
  show ?thesis by (rule returned_good [OF r [unfolded Dup_call exec_io.simps]]) (rule dup_inv [OF i])
next
  case (Dup2_call fd newfd)
  show ?thesis by (rule returned_good [OF r [unfolded Dup2_call exec_io.simps]]) (rule dup2_inv [OF i])
next
  case (Pipe_call a)
  show ?thesis by (rule returned_good [OF r [unfolded Pipe_call exec_io.simps]]) (rule pipe_inv [OF i])
next
  case Timer_call
  show ?thesis by (rule returned_good [OF r [unfolded Timer_call exec_io.simps]]) (rule timer_create_inv [OF i])
next
  case (Poll_call a nfds timeout)
  with r dce_poll_good [OF i t] show ?thesis by simp
next
  case (Select_call nfds rd wr ex timeout)
  with r dce_select_good [OF i t] show ?thesis by simp
qed (use r method_good [OF E i t] in \<open>simp_all add: dce_write_def dce_read_def\<close>)

section \<open>Going on\<close>

lemma resume_io_inv:
  assumes E: "env_ok E" and i: "fd_inv (h(t := frame_held fr \<union> H)) s" and d: "frame_distinct fr" "holder fr \<longrightarrow> H = {}"
    and r: "resume_io E fr v t s = Some r"
  shows "same_threads s (res_state r) \<and> (case r of Done v' s' \<Rightarrow> fd_inv (h(t := H)) s'
      | Blocked gs s' \<Rightarrow> fd_inv (h(t := held_of gs \<union> H)) s' \<and> apart gs \<and> (H = {} \<or> (\<forall>fr \<in> set gs. \<not> holder fr)))"
    (is "?good")
proof -
  have light: ?good if "light_frame fr" "flow s (res_state r)" "light r"
  proof -
    have "frame_held fr = {}" using light_frame_held [OF that(1)] by blast
    with i have "fd_inv (h(t := H)) s" by simp
    from inv_flow [OF this that(2)] flow_threads [OF that(2)] that(3) show ?thesis
      by (cases r) (auto dest: light_frames)
  qed
  show ?thesis
  proof (cases fr)
    case (Read_wait f buf count w to)
    then have "read_woken E f buf count w to t s = Some r" using r by simp
    from light [OF _ read_woken_flow [OF this] read_woken_light [OF this]] show ?thesis unfolding Read_wait by simp
  next
    case (Recv_wait f buf len w to)
    then have "recv_woken E f buf len w to t s = Some r" using r by simp
    from light [OF _ recv_woken_flow [OF E this] recv_woken_light [OF this]] show ?thesis unfolding Recv_wait by simp
  next
    case (Write_return f)
    then have "write_return E f v s = Some r" using r by simp
    from light [OF _ write_return_flow [OF this] write_return_light [OF this]] show ?thesis unfolding Write_return by simp
  next
    case (Timer_wait f buf)
    then have w: "timer_woken f buf s = Some r" using r by simp
    have "light r" using w by (auto simp: timer_woken_def bind_eq_Some_conv intro: timer_taken_light)
    from light [OF _ quiet_flow [OF timer_woken_quiet [OF w]] this] show ?thesis unfolding Timer_wait by simp
  next
    case (Method_return fd u narrow)
    have i': "fd_inv (h(t := {(fd, u)})) s" and H: "H = {}" using i d(2) Method_return by simp_all
    have "method_return fd u narrow t v s = Some r" using r Method_return by simp
    from method_return_inv [OF i' _ this] H show ?thesis by auto
  next
    case (Poll_wait arr nfds timeout endtime table unref)
    have i': "fd_inv (h(t := set unref)) s" and H: "H = {}" using i d(2) Poll_wait by simp_all
    have "distinct (map fst unref)" "poll_woken E arr nfds timeout endtime table unref t s = Some r"
      using d(1) r Poll_wait by simp_all
    from poll_woken_good [OF i' this] H show ?thesis by (cases r) auto
  next
    case (Advance_wait count)
    with r have e: "r = Done count (AdvanceTime_return E t s)" by simp
    from inv_flowI [OF i quiet_updates(10)] Advance_wait show ?thesis by (simp add: e)
  next
    case (Select_return arr nfds rd wr ex)
    then have "select_return arr nfds rd wr ex v s = Some r" using r by simp
    from select_return_quiet [OF this] obtain v' s' where e: "r = Done v' s'" "quiet s s'" by blast
    from inv_flowI [OF i e(2)] Select_return show ?thesis by (simp add: e)
  qed
qed

lemma resume_frames_good:
  assumes E: "env_ok E"
  shows "fd_inv (h(t := held_of fs)) s \<Longrightarrow> apart fs \<Longrightarrow> resume_frames E fs v t s = Some r \<Longrightarrow> good h t s r"
proof (induction fs arbitrary: v s)
  case Nil
  have "r = Done v s" using Nil.prems(3) by simp
  then show ?case using Nil.prems(1) by (simp only: good_simps held_of_simps(1) same_threads_refl simp_thms)
next
  case (Cons fr fs)
  obtain r0 where r0: "resume_io E fr v t s = Some r0" using Cons.prems(3) by (auto simp: bind_eq_Some_conv)
  note i = Cons.prems(1) [unfolded held_of_simps]
  have d: "frame_distinct fr" "holder fr \<longrightarrow> held_of fs = {}" "apart fs" using Cons.prems(2) by simp_all
  note st = resume_io_inv [OF E i d(1,2) r0]
  show ?case
  proof (cases r0)
    case (Done v' s')
    with Cons.prems(3) r0 have "resume_frames E fs v' t s' = Some r" by simp
    from st have "same_threads s s'" "fd_inv (h(t := held_of fs)) s'" unfolding Done by simp_all
    from good_mono [OF this(1) Cons.IH [OF this(2) d(3) \<open>resume_frames E fs v' t s' = Some r\<close>]] show ?thesis .
  next
    case (Blocked gs s')
    with Cons.prems(3) r0 have "r = Blocked (gs @ fs) s'" by simp
    with st Blocked d(3) show ?thesis by (auto intro!: apart_append)
  qed
qed

end
