(* ===== verification/Io_Reach.thy ===== *)
theory Io_Reach
  imports Io_Runs
begin

text \<open>The invariant of the descriptor tables in every state the processes of a node reach.\<close>

section \<open>Steps of a call\<close>

lemma fd_inv_upd [simp]: "fd_inv h (s\<lparr>frames := a1\<rparr>) = fd_inv h s"
  by (simp add: fd_inv_def)

lemma io_settle_inv:
  assumes "io_inv s" and "good (held s) t s r"
  shows "io_inv (io_settle t r)"
proof (cases r)
  case (Done v s')
  with assms(2) have e: "frames s' = frames s" and i: "fd_inv ((held s)(t := {})) s'" by (simp_all add: same_threads_def)
  have "held (io_settle t r) = (held s)(t := {})" by (auto simp: Done held_def e fun_eq_iff)
  moreover have "apart (frames (io_settle t r) u)" for u using assms(1) by (simp add: Done e io_inv_def)
  ultimately show ?thesis using i unfolding io_inv_def by (simp only: Done io_settle.simps fd_inv_upd simp_thms)
next
  case (Blocked fs s')
  with assms(2) have e: "frames s' = frames s" and i: "fd_inv ((held s)(t := held_of fs)) s'" and a: "apart fs"
    by (simp_all add: same_threads_def)
  have "held (io_settle t r) = (held s)(t := held_of fs)" by (auto simp: Blocked held_def e fun_eq_iff)
  moreover have "apart (frames (io_settle t r) u)" for u using assms(1) a by (simp add: Blocked e io_inv_def)
  ultimately show ?thesis using i unfolding io_inv_def by (simp only: Blocked io_settle.simps fd_inv_upd simp_thms)
qed

lemma call_inv:
  assumes E: "env_ok E" and i: "io_inv s" and t: "m_current (io_tm s) = Some t"
    and fr: "frames s t = []" and r: "exec_io E c s = Some r"
  shows "io_inv (io_settle t r)"
proof (rule io_settle_inv [OF i])
  have "(held s)(t := {}) = held s" using fr by (auto simp: held_def fun_eq_iff)
  then have "fd_inv ((held s)(t := {})) s" using i unfolding io_inv_def by (simp only:)
  from exec_good [OF E this t r] show "good (held s) t s r" .
qed

lemma resume_inv:
  assumes E: "env_ok E" and i: "io_inv s" and r: "resume_frames E (frames s t) 0 t s = Some r"
  shows "io_inv (io_settle t r)"
proof (rule io_settle_inv [OF i])
  have "(held s)(t := held_of (frames s t)) = held s" by (auto simp: held_def fun_eq_iff)
  then have "fd_inv ((held s)(t := held_of (frames s t))) s" and "apart (frames s t)"
    using i unfolding io_inv_def by (simp_all only:)
  from resume_frames_good [OF E this r] show "good (held s) t s r" .
qed

section \<open>Fork and exit\<close>

lemma clone_fds_inv:
  assumes "fd_inv h s" and "distinct fds" and "\<And>fd. fd \<in> set fds \<Longrightarrow> openFiles s c fd = None"
    and "clone_fds p c fds s = Some s'"
  shows "fd_inv h s' \<and> same_threads s s'"
  using assms
proof (induction fds arbitrary: s)
  case (Cons fd fds)
  obtain u and x :: file_usage and s1 s2 where "openFiles s p fd = Some u" "usages s u = Some x"
    and s2: "IncFdCount (u_file x) s = Some s1" "Ref (u_file x) s1 = Some s2"
    and tl: "clone_fds p c fds (set_fd c fd (Some (next_new s2)) (snd (FileUsage fd (u_file x) s2))) = Some s'"
    using Cons.prems(4) by (auto simp: bind_eq_Some_conv FileUsage_def)
  obtain y where y: "files s (u_file x) = Some y"
    and e: "s2 = put_file (u_file x) (y\<lparr>m_fdCount := m_fdCount y + 1, m_refs := m_refs y + 1\<rparr>) s"
    using share_eq [OF s2] by blast
  let ?s = "set_fd c fd (Some (next_new s2)) (snd (FileUsage fd (u_file x) s2))"
  have st: "fd_inv h ?s \<and> same_threads s ?s"
    by (rule share_entry [OF Cons.prems(1) _ y]) (use Cons.prems(3) in \<open>simp_all add: e put_file_def\<close>)
  have "openFiles ?s c g = None" if "g \<in> set fds" for g
  proof -
    have "openFiles s c g = None" "g \<noteq> fd" using that Cons.prems(2,3) by auto
    then show ?thesis by (simp add: e set_fd_def FileUsage_def put_usage_def put_file_def)
  qed
  from Cons.IH [OF conjunct1 [OF st] _ this tl] Cons.prems(2) st same_threads_trans show ?case by fastforce
qed auto

lemma nullify_inv:
  assumes i: "fd_inv h s" and p: "openFiles s p fd = Some u" and no: "\<And>t. (fd, u) \<notin> h t" and r: "NullifyUsage u s = Some s'"
  shows "fd_inv h s' \<and> same_threads s s' \<and> openFiles s' = openFiles s \<and> io_tm s' = io_tm s"
proof -
  have ho: "holds_ok h (usages s) (openFiles s) (pid_of s)" and tb: "tables_ok (usages s) (openFiles s) (counts s) (next_new s)"
    and po: "pipe_ok s" using i by (auto simp: fd_inv_def)
  obtain x where x: "usages s u = Some x" "u_fd x = fd" using tables_okD(5) [OF tb p] by blast
  with r have e: "s' = put_usage u (x\<lparr>u_count := 0\<rparr>) s" by (simp add: NullifyUsage_def)
  have "holds_ok h ((usages s)(u \<mapsto> x\<lparr>u_count := 0\<rparr>)) (openFiles s) (pid_of s)"
    using ho no x unfolding holds_ok_def by simp
  with count_tables [OF tb x(1), of "x\<lparr>u_count := 0\<rparr>"] po show ?thesis
    by (simp add: fd_inv_def e put_usage_def same_threads_def)
qed

lemma close_fds_inv:
  assumes "fd_inv h s" and "\<And>t. pid_of s t = p \<Longrightarrow> h t = {}" and "close_fds E p fds s = Some s'"
  shows "fd_inv h s' \<and> same_threads s s'"
  using assms
proof (induction fds arbitrary: s)
  case (Cons fd fds)
  obtain u s1 r s2 where u: "openFiles s p fd = Some u" and s1: "NullifyUsage u s = Some s1"
    and s2: "dce_close E fd s1 = Some (r, s2)" and tl: "close_fds E p fds s2 = Some s'"
    using Cons.prems(3) by (auto simp: bind_eq_Some_conv)
  have tb: "tables_ok (usages s) (openFiles s) (counts s) (next_new s)"
    and ho: "holds_ok h (usages s) (openFiles s) (pid_of s)" using Cons.prems(1) unfolding fd_inv_def by blast+
  have no: "(fd, u) \<notin> h t" for t
  proof
    assume t: "(fd, u) \<in> h t"
    then have "openFiles s (pid_of s t) fd = Some u" using ho unfolding holds_ok_def by blast
    with tables_okD(6) [OF tb u] have "pid_of s t = p" by metis
    with Cons.prems(2) t show False by blast
  qed
  note i1 = nullify_inv [OF Cons.prems(1) u no s1]
  note i2 = close_inv [OF conjunct1 [OF i1] s2]
  have "pid_of s2 = pid_of s" using i1 i2 by (simp add: same_threads_def)
  with Cons.IH [OF conjunct1 [OF i2] _ tl] Cons.prems(2) have "fd_inv h s' \<and> same_threads s2 s'" by simp
  with i1 i2 same_threads_trans show ?case by blast
qed auto

section \<open>All steps\<close>

lemma io_inv_same: "io_inv s \<Longrightarrow> fd_inv (held s) s' \<and> same_threads s s' \<Longrightarrow> io_inv s'"
proof -
  assume i: "io_inv s" and s: "fd_inv (held s) s' \<and> same_threads s s'"
  then have e: "frames s' = frames s" by (simp add: same_threads_def)
  then have "held s' = held s" by (simp add: held_def fun_eq_iff)
  with i s e show ?thesis by (simp add: io_inv_def)
qed

lemma io_inv_quiet: "io_inv s \<Longrightarrow> quiet s s' \<Longrightarrow> io_inv s'"
  using io_inv_same [of s s'] inv_flowI [of "held s" s s'] unfolding io_inv_def by blast

lemma attach_inv:
  assumes "io_inv s" and "frames s t = []"
  shows "io_inv (s\<lparr>pid_of := (pid_of s)(t := p), threads := k\<rparr>)"
proof -
  have "held s t = {}" using assms(2) by (simp add: held_def)
  then have "fd_inv (held s) (s\<lparr>pid_of := (pid_of s)(t := p), threads := k\<rparr>)"
    using assms(1) unfolding io_inv_def fd_inv_def holds_ok_def by auto
  moreover have "held (s\<lparr>pid_of := (pid_of s)(t := p), threads := k\<rparr>) = held s" by (simp add: held_def fun_eq_iff)
  ultimately show ?thesis using assms(1) by (simp add: io_inv_def)
qed

lemma io_step_inv:
  assumes E: "env_ok E" and i: "io_inv s" and st: "io_step E s s'"
  shows "io_inv s'"
  using st
proof (cases rule: io_step.cases)
  case (call t c r)
  with call_inv [OF E i] show ?thesis by blast
next
  case (resume t r)
  with resume_inv [OF E i] show ?thesis by blast
next
  case (fork c p)
  have "fd_inv (held s) s' \<and> same_threads s s'"
    by (rule clone_fds_inv [OF _ _ _ fork(2) [unfolded clone_files_def]])
      (use i fork(1) in \<open>simp_all add: io_inv_def open_fds_def\<close>)
  from io_inv_same [OF i this] show ?thesis .
next
  case (exit t)
  have "fd_inv (held s) s' \<and> same_threads s s'"
    by (rule close_fds_inv [OF _ _ exit(3)]) (use i exit(2) in \<open>simp_all add: io_inv_def held_def\<close>)
  from io_inv_same [OF i this] show ?thesis .
next
  case (attach t p)
  with attach_inv [OF i] show ?thesis by simp
next
  case (program m i' d b g h k q)
  have "quiet s s'" unfolding program by (simp add: quiet_def same_tables_def cores_def fun_eq_iff)
  from io_inv_quiet [OF i this] show ?thesis .
next
  case (signal p sig)
  from io_inv_quiet [OF i quiet_SendSignal [OF this]] show ?thesis .
next
  case (expire f x)
  from io_inv_quiet [OF i quiet_trans [OF _ TimerExpired_quiet [OF expire(3)]]] show ?thesis
    by (simp add: quiet_def same_tables_def on_sim_def)
next
  case (other m)
  have "quiet s s'" unfolding other by (simp add: quiet_def same_tables_def)
  from io_inv_quiet [OF i this] show ?thesis .
qed

lemma io_inv_new: "io_inv (new_io m)"
  by (simp add: io_inv_def fd_inv_def tables_ok_def holds_ok_def pipe_ok_def held_def new_io_def counts_def pipe_at_def)

lemma io_reach_inv: "io_reach E x s \<Longrightarrow> env_ok E \<Longrightarrow> io_inv s"
  by (induction rule: io_reach.induct) (blast intro: io_inv_new io_step_inv)+

end
