(* ===== verification/Io_Scripts.thy ===== *)
theory Io_Scripts
  imports Io_Reach
begin

text \<open>Runs of the processes of a node given as lists of actions.\<close>

section \<open>Actions\<close>

text \<open>For the evaluation of runs: the equation of \<open>pipe_Close\<close>, and the search for a free descriptor.\<close>

declare pipe_Close.simps [code]

function first_free :: "(int \<rightharpoonup> nat) \<Rightarrow> int \<Rightarrow> int" where
  "first_free m fd = (if fd \<ge> 1024 then -1 else if m fd = None then fd else first_free m (fd + 1))"
  by pat_completeness auto
termination by (relation "measure (\<lambda>(m, fd). nat (1024 - fd))") auto

declare first_free.simps [simp del]

lemma first_free_find:
  "k \<le> 1024 \<Longrightarrow> first_free m (int k) = (case find (\<lambda>fd. m (int fd) = None) [k ..< 1024] of Some fd \<Rightarrow> int fd | None \<Rightarrow> -1)"
proof (induction "1024 - k" arbitrary: k)
  case 0
  then show ?case by (subst first_free.simps) simp
next
  case (Suc n)
  then have "k < 1024" "n = 1024 - Suc k" by simp_all
  with Suc(1) [of "Suc k"] show ?case by (subst first_free.simps) (simp add: upt_rec add.commute)
qed

lemma UtilsAllocateFd_code [code]: "UtilsAllocateFd p s = first_free (openFiles s p) 0"
  using first_free_find [of 0 "openFiles s p"] by (simp add: UtilsAllocateFd_def MAX_FDS_def)

text \<open>
  A thread starts in a process; the simulator fires its next event; the running thread makes a call,
  goes on with one, or gives the processor back or
  ends; a signal is sent to a
  process; the program stores bytes, or fills an array for \<open>poll\<close>.
\<close>

datatype io_action =
    Io_begin pid | Io_event | Io_call io_call | Io_resume | Io_yield | Io_leave
  | Io_signal pid int | Io_store addr "byte list" | Io_polls addr "pollfd list"

fun perform_io :: "'x io_env \<Rightarrow> io_action \<Rightarrow> 'x io \<Rightarrow> 'x io option" where
  "perform_io E (Io_begin p) s =
     (if m_current (io_tm s) \<noteq> None then None
      else do { (t, m) \<leftarrow> tm_Start (io_sim E) (io_tm s);
                if frames s t \<noteq> [] then None
                else Some (s\<lparr>io_tm := m, pid_of := (pid_of s)(t := p), threads := (threads s)(p := threads s p @ [t])\<rparr>) })"
| "perform_io E Io_event s = do { m \<leftarrow> fire_event (io_sim E) (io_tm s); Some (s\<lparr>io_tm := m\<rparr>) }"
| "perform_io E (Io_call c) s =
     do { t \<leftarrow> m_current (io_tm s);
          if frames s t \<noteq> [] then None else do { r \<leftarrow> exec_io E c s; Some (io_settle t r) } }"
| "perform_io E Io_resume s =
     do { t \<leftarrow> m_current (io_tm s);
          if frames s t = [] then None else do { r \<leftarrow> resume_frames E (frames s t) 0 t s; Some (io_settle t r) } }"
| "perform_io E Io_yield s =
     do { t \<leftarrow> m_current (io_tm s);
          if frames s t \<noteq> [] then None
          else do { m \<leftarrow> Yield (io_sim E) (io_delay E) (io_tm s); Some (s\<lparr>io_tm := m\<rparr>) } }"
| "perform_io E Io_leave s =
     do { t \<leftarrow> m_current (io_tm s);
          if frames s t \<noteq> [] then None
          else do { m \<leftarrow> tm_Exit (io_sim E) (io_delay E) (io_tm s); Some (s\<lparr>io_tm := m\<rparr>) } }"
| "perform_io E (Io_signal p sig) s = UtilsSendSignal E p sig s"
| "perform_io E (Io_store a bs) s = Some (store_bytes a bs s)"
| "perform_io E (Io_polls a ps) s = Some (s\<lparr>poll_array := (poll_array s)(User a := ps)\<rparr>)"

fun io_script :: "'x io_env \<Rightarrow> io_action list \<Rightarrow> 'x io \<Rightarrow> 'x io option" where
  "io_script E [] s = Some s"
| "io_script E (a # as) s = do { s' \<leftarrow> perform_io E a s; io_script E as s' }"

lemma perform_io_reach:
  assumes "io_reach E x s" and "perform_io E a s = Some s'"
  shows "io_reach E x s'"
proof (cases a)
  case (Io_begin p)
  have cur: "m_current (io_tm s) = None" using assms(2) Io_begin by (cases "m_current (io_tm s)") simp_all
  obtain t m where st: "tm_Start (io_sim E) (io_tm s) = Some (t, m)"
    using assms(2) Io_begin cur by (cases "tm_Start (io_sim E) (io_tm s)") (simp, fastforce)
  have fr: "frames s t = []" using assms(2) Io_begin cur st by (cases "frames s t") simp_all
  let ?s = "(s\<lparr>io_tm := m\<rparr>)\<lparr>pid_of := (pid_of s)(t := p), threads := (threads s)(p := threads s p @ [t])\<rparr>"
  have "perform_io E a s = Some ?s" unfolding Io_begin perform_io.simps cur st by (simp add: fr)
  from trans [OF sym [OF assms(2)] this] have s': "s' = ?s" by (rule option.inject [THEN iffD1])
  have start: "io_step E s (s\<lparr>io_tm := m\<rparr>)" by (rule io_step.other) (use cur tm_step.start [OF st] in auto)
  have keep: "pid_of (s\<lparr>io_tm := m\<rparr>) = pid_of s" "threads (s\<lparr>io_tm := m\<rparr>) = threads s" by simp_all
  have "frames (s\<lparr>io_tm := m\<rparr>) t = []" using fr by simp
  from io_step.attach [OF this, of E p] have attach: "io_step E (s\<lparr>io_tm := m\<rparr>) s'" unfolding s' keep .
  show ?thesis by (rule io_reach.step [OF io_reach.step [OF assms(1) start] attach])
next
  case Io_event
  with assms(2) obtain m where m: "fire_event (io_sim E) (io_tm s) = Some m" "s' = s\<lparr>io_tm := m\<rparr>"
    by (auto simp: bind_eq_Some_conv)
  have "io_step E s (s\<lparr>io_tm := m\<rparr>)"
    by (rule io_step.other) (use fire_event_step [OF m(1)] in auto)
  from io_reach.step [OF assms(1) this] show ?thesis by (simp only: m)
next
  case (Io_call c)
  with assms(2) obtain t r where c: "m_current (io_tm s) = Some t" "frames s t = []" "exec_io E c s = Some r" "s' = io_settle t r"
    by (auto simp: bind_eq_Some_conv split: if_splits)
  from io_reach.step [OF assms(1) io_step.call [OF c(1-3)]] show ?thesis by (simp only: c(4))
next
  case Io_resume
  with assms(2) obtain t r where c: "m_current (io_tm s) = Some t" "frames s t \<noteq> []" "resume_frames E (frames s t) 0 t s = Some r"
    "s' = io_settle t r" by (auto simp: bind_eq_Some_conv split: if_splits)
  from io_reach.step [OF assms(1) io_step.resume [OF c(1-3)]] show ?thesis by (simp only: c(4))
next
  case Io_yield
  with assms(2) obtain t m where m: "m_current (io_tm s) = Some t" "frames s t = []"
    "Yield (io_sim E) (io_delay E) (io_tm s) = Some m" "s' = s\<lparr>io_tm := m\<rparr>"
    by (auto simp: bind_eq_Some_conv split: if_splits)
  have "io_step E s (s\<lparr>io_tm := m\<rparr>)" by (rule io_step.other) (use m tm_step.yield [OF m(3)] in auto)
  from io_reach.step [OF assms(1) this] show ?thesis by (simp only: m)
next
  case Io_leave
  with assms(2) obtain t m where m: "m_current (io_tm s) = Some t" "frames s t = []"
    "tm_Exit (io_sim E) (io_delay E) (io_tm s) = Some m" "s' = s\<lparr>io_tm := m\<rparr>"
    by (auto simp: bind_eq_Some_conv split: if_splits)
  have "io_step E s (s\<lparr>io_tm := m\<rparr>)" by (rule io_step.other) (use m tm_step.exit [OF m(3)] in auto)
  from io_reach.step [OF assms(1) this] show ?thesis by (simp only: m)
next
  case (Io_signal p sig)
  with assms(2) have "UtilsSendSignal E p sig s = Some s'" by simp
  from io_reach.step [OF assms(1) io_step.signal [OF this]] show ?thesis .
next
  case (Io_store b bs)
  have "(\<lambda>a. case a of User x \<Rightarrow> poll_array s (User x) | Stack x \<Rightarrow> poll_array s a) = poll_array s"
    by (auto simp: fun_eq_iff split: place.split)
  moreover from Io_store assms(2) have "s' = store_bytes b bs s" by simp
  ultimately show ?thesis
    using io_reach.step [OF assms(1) io_step.program [where E = E and s = s and i = "itimers s" and d = "fd_pair s" and
        b = "fd_set s" and g = "signalMask s" and h = "signalHandlers s" and k = "threadSignals s" and
        q = "\<lambda>x. poll_array s (User x)"]] by (simp add: store_bytes_def)
next
  case (Io_polls b ps)
  have "(\<lambda>a. case a of User x \<Rightarrow> if x = b then ps else poll_array s (User x) | Stack x \<Rightarrow> poll_array s a)
      = (poll_array s)(User b := ps)"
    by (auto simp: fun_eq_iff split: place.split)
  moreover from Io_polls assms(2) have "s' = s\<lparr>poll_array := (poll_array s)(User b := ps)\<rparr>" by simp
  ultimately show ?thesis
    using io_reach.step [OF assms(1) io_step.program [where E = E and s = s and m = "umem s" and i = "itimers s" and
        d = "fd_pair s" and b = "fd_set s" and g = "signalMask s" and h = "signalHandlers s" and k = "threadSignals s" and
        q = "\<lambda>x. if x = b then ps else poll_array s (User x)"]] by simp
qed

lemma io_script_reach: "io_reach E x s \<Longrightarrow> io_script E as s = Some s' \<Longrightarrow> io_reach E x s'"
  by (induction as arbitrary: s) (auto simp: bind_eq_Some_conv intro: perform_io_reach)

definition list_io :: "event_list io_env" where
  "list_io = \<lparr>io_sim = events, io_delay = 0, io_malloc = (\<lambda>n. Some (replicate (unat n) 0)), io_delay_left = (\<lambda>i x. 0)\<rparr>"

definition fresh_io :: "event_list io" where "fresh_io = new_io (TaskManager ([], 0, []))"

definition run_io :: "io_action list \<Rightarrow> event_list io" where
  "run_io as = (case io_script list_io as fresh_io of Some s \<Rightarrow> s | None \<Rightarrow> fresh_io)"

lemma run_io_reach: "io_reach list_io ([], 0, []) (run_io as)"
proof (cases "io_script list_io as fresh_io")
  case (Some s)
  have "io_reach list_io ([], 0, []) s"
    by (rule io_script_reach [OF _ Some]) (simp add: fresh_io_def io_reach.init)
  with Some show ?thesis by (simp add: run_io_def del: io_script.simps)
qed (simp add: run_io_def fresh_io_def io_reach.init del: io_script.simps)

lemma run_view: "map_option g (io_script list_io as fresh_io) = Some v \<Longrightarrow> g (run_io as) = v"
  by (auto simp: run_io_def simp del: io_script.simps)

lemma env_ok_list_io: "env_ok list_io"
  by (simp add: env_ok_def list_io_def malloc_ok_def)

definition one_pipe :: "io_action list" where
  "one_pipe = [Io_begin 1, Io_event, Io_call (Pipe_call (Some 100))]"

end
