(* ===== verification/Io_Properties.thy ===== *)
theory Io_Properties
  imports Io_Scripts
begin

text \<open>What the descriptors, pipes and \<open>poll\<close> guarantee in every run, and runs in which they fail.\<close>

section \<open>The descriptor tables\<close>

definition entries_of :: "'x io \<Rightarrow> nat \<Rightarrow> (pid \<times> int) set" where
  "entries_of s f = {(p, fd). \<exists>u x. openFiles s p fd = Some u \<and> usages s u = Some x \<and> u_file x = f}"

lemma card_entries_of:
  assumes "tables_ok (usages s) (openFiles s) cs n"
  shows "card (entries_of s f) = card (users (usages s) f)"
proof (rule bij_betw_same_card [of "\<lambda>(p, fd). the (openFiles s p fd)"], rule bij_betwI')
  note d = tables_okD [OF assms]
  fix e e' assume "e \<in> entries_of s f" "e' \<in> entries_of s f"
  then obtain p fd u x p' fd' u' x' where e: "e = (p, fd)" "openFiles s p fd = Some u" "usages s u = Some x"
    and e': "e' = (p', fd')" "openFiles s p' fd' = Some u'" "usages s u' = Some x'"
    by (auto simp: entries_of_def)
  from d(5) [OF e(2)] d(5) [OF e'(2)] e(3) e'(3) have "u = u' \<Longrightarrow> fd = fd'" by auto
  with d(6) [of p fd u p'] e e' show "((case e of (p, fd) \<Rightarrow> the (openFiles s p fd)) = (case e' of (p, fd) \<Rightarrow> the (openFiles s p fd))) = (e = e')"
    by auto
next
  fix e assume "e \<in> entries_of s f"
  then show "(case e of (p, fd) \<Rightarrow> the (openFiles s p fd)) \<in> users (usages s) f" by (auto simp: entries_of_def users_def)
next
  fix u assume "u \<in> users (usages s) f"
  then obtain x where x: "usages s u = Some x" "u_file x = f" by (auto simp: users_def)
  with tables_okD(3) [OF assms] obtain p where "openFiles s p (u_fd x) = Some u" by blast
  with x show "\<exists>e \<in> entries_of s f. u = (case e of (p, fd) \<Rightarrow> the (openFiles s p fd))"
    by (intro bexI [of _ "(p, u_fd x)"]) (auto simp: entries_of_def)
qed

text \<open>C5. In every state the processes of a node reach, every open descriptor has a \<open>FileUsage\<close> of its
  own for a file that exists, the two counts of every file are the number of its descriptors in all
  processes, so that it lives exactly as long as one of them, and the descriptor that a suspended call
  uses is still in the table of its process.\<close>

theorem descriptor_tables:
  assumes "env_ok E" and "io_reach E x s"
  shows "(\<forall>p fd u. openFiles s p fd = Some u \<longrightarrow>
        (\<exists>e. usages s u = Some e \<and> u_fd e = fd \<and> files s (u_file e) \<noteq> None))
    \<and> (\<forall>p fd p' fd' u. openFiles s p fd = Some u \<and> openFiles s p' fd' = Some u \<longrightarrow> p = p' \<and> fd = fd')
    \<and> (\<forall>f y. files s f = Some y \<longrightarrow> m_fdCount y = int (card (entries_of s f)) \<and> m_refs y = card (entries_of s f) \<and> 0 < m_refs y)
    \<and> (\<forall>t fd u. (fd, u) \<in> held s t \<longrightarrow> openFiles s (pid_of s t) fd = Some u)"
proof (intro conjI allI impI)
  have i: "fd_inv (held s) s" using io_reach_inv [OF assms(2,1)] by (simp add: io_inv_def)
  then have tb: "tables_ok (usages s) (openFiles s) (counts s) (next_new s)"
    and ho: "holds_ok (held s) (usages s) (openFiles s) (pid_of s)" unfolding fd_inv_def by blast+
  note d = tables_okD [OF tb]
  show "\<exists>e. usages s u = Some e \<and> u_fd e = fd \<and> files s (u_file e) \<noteq> None" if u: "openFiles s p fd = Some u" for p fd u
  proof -
    obtain e where e: "usages s u = Some e" "u_fd e = fd" using d(5) [OF u] by blast
    with d(4) show ?thesis by (auto simp: counts_def)
  qed
  fix p fd p' fd' u assume u: "openFiles s p fd = Some u \<and> openFiles s p' fd' = Some u"
  with d(5) [of p fd u] d(5) [of p' fd' u] show f: "fd = fd'" by auto
  with u d(6) show "p = p'" by blast
next
  have i: "fd_inv (held s) s" using io_reach_inv [OF assms(2,1)] by (simp add: io_inv_def)
  then have tb: "tables_ok (usages s) (openFiles s) (counts s) (next_new s)" unfolding fd_inv_def by blast
  fix f y assume "files s f = Some y"
  then have "counts s f = Some (m_fdCount y, m_refs y)" by (simp add: counts_def)
  from tables_okD(7) [OF tb this]
  show "m_fdCount y = int (card (entries_of s f))" "m_refs y = card (entries_of s f)" "0 < m_refs y"
    by (simp_all add: card_entries_of [OF tb])
next
  have "holds_ok (held s) (usages s) (openFiles s) (pid_of s)"
    using io_reach_inv [OF assms(2,1)] by (simp add: io_inv_def fd_inv_def)
  then show "openFiles s (pid_of s t) fd = Some u" if "(fd, u) \<in> held s t" for t fd u
    using that unfolding holds_ok_def by blast
qed

definition pipe_made :: "event_list io" where
  "pipe_made = run_io [Io_begin 1, Io_event, Io_call (Pipe_call (Some 100)), Io_call (Dup_call 0)]"

lemma pipe_made_reach: "io_reach list_io ([], 0, []) pipe_made"
  by (simp only: pipe_made_def run_io_reach)

lemma pipe_made_view:
  "(m_current (io_tm pipe_made), pid_of pipe_made 1, map (openFiles pipe_made 1) [0, 1, 2, 3],
     map_option u_closing (usages pipe_made 4), next_new pipe_made, moved pipe_made,
     map (\<lambda>f. map_option (\<lambda>x. (m_refs x, m_waitQueueList x)) (files pipe_made f)) [0, 1, 2, 3, 4, 5],
     map (\<lambda>f. map_option m_peer (pipe_at pipe_made f)) [0, 1, 2, 3, 4, 5])
   = (Some 1, 1, [Some 2, Some 4, Some 5, None], Some False, 6, [],
      [None, Some (2, []), None, Some (1, []), None, None], [None, Some (Some 3), None, Some (Some 1), None, None])"
  unfolding pipe_made_def by (rule run_view) code_simp

theorem descriptor_tables_witness:
  "\<exists>y. files pipe_made 1 = Some y \<and> m_refs y = 2 \<and> card (entries_of pipe_made 1) = 2"
proof -
  have y: "map_option m_refs (files pipe_made 1) = Some 2" using pipe_made_view by (cases "files pipe_made 1") auto
  have "\<forall>f y. files pipe_made f = Some y \<longrightarrow> m_fdCount y = int (card (entries_of pipe_made f)) \<and>
      m_refs y = card (entries_of pipe_made f) \<and> 0 < m_refs y"
    using descriptor_tables [OF env_ok_list_io pipe_made_reach] by blast
  with y show ?thesis by (cases "files pipe_made 1") auto
qed

text \<open>C6. A pipe delivers the bytes it accepted, in order: in every state, what was written into it is
  what was read from it followed by what its buffer holds, which is never more than 64 kB.\<close>

theorem pipe_bytes_in_order:
  assumes "env_ok E" and "io_reach E x s" and "pipe_at s q = Some p"
  shows "sent q (moved s) = received q (moved s) @ fifo_abs (m_buf p) \<and> length (fifo_abs (m_buf p)) \<le> 65536"
proof -
  have "pipe_ok s" using io_reach_inv [OF assms(2,1)] by (simp add: io_inv_def fd_inv_def)
  then have b: "buf_ok q (m_buf p) (moved s)" by (rule pipe_okD(3) [OF _ assms(3)])
  then have "fifo_inv (m_buf p)" and "unat (m_maxSize (m_buf p)) \<le> 65536"
    by (simp_all add: buf_ok_def word_order_unat PIPE_CAPACITY_def)
  with length_fifo_abs [OF this(1)] fifo_inv_nat [OF this(1)] b show ?thesis by (simp add: buf_ok_def)
qed

theorem pipe_bytes_in_order_witness: "\<exists>p. pipe_at pipe_made 1 = Some p \<and> sent 1 (moved pipe_made) = fifo_abs (m_buf p)"
proof -
  have "pipe_at pipe_made 1 \<noteq> None \<and> moved pipe_made = []" using pipe_made_view by auto
  with pipe_bytes_in_order [OF env_ok_list_io pipe_made_reach, of 1] show ?thesis by auto
qed

text \<open>C18. \<open>dup\<close> gives the lowest free descriptor, for the same file, and changes no other one; it fails
  with \<open>EMFILE\<close> only when all 1024 are in use.\<close>

theorem dup_lowest_descriptor:
  assumes "env_ok E" and "io_reach E x s" and t: "m_current (io_tm s) = Some t"
    and u: "openFiles s (pid_of s t) fd = Some u" "usages s u = Some e" "\<not> u_closing e"
  shows "if \<exists>g \<in> {0 ..< 1024}. openFiles s (pid_of s t) g = None
    then \<exists>v w e' s'. dce_dup fd s = Some (v, s') \<and> v \<in> {0 ..< 1024} \<and> openFiles s (pid_of s t) v = None
      \<and> (\<forall>g \<in> {0 ..< v}. openFiles s (pid_of s t) g \<noteq> None)
      \<and> openFiles s' = (openFiles s)(pid_of s t := (openFiles s (pid_of s t))(v \<mapsto> w))
      \<and> usages s' w = Some e' \<and> u_file e' = u_file e
    else dce_dup fd s = Some (-1, set_err EMFILE t s)"
proof -
  let ?p = "pid_of s t"
  have ex: "CheckFdExists ?p fd True s = Some True" using u by (simp add: CheckFdExists_def)
  show ?thesis
  proof (cases "\<exists>g \<in> {0 ..< 1024}. openFiles s ?p g = None")
    case False
    then have "find (\<lambda>g. openFiles s ?p (int g) = None) [0 ..< MAX_FDS] = None"
      by (auto simp: find_None_iff MAX_FDS_def)
    then have "UtilsAllocateFd ?p s = -1" by (simp add: UtilsAllocateFd_def)
    with False t ex show ?thesis by (simp add: dce_dup_def)
  next
    case True
    then obtain g where g: "g \<in> {0 ..< 1024}" "openFiles s ?p g = None" by blast
    then have "find (\<lambda>g. openFiles s ?p (int g) = None) [0 ..< MAX_FDS] \<noteq> None"
      unfolding find_None_iff MAX_FDS_def by (auto intro!: bexI [of _ "nat g"] exI [of _ "nat g"])
    then obtain k where k: "find (\<lambda>g. openFiles s ?p (int g) = None) [0 ..< MAX_FDS] = Some k" by blast
    then have v: "k < 1024" "openFiles s ?p (int k) = None" "\<forall>j < k. openFiles s ?p (int j) \<noteq> None"
      by (auto simp: find_Some_iff MAX_FDS_def)
    have a: "UtilsAllocateFd ?p s = int k" by (simp add: UtilsAllocateFd_def k)
    obtain y where y: "files s (u_file e) = Some y"
      using descriptor_tables [OF assms(1,2)] u by fastforce
    obtain s' where s': "share_fd ?p fd (int k) s = Some s'" and "openFiles s' = (openFiles s)(?p := (openFiles s ?p)(int k \<mapsto> next_new s))"
      and "usages s' (next_new s) = Some \<lparr>u_count = 0, u_fd = int k, u_file = u_file e, u_closing = False\<rparr>"
      using u y by (simp add: share_fd_def IncFdCount_def Ref_def put_file_def FileUsage_def put_usage_def set_fd_def)
    moreover have "\<forall>g \<in> {0 ..< int k}. openFiles s ?p g \<noteq> None"
      using v(3) by (metis atLeastLessThan_iff nat_0_le nat_less_iff)
    moreover have "dce_dup fd s = Some (int k, s')" using t ex a s' by (simp add: dce_dup_def)
    ultimately show ?thesis using True v by fastforce
  qed
qed

theorem dup_lowest_descriptor_witness: "\<exists>s'. dce_dup 1 pipe_made = Some (3, s')"
proof -
  have o: "map (openFiles pipe_made 1) [0, 1, 2, 3] = [Some 2, Some 4, Some 5, None]"
    and t: "m_current (io_tm pipe_made) = Some 1" "pid_of pipe_made 1 = 1"
    and "map_option u_closing (usages pipe_made 4) = Some False" using pipe_made_view by (simp_all only: prod.inject)
  then obtain e where e: "usages pipe_made 4 = Some e" "\<not> u_closing e" by (cases "usages pipe_made 4") auto
  have "\<exists>g \<in> {0 ..< 1024}. openFiles pipe_made 1 g = None" using o by (intro bexI [of _ 3]) auto
  with dup_lowest_descriptor [OF env_ok_list_io pipe_made_reach t(1), of 1 4 e] e o t(2)
  obtain v s' where v: "dce_dup 1 pipe_made = Some (v, s')" "v \<in> {0 ..< 1024}" "openFiles pipe_made 1 v = None"
    "\<forall>g \<in> {0 ..< v}. openFiles pipe_made 1 g \<noteq> None" by auto
  have "v = 3"
  proof (rule linorder_cases)
    assume "v < 3"
    with v(2) have "v \<in> {0, 1, 2}" by auto
    with v(3) o show ?thesis by auto
  next
    assume "3 < v"
    then have "3 \<in> {0 ..< v}" by simp
    with v(4) have "openFiles pipe_made 1 3 \<noteq> None" by blast
    with o show ?thesis by simp
  qed
  with v(1) show ?thesis by blast
qed

section \<open>Closing\<close>

lemma pipe_Close_unlinked: "pipe_at s f = Some p \<Longrightarrow> m_peer p = None \<Longrightarrow> pipe_Close E f t s = Some (-1, set_err EBADF t s)"
  by (subst pipe_Close.simps) simp












text \<open>Of the two ends of a pipe the one that is closed last reports \<open>EBADF\<close>: the close of the first
  end has unlinked it already. Its descriptor is released nevertheless.\<close>

theorem second_close_fails:
  assumes "m_current (io_tm s) = Some t" and "openFiles s (pid_of s t) fd = Some u" and "usages s u = Some e" and "u_count e = 0"
    and "files s (u_file e) = Some y" and "m_body y = Pipe_end p" and "m_peer p = None" and "m_fdCount y = 1"
  shows "\<exists>s'. dce_close E fd s = Some (-1, s') \<and> io_err s' t = Some EBADF \<and> openFiles s' (pid_of s t) fd = None"
proof -
  have "pipe_at s (u_file e) = Some p" using assms(5,6) by (auto simp: cores_pipe)
  from pipe_Close_unlinked [OF this assms(7), of E t]
  have "file_Close E (u_file e) t s = Some (-1, set_err EBADF t s)" using assms(5,6) by (simp add: file_Close_def)
  with assms show ?thesis
    by (simp add: dce_close_def CanForget_def delete_usage_def DecFdCount_def Unref_def set_fd_def set_err_def put_file_def)
qed

definition reader_closed :: "event_list io" where
  "reader_closed = run_io [Io_begin 1, Io_event, Io_call (Pipe_call (Some 100)), Io_call (Close_call 0)]"

theorem second_close_fails_witness: "\<exists>s'. dce_close list_io 1 reader_closed = Some (-1, s') \<and> io_err s' 1 = Some EBADF"
proof -
  have v: "(m_current (io_tm reader_closed), pid_of reader_closed 1, openFiles reader_closed 1 1,
      map_option (\<lambda>e. (u_count e, u_file e)) (usages reader_closed 4),
      map_option (\<lambda>y. (m_fdCount y, case m_body y of Pipe_end p \<Rightarrow> Some (m_peer p) | Timer_end y \<Rightarrow> None)) (files reader_closed 3))
    = (Some 1, 1, Some 4, Some (0, 3), Some (1, Some None))"
    unfolding reader_closed_def by (rule run_view) code_simp
  then obtain e where e: "usages reader_closed 4 = Some e" "u_count e = 0" "u_file e = 3" by (cases "usages reader_closed 4") auto
  obtain y p where y: "files reader_closed 3 = Some y" "m_fdCount y = 1" "m_body y = Pipe_end p" "m_peer p = None"
    using v by (cases "files reader_closed 3") (auto split: fd_body.split_asm)
  from second_close_fails [of reader_closed 1 1 4 e y p list_io] v e y
  have "\<exists>s'. dce_close list_io 1 reader_closed = Some (-1, s') \<and> io_err s' 1 = Some EBADF \<and> openFiles s' 1 1 = None" by simp
  then show ?thesis by blast
qed

text \<open>C37. A descriptor that was closed while a call used it is given up by that call when it returns. If
  the end of the pipe had been duplicated nobody has called \<open>Close\<close> for it by then: the object is
  deleted, the other end keeps pointing to it, and the next write uses the deleted object.\<close>

theorem closed_in_use_dangles:
  assumes "openFiles s (pid_of s t) fd = Some u" and "usages s u = Some e" and "u_count e = 1" and "u_closing e"
    and "u_file e = f" and "files s f = Some y" and "m_refs y = 1" and "pipe_at s f = Some p" and "m_peer p = Some q"
    and "q \<noteq> f" and "pipe_at s q = Some r" and "m_peer r = Some f" and "\<not> m_readSide r"
  shows "\<exists>s'. method_return fd u narrow t v s = Some (Done (as_int narrow v) s') \<and> files s' f = None
    \<and> map_option m_peer (pipe_at s' q) = Some (Some f) \<and> pipe_Write E q buf count t' s' = None"
proof -
  let ?s = "s\<lparr>openFiles := (openFiles s)(pid_of s t := (openFiles s (pid_of s t))(fd := None)),
    files := (files s)(f := None), usages := (usages s)(u := None)\<rparr>"
  have m: "method_return fd u narrow t v s = Some (Done (as_int narrow v) ?s)"
    using assms(1-7)
    by (simp add: method_return_def DecUsage_def delete_usage_def DecFdCount_def Unref_def set_fd_def put_usage_def put_file_def)
  have q: "pipe_at ?s q = pipe_at s q" and f: "pipe_at ?s f = None"
    using assms(10,11) by (auto simp: pipe_at_def)
  have "pipe_Write E q buf count t' ?s = None"
    unfolding pipe_Write_def using assms(11-13) by (simp add: q f recv_loop_def)
  with m assms(11,12) show ?thesis by (intro exI [of _ ?s]) (simp add: q)
qed

definition closed_reader :: "event_list io" where
  "closed_reader = run_io [Io_begin 1, Io_begin 1, Io_event, Io_call (Pipe_call (Some 100)), Io_call (Read_call 0 200 1),
     Io_event, Io_call (Dup_call 0), Io_call (Close_call 0), Io_call (Close_call 2)]"

theorem closed_in_use_dangles_witness:
  "\<exists>s'. method_return 0 2 True 1 (-1) closed_reader = Some (Done (-1) s') \<and> pipe_Write list_io 3 200 1 2 s' = None"
proof -
  have v: "(openFiles closed_reader 1 0, pid_of closed_reader 1,
      map_option (\<lambda>e. (u_count e, u_closing e, u_file e)) (usages closed_reader 2), map_option m_refs (files closed_reader 1),
      map_option (\<lambda>p. (m_peer p, m_readSide p)) (pipe_at closed_reader 1), map_option (\<lambda>p. (m_peer p, m_readSide p)) (pipe_at closed_reader 3),
      as_int True (-1)) = (Some 2, 1, Some (1, True, 1), Some 1, Some (Some 3, True), Some (Some 1, False), -1)"
    unfolding closed_reader_def by (rule run_view) code_simp
  obtain e where e: "usages closed_reader 2 = Some e" "u_count e = 1" "u_closing e" "u_file e = 1"
    using v by (cases "usages closed_reader 2") auto
  obtain y where y: "files closed_reader 1 = Some y" "m_refs y = 1" using v by (cases "files closed_reader 1") auto
  obtain p where p: "pipe_at closed_reader 1 = Some p" "m_peer p = Some 3" using v by (cases "pipe_at closed_reader 1") auto
  obtain r where r: "pipe_at closed_reader 3 = Some r" "m_peer r = Some 1" "\<not> m_readSide r"
    using v by (cases "pipe_at closed_reader 3") auto
  have "\<exists>s'. method_return 0 2 True 1 (-1) closed_reader = Some (Done (as_int True (-1)) s') \<and> files s' 1 = None
    \<and> map_option m_peer (pipe_at s' 3) = Some (Some 1) \<and> pipe_Write list_io 3 200 1 2 s' = None"
    by (rule closed_in_use_dangles [OF _ e(1-4) y p _ r]) (use v in auto)
  with v show ?thesis by auto
qed

lemma FdDecUsage_releases:
  assumes "openFiles s (pid_of s t) fd = Some u" and "usages s u = Some e" and "u_count e = 1" and "u_closing e"
    and "FdDecUsage fd t s = Some s'"
  shows "openFiles s' (pid_of s t) fd = None"
  using assms
  by (auto simp: FdDecUsage_def DecUsage_def delete_usage_def DecFdCount_def Unref_def set_fd_def put_usage_def put_file_def
      bind_eq_Some_conv split: if_split_asm)

lemma unref_all_entry:
  assumes "unref_all us s = Some s'" and "distinct (map snd us)" and "usages s u = Some e"
  shows "usages s' u = Some (if u \<in> snd ` set us then e\<lparr>u_count := u_count e - 1\<rparr> else e) \<and> openFiles s' = openFiles s"
  using assms
proof (induction us arbitrary: s e)
  case (Cons a us)
  obtain fd w where a: "a = (fd, w)" by (cases a)
  obtain d where d: "usages s w = Some d" and tl: "unref_all us (put_usage w (d\<lparr>u_count := u_count d - 1\<rparr>) s) = Some s'"
    using Cons.prems(1) by (auto simp: a DecUsage_def bind_eq_Some_conv)
  show ?case
  proof (cases "w = u")
    case True
    then have "u \<notin> snd ` set us" using Cons.prems(2) by (auto simp: a)
    with Cons.IH [OF tl _, of "d\<lparr>u_count := u_count d - 1\<rparr>"] Cons.prems(2,3) True d show ?thesis
      by (simp add: a put_usage_def)
  next
    case False
    with Cons.IH [OF tl _, of e] Cons.prems(2,3) show ?thesis by (auto simp: a put_usage_def)
  qed
qed simp

text \<open>C38. A descriptor that is closed while \<open>poll\<close> waits for it is lost: \<open>poll\<close> gives it back without
  looking whether it was the last user, so that the descriptor stays in the table, neither usable
  nor free.\<close>

theorem poll_loses_closed_descriptor:
  assumes "poll_finish E count timeout table unref t s = Some r" and "distinct (map snd unref)" and "(fd, u) \<in> set unref"
    and "openFiles s (pid_of s t) fd = Some u" and "usages s u = Some e" and "u_closing e" and "u_count e = 1"
  shows "\<exists>e'. openFiles (res_state r) (pid_of s t) fd = Some u \<and> usages (res_state r) u = Some e' \<and> u_count e' = 0 \<and> u_closing e'
    \<and> CheckFdExists (pid_of s t) fd True (res_state r) = Some False
    \<and> CheckFdExists (pid_of s t) fd False (res_state r) = Some True"
proof -
  obtain s1 s2 s3 where s: "FreeWait table t s = Some s1" "delete_table table s1 = Some s2" "unref_all unref s2 = Some s3"
    and r: "(if count = 0 \<and> timeout = 0 then UtilsAdvanceTime E count t s3 else Some (Done count s3)) = Some r"
    using assms(1) by (auto simp: poll_finish_def bind_eq_Some_conv)
  note q = quiet_trans [OF quiet_FreeWait [OF s(1)] quiet_delete_table [OF s(2)]]
  have e: "usages s2 u = Some e" using quietD(1) [OF q] assms(5) by simp
  have "u \<in> snd ` set unref" using assms(3) by force
  then have s3: "usages s3 u = Some (e\<lparr>u_count := u_count e - 1\<rparr>)" "openFiles s3 = openFiles s"
    using unref_all_entry [OF s(3) assms(2) e] quietD(2) [OF q] by simp_all
  have "quiet s3 (res_state r)"
    using r quiet_updates(10) [of s3] quiet_Wait_timeout [of E 1000 s3]
    by (auto simp: UtilsAdvanceTime_def bind_eq_Some_conv split: if_split_asm)
  then have "usages (res_state r) u = Some (e\<lparr>u_count := u_count e - 1\<rparr>)" "openFiles (res_state r) = openFiles s"
    using s3 quietD(1,2) [of s3 "res_state r"] by simp_all
  with assms(4,6,7) show ?thesis by (auto simp: CheckFdExists_def)
qed

definition polled_and_closed :: "event_list io" where
  "polled_and_closed = fresh_io\<lparr>openFiles := (\<lambda>p fd. if p = 0 \<and> fd = 0 then Some 2 else None),
     usages := [2 \<mapsto> \<lparr>u_count = 1, u_fd = 0, u_file = 1, u_closing = True\<rparr>],
     files := [1 \<mapsto> new_end None True PIPE_CAPACITY],
     tables := [3 \<mapsto> \<lparr>m_pollEntryList = [], m_eventMask = 0, m_waitTask = None\<rparr>]\<rparr>"

theorem poll_loses_closed_descriptor_witness:
  "\<exists>r. poll_finish list_io 0 1 3 [(0, 2)] 1 polled_and_closed = Some r \<and> openFiles (res_state r) 0 0 = Some 2
    \<and> CheckFdExists 0 0 True (res_state r) = Some False"
proof -
  obtain r where r: "poll_finish list_io 0 1 3 [(0, 2)] 1 polled_and_closed = Some r"
    by (simp add: poll_finish_def FreeWait_def delete_table_def DecUsage_def polled_and_closed_def fresh_io_def new_io_def)
  have "pid_of polled_and_closed 1 = 0" "openFiles polled_and_closed 0 0 = Some 2"
    "usages polled_and_closed 2 = Some \<lparr>u_count = 1, u_fd = 0, u_file = 1, u_closing = True\<rparr>"
    by (simp_all add: polled_and_closed_def fresh_io_def new_io_def)
  with poll_loses_closed_descriptor [OF r, of 0 2] r show ?thesis by auto
qed

section \<open>What \<open>poll\<close> says of a pipe\<close>









text \<open>A writer that finds no room once the reader is closed looks at the flags of the peer, a null pointer.\<close>

lemma writer_wakes_to_null:
  assumes "env_ok E" and p: "pipe_at s q = Some p" and ok: "buf_ok q (m_buf p) xs" and "unat (m_maxSize (m_buf p)) \<le> length (fifo_abs (m_buf p))"
    and "m_peer p = None"
  shows "recv_loop E q buf count wq t s = None"
proof (cases "user_bytes buf count s")
  case (Some bs)
  note len = user_bytes_length [OF Some]
  have inv: "fifo_inv (m_buf p)" using ok by (simp add: buf_ok_def)
  obtain b where b: "fifo_Write (io_malloc E) (m_buf p) bs count = Some (0, b)"
    using fifo_Write_refines [OF inv _ conjunct2 [OF len], of bs "io_malloc E"] buf_ok_ready [OF assms(1) ok] len assms(4) by auto
  obtain x where "files s q = Some x" using p by (auto simp: cores_pipe)
  with assms(5) show ?thesis by (simp add: recv_loop_def p Some b put_pipe_def)
qed (simp add: recv_loop_def p)

text \<open>\<open>pipe\<close> with exactly one descriptor left deletes the reading end twice.\<close>

lemma pipe_with_one_descriptor:
  assumes "m_current (io_tm s) = Some t" and "UtilsAllocateFd (pid_of s t) s \<noteq> -1"
    and "UtilsAllocateFd (pid_of s t) (with_reader (pid_of s t) (UtilsAllocateFd (pid_of s t) s) s) = -1"
  shows "dce_pipe (Some a) s = None"
  using assms(2,3) pipe_cases [OF assms(1), of a] by (simp add: Let_def)




end
