(* ===== verification/Environment.thy ===== *)
theory Environment
  imports Prelude
begin

text \<open>
  The environment of a simulated process, \<open>model/dce-env.cc\<close> and \<open>seek_env\<close> of \<open>model/utils.cc\<close>: an
  array of pointers to strings that ends with a null pointer.

  Strings and arrays are named by their address. A string is what its bytes hold up to the
  terminating zero. \<^term>\<open>None\<close> is an access outside an array or through a null pointer; for
  \<open>dce_unsetenv\<close>, whose loop need not end, also that the call does not return.
\<close>

section \<open>The state\<close>

text \<open>
  \<open>penvp\<close> is the variable \<open>environ\<close> of the process, \<^term>\<open>None\<close> while the pointer to it is null;
  \<open>allocated\<close> the blocks to free with the process, \<open>new_block\<close> the address the host's \<open>malloc\<close>
  gives next.
\<close>

record env_state =
  text_at :: "addr \<Rightarrow> string"
  array_at :: "addr \<rightharpoonup> addr option list"
  penvp :: "addr option"
  allocated :: "addr list"
  new_block :: addr

definition environ :: "env_state \<Rightarrow> addr option list option" where
  "environ e = do { a \<leftarrow> penvp e; array_at e a }"

definition set_environ :: "addr option list \<Rightarrow> env_state \<Rightarrow> env_state" where
  "set_environ cs e = (case penvp e of None \<Rightarrow> e | Some a \<Rightarrow> e\<lparr>array_at := (array_at e)(a \<mapsto> cs)\<rparr>)"

text \<open>A new array, kept in \<open>allocated\<close>, becomes the environment.\<close>

definition new_environ :: "addr option list \<Rightarrow> env_state \<Rightarrow> env_state" where
  "new_environ cs e =
     e\<lparr>array_at := (array_at e)(new_block e \<mapsto> cs), allocated := allocated e @ [new_block e],
       penvp := Some (new_block e), new_block := new_block e + 1\<rparr>"

definition new_text :: "string \<Rightarrow> env_state \<Rightarrow> addr \<times> env_state" where
  "new_text str e =
     (new_block e, e\<lparr>text_at := (text_at e)(new_block e := str),
       allocated := allocated e @ [new_block e], new_block := new_block e + 1\<rparr>)"

text \<open>\<open>strncmp\<close> finds no difference in the first \<open>n\<close> characters.\<close>

definition same_start :: "string \<Rightarrow> string \<Rightarrow> nat \<Rightarrow> bool" where
  "same_start a b n \<longleftrightarrow> take n a = take n b"

definition has_equal :: "string \<Rightarrow> bool" where
  "has_equal str \<longleftrightarrow> CHR ''='' \<in> set str"

text \<open>The position behind the first equal sign.\<close>

definition value_offset :: "string \<Rightarrow> nat" where
  "value_offset str = Suc (length (takeWhile (\<lambda>c. c \<noteq> CHR ''='') str))"

section \<open>Reading\<close>

text \<open>A pointer into a string is its address and the offset.\<close>

fun seek_env :: "(addr \<Rightarrow> string) \<Rightarrow> string \<Rightarrow> addr option list \<Rightarrow> (addr \<times> nat) option option" where
  "seek_env texts name [] = None"
| "seek_env texts name (None # cs) = Some None"
| "seek_env texts name (Some p # cs) =
     (if \<not> has_equal (texts p) then seek_env texts name cs
      else if \<not> same_start (texts p) name (length name) then seek_env texts name cs
      else Some (Some (p, value_offset (texts p))))"

definition dce_getenv :: "string \<Rightarrow> env_state \<Rightarrow> (addr \<times> nat) option option" where
  "dce_getenv name e =
     (case penvp e of
        None \<Rightarrow> Some None
      | Some a \<Rightarrow> do { cs \<leftarrow> array_at e a; seek_env (text_at e) name cs })"

definition dce_secure_getenv :: "string \<Rightarrow> env_state \<Rightarrow> (addr \<times> nat) option option" where
  "dce_secure_getenv name e = dce_getenv name e"

section \<open>Removing\<close>

text \<open>The loop that moves the pointers from \<open>i\<close> on one place down, up to the null pointer.\<close>

function shift_cells :: "nat \<Rightarrow> addr option list \<Rightarrow> addr option list option" where
  "shift_cells i cs =
     (if i \<ge> length cs then None
      else case cs ! i of
        None \<Rightarrow> Some cs
      | Some p \<Rightarrow> shift_cells (Suc i) (cs[i - 1 := Some p]))"
  by pat_completeness auto
termination by (relation "measure (\<lambda>(i, cs). length cs - i)") auto

declare shift_cells.simps [simp del]

partial_function (option) unset_loop ::
  "(addr \<Rightarrow> string) \<Rightarrow> string \<Rightarrow> nat \<Rightarrow> addr option list \<Rightarrow> addr option list option" where
  "unset_loop texts name cur cs =
     (if cur \<ge> length cs then None
      else case cs ! cur of
        None \<Rightarrow> Some cs
      | Some p \<Rightarrow>
          if \<not> has_equal (texts p) then unset_loop texts name cur cs
          else if \<not> same_start (texts p) name (length name) then unset_loop texts name (Suc cur) cs
          else if Suc cur \<ge> length cs then None
          else do { cs' \<leftarrow> shift_cells (Suc cur) (cs[cur := cs ! Suc cur]);
                    unset_loop texts name cur cs' })"

definition dce_unsetenv :: "string \<Rightarrow> env_state \<Rightarrow> env_state option" where
  "dce_unsetenv name e =
     do { cs \<leftarrow> environ e;
          cs' \<leftarrow> unset_loop (text_at e) name 0 cs;
          Some (set_environ cs' e) }"

definition dce_clearenv :: "env_state \<Rightarrow> env_state option" where
  "dce_clearenv e = do { a \<leftarrow> penvp e; Some (new_environ [None] e) }"

section \<open>Adding\<close>

text \<open>Every entry that starts with \<open>name=\<close> is replaced; the number of the entries is counted.\<close>

fun put_cells :: "(addr \<Rightarrow> string) \<Rightarrow> addr \<Rightarrow> nat \<Rightarrow> addr option list \<Rightarrow> (addr option list \<times> bool \<times> nat) option" where
  "put_cells texts str namelen [] = None"
| "put_cells texts str namelen (None # cs) = Some (None # cs, False, 0)"
| "put_cells texts str namelen (Some p # cs) =
     do { (cs', found, len) \<leftarrow> put_cells texts str namelen cs;
          Some (if same_start (texts str) (texts p) namelen then (Some str # cs', True, Suc len)
                else (Some p # cs', found, Suc len)) }"

definition dce_putenv :: "addr \<Rightarrow> env_state \<Rightarrow> env_state option" where
  "dce_putenv str e =
     (if \<not> has_equal (text_at e str) then dce_unsetenv (text_at e str) e
      else
        do { cs \<leftarrow> environ e;
             (cs', found, len) \<leftarrow> put_cells (text_at e) str (value_offset (text_at e str)) cs;
             Some (if found then set_environ cs' e
                   else new_environ (take len cs @ [Some str, None]) e) })"

text \<open>The number of entries, or that an entry forbids to add one.\<close>

fun count_cells :: "(addr \<Rightarrow> string) \<Rightarrow> string \<Rightarrow> bool \<Rightarrow> addr option list \<Rightarrow> nat option option" where
  "count_cells texts name overwrite [] = None"
| "count_cells texts name overwrite (None # cs) = Some (Some 0)"
| "count_cells texts name overwrite (Some p # cs) =
     (if \<not> overwrite \<and> same_start (texts p) name (length name) then Some None
      else do { r \<leftarrow> count_cells texts name overwrite cs; Some (map_option Suc r) })"

definition dce_setenv :: "string \<Rightarrow> string \<Rightarrow> bool \<Rightarrow> env_state \<Rightarrow> env_state option" where
  "dce_setenv name val overwrite e =
     do { e1 \<leftarrow> (if overwrite then dce_unsetenv name e else Some e);
          cs \<leftarrow> environ e1;
          r \<leftarrow> count_cells (text_at e1) name overwrite cs;
          case r of
            None \<Rightarrow> Some e1
          | Some len \<Rightarrow>
              let array = new_block e1;
                  (str, e2) = new_text (name @ ''='' @ val)
                    (e1\<lparr>new_block := array + 1, allocated := allocated e1 @ [array]\<rparr>) in
              Some (e2\<lparr>array_at := (array_at e2)(array \<mapsto> take len cs @ [Some str, None]),
                       penvp := Some array\<rparr>) }"


section \<open>What removing an entry does\<close>

text \<open>An array with the entries \<open>ps\<close>, and what is behind the null pointer.\<close>

abbreviation cells :: "addr list \<Rightarrow> addr option list \<Rightarrow> addr option list" where
  "cells ps rest \<equiv> map Some ps @ None # rest"

lemma shift_cells_run:
  "shift_cells (Suc (length A)) (A @ Some x # cells ys R) = Some (A @ map Some ys @ (if ys = [] then Some x else Some (last ys)) # None # R)"
proof (induction ys arbitrary: A x)
  case Nil
  show ?case by (subst shift_cells.simps) (simp add: nth_append)
next
  case (Cons y ys)
  have "shift_cells (Suc (length A)) (A @ Some x # cells (y # ys) R)
      = shift_cells (Suc (length (A @ [Some y]))) ((A @ [Some y]) @ Some y # cells ys R)"
    by (subst shift_cells.simps) (simp add: nth_append list_update_append)
  also have "\<dots> = Some ((A @ [Some y]) @ map Some ys @ (if ys = [] then Some y else Some (last ys)) # None # R)"
    by (rule Cons.IH)
  finally show ?case by simp
qed

text \<open>An entry that is removed and is not the last leaves a second copy of the last one.\<close>

lemma unset_loop_step:
  fixes y :: addr and ys :: "addr list"
  assumes "has_equal (texts y)"
  shows "unset_loop texts name (length A) (A @ cells (y # ys) R)
    = (if \<not> same_start (texts y) name (length name) then unset_loop texts name (length (A @ [Some y])) ((A @ [Some y]) @ cells ys R)
       else if ys = [] then Some (A @ None # None # R)
       else unset_loop texts name (length A) (A @ cells (ys @ [last ys]) R))"
proof (cases "same_start (texts y) name (length name)")
  case False
  with assms show ?thesis by (subst unset_loop.simps) (simp add: nth_append)
next
  case match: True
  show ?thesis
  proof (cases ys)
    case Nil
    have shift: "shift_cells (Suc (length A)) (A @ None # None # R) = Some (A @ None # None # R)"
      by (subst shift_cells.simps) (simp add: nth_append)
    have stop: "unset_loop texts name (length A) (A @ None # None # R) = Some (A @ None # None # R)"
      by (subst unset_loop.simps) (simp add: nth_append)
    show ?thesis using assms match Nil
      by (subst unset_loop.simps) (simp add: nth_append list_update_append shift stop)
  next
    case (Cons z zs)
    have "(A @ Some y # Some z # cells zs R)[length A := Some z] = A @ Some z # cells (z # zs) R"
      by (simp add: list_update_append)
    moreover have "shift_cells (Suc (length A)) (A @ Some z # cells (z # zs) R) = Some (A @ cells (ys @ [last ys]) R)"
      using shift_cells_run [of A z "z # zs" R] Cons by simp
    ultimately show ?thesis using assms match Cons
      by (subst unset_loop.simps) (simp add: nth_append)
  qed
qed

lemma unset_loop_end: "unset_loop texts name (length A) (A @ cells [] R) = Some (A @ cells [] R)"
  by (subst unset_loop.simps) (simp add: nth_append)

text \<open>The entries that the code takes for \<open>name\<close>: those that start with it.\<close>

definition hit :: "(addr \<Rightarrow> string) \<Rightarrow> string \<Rightarrow> addr \<Rightarrow> bool" where
  "hit texts name p \<longleftrightarrow> same_start (texts p) name (length name)"

lemma unset_copies_last:
  "\<forall>p \<in> set ps. has_equal (texts p) \<Longrightarrow> ps = [] \<or> \<not> hit texts name (last ps) \<Longrightarrow>
   unset_loop texts name (length A) (A @ cells ps R)
     = Some (A @ cells (filter (\<lambda>p. \<not> hit texts name p) ps @ replicate (length (filter (hit texts name) ps)) (last ps)) R)"
proof (induction "length (filter (hit texts name) ps) + length ps" arbitrary: A ps rule: less_induct)
  case (less ps A)
  note IH = less(1) and eqs = less(2) and lastp = less(3)
  show ?case
  proof (cases ps)
    case Nil
    then show ?thesis by (simp add: unset_loop_end [of texts name A R, simplified])
  next
    case (Cons y ys)
    show ?thesis
    proof (cases "hit texts name y")
      case False
      have "unset_loop texts name (length A) (A @ cells ps R) = unset_loop texts name (length (A @ [Some y])) ((A @ [Some y]) @ cells ys R)"
        unfolding Cons by (subst unset_loop_step) (use eqs Cons False in \<open>simp_all add: hit_def\<close>)
      also have "\<dots> = Some ((A @ [Some y]) @ cells (filter (\<lambda>p. \<not> hit texts name p) ys @ replicate (length (filter (hit texts name) ys)) (last ys)) R)"
        by (rule IH) (use eqs lastp Cons False in \<open>auto split: if_splits\<close>)
      finally show ?thesis using Cons False lastp by (cases ys) simp_all
    next
      case True
      with Cons lastp have ys: "ys \<noteq> []" "\<not> hit texts name (last ys)" by (auto split: if_splits)
      have "unset_loop texts name (length A) (A @ cells ps R) = unset_loop texts name (length A) (A @ cells (ys @ [last ys]) R)"
        unfolding Cons by (subst unset_loop_step) (use eqs Cons True ys in \<open>simp_all add: hit_def\<close>)
      also have "\<dots> = Some (A @ cells (filter (\<lambda>p. \<not> hit texts name p) (ys @ [last ys]) @ replicate (length (filter (hit texts name) (ys @ [last ys]))) (last (ys @ [last ys]))) R)"
        by (rule IH) (use eqs Cons True ys in auto)
      finally show ?thesis using Cons True ys by simp
    qed
  qed
qed


lemma unset_walks:
  "\<forall>p \<in> set ps. has_equal (texts p) \<Longrightarrow> \<forall>p \<in> set ps. \<not> hit texts name p \<Longrightarrow>
   unset_loop texts name (length A) (A @ cells (ps @ [z]) R) = unset_loop texts name (length (A @ map Some ps)) ((A @ map Some ps) @ cells [z] R)"
proof (induction ps arbitrary: A)
  case Nil
  show ?case by simp
next
  case (Cons y ys)
  have "unset_loop texts name (length A) (A @ cells ((y # ys) @ [z]) R) = unset_loop texts name (length (A @ [Some y])) ((A @ [Some y]) @ cells (ys @ [z]) R)"
    unfolding append_Cons by (subst unset_loop_step) (use Cons.prems in \<open>simp_all add: hit_def\<close>)
  also have "\<dots> = unset_loop texts name (length ((A @ [Some y]) @ map Some ys)) (((A @ [Some y]) @ map Some ys) @ cells [z] R)"
    by (rule Cons.IH) (use Cons.prems in simp_all)
  finally show ?case by simp
qed

lemma unset_removes_last:
  assumes "\<forall>p \<in> set ps. has_equal (texts p)" and "\<forall>p \<in> set ps. \<not> hit texts name p" and "has_equal (texts z)" "hit texts name z"
  shows "unset_loop texts name 0 (cells (ps @ [z]) R) = Some (cells ps (None # R))"
proof -
  have "unset_loop texts name 0 (cells (ps @ [z]) R) = unset_loop texts name (length (map Some ps)) (map Some ps @ cells [z] R)"
    using unset_walks [OF assms(1,2), of "[]"] by simp
  also have "\<dots> = Some (cells ps (None # R))"
    by (subst unset_loop_step) (use assms in \<open>simp_all add: hit_def\<close>)
  finally show ?thesis .
qed

text \<open>While the last entry is one to remove and so is another, the loop goes on.\<close>

definition stuck :: "(addr \<Rightarrow> string) \<Rightarrow> string \<Rightarrow> nat \<Rightarrow> addr option list \<Rightarrow> bool" where
  "stuck texts name cur cs \<longleftrightarrow> (\<exists>A ps z R. cs = A @ cells (ps @ [z]) R \<and> cur = length A \<and> hit texts name z
     \<and> (\<exists>p \<in> set ps. hit texts name p) \<and> (\<forall>p \<in> set (ps @ [z]). has_equal (texts p)))"

lemma stuckI:
  assumes "cs = A @ cells ps R" and "ps \<noteq> []" and "hit texts name (last ps)" and "p \<in> set (butlast ps)" "hit texts name p"
    and "\<forall>p \<in> set ps. has_equal (texts p)"
  shows "stuck texts name (length A) cs"
proof -
  from assms(2) have "ps = butlast ps @ [last ps]" by simp
  with assms show ?thesis unfolding stuck_def by (metis in_set_butlastD set_append)
qed

lemma stuck_step:
  assumes "stuck texts name cur cs"
  obtains p cs' where "cur < length cs" "cs ! cur = Some p" "has_equal (texts p)"
    "\<not> same_start (texts p) name (length name) \<Longrightarrow> stuck texts name (Suc cur) cs"
    "same_start (texts p) name (length name) \<Longrightarrow> Suc cur < length cs
      \<and> shift_cells (Suc cur) (cs[cur := cs ! Suc cur]) = Some cs' \<and> stuck texts name cur cs'"
proof -
  from assms obtain A ps z R where s: "cs = A @ cells (ps @ [z]) R" "cur = length A" "hit texts name z"
    "\<exists>p \<in> set ps. hit texts name p" "\<forall>p \<in> set (ps @ [z]). has_equal (texts p)"
    unfolding stuck_def by blast
  then obtain y ys where y: "ps = y # ys" by (cases ps) auto
  let ?zs = "ys @ [z]"
  obtain u us where u: "?zs = u # us" by (cases ?zs) auto
  have cs: "cs = A @ Some y # cells ?zs R" using s(1) y by simp
  have move: "stuck texts name (Suc cur) cs" if "\<not> same_start (texts y) name (length name)"
  proof -
    from that s(4) y obtain p where "p \<in> set ys" "hit texts name p" by (auto simp: hit_def)
    with s stuckI [of cs "A @ [Some y]" ?zs R texts name p] cs y show ?thesis by simp
  qed
  let ?cs = "A @ cells (?zs @ [z]) R"
  have "cs[cur := cs ! Suc cur] = A @ Some u # cells ?zs R"
    unfolding cs s(2) u by (simp add: nth_append list_update_append)
  moreover have "shift_cells (Suc cur) (A @ Some u # cells ?zs R) = Some ?cs"
    using shift_cells_run [of A u ?zs R] s(2) by simp
  moreover have "stuck texts name cur ?cs"
    using stuckI [of ?cs A "?zs @ [z]" R texts name z] s y by (simp add: butlast_append)
  ultimately have "shift_cells (Suc cur) (cs[cur := cs ! Suc cur]) = Some ?cs \<and> stuck texts name cur ?cs" by simp
  with move show thesis by (intro that [of y ?cs]) (use s cs y in \<open>simp_all add: nth_append\<close>)
qed

lemma unset_loop_stuck: "unset_loop texts name cur cs = Some r \<Longrightarrow> \<not> stuck texts name cur cs"
proof (induction rule: unset_loop.raw_induct [rotated, consumes 1, where P = "\<lambda>texts name cur cs r. \<not> stuck texts name cur cs"])
  case (1 f texts name cur cs r)
  show ?case
  proof
    assume "stuck texts name cur cs"
    then show False
      by (rule stuck_step) (use 1 in \<open>auto split: if_splits simp: bind_eq_Some_conv\<close>)
  qed
qed

section \<open>The environment\<close>

text \<open>C39. What \<open>unsetenv\<close> does to an environment of well-formed entries, exactly: when the last entry
  does not start with the name, the entries that do are taken out and as many copies of the last entry
  put behind the others, the length staying as it was; when the last entry alone does, it is taken out;
  when it is one of several, the call does not return.\<close>

lemma unsetenv_exact:
  assumes "environ e = Some (cells ps R)" and "\<forall>p \<in> set ps. has_equal (text_at e p)"
  shows "dce_unsetenv name e =
    (let found = hit (text_at e) name; k = length (filter found ps) in
     if ps = [] \<or> \<not> found (last ps)
     then Some (set_environ (cells (filter (\<lambda>p. \<not> found p) ps @ replicate k (last ps)) R) e)
     else if k = 1 then Some (set_environ (cells (butlast ps) (None # R)) e)
     else None)"
proof -
  let ?texts = "text_at e" and ?k = "length (filter (hit (text_at e) name) ps)"
  have unset: "dce_unsetenv name e = map_option (\<lambda>cs. set_environ cs e) (unset_loop ?texts name 0 (cells ps R))"
    by (simp add: dce_unsetenv_def assms(1) map_conv_bind_option comp_def)
  show ?thesis
  proof (cases "ps = [] \<or> \<not> hit ?texts name (last ps)")
    case True
    with unset_copies_last [OF assms(2), of name "[]" R] show ?thesis
      by (simp add: unset Let_def)
  next
    case False
    then obtain qs z where ps: "ps = qs @ [z]" and z: "hit ?texts name z"
      by (cases ps rule: rev_cases) auto
    show ?thesis
    proof (cases "?k = 1")
      case True
      with ps z have "\<forall>p \<in> set qs. \<not> hit ?texts name p" by (auto simp: filter_empty_conv)
      with unset_removes_last [of qs ?texts name z R] assms(2) ps z False True show ?thesis
        by (simp add: unset Let_def)
    next
      case k: False
      with ps z obtain p where "p \<in> set qs" "hit ?texts name p" by (auto simp: filter_empty_conv)
      with ps z assms(2) have "stuck ?texts name 0 (cells ps R)"
        using stuckI [of "cells ps R" "[]" ps R ?texts name p] by simp
      with unset_loop_stuck have "unset_loop ?texts name 0 (cells ps R) = None" by (metis not_None_eq)
      with False k show ?thesis by (simp add: unset Let_def)
    qed
  qed
qed


lemma hit_starts: "hit texts name p \<longleftrightarrow> (\<exists>rest. texts p = name @ rest)"
  by (auto simp: hit_def same_start_def) (metis append_take_drop_id)

text \<open>Three entries at 1, 2 and 3, in an array at 4.\<close>

definition three_entries :: env_state where
  "three_entries = \<lparr>text_at = (\<lambda>a. if a = 1 then ''A=1'' else if a = 2 then ''B=2'' else ''C=3''),
     array_at = [4 \<mapsto> [Some 1, Some 2, Some 3, None]], penvp = Some 4, allocated = [], new_block = 5\<rparr>"

lemma unsetenv_exact_witness:
  "map_option (\<lambda>e. environ e) (dce_unsetenv ''A'' three_entries) = Some (Some [Some 2, Some 3, Some 3, None])"
  using unsetenv_exact [of three_entries "[1, 2, 3]" "[]" "''A''"]
  by (simp add: three_entries_def environ_def has_equal_def hit_def same_start_def set_environ_def)

lemma seek_env_skips:
  "\<forall>p \<in> set ps. \<not> hit texts name p \<or> \<not> has_equal (texts p) \<Longrightarrow>
   seek_env texts name (map Some ps @ cs) = seek_env texts name cs"
  by (induction ps) (auto simp: hit_def)

lemma seek_env_cong:
  "\<forall>p \<in> set ps. texts' p = texts p \<Longrightarrow> seek_env texts' name (cells ps R) = seek_env texts name (cells ps R)"
  by (induction ps) auto

lemma count_cells_all: "count_cells texts name True (cells ps R) = Some (Some (length ps))"
  by (induction ps) simp_all

text \<open>The entries are strings that exist, and the loop removes those of \<open>name\<close>.\<close>

lemma unset_forgets:
  assumes "environ e = Some (cells ps R)" and "\<forall>p \<in> set ps. has_equal (text_at e p) \<and> p < new_block e"
    and "dce_unsetenv name e = Some e1"
  obtains qs R' where "environ e1 = Some (cells qs R')" "\<forall>p \<in> set qs. \<not> hit (text_at e) name p \<and> p \<in> set ps"
    "text_at e1 = text_at e" "new_block e1 = new_block e"
proof -
  let ?hit = "hit (text_at e) name"
  have env: "environ (set_environ cs e) = Some cs" for cs
    using assms(1) by (auto simp: environ_def set_environ_def bind_eq_Some_conv)
  have same: "text_at (set_environ cs e) = text_at e" "new_block (set_environ cs e) = new_block e" for cs
    by (simp_all add: set_environ_def split: option.split)
  from assms(2) have eqs: "\<forall>p \<in> set ps. has_equal (text_at e p)" by blast
  show thesis
  proof (cases "ps = [] \<or> \<not> ?hit (last ps)")
    case True
    with unsetenv_exact [OF assms(1) eqs, of name] assms(3)
    have "e1 = set_environ (cells (filter (\<lambda>p. \<not> ?hit p) ps @ replicate (length (filter ?hit ps)) (last ps)) R) e"
      by (simp add: Let_def)
    with True show thesis
      by (intro that [of "filter (\<lambda>p. \<not> ?hit p) ps @ replicate (length (filter ?hit ps)) (last ps)" R])
        (auto simp: env same intro!: last_in_set)
  next
    case False
    then obtain qs z where ps: "ps = qs @ [z]" "?hit z" by (cases ps rule: rev_cases) auto
    with unsetenv_exact [OF assms(1) eqs, of name] assms(3)
    have e1: "e1 = set_environ (cells qs (None # R)) e" and "length (filter ?hit ps) = 1"
      by (simp_all add: Let_def split: if_splits)
    with ps have "\<forall>p \<in> set qs. \<not> ?hit p" by (auto simp: filter_empty_conv)
    with e1 ps show thesis by (intro that [of qs "None # R"]) (auto simp: env same)
  qed
qed

text \<open>C22. What \<open>setenv\<close> with its overwrite argument stores is what \<open>getenv\<close> finds: a name without an
  equal sign, set in an environment of well-formed entries, has the value given, however many entries
  of that name there were, if the call returns (\<open>unsetenv_exact\<close> says when it does).\<close>

lemma setenv_getenv:
  assumes "environ e = Some (cells ps R)" and "\<forall>p \<in> set ps. has_equal (text_at e p) \<and> p < new_block e"
    and "CHR ''='' \<notin> set name" and "dce_setenv name val True e = Some e'"
  shows "\<exists>p n. dce_getenv name e' = Some (Some (p, n)) \<and> drop n (text_at e' p) = val"
proof -
  from assms(4) obtain e1 where e1: "dce_unsetenv name e = Some e1"
    by (auto simp: dce_setenv_def bind_eq_Some_conv)
  from unset_forgets [OF assms(1,2) e1] obtain qs R' where q: "environ e1 = Some (cells qs R')"
    "\<forall>p \<in> set qs. \<not> hit (text_at e) name p \<and> p \<in> set ps" "text_at e1 = text_at e" "new_block e1 = new_block e" .
  let ?n = "new_block e" let ?t = "(text_at e)(?n + 1 := name @ ''='' @ val)"
  have e': "penvp e' = Some ?n" "array_at e' ?n = Some (cells (qs @ [?n + 1]) [])" "text_at e' = ?t"
    using assms(4) e1 q(1,3,4) count_cells_all [of "text_at e1" name qs R']
    by (auto simp: dce_setenv_def new_text_def Let_def)
  have old: "\<not> hit ?t name p" if "p \<in> set qs" for p
  proof -
    from that q(2) have "p \<in> set ps" "\<not> hit (text_at e) name p" by auto
    moreover from this(1) assms(2) have "p < ?n" by auto
    ultimately show ?thesis by (simp add: hit_def)
  qed
  have "seek_env ?t name (cells (qs @ [?n + 1]) []) = Some (Some (?n + 1, value_offset (name @ ''='' @ val)))"
    using seek_env_skips [of qs ?t name "cells [?n + 1] []"] old
    by (simp add: has_equal_def same_start_def)
  moreover have "drop (value_offset (name @ ''='' @ val)) (name @ ''='' @ val) = val"
  proof -
    have "takeWhile (\<lambda>c. c \<noteq> CHR ''='') (name @ ''='' @ val) = name"
      using assms(3) by (subst takeWhile_append2) auto
    then show ?thesis by (simp add: value_offset_def)
  qed
  ultimately show ?thesis using e' by (simp add: dce_getenv_def)
qed

lemma setenv_getenv_witness:
  "\<exists>e' p n. dce_setenv ''D'' ''44'' True three_entries = Some e'
     \<and> dce_getenv ''D'' e' = Some (Some (p, n)) \<and> drop n (text_at e' p) = ''44''"
proof -
  have env: "environ three_entries = Some (cells [1, 2, 3] [])" by (simp add: three_entries_def environ_def)
  have ok: "\<forall>p \<in> set [1, 2, 3]. has_equal (text_at three_entries p) \<and> p < new_block three_entries"
    by (simp add: three_entries_def has_equal_def)
  have "dce_unsetenv ''D'' three_entries = Some three_entries"
    using unset_walks [of "[1, 2]" "text_at three_entries" "''D''" "[]" 3 "[]"]
      unset_loop_step [of "text_at three_entries" 3 "''D''" "[Some 1, Some 2]" "[]" "[]"]
      unset_loop_end [of "text_at three_entries" "''D''" "[Some 1, Some 2, Some 3]" "[]"] env
    by (simp add: dce_unsetenv_def set_environ_def hit_def same_start_def has_equal_def three_entries_def fun_upd_idem)
  then obtain e' where e': "dce_setenv ''D'' ''44'' True three_entries = Some e'"
    by (simp add: dce_setenv_def env new_text_def Let_def)
  from setenv_getenv [OF env ok _ e'] show ?thesis using e' by auto
qed

end
