(* ===== verification/Credentials.thy ===== *)
theory Credentials
  imports Prelude
begin

text \<open>
  The user and group identifiers of a process: the calls of \<open>model/dce.cc\<close> and
  \<open>model/dce-credentials.cc\<close> that read and set them, and what \<open>DceManager\<close> gives to a process that
  starts or is forked.
\<close>

section \<open>The identifiers\<close>

type_synonym uid_t = uint32
type_synonym gid_t = uint32

record credentials =
  euid :: uid_t
  ruid :: uid_t
  suid :: uid_t
  egid :: gid_t
  rgid :: gid_t
  sgid :: gid_t

text \<open>A call returns its value and the errno it sets.\<close>

type_synonym cred_result = "(int \<times> errno option) \<times> credentials"

definition dce_getuid :: "credentials \<Rightarrow> uid_t" where "dce_getuid c = ruid c"
definition dce_geteuid :: "credentials \<Rightarrow> uid_t" where "dce_geteuid c = euid c"
definition dce_getgid :: "credentials \<Rightarrow> gid_t" where "dce_getgid c = rgid c"
definition dce_getegid :: "credentials \<Rightarrow> gid_t" where "dce_getegid c = egid c"

definition is_ucapable :: "credentials \<Rightarrow> bool" where "is_ucapable c \<longleftrightarrow> euid c = 0"
definition is_gcapable :: "credentials \<Rightarrow> bool" where "is_gcapable c \<longleftrightarrow> egid c = 0"

definition is_set_ucapable :: "uid_t \<Rightarrow> credentials \<Rightarrow> bool" where
  "is_set_ucapable u c \<longleftrightarrow> is_ucapable c \<or> euid c = u \<or> ruid c = u \<or> suid c = u"

definition is_set_gcapable :: "gid_t \<Rightarrow> credentials \<Rightarrow> bool" where
  "is_set_gcapable g c \<longleftrightarrow> is_gcapable c \<or> egid c = g \<or> rgid c = g \<or> sgid c = g"

section \<open>Setting them\<close>

definition dce_setresuid :: "uid_t \<Rightarrow> uid_t \<Rightarrow> uid_t \<Rightarrow> credentials \<Rightarrow> cred_result" where
  "dce_setresuid r e s c =
     (if r \<noteq> -1 \<and> \<not> is_set_ucapable r c then ((-1, Some EPERM), c)
      else if e \<noteq> -1 \<and> \<not> is_set_ucapable e c then ((-1, Some EPERM), c)
      else if s \<noteq> -1 \<and> \<not> is_set_ucapable s c then ((-1, Some EPERM), c)
      else
        let c1 = (if r \<noteq> -1 then c\<lparr>ruid := r\<rparr> else c);
            c2 = (if e \<noteq> -1 then c1\<lparr>euid := e\<rparr> else c1);
            c3 = (if s \<noteq> -1 then c2\<lparr>suid := s\<rparr> else c2) in
        ((0, None), c3))"

text \<open>The groups are checked against the user identifiers.\<close>

definition dce_setresgid :: "gid_t \<Rightarrow> gid_t \<Rightarrow> gid_t \<Rightarrow> credentials \<Rightarrow> cred_result" where
  "dce_setresgid r e s c =
     (if r \<noteq> -1 \<and> \<not> is_set_ucapable r c then ((-1, Some EPERM), c)
      else if e \<noteq> -1 \<and> \<not> is_set_ucapable e c then ((-1, Some EPERM), c)
      else if s \<noteq> -1 \<and> \<not> is_set_ucapable s c then ((-1, Some EPERM), c)
      else
        let c1 = (if r \<noteq> -1 then c\<lparr>rgid := r\<rparr> else c);
            c2 = (if e \<noteq> -1 then c1\<lparr>egid := e\<rparr> else c1);
            c3 = (if s \<noteq> -1 then c2\<lparr>sgid := s\<rparr> else c2) in
        ((0, None), c3))"

definition dce_setreuid :: "uid_t \<Rightarrow> uid_t \<Rightarrow> credentials \<Rightarrow> cred_result" where
  "dce_setreuid r e = dce_setresuid r e (-1)"

definition dce_setregid :: "gid_t \<Rightarrow> gid_t \<Rightarrow> credentials \<Rightarrow> cred_result" where
  "dce_setregid r e = dce_setresgid r e (-1)"

definition dce_seteuid :: "uid_t \<Rightarrow> credentials \<Rightarrow> cred_result" where
  "dce_seteuid e = dce_setresuid (-1) e (-1)"

definition dce_setegid :: "gid_t \<Rightarrow> credentials \<Rightarrow> cred_result" where
  "dce_setegid e = dce_setresgid (-1) e (-1)"

definition dce_setuid :: "uid_t \<Rightarrow> credentials \<Rightarrow> cred_result" where
  "dce_setuid u c =
     (if is_set_ucapable u c then
        let c1 = c\<lparr>ruid := u\<rparr> in
        ((0, None), if euid c1 = 0 then c1\<lparr>euid := u, suid := u\<rparr> else c1)
      else ((-1, Some EPERM), c))"

definition dce_setgid :: "gid_t \<Rightarrow> credentials \<Rightarrow> cred_result" where
  "dce_setgid g c =
     (if is_set_gcapable g c then
        let c1 = c\<lparr>rgid := g\<rparr> in
        ((0, None), if egid c1 = 0 then c1\<lparr>egid := g, sgid := g\<rparr> else c1)
      else ((-1, Some EPERM), c))"

section \<open>Processes that start\<close>

text \<open>\<open>CreateProcess\<close> gives a process the identifiers of root; \<open>Start\<close> then sets four of them.\<close>

definition root_credentials :: credentials where
  "root_credentials = \<lparr>euid = 0, ruid = 0, suid = 0, egid = 0, rgid = 0, sgid = 0\<rparr>"

definition start_credentials :: "uid_t \<Rightarrow> uid_t \<Rightarrow> gid_t \<Rightarrow> gid_t \<Rightarrow> credentials" where
  "start_credentials u eu g eg = root_credentials\<lparr>ruid := u, euid := eu, rgid := g, egid := eg\<rparr>"

text \<open>\<open>Clone\<close>, that is fork, does not look at those of the parent.\<close>

definition clone_credentials :: "credentials \<Rightarrow> credentials" where
  "clone_credentials c = \<lparr>euid = 0, ruid = 0, suid = 0, egid = 0, rgid = 0, sgid = 0\<rparr>"

section \<open>Sequences of calls\<close>

datatype cred_call =
    Setresuid uid_t uid_t uid_t | Setresgid gid_t gid_t gid_t | Setreuid uid_t uid_t | Setregid gid_t gid_t
  | Seteuid uid_t | Setegid gid_t | Setuid uid_t | Setgid gid_t

fun cred_exec :: "cred_call \<Rightarrow> credentials \<Rightarrow> cred_result" where
  "cred_exec (Setresuid r e s) c = dce_setresuid r e s c"
| "cred_exec (Setresgid r e s) c = dce_setresgid r e s c"
| "cred_exec (Setreuid r e) c = dce_setreuid r e c"
| "cred_exec (Setregid r e) c = dce_setregid r e c"
| "cred_exec (Seteuid e) c = dce_seteuid e c"
| "cred_exec (Setegid e) c = dce_setegid e c"
| "cred_exec (Setuid u) c = dce_setuid u c"
| "cred_exec (Setgid g) c = dce_setgid g c"

fun cred_run :: "cred_call list \<Rightarrow> credentials \<Rightarrow> credentials" where
  "cred_run [] c = c"
| "cred_run (k # ks) c = cred_run ks (snd (cred_exec k c))"

definition uids :: "credentials \<Rightarrow> uid_t set" where "uids c = {euid c, ruid c, suid c}"

named_theorems cred_defs

lemmas cred_call_defs [cred_defs] = dce_setresuid_def dce_setresgid_def dce_setreuid_def dce_setregid_def
  dce_seteuid_def dce_setegid_def dce_setuid_def dce_setgid_def is_set_ucapable_def is_set_gcapable_def
  is_ucapable_def is_gcapable_def

lemma cred_exec_uids: "0 \<notin> uids c \<Longrightarrow> uids (snd (cred_exec k c)) \<subseteq> uids c"
  by (cases k) (auto simp: cred_defs uids_def Let_def)




text \<open>C40. A process without the identifier 0 loses its privileges for good, until it forks: no sequence
  of calls gives it back the identifier 0, and the call that asks for it fails with \<open>EPERM\<close>; but its child
  has the identifiers of root, and may choose any others.\<close>

theorem fork_regains_root:
  assumes "0 \<notin> uids c"
  shows "fst (cred_exec (Setresuid (-1) 0 (-1)) (cred_run ks c)) = (-1, Some EPERM)
    \<and> fst (cred_exec (Setresuid u u u) (clone_credentials (cred_run ks c))) = (0, None)
    \<and> uids (clone_credentials (cred_run ks c)) = {0}"
proof -
  have "uids (cred_run ks c) \<subseteq> uids c"
    using assms
  proof (induction ks arbitrary: c)
    case (Cons k ks)
    with cred_exec_uids [of c k] show ?case by (simp, blast)
  qed simp
  with assms have "0 \<notin> uids (cred_run ks c)" by blast
  then show ?thesis by (auto simp: uids_def cred_defs clone_credentials_def)
qed

lemma fork_regains_root_witness:
  "fst (cred_exec (Setresuid 4 4 4) (clone_credentials (cred_run [Setuid 6] (start_credentials 6 7 6 7\<lparr>suid := 6\<rparr>)))) = (0, None)"
  using fork_regains_root [of "start_credentials 6 7 6 7\<lparr>suid := 6\<rparr>" "[Setuid 6]" 4]
  by (simp add: uids_def start_credentials_def root_credentials_def)

end
