(* ===== verification/Process_Table.thy ===== *)
theory Process_Table
  imports Io_Reach Credentials
begin

text \<open>
  The processes of a node, \<open>model/dce-manager.cc\<close>: the table of the processes by their pid, the
  tree of parents and children, the threads of each process, and how processes and threads come
  into being.

  The state holds that of the descriptors and tasks (\<open>Io_State\<close>), in which a thread is named by its
  task and the threads, signals and descriptors of a process are found by its pid. A failed assertion,
  a fatal error and an access to a deleted object are \<^term>\<open>None\<close>.
\<close>

section \<open>The state\<close>

text \<open>
  \<open>Process\<close> (\<open>model/process.h\<close>). \<open>p_loader\<close> and \<open>p_alloc\<close> say that the two pointers are not null:
  a process without them has ended and waits for its parent.
\<close>

datatype atexit_handler = Normal_handler addr | Cxa_handler addr addr addr

record proc =
  p_cred :: credentials
  p_ppid :: uint16
  p_pid :: uint16
  p_pgid :: uint16
  p_children :: "uint16 set"
  p_atexit :: "atexit_handler list"
  p_exitValue :: int
  p_loader :: bool
  p_alloc :: bool
  p_finished :: "addr option"
  p_itimer :: "event_id option"
  p_itimerInterval :: time

text \<open>
  \<open>Thread\<close>; the fields that the calls on descriptors and signals use are in \<^typ>\<open>'x io\<close>.
  \<open>t_task\<close> says that the pointer to its task is not null. A value under a key is its key, destructor
  and value.
\<close>

record thread =
  isDetached :: bool
  hasExitValue :: bool
  exitValue :: addr
  t_tid :: uint16
  t_task :: bool
  joinWaiter :: "task option"
  childWaiter :: "nat option"
  keyValues :: "(uint32 \<times> addr \<times> addr) list"

text \<open>\<open>Waiter\<close> (\<open>model/waiter.h\<close>).\<close>

record waiter =
  w_waiting :: "task option"
  w_timeout :: time

text \<open>
  What a suspended call has still to do: \<open>waitpid\<close> with its arguments and its \<open>Waiter\<close>,
  \<open>pthread_join\<close> with the thread it waits for and the pointer for its value, \<open>pthread_create\<close>.
\<close>

datatype node_frame = Wait_child int "addr option" int nat | Join_wait task "addr option" | Create_yield

text \<open>
  The calls of functions of the program and of the simulation: destructors of keys, handlers at exit,
  the routine of \<open>pthread_once\<close>, the callback at the end of a process and the trace of its exit.
\<close>

datatype user_call =
    Call_destructor addr addr | Call_cxa addr addr | Call_normal addr | Call_once addr
  | Call_finished addr uint16 int | Trace_exit uint16 int

record 'x node =
  m_processes :: "uint16 \<rightharpoonup> proc"
  m_nextPid :: uint16
  thread_at :: "task \<rightharpoonup> thread"
  waiter_at :: "nat \<rightharpoonup> waiter"
  next_waiter :: nat
  called :: "user_call list"
  ints :: "addr \<Rightarrow> int"
  pointers :: "addr \<Rightarrow> addr"
  handles :: "addr \<Rightarrow> uint64"
  node_frame :: "task \<Rightarrow> node_frame option"
  nio :: "'x io"

definition new_node :: "'x task_manager \<Rightarrow> 'x node" where
  "new_node m = \<lparr>m_processes = Map.empty, m_nextPid = 1, thread_at = Map.empty, waiter_at = Map.empty,
     next_waiter = 1, called = [], ints = (\<lambda>a. 0), pointers = (\<lambda>a. 0), handles = (\<lambda>a. 0),
     node_frame = (\<lambda>t. None), nio = new_io m\<rparr>"

section \<open>Looking up\<close>

definition SearchProcess :: "uint16 \<Rightarrow> 'x node \<Rightarrow> proc option" where
  "SearchProcess pid s = m_processes s pid"

definition put_proc :: "proc \<Rightarrow> 'x node \<Rightarrow> 'x node" where
  "put_proc p s = s\<lparr>m_processes := (m_processes s)(p_pid p \<mapsto> p)\<rparr>"

definition put_thread :: "task \<Rightarrow> thread \<Rightarrow> 'x node \<Rightarrow> 'x node" where
  "put_thread t x s = s\<lparr>thread_at := (thread_at s)(t \<mapsto> x)\<rparr>"

definition on_io :: "('x io \<Rightarrow> 'x io) \<Rightarrow> 'x node \<Rightarrow> 'x node" where
  "on_io f s = s\<lparr>nio := f (nio s)\<rparr>"

definition try_io :: "('x io \<Rightarrow> 'x io option) \<Rightarrow> 'x node \<Rightarrow> 'x node option" where
  "try_io f s = do { i \<leftarrow> f (nio s); Some (s\<lparr>nio := i\<rparr>) }"

definition try_tm :: "('x task_manager \<Rightarrow> 'x task_manager option) \<Rightarrow> 'x node \<Rightarrow> 'x node option" where
  "try_tm f s = try_io (\<lambda>i. do { m \<leftarrow> f (io_tm i); Some (i\<lparr>io_tm := m\<rparr>) }) s"

text \<open>The running thread and its process.\<close>

definition Current :: "'x node \<Rightarrow> task option" where
  "Current s = m_current (io_tm (nio s))"

definition process_of :: "task \<Rightarrow> 'x node \<Rightarrow> uint16" where
  "process_of t s = pid_of (nio s) t"

definition threads_of :: "uint16 \<Rightarrow> 'x node \<Rightarrow> task list" where
  "threads_of pid s = threads (nio s) pid"

definition current_thread :: "'x node \<Rightarrow> (task \<times> thread \<times> proc) option" where
  "current_thread s =
     do { t \<leftarrow> Current s; x \<leftarrow> thread_at s t; p \<leftarrow> m_processes s (process_of t s); Some (t, x, p) }"

fun search_tid :: "uint16 \<Rightarrow> task list \<Rightarrow> 'x node \<Rightarrow> task option option" where
  "search_tid i [] s = Some None"
| "search_tid i (t # ts) s =
     do { x \<leftarrow> thread_at s t; if t_tid x = i then Some (Some t) else search_tid i ts s }"

definition SearchThread :: "uint16 \<Rightarrow> uint16 \<Rightarrow> 'x node \<Rightarrow> task option option" where
  "SearchThread pid i s =
     (case SearchProcess pid s of None \<Rightarrow> Some None | Some p \<Rightarrow> search_tid i (threads_of pid s) s)"

definition ThreadExists :: "task \<Rightarrow> 'x node \<Rightarrow> bool option" where
  "ThreadExists t s = do { x \<leftarrow> thread_at s t; Some (t \<in> set (threads_of (process_of t s) s)) }"

section \<open>Waking and waiting\<close>

definition node_Wakeup :: "'x io_env \<Rightarrow> task \<Rightarrow> 'x node \<Rightarrow> 'x node option" where
  "node_Wakeup E t s =
     do { ex \<leftarrow> ThreadExists t s;
          x \<leftarrow> thread_at s t;
          if ex \<and> t_task x then try_io (io_Wakeup E t) s else None }"

definition node_Wait :: "'x io_env \<Rightarrow> 'x node \<Rightarrow> 'x node option" where
  "node_Wait E s = try_io (io_Wait E) s"

definition node_Wait_timeout :: "'x io_env \<Rightarrow> time \<Rightarrow> 'x node \<Rightarrow> 'x node option" where
  "node_Wait_timeout E timeout s = try_io (io_Wait_timeout E timeout) s"

definition node_Yield :: "'x io_env \<Rightarrow> 'x node \<Rightarrow> 'x node option" where
  "node_Yield E s = try_tm (Yield (io_sim E) (io_delay E)) s"

definition node_Exit :: "'x io_env \<Rightarrow> 'x node \<Rightarrow> 'x node option" where
  "node_Exit E s = try_tm (tm_Exit (io_sim E) (io_delay E)) s"

section \<open>Identifiers\<close>

text \<open>The loops over the candidates of \<open>AllocatePid\<close> and \<open>AllocateTid\<close>.\<close>

function pick_pid :: "(uint16 \<rightharpoonup> proc) \<Rightarrow> uint16 \<Rightarrow> int \<Rightarrow> uint16 option" where
  "pick_pid ps next_pid i =
     (if i \<ge> 65535 then None
      else
        let candidate = next_pid + word_of_int i in
        if candidate > 1 \<and> ps candidate = None then Some candidate
        else pick_pid ps next_pid (i + 1))"
  by pat_completeness auto
termination by (relation "measure (\<lambda>(ps, n, i). nat (65535 - i))") (auto simp: Let_def)

function pick_tid :: "uint16 set \<Rightarrow> int \<Rightarrow> uint16 option" where
  "pick_tid used i =
     (if i \<ge> 65535 then None
      else if word_of_int i \<in> used then pick_tid used (i + 1)
      else Some (word_of_int i))"
  by pat_completeness auto
termination by (relation "measure (\<lambda>(used, i). nat (65535 - i))") auto

declare pick_pid.simps [simp del] pick_tid.simps [simp del]

definition AllocatePid :: "'x node \<Rightarrow> (uint16 \<times> 'x node) option" where
  "AllocatePid s =
     do { pid \<leftarrow> pick_pid (m_processes s) (m_nextPid s) 0; Some (pid, s\<lparr>m_nextPid := pid + 1\<rparr>) }"

text \<open>The tids of existing threads.\<close>

fun tids :: "task list \<Rightarrow> 'x node \<Rightarrow> uint16 set option" where
  "tids [] s = Some {}"
| "tids (t # ts) s = do { x \<leftarrow> thread_at s t; is \<leftarrow> tids ts s; Some (insert (t_tid x) is) }"

definition AllocateTid :: "uint16 \<Rightarrow> 'x node \<Rightarrow> uint16 option" where
  "AllocateTid pid s = do { used \<leftarrow> tids (threads_of pid s) s; pick_tid used 0 }"

section \<open>Threads and processes\<close>

text \<open>\<open>CreateThread\<close>, for the thread whose task will be \<open>t\<close>.\<close>

definition attach_thread :: "uint16 \<Rightarrow> task \<Rightarrow> 'x io \<Rightarrow> 'x io" where
  "attach_thread pid t i =
     i\<lparr>pid_of := (pid_of i)(t := pid), threads := (threads i)(pid := threads i pid @ [t]),
       io_err := (io_err i)(t := None), lastTime := (lastTime i)(t := 0),
       pollTable := (pollTable i)(t := None), ioWait := (ioWait i)(t := None),
       signalMask := (signalMask i)(t := {}), threadSignals := (threadSignals i)(t := {}),
       frames := (frames i)(t := [])\<rparr>"

definition CreateThread :: "uint16 \<Rightarrow> task \<Rightarrow> 'x node \<Rightarrow> 'x node option" where
  "CreateThread pid t s =
     do { i \<leftarrow> AllocateTid pid s;
          keys \<leftarrow> (case threads_of pid s of
                    [] \<Rightarrow> Some []
                  | u # us \<Rightarrow> do { y \<leftarrow> thread_at s u; Some (map (\<lambda>(k, d, v). (k, d, 0)) (keyValues y)) });
          let x = \<lparr>isDetached = False, hasExitValue = False, exitValue = 0, t_tid = i, t_task = False,
                   joinWaiter = None, childWaiter = None, keyValues = keys\<rparr> in
          Some (on_io (attach_thread pid t)
            (put_thread t x (s\<lparr>node_frame := (node_frame s)(t := None)\<rparr>))) }"

text \<open>The two notifiers of the task switches, and the process they get.\<close>

definition TASK_SWITCH :: addr where "TASK_SWITCH = 1"
definition PTHREAD_TASK_SWITCH :: addr where "PTHREAD_TASK_SWITCH = 2"

text \<open>The rest of starting a thread: its task, which gets its context, its notifier and its thread.\<close>

definition connect_task :: "addr \<Rightarrow> uint16 \<Rightarrow> task \<Rightarrow> 'x node \<Rightarrow> 'x node option" where
  "connect_task notifier pid t s =
     do { s1 \<leftarrow> try_tm (SetContext t t) s;
          s2 \<leftarrow> try_tm (SetSwitchNotifier t notifier (unat pid)) s1;
          x \<leftarrow> thread_at s2 t;
          Some (put_thread t (x\<lparr>t_task := True\<rparr>) s2) }"

definition start_task :: "'x io_env \<Rightarrow> addr \<Rightarrow> uint16 \<Rightarrow> 'x node \<Rightarrow> (task \<times> 'x node) option" where
  "start_task E notifier pid s =
     do { s1 \<leftarrow> CreateThread pid (new_task (io_tm (nio s))) s;
          (t, m) \<leftarrow> tm_Start (io_sim E) (io_tm (nio s1));
          s2 \<leftarrow> connect_task notifier pid t (on_io (\<lambda>i. i\<lparr>io_tm := m\<rparr>) s1);
          Some (t, s2) }"

definition SIGABRT :: int where "SIGABRT = 6"
definition SIGALRM :: int where "SIGALRM = 14"

text \<open>The handlers of the manager, which call \<open>dce_exit\<close>.\<close>

definition SIGKILL_HANDLER :: addr where "SIGKILL_HANDLER = 1"
definition SIGABRT_HANDLER :: addr where "SIGABRT_HANDLER = 2"

definition SetDefaultSigHandler :: "signal_handler list \<Rightarrow> signal_handler list" where
  "SetDefaultSigHandler hs = hs @
     [\<lparr>sh_signal = SIGKILL, sh_flags = 0, sh_mask = {}, sh_handler = SIGKILL_HANDLER, sh_sigaction = 0\<rparr>,
      \<lparr>sh_signal = SIGABRT, sh_flags = 0, sh_mask = {}, sh_handler = SIGABRT_HANDLER, sh_sigaction = 0\<rparr>]"

text \<open>The part of a \<open>Process\<close> that is in \<^typ>\<open>'x io\<close>, when it is new.\<close>

definition fresh_process_io :: "uint16 \<Rightarrow> 'x io \<Rightarrow> 'x io" where
  "fresh_process_io pid i =
     i\<lparr>threads := (threads i)(pid := []), pendingSignals := (pendingSignals i)(pid := {}),
       openFiles := (openFiles i)(pid := Map.empty),
       signalHandlers := (signalHandlers i)(pid := SetDefaultSigHandler [])\<rparr>"

definition new_proc :: "uint16 \<Rightarrow> proc" where
  "new_proc pid = \<lparr>p_cred = root_credentials, p_ppid = 0, p_pid = pid, p_pgid = 0, p_children = {},
     p_atexit = [], p_exitValue = 0, p_loader = True, p_alloc = True, p_finished = None,
     p_itimer = None, p_itimerInterval = 0\<rparr>"

definition CreateProcess :: "'x node \<Rightarrow> (uint16 \<times> 'x node) option" where
  "CreateProcess s =
     do { (pid, s1) \<leftarrow> AllocatePid s;
          Some (pid, on_io (fresh_process_io pid) (put_proc (new_proc pid) s1)) }"

definition node_Start ::
  "'x io_env \<Rightarrow> uid_t \<Rightarrow> uid_t \<Rightarrow> gid_t \<Rightarrow> gid_t \<Rightarrow> 'x node \<Rightarrow> (uint16 \<times> 'x node) option" where
  "node_Start E u eu g eg s =
     do { (pid, s1) \<leftarrow> CreateProcess s;
          p \<leftarrow> m_processes s1 pid;
          (t, s2) \<leftarrow> start_task E TASK_SWITCH pid (put_proc (p\<lparr>p_cred := start_credentials u eu g eg\<rparr>) s1);
          Some (pid, s2) }"

section \<open>Fork\<close>

definition clone_proc :: "uint16 \<Rightarrow> proc \<Rightarrow> proc" where
  "clone_proc pid p = (new_proc pid)\<lparr>p_cred := clone_credentials (p_cred p), p_ppid := p_pid p, p_pgid := p_pgid p\<rparr>"

definition node_Clone :: "'x io_env \<Rightarrow> task \<Rightarrow> 'x node \<Rightarrow> (uint16 \<times> 'x node) option" where
  "node_Clone E t s =
     do { x \<leftarrow> thread_at s t;
          p \<leftarrow> m_processes s (process_of t s);
          (pid, s1) \<leftarrow> AllocatePid s;
          let s2 = on_io (fresh_process_io pid) (put_proc (p\<lparr>p_children := insert pid (p_children p)\<rparr>) s1) in
          do { s3 \<leftarrow> try_io (clone_files (p_pid p) pid) s2;
               s4 \<leftarrow> CreateThread pid (new_task (io_tm (nio s3))) (put_proc (clone_proc pid p) s3);
               if \<not> (p_loader p \<and> p_alloc p \<and> t_task x) then None
               else
                 do { (c, m) \<leftarrow> tm_Clone (io_sim E) t (io_tm (nio s4));
                      s5 \<leftarrow> connect_task TASK_SWITCH pid c (on_io (\<lambda>i. i\<lparr>io_tm := m\<rparr>) s4);
                      Some (pid, s5) } } }"

definition dce_fork :: "'x io_env \<Rightarrow> 'x node \<Rightarrow> (uint16 \<times> 'x node) option" where
  "dce_fork E s = do { t \<leftarrow> Current s; node_Clone E t s }"

end
