(* ===== verification/Process_Life.thy ===== *)
theory Process_Life
  imports Process_Table
begin

text \<open>
  How threads and processes end, and what waits for them: \<open>DeleteThread\<close>, \<open>DeleteProcess\<close> and \<open>Stop\<close>
  (\<open>model/dce-manager.cc\<close>), \<open>dce_exit\<close> and the thread functions (\<open>model/dce-pthread.cc\<close>), the
  handlers at exit (\<open>model/dce-cxa.cc\<close>), \<open>Waiter\<close> (\<open>model/waiter.cc\<close>) and \<open>waitpid\<close>
  (\<open>model/dce-wait.cc\<close>).

  A call returns, is suspended with what it has still to do, or does not return because its thread
  has ended.
\<close>

datatype 's node_result = Ret int 's | Susp node_frame 's | Gone 's

section \<open>Waiters\<close>

text \<open>\<open>Waiter::Wait\<close> up to where its thread sleeps, and from where it runs again.\<close>

definition new_waiter :: "'x node \<Rightarrow> nat \<times> 'x node" where
  "new_waiter s =
     (next_waiter s, s\<lparr>waiter_at := (waiter_at s)(next_waiter s \<mapsto> \<lparr>w_waiting = None, w_timeout = 0\<rparr>),
        next_waiter := next_waiter s + 1\<rparr>)"

definition put_waiter :: "nat \<Rightarrow> waiter \<Rightarrow> 'x node \<Rightarrow> 'x node" where
  "put_waiter w y s = s\<lparr>waiter_at := (waiter_at s)(w \<mapsto> y)\<rparr>"

definition delete_waiter :: "nat \<Rightarrow> 'x node \<Rightarrow> 'x node" where
  "delete_waiter w s = s\<lparr>waiter_at := (waiter_at s)(w := None)\<rparr>"

definition SetTimeout :: "nat \<Rightarrow> time \<Rightarrow> 'x node \<Rightarrow> 'x node option" where
  "SetTimeout w timeout s = do { y \<leftarrow> waiter_at s w; Some (put_waiter w (y\<lparr>w_timeout := timeout\<rparr>) s) }"

definition GetTimeoutLeft :: "nat \<Rightarrow> 'x node \<Rightarrow> time option" where
  "GetTimeoutLeft w s = map_option w_timeout (waiter_at s w)"

definition waiter_Wait :: "'x io_env \<Rightarrow> nat \<Rightarrow> 'x node \<Rightarrow> 'x node option" where
  "waiter_Wait E w s =
     do { t \<leftarrow> Current s;
          y \<leftarrow> waiter_at s w;
          node_Wait_timeout E (w_timeout y) (put_waiter w (y\<lparr>w_waiting := Some t\<rparr>) s) }"

definition waiter_woken :: "nat \<Rightarrow> task \<Rightarrow> 'x node \<Rightarrow> (wait_result \<times> 'x node) option" where
  "waiter_woken w t s =
     do { y \<leftarrow> waiter_at s w;
          let y1 = y\<lparr>w_waiting := None\<rparr>; left = time_left (io_tm (nio s)) in
          Some (if HasPendingSignal t (nio s) then (INTERRUPTED, put_waiter w (y1\<lparr>w_timeout := 0\<rparr>) s)
                else if w_timeout y1 \<noteq> 0 \<and> left = 0 then (TIMEOUT, put_waiter w (y1\<lparr>w_timeout := 0\<rparr>) s)
                else (OK, put_waiter w (y1\<lparr>w_timeout := left\<rparr>) s)) }"

text \<open>The rest of \<open>WaitDoSignal\<close>.\<close>

definition WaitDoSignal_woken :: "nat \<Rightarrow> task \<Rightarrow> 'x node \<Rightarrow> (bool \<times> 'x node) option" where
  "WaitDoSignal_woken w t s =
     do { (r, s1) \<leftarrow> waiter_woken w t s;
          Some (case r of
                  INTERRUPTED \<Rightarrow> (False, on_io (\<lambda>i. set_err EINTR t (UtilsDoSignal t i)) s1)
                | TIMEOUT \<Rightarrow> (False, on_io (set_err EAGAIN t) s1)
                | OK \<Rightarrow> (True, s1)) }"

definition waiter_Wakeup :: "'x io_env \<Rightarrow> nat \<Rightarrow> 'x node \<Rightarrow> 'x node option" where
  "waiter_Wakeup E w s =
     do { y \<leftarrow> waiter_at s w;
          case w_waiting y of
            None \<Rightarrow> Some s
          | Some t \<Rightarrow>
              do { k \<leftarrow> tasks (io_tm (nio s)) t;
                   if IsBlocked k then node_Wakeup E t s else if IsActive k then Some s else None } }"

section \<open>The end of a thread\<close>

text \<open>A thread leaves the wait queues of its files.\<close>

definition cleanup_io :: "task \<Rightarrow> 'x io \<Rightarrow> 'x io option" where
  "cleanup_io t i =
     do { i1 \<leftarrow> (case ioWait i t of
                  None \<Rightarrow> Some i
                | Some (f, w) \<Rightarrow>
                    do { i2 \<leftarrow> RemoveWaitQueue f w False t i;
                         Some ((free_entry (Some w) i2)\<lparr>ioWait := (ioWait i2)(t := None)\<rparr>) });
          case pollTable i1 t of
            None \<Rightarrow> Some i1
          | Some p \<Rightarrow>
              do { i3 \<leftarrow> FreeWait p t (i1\<lparr>pollTable := (pollTable i1)(t := None)\<rparr>); delete_table p i3 } }"

definition CleanupThread :: "task \<Rightarrow> 'x node \<Rightarrow> 'x node option" where
  "CleanupThread t s = do { x \<leftarrow> thread_at s t; try_io (cleanup_io t) s }"

fun cleanup_threads :: "task list \<Rightarrow> 'x node \<Rightarrow> 'x node option" where
  "cleanup_threads [] s = Some s"
| "cleanup_threads (t # ts) s = do { s1 \<leftarrow> CleanupThread t s; cleanup_threads ts s1 }"

text \<open>The frames of a deleted thread go with its stack.\<close>

definition detach_thread :: "task \<Rightarrow> 'x io \<Rightarrow> 'x io" where
  "detach_thread t i = i\<lparr>threads := (threads i)(pid_of i t := remove1 t (threads i (pid_of i t))), frames := (frames i)(t := [])\<rparr>"

definition DeleteThread :: "'x io_env \<Rightarrow> task \<Rightarrow> 'x node \<Rightarrow> 'x node option" where
  "DeleteThread E t s =
     do { x \<leftarrow> thread_at s t;
          s1 \<leftarrow> (if t_task x then try_tm (tm_Stop (io_sim E) t) s else Some s);
          let s2 = on_io (detach_thread t) s1;
              s3 = (case childWaiter x of None \<Rightarrow> s2 | Some w \<Rightarrow> delete_waiter w s2) in
          Some (s3\<lparr>thread_at := (thread_at s3)(t := None), node_frame := (node_frame s3)(t := None)\<rparr>) }"

text \<open>From the last thread of the process to the first.\<close>

fun delete_threads :: "'x io_env \<Rightarrow> task list \<Rightarrow> 'x node \<Rightarrow> 'x node option" where
  "delete_threads E [] s = Some s"
| "delete_threads E (t # ts) s = do { s1 \<leftarrow> DeleteThread E t s; delete_threads E ts s1 }"

section \<open>The end of a process\<close>

datatype ProcessEndCause = PEC_EXIT | PEC_NS3_END | PEC_NS3_STOP

definition call_user :: "user_call \<Rightarrow> 'x node \<Rightarrow> 'x node" where
  "call_user c s = s\<lparr>called := called s @ [c]\<rparr>"

text \<open>The \<open>FileUsage\<close>s that are still in the table are deleted.\<close>

fun drop_usages :: "nat list \<Rightarrow> 'x io \<Rightarrow> 'x io option" where
  "drop_usages [] i = Some i"
| "drop_usages (u # us) i = do { i1 \<leftarrow> delete_usage u i; drop_usages us i1 }"

definition drop_files :: "uint16 \<Rightarrow> 'x io \<Rightarrow> 'x io option" where
  "drop_files pid i =
     drop_usages (map (\<lambda>fd. the (openFiles i pid fd)) (open_fds pid i))
       (i\<lparr>openFiles := (openFiles i)(pid := Map.empty)\<rparr>)"

text \<open>\<open>WakeupChildWaiters\<close>, \<open>ChildFinished\<close> and \<open>FinishChild\<close>.\<close>

fun wake_child_waiters :: "'x io_env \<Rightarrow> task list \<Rightarrow> 'x node \<Rightarrow> 'x node option" where
  "wake_child_waiters E [] s = Some s"
| "wake_child_waiters E (t # ts) s =
     do { x \<leftarrow> thread_at s t;
          s1 \<leftarrow> (case childWaiter x of None \<Rightarrow> Some s | Some w \<Rightarrow> waiter_Wakeup E w s);
          wake_child_waiters E ts s1 }"

definition WakeupChildWaiters :: "'x io_env \<Rightarrow> uint16 \<Rightarrow> 'x node \<Rightarrow> 'x node option" where
  "WakeupChildWaiters E pid s = wake_child_waiters E (threads_of pid s) s"

definition ChildFinished :: "'x io_env \<Rightarrow> uint16 \<Rightarrow> 'x node \<Rightarrow> 'x node option" where
  "ChildFinished E pid s =
     do { child \<leftarrow> SearchProcess pid s;
          p \<leftarrow> SearchProcess (p_ppid child) s;
          WakeupChildWaiters E (p_pid p) s }"

definition erase_proc :: "uint16 \<Rightarrow> 'x node \<Rightarrow> 'x node" where
  "erase_proc pid s = s\<lparr>m_processes := (m_processes s)(pid := None)\<rparr>"

definition FinishChild :: "uint16 \<Rightarrow> 'x node \<Rightarrow> 'x node" where
  "FinishChild pid s = erase_proc pid s"

text \<open>The children of a process that ends get the parent 1; those that have ended are deleted.\<close>

definition reparent :: "uint16 \<Rightarrow> 'x node \<Rightarrow> 'x node" where
  "reparent c s =
     (case SearchProcess c s of
        None \<Rightarrow> s
      | Some q \<Rightarrow>
          let s1 = put_proc (q\<lparr>p_ppid := 1\<rparr>) s in
          if p_pid q > 1 \<and> \<not> p_loader q \<and> \<not> p_alloc q then erase_proc (p_pid q) s1 else s1)"

definition reparent_children :: "uint16 \<Rightarrow> 'x node \<Rightarrow> 'x node option" where
  "reparent_children pid s =
     do { p \<leftarrow> m_processes s pid;
          Some (fold reparent (sorted_list_of_set (p_children p)) (put_proc (p\<lparr>p_children := {}\<rparr>) s)) }"

definition cancel_itimer :: "'x io_env \<Rightarrow> proc \<Rightarrow> 'x io \<Rightarrow> 'x io" where
  "cancel_itimer E p i =
     (case p_itimer p of None \<Rightarrow> i | Some e \<Rightarrow> i\<lparr>io_tm := (io_tm i)\<lparr>sim := Cancel (io_sim E) e (sim (io_tm i))\<rparr>\<rparr>)"

text \<open>
  \<open>DeleteProcess\<close>: the descriptors are closed only by a process that exits. The streams and
  directories of the host, and the mutexes and semaphores of \<open>Pthread_Sync\<close>, are not in this state.
\<close>

definition release_process :: "'x io_env \<Rightarrow> uint16 \<Rightarrow> ProcessEndCause \<Rightarrow> 'x node \<Rightarrow> 'x node option" where
  "release_process E pid cause s =
     do { p \<leftarrow> m_processes s pid;
          s1 \<leftarrow> cleanup_threads (rev (threads_of pid s)) s;
          s2 \<leftarrow> (if cause = PEC_EXIT then try_io (\<lambda>i. close_fds E pid (open_fds pid i) i) s1 else Some s1);
          let s3 = (case p_finished p of None \<Rightarrow> s2 | Some cb \<Rightarrow> call_user (Call_finished cb pid (p_exitValue p)) s2);
              s4 = on_io (cancel_itimer E p) s3 in
          do { s5 \<leftarrow> try_io (drop_files pid) s4;
               delete_threads E (rev (threads_of pid s5)) s5 } }"

definition DeleteProcess :: "'x io_env \<Rightarrow> uint16 \<Rightarrow> ProcessEndCause \<Rightarrow> 'x node \<Rightarrow> 'x node option" where
  "DeleteProcess E pid cause s =
     do { p \<leftarrow> m_processes s pid;
          s1 \<leftarrow> release_process E pid cause s;
          if cause = PEC_NS3_END then Some (erase_proc pid s1)
          else
            do { s2 \<leftarrow> reparent_children pid s1;
                 let s3 = call_user (Trace_exit pid (p_exitValue p)) s2 in
                 if cause = PEC_EXIT \<and> \<not> p_alloc p then None
                 else
                   do { q \<leftarrow> m_processes s3 pid;
                        let s4 = put_proc (q\<lparr>p_loader := False, p_alloc := False\<rparr>) s3 in
                        if p_ppid p > 1 then ChildFinished E pid s4 else Some (erase_proc pid s4) } } }"

definition node_Stop :: "'x io_env \<Rightarrow> uint16 \<Rightarrow> 'x node \<Rightarrow> 'x node option" where
  "node_Stop E pid s =
     (case SearchProcess pid s of None \<Rightarrow> Some s | Some p \<Rightarrow> DeleteProcess E pid PEC_NS3_STOP s)"

definition SetFinishedCallback :: "uint16 \<Rightarrow> addr \<Rightarrow> 'x node \<Rightarrow> 'x node" where
  "SetFinishedCallback pid cb s =
     (case SearchProcess pid s of None \<Rightarrow> s | Some p \<Rightarrow> put_proc (p\<lparr>p_finished := Some cb\<rparr>) s)"

text \<open>The end of the simulation: the code empties the table first, which nobody looks at any more.\<close>

fun dispose :: "'x io_env \<Rightarrow> uint16 list \<Rightarrow> 'x node \<Rightarrow> 'x node option" where
  "dispose E [] s = Some s"
| "dispose E (pid # pids) s = do { s1 \<leftarrow> DeleteProcess E pid PEC_NS3_END s; dispose E pids s1 }"

definition DoDispose :: "'x io_env \<Rightarrow> 'x node \<Rightarrow> 'x node option" where
  "DoDispose E s = dispose E (sorted_list_of_set (dom (m_processes s))) s"

section \<open>Handlers at exit\<close>

definition dce_cxa_atexit :: "addr \<Rightarrow> addr \<Rightarrow> addr \<Rightarrow> 'x node \<Rightarrow> 'x node option" where
  "dce_cxa_atexit fn arg d s =
     do { (t, x, p) \<leftarrow> current_thread s;
          Some (put_proc (p\<lparr>p_atexit := p_atexit p @ [Cxa_handler fn arg d]\<rparr>) s) }"

text \<open>The handlers from the last registered to the first, each of them removed.\<close>

fun run_handlers :: "addr \<Rightarrow> atexit_handler list \<Rightarrow> user_call list" where
  "run_handlers d [] = []"
| "run_handlers d (Cxa_handler fn arg e # hs) =
     (if d = 0 \<or> e = d then [Call_cxa fn arg] else []) @ run_handlers d hs"
| "run_handlers d (Normal_handler fn # hs) = (if d = 0 then [Call_normal fn] else []) @ run_handlers d hs"

definition dce_cxa_finalize :: "addr \<Rightarrow> 'x node \<Rightarrow> 'x node option" where
  "dce_cxa_finalize d s =
     do { (t, x, p) \<leftarrow> current_thread s;
          Some ((put_proc (p\<lparr>p_atexit := []\<rparr>) s)\<lparr>called := called s @ run_handlers d (rev (p_atexit p))\<rparr>) }"

section \<open>Exit\<close>

text \<open>A value is set to null before its destructor is called.\<close>

definition key_destructors :: "(uint32 \<times> addr \<times> addr) list \<Rightarrow> user_call list" where
  "key_destructors ks = map (\<lambda>(k, d, v). Call_destructor d v) (filter (\<lambda>(k, d, v). d \<noteq> 0 \<and> v \<noteq> 0) ks)"

definition CleanupPthreadKeys :: "'x node \<Rightarrow> 'x node option" where
  "CleanupPthreadKeys s =
     do { t \<leftarrow> Current s;
          x \<leftarrow> thread_at s t;
          Some (put_thread t (x\<lparr>keyValues := []\<rparr>) (s\<lparr>called := called s @ key_destructors (keyValues x)\<rparr>)) }"

text \<open>\<open>W_EXITCODE\<close> of the status and the signal in the old value.\<close>

definition W_EXITCODE :: "int \<Rightarrow> int \<Rightarrow> int" where
  "W_EXITCODE status old = sint (push_bit 8 (word_of_int status :: uint32) OR (word_of_int old AND 127))"

definition dce_exit :: "'x io_env \<Rightarrow> int \<Rightarrow> 'x node \<Rightarrow> 'x node node_result option" where
  "dce_exit E status s =
     do { s1 \<leftarrow> CleanupPthreadKeys s;
          s2 \<leftarrow> dce_cxa_finalize 0 s1;
          (t, x, p) \<leftarrow> current_thread s2;
          let s3 = put_proc (p\<lparr>p_exitValue := W_EXITCODE status (p_exitValue p)\<rparr>) s2 in
          if \<not> (t_task x \<and> p_loader p) then None
          else
            do { s4 \<leftarrow> try_tm (SetSwitchNotifier t 0 0) s3;
                 s5 \<leftarrow> DeleteProcess E (p_pid p) PEC_EXIT s4;
                 s6 \<leftarrow> node_Exit E s5;
                 Some (Gone s6) } }"

section \<open>\<open>waitpid\<close>\<close>

definition WNOHANG :: int where "WNOHANG = 1"
definition WUNTRACED :: int where "WUNTRACED = 2"
definition WCONTINUED :: int where "WCONTINUED = 8"

text \<open>The loop over the children: the first that has ended, or how many there are.\<close>

fun wait_scan :: "int \<Rightarrow> uint16 list \<Rightarrow> 'x node \<Rightarrow> nat \<Rightarrow> nat + proc" where
  "wait_scan pid [] s n = Inl n"
| "wait_scan pid (c # cs) s n =
     (if c > 1 then
        case SearchProcess c s of
          None \<Rightarrow> wait_scan pid cs s n
        | Some q \<Rightarrow>
            if pid = -1 \<or> pid = uint (p_pid q) then
              if \<not> p_alloc q \<and> \<not> p_loader q then Inr q else wait_scan pid cs s (n + 1)
            else wait_scan pid cs s n
      else wait_scan pid cs s n)"

text \<open>One round of the loop of \<open>waitpid\<close>.\<close>

definition wait_round :: "'x io_env \<Rightarrow> int \<Rightarrow> addr option \<Rightarrow> int \<Rightarrow> 'x node \<Rightarrow> 'x node node_result option" where
  "wait_round E pid status options s =
     do { (t, x, p) \<leftarrow> current_thread s;
          case wait_scan pid (sorted_list_of_set (p_children p)) s 0 of
            Inr q \<Rightarrow>
              let s1 = put_proc (p\<lparr>p_children := p_children p - {p_pid q}\<rparr>) s;
                  s2 = (case status of None \<Rightarrow> s1 | Some a \<Rightarrow> s1\<lparr>ints := (ints s1)(a := p_exitValue q)\<rparr>) in
              Some (Ret (uint (p_pid q)) (FinishChild (p_pid q) s2))
          | Inl n \<Rightarrow>
              if n = 0 then Some (Ret (-1) (on_io (set_err ECHILD t) s))
              else if options AND WNOHANG \<noteq> 0 then Some (Ret 0 s)
              else
                let (w, s1) = new_waiter s in
                do { s2 \<leftarrow> waiter_Wait E w (put_thread t (x\<lparr>childWaiter := Some w\<rparr>) s1);
                     Some (Susp (Wait_child pid status options w) s2) } }"

definition dce_waitpid :: "'x io_env \<Rightarrow> int \<Rightarrow> addr option \<Rightarrow> int \<Rightarrow> 'x node \<Rightarrow> 'x node node_result option" where
  "dce_waitpid E pid status options s =
     do { t \<leftarrow> Current s;
          if options AND WUNTRACED \<noteq> 0 \<or> options AND WCONTINUED \<noteq> 0 then Some (Ret (-1) (on_io (set_err EINVAL t) s))
          else if pid = 0 \<or> pid < -1 then Some (Ret (-1) (on_io (set_err EINVAL t) s))
          else wait_round E pid status options s }"

definition dce_wait :: "'x io_env \<Rightarrow> addr option \<Rightarrow> 'x node \<Rightarrow> 'x node node_result option" where
  "dce_wait E status s = dce_waitpid E (-1) status 0 s"

definition wait_child_woken ::
  "'x io_env \<Rightarrow> int \<Rightarrow> addr option \<Rightarrow> int \<Rightarrow> nat \<Rightarrow> 'x node \<Rightarrow> 'x node node_result option" where
  "wait_child_woken E pid status options w s =
     do { t \<leftarrow> Current s;
          (again, s1) \<leftarrow> WaitDoSignal_woken w t s;
          let s2 = delete_waiter w s1 in
          do { x \<leftarrow> thread_at s2 t;
               let s3 = put_thread t (x\<lparr>childWaiter := None\<rparr>) s2 in
               if again then wait_round E pid status options s3 else Some (Ret (-1) s3) } }"

end
