(* ===== verification/Process_Calls.thy ===== *)
theory Process_Calls
  imports Process_Life
begin

text \<open>
  The calls of a program on its threads (\<open>model/dce-pthread.cc\<close>), its processes and its signals
  (\<open>model/dce-signal.cc\<close>, \<open>model/dce.cc\<close>), how a suspended call goes on, and the steps of a node.
\<close>

section \<open>Handles\<close>

definition PidTidToPthread :: "uint16 \<Rightarrow> uint16 \<Rightarrow> uint64" where
  "PidTidToPthread pid i = ucast (push_bit 16 (ucast i :: uint32) OR ucast pid)"

definition PthreadToTid :: "uint64 \<Rightarrow> uint16" where
  "PthreadToTid h = ucast (drop_bit 16 h AND 0xffff)"

definition PthreadToPid :: "uint64 \<Rightarrow> uint16" where
  "PthreadToPid h = ucast (h AND 0xffff)"

text \<open>The error numbers that the thread functions return.\<close>

definition err_ESRCH :: int where "err_ESRCH = 3"
definition err_EAGAIN :: int where "err_EAGAIN = 11"
definition err_EINVAL :: int where "err_EINVAL = 22"
definition err_EDEADLK :: int where "err_EDEADLK = 35"

section \<open>Threads\<close>

definition dce_pthread_create :: "'x io_env \<Rightarrow> addr \<Rightarrow> 'x node \<Rightarrow> 'x node node_result option" where
  "dce_pthread_create E a s =
     do { (t, x, p) \<leftarrow> current_thread s;
          y \<leftarrow> (case threads_of (p_pid p) s of [] \<Rightarrow> None | u # us \<Rightarrow> thread_at s u);
          if \<not> t_task y then None
          else
            do { (u, s1) \<leftarrow> start_task E PTHREAD_TASK_SWITCH (p_pid p) s;
                 z \<leftarrow> thread_at s1 u;
                 s2 \<leftarrow> node_Yield E (s1\<lparr>handles := (handles s1)(a := PidTidToPthread (p_pid p) (t_tid z))\<rparr>);
                 Some (Susp Create_yield s2) } }"

definition dce_pthread_exit :: "'x io_env \<Rightarrow> addr \<Rightarrow> 'x node \<Rightarrow> 'x node node_result option" where
  "dce_pthread_exit E arg s =
     do { (t, x, p) \<leftarrow> current_thread s;
          if length (threads_of (p_pid p) s) = 1 then dce_exit E 0 s
          else
            do { s1 \<leftarrow> CleanupPthreadKeys s;
                 y \<leftarrow> thread_at s1 t;
                 s2 \<leftarrow> (if \<not> isDetached y
                        then let s3 = put_thread t (y\<lparr>hasExitValue := True, exitValue := arg\<rparr>) s1 in
                             do { s4 \<leftarrow> (case joinWaiter y of None \<Rightarrow> Some s3 | Some u \<Rightarrow> node_Wakeup E u s3);
                                  z \<leftarrow> thread_at s4 t;
                                  Some (put_thread t (z\<lparr>t_task := False\<rparr>) s4) }
                        else DeleteThread E t s1);
                 s5 \<leftarrow> node_Exit E s2;
                 Some (Gone s5) } }"

text \<open>One round of the loop of \<open>pthread_join\<close>; the pointer for the value can be null.\<close>

definition join_round :: "'x io_env \<Rightarrow> task \<Rightarrow> addr option \<Rightarrow> task \<Rightarrow> 'x node \<Rightarrow> 'x node node_result option" where
  "join_round E u val t s =
     do { y \<leftarrow> thread_at s u;
          if \<not> hasExitValue y then
            do { s1 \<leftarrow> node_Wait E (put_thread u (y\<lparr>joinWaiter := Some t\<rparr>) s);
                 Some (Susp (Join_wait u val) s1) }
          else if isDetached y then None
          else
            let s1 = (case val of None \<Rightarrow> s | Some a \<Rightarrow> s\<lparr>pointers := (pointers s)(a := exitValue y)\<rparr>) in
            do { s2 \<leftarrow> DeleteThread E u (put_thread u (y\<lparr>isDetached := True\<rparr>) s1);
                 Some (Ret 0 s2) } }"

definition join_woken :: "'x io_env \<Rightarrow> task \<Rightarrow> addr option \<Rightarrow> 'x node \<Rightarrow> 'x node node_result option" where
  "join_woken E u val s =
     do { t \<leftarrow> Current s;
          y \<leftarrow> thread_at s u;
          join_round E u val t (put_thread u (y\<lparr>joinWaiter := None\<rparr>) s) }"

definition dce_pthread_join :: "'x io_env \<Rightarrow> uint64 \<Rightarrow> addr option \<Rightarrow> 'x node \<Rightarrow> 'x node node_result option" where
  "dce_pthread_join E h val s =
     do { (t, x, p) \<leftarrow> current_thread s;
          if p_pid p \<noteq> PthreadToPid h then None
          else if t_tid x = PthreadToTid h then Some (Ret err_EDEADLK s)
          else
            do { r \<leftarrow> SearchThread (PthreadToPid h) (PthreadToTid h) s;
                 case r of
                   None \<Rightarrow> Some (Ret err_ESRCH s)
                 | Some u \<Rightarrow>
                     do { y \<leftarrow> thread_at s u;
                          if isDetached y \<or> joinWaiter y \<noteq> None then Some (Ret err_EINVAL s)
                          else join_round E u val t s } } }"

definition dce_pthread_detach :: "uint64 \<Rightarrow> 'x node \<Rightarrow> 'x node node_result option" where
  "dce_pthread_detach h s =
     do { r \<leftarrow> SearchThread (PthreadToPid h) (PthreadToTid h) s;
          case r of
            None \<Rightarrow> Some (Ret err_ESRCH s)
          | Some u \<Rightarrow>
              do { y \<leftarrow> thread_at s u;
                   Some (if isDetached y then Ret err_EINVAL s
                         else if joinWaiter y \<noteq> None then Ret 0 s
                         else Ret 0 (put_thread u (y\<lparr>isDetached := True\<rparr>) s)) } }"

definition dce_pthread_cancel :: "'x node \<Rightarrow> 'x node node_result option" where
  "dce_pthread_cancel s = Some (Ret 0 s)"

definition dce_pthread_self :: "'x node \<Rightarrow> uint64 option" where
  "dce_pthread_self s = do { (t, x, p) \<leftarrow> current_thread s; Some (PidTidToPthread (p_pid p) (t_tid x)) }"

definition dce_pthread_once :: "addr \<Rightarrow> addr \<Rightarrow> 'x node \<Rightarrow> 'x node node_result option" where
  "dce_pthread_once control routine s =
     Some (if control = 0 \<or> routine = 0 then Ret err_EINVAL s
           else if ints s control = 1 then Ret 0 s
           else Ret 0 (call_user (Call_once routine) (s\<lparr>ints := (ints s)(control := 1)\<rparr>)))"

definition dce_pthread_kill :: "'x io_env \<Rightarrow> uint64 \<Rightarrow> int \<Rightarrow> 'x node \<Rightarrow> 'x node node_result option" where
  "dce_pthread_kill E h sig s =
     do { r \<leftarrow> SearchThread (PthreadToPid h) (PthreadToTid h) s;
          case r of
            None \<Rightarrow> Some (Ret err_ESRCH s)
          | Some u \<Rightarrow>
              let s1 = on_io (\<lambda>i. i\<lparr>threadSignals := (threadSignals i)(u := insert sig (threadSignals i u))\<rparr>) s in
              if sig \<in> signalMask (nio s1) u then Some (Ret 0 s1)
              else
                do { y \<leftarrow> thread_at s1 u;
                     k \<leftarrow> (if t_task y then tasks (io_tm (nio s1)) u else None);
                     s2 \<leftarrow> (if IsBlocked k then node_Wakeup E u s1 else Some s1);
                     Some (Ret 0 s2) } }"

section \<open>Keys\<close>

definition IsKeyValid :: "uint32 \<Rightarrow> thread \<Rightarrow> bool" where
  "IsKeyValid key x \<longleftrightarrow> key \<in> fst ` set (keyValues x)"

definition dce_pthread_getspecific :: "uint32 \<Rightarrow> 'x node \<Rightarrow> addr option" where
  "dce_pthread_getspecific key s =
     do { (t, x, p) \<leftarrow> current_thread s;
          Some (case find (\<lambda>(k, d, v). k = key) (keyValues x) of None \<Rightarrow> 0 | Some (k, d, v) \<Rightarrow> v) }"

fun set_value :: "uint32 \<Rightarrow> addr \<Rightarrow> (uint32 \<times> addr \<times> addr) list \<Rightarrow> (uint32 \<times> addr \<times> addr) list" where
  "set_value key val [] = []"
| "set_value key val ((k, d, v) # ks) = (if k = key then (k, d, val) # ks else (k, d, v) # set_value key val ks)"

definition dce_pthread_setspecific :: "uint32 \<Rightarrow> addr \<Rightarrow> 'x node \<Rightarrow> 'x node node_result option" where
  "dce_pthread_setspecific key val s =
     do { (t, x, p) \<leftarrow> current_thread s;
          Some (if IsKeyValid key x then Ret 0 (put_thread t (x\<lparr>keyValues := set_value key val (keyValues x)\<rparr>) s)
                else Ret err_EINVAL s) }"

text \<open>The first key from 2 on that is not valid in the calling thread.\<close>

function pick_key :: "thread \<Rightarrow> int \<Rightarrow> uint32 option" where
  "pick_key x k =
     (if k \<ge> 100000 then None
      else if IsKeyValid (word_of_int k) x then pick_key x (k + 1) else Some (word_of_int k))"
  by pat_completeness auto
termination by (relation "measure (\<lambda>(x, k). nat (100000 - k))") auto

declare pick_key.simps [simp del]

fun add_key :: "uint32 \<Rightarrow> addr \<Rightarrow> task list \<Rightarrow> 'x node \<Rightarrow> 'x node option" where
  "add_key key destructor [] s = Some s"
| "add_key key destructor (t # ts) s =
     do { x \<leftarrow> thread_at s t;
          add_key key destructor ts (put_thread t (x\<lparr>keyValues := keyValues x @ [(key, destructor, 0)]\<rparr>) s) }"

definition dce_pthread_key_create :: "addr \<Rightarrow> addr \<Rightarrow> 'x node \<Rightarrow> 'x node node_result option" where
  "dce_pthread_key_create a destructor s =
     do { (t, x, p) \<leftarrow> current_thread s;
          case pick_key x 2 of
            None \<Rightarrow> Some (Ret err_EAGAIN s)
          | Some key \<Rightarrow>
              do { s1 \<leftarrow> add_key key destructor (threads_of (p_pid p) s) s;
                   Some (Ret 0 (s1\<lparr>ints := (ints s1)(a := uint key)\<rparr>)) } }"

fun remove_key :: "uint32 \<Rightarrow> (uint32 \<times> addr \<times> addr) list \<Rightarrow> (uint32 \<times> addr \<times> addr) list option" where
  "remove_key key [] = None"
| "remove_key key ((k, dv) # ks) = (if k = key then Some ks else map_option (Cons (k, dv)) (remove_key key ks))"

fun delete_key :: "uint32 \<Rightarrow> task list \<Rightarrow> 'x node \<Rightarrow> 'x node option" where
  "delete_key key [] s = Some s"
| "delete_key key (t # ts) s =
     do { x \<leftarrow> thread_at s t;
          ks \<leftarrow> remove_key key (keyValues x);
          delete_key key ts (put_thread t (x\<lparr>keyValues := ks\<rparr>) s) }"

definition dce_pthread_key_delete :: "uint32 \<Rightarrow> 'x node \<Rightarrow> 'x node node_result option" where
  "dce_pthread_key_delete key s =
     do { (t, x, p) \<leftarrow> current_thread s;
          if \<not> IsKeyValid key x then Some (Ret err_EINVAL s)
          else do { s1 \<leftarrow> delete_key key (threads_of (p_pid p) s) s; Some (Ret 0 s1) } }"

section \<open>Signals\<close>

text \<open>\<open>struct sigaction\<close>: the flags, the mask and the function, whose two names share one place.\<close>

record sigaction =
  sa_flags :: uint32
  sa_mask :: "int set"
  sa_function :: addr

definition SA_SIGINFO :: uint32 where "SA_SIGINFO = 4"
definition SIG_IGN :: addr where "SIG_IGN = 1"

definition set_handler :: "sigaction \<Rightarrow> signal_handler \<Rightarrow> signal_handler" where
  "set_handler act h =
     (let h1 = h\<lparr>sh_flags := sa_flags act, sh_mask := sa_mask act\<rparr> in
      if sa_flags act AND SA_SIGINFO \<noteq> 0 then h1\<lparr>sh_sigaction := sa_function act\<rparr>
      else h1\<lparr>sh_handler := sa_function act\<rparr>)"

definition old_action :: "signal_handler \<Rightarrow> sigaction" where
  "old_action h =
     \<lparr>sa_flags = sh_flags h, sa_mask = sh_mask h,
      sa_function = (if sh_flags h AND SA_SIGINFO \<noteq> 0 then sh_sigaction h else sh_handler h)\<rparr>"

text \<open>The old action and the handlers after the call; \<open>act\<close> can be null.\<close>

fun update_handlers ::
  "int \<Rightarrow> sigaction option \<Rightarrow> signal_handler list \<Rightarrow> sigaction \<times> signal_handler list" where
  "update_handlers sig act [] =
     (\<lparr>sa_flags = 0, sa_mask = {}, sa_function = SIG_IGN\<rparr>,
      case act of
        None \<Rightarrow> []
      | Some a \<Rightarrow> [set_handler a \<lparr>sh_signal = sig, sh_flags = 0, sh_mask = {}, sh_handler = 0, sh_sigaction = 0\<rparr>])"
| "update_handlers sig act (h # hs) =
     (if sh_signal h = sig
      then (old_action h, (case act of None \<Rightarrow> h | Some a \<Rightarrow> set_handler a h) # hs)
      else let (old, hs') = update_handlers sig act hs in (old, h # hs'))"

definition dce_sigaction :: "int \<Rightarrow> sigaction option \<Rightarrow> 'x node \<Rightarrow> (sigaction \<times> 'x node) option" where
  "dce_sigaction sig act s =
     do { (t, x, p) \<leftarrow> current_thread s;
          let (old, hs) = update_handlers sig act (signalHandlers (nio s) (p_pid p)) in
          Some (old, on_io (\<lambda>i. i\<lparr>signalHandlers := (signalHandlers i)(p_pid p := hs)\<rparr>) s) }"

definition dce_signal :: "int \<Rightarrow> addr \<Rightarrow> 'x node \<Rightarrow> (addr \<times> 'x node) option" where
  "dce_signal sig handler s =
     do { (old, s1) \<leftarrow> dce_sigaction sig (Some \<lparr>sa_flags = 0, sa_mask = {}, sa_function = handler\<rparr>) s;
          Some (sa_function old, s1) }"

definition SIG_BLOCK :: int where "SIG_BLOCK = 0"
definition SIG_UNBLOCK :: int where "SIG_UNBLOCK = 1"
definition SIG_SETMASK :: int where "SIG_SETMASK = 2"

text \<open>Unblocking looks at the signals from \<open>SIGINT\<close>, which is 2, to \<open>SIGRTMAX\<close>, which is 64.\<close>

definition dce_sigprocmask :: "int \<Rightarrow> int set option \<Rightarrow> 'x node \<Rightarrow> (int set \<times> 'x node node_result) option" where
  "dce_sigprocmask how sigs s =
     do { (t, x, p) \<leftarrow> current_thread s;
          let old = signalMask (nio s) t;
              set_mask = (\<lambda>m. on_io (\<lambda>i. i\<lparr>signalMask := (signalMask i)(t := m)\<rparr>) s);
              change = (\<lambda>f. case sigs of None \<Rightarrow> s | Some b \<Rightarrow> set_mask (f b)) in
          Some (old,
            if how = SIG_BLOCK then Ret 0 (change (\<lambda>b. old \<union> b))
            else if how = SIG_UNBLOCK then Ret 0 (change (\<lambda>b. old - (b \<inter> {2 .. 64})))
            else if how = SIG_SETMASK then Ret 0 (change (\<lambda>b. b))
            else Ret (-1) (on_io (set_err EINVAL t) s)) }"

text \<open>The pid is cut to 16 bits; the signal that is sent is \<open>SIGKILL\<close>.\<close>

definition dce_kill :: "'x io_env \<Rightarrow> int \<Rightarrow> int \<Rightarrow> 'x node \<Rightarrow> 'x node node_result option" where
  "dce_kill E pid sig s =
     do { (t, x, p) \<leftarrow> current_thread s;
          case SearchProcess (word_of_int pid) s of
            None \<Rightarrow> Some (Ret (-1) (on_io (set_err ESRCH t) s))
          | Some q \<Rightarrow> do { s1 \<leftarrow> try_io (UtilsSendSignal E (p_pid q) SIGKILL) s; Some (Ret 0 s1) } }"

definition dce_abort :: "'x io_env \<Rightarrow> 'x node \<Rightarrow> 'x node node_result option" where
  "dce_abort E s =
     do { (t, x, p) \<leftarrow> current_thread s;
          s1 \<leftarrow> try_io (UtilsSendSignal E (p_pid p) SIGABRT) s;
          dce_exit E (-2) s1 }"

section \<open>Calls\<close>

definition dce_getpid :: "'x node \<Rightarrow> uint16 option" where
  "dce_getpid s = map_option (\<lambda>(t, x, p). p_pid p) (current_thread s)"

definition dce_getppid :: "'x node \<Rightarrow> uint16 option" where
  "dce_getppid s = map_option (\<lambda>(t, x, p). p_ppid p) (current_thread s)"

definition dce_getpgrp :: "'x node \<Rightarrow> uint16 option" where
  "dce_getpgrp s = map_option (\<lambda>(t, x, p). p_pgid p) (current_thread s)"

definition set_credentials :: "cred_call \<Rightarrow> 'x node \<Rightarrow> 'x node node_result option" where
  "set_credentials k s =
     do { (t, x, p) \<leftarrow> current_thread s;
          let ((r, e), c) = cred_exec k (p_cred p); s1 = put_proc (p\<lparr>p_cred := c\<rparr>) s in
          Some (Ret r (case e of None \<Rightarrow> s1 | Some e \<Rightarrow> on_io (set_err e t) s1)) }"

datatype node_call =
    Fork_call | Exit_call int | Abort_call | Wait_call int "addr option" int
  | Create_call addr | Thread_exit_call addr | Join_call uint64 "addr option" | Detach_call uint64
  | Once_call addr addr | Thread_kill_call uint64 int | Key_create_call addr addr | Key_delete_call uint32
  | Setspecific_call uint32 addr | Sigaction_call int "sigaction option" | Sigprocmask_call int "int set option"
  | Kill_call int int | Credentials_call cred_call | Atexit_call addr addr addr | Finalize_call addr

definition value_of :: "('v \<times> 's) option \<Rightarrow> ('v \<Rightarrow> int) \<Rightarrow> 's node_result option" where
  "value_of r f = do { (v, s) \<leftarrow> r; Some (Ret (f v) s) }"

fun exec_node :: "'x io_env \<Rightarrow> node_call \<Rightarrow> 'x node \<Rightarrow> 'x node node_result option" where
  "exec_node E Fork_call s = value_of (dce_fork E s) uint"
| "exec_node E (Exit_call status) s = dce_exit E status s"
| "exec_node E Abort_call s = dce_abort E s"
| "exec_node E (Wait_call pid status options) s = dce_waitpid E pid status options s"
| "exec_node E (Create_call a) s = dce_pthread_create E a s"
| "exec_node E (Thread_exit_call arg) s = dce_pthread_exit E arg s"
| "exec_node E (Join_call h val) s = dce_pthread_join E h val s"
| "exec_node E (Detach_call h) s = dce_pthread_detach h s"
| "exec_node E (Once_call control routine) s = dce_pthread_once control routine s"
| "exec_node E (Thread_kill_call h sig) s = dce_pthread_kill E h sig s"
| "exec_node E (Key_create_call a d) s = dce_pthread_key_create a d s"
| "exec_node E (Key_delete_call key) s = dce_pthread_key_delete key s"
| "exec_node E (Setspecific_call key val) s = dce_pthread_setspecific key val s"
| "exec_node E (Sigaction_call sig act) s = value_of (dce_sigaction sig act s) (\<lambda>old. 0)"
| "exec_node E (Sigprocmask_call how sigs) s = map_option snd (dce_sigprocmask how sigs s)"
| "exec_node E (Kill_call pid sig) s = dce_kill E pid sig s"
| "exec_node E (Credentials_call k) s = set_credentials k s"
| "exec_node E (Atexit_call fn arg d) s = map_option (Ret 0) (dce_cxa_atexit fn arg d s)"
| "exec_node E (Finalize_call d) s = map_option (Ret 0) (dce_cxa_finalize d s)"

fun resume_node :: "'x io_env \<Rightarrow> node_frame \<Rightarrow> 'x node \<Rightarrow> 'x node node_result option" where
  "resume_node E (Wait_child pid status options w) s = wait_child_woken E pid status options w s"
| "resume_node E (Join_wait u val) s = join_woken E u val s"
| "resume_node E Create_yield s = Some (Ret 0 s)"

definition set_frame :: "task \<Rightarrow> node_frame option \<Rightarrow> 'x node \<Rightarrow> 'x node" where
  "set_frame t fr s = s\<lparr>node_frame := (node_frame s)(t := fr)\<rparr>"

fun node_settle :: "task \<Rightarrow> 'x node node_result \<Rightarrow> 'x node" where
  "node_settle t (Ret v s) = set_frame t None s"
| "node_settle t (Susp fr s) = set_frame t (Some fr) s"
| "node_settle t (Gone s) = s"

section \<open>Steps\<close>

text \<open>
  A simulation script starts or stops a process or sets its callback, outside of the tasks; the running
  thread makes a call or goes on with one; or something happens to the descriptors, signals and tasks
  of the node that leaves the threads of the processes as they are, while the running thread is not in the
  middle of a call.
\<close>

inductive node_step :: "'x io_env \<Rightarrow> 'x node \<Rightarrow> 'x node \<Rightarrow> bool" for E where
  start: "Current s = None \<Longrightarrow> node_Start E u eu g eg s = Some (pid, s') \<Longrightarrow> node_step E s s'"
| stop: "Current s = None \<Longrightarrow> node_Stop E pid s = Some s' \<Longrightarrow> node_step E s s'"
| callback: "node_step E s (SetFinishedCallback pid cb s)"
| call: "Current s = Some t \<Longrightarrow> node_frame s t = None \<Longrightarrow> frames (nio s) t = [] \<Longrightarrow>
    exec_node E c s = Some r \<Longrightarrow> node_step E s (node_settle t r)"
| resume: "Current s = Some t \<Longrightarrow> node_frame s t = Some fr \<Longrightarrow> frames (nio s) t = [] \<Longrightarrow>
    resume_node E fr s = Some r \<Longrightarrow> node_step E s (node_settle t r)"
| io: "io_step E (nio s) i \<Longrightarrow> (\<And>t. Current s = Some t \<Longrightarrow> node_frame s t = None) \<Longrightarrow>
    threads i = threads (nio s) \<Longrightarrow> pid_of i = pid_of (nio s) \<Longrightarrow> node_step E s (s\<lparr>nio := i\<rparr>)"
| program: "node_step E s (s\<lparr>ints := q\<rparr>)"

inductive_cases node_stepE: "node_step E s s'"

inductive node_reach :: "'x io_env \<Rightarrow> 'x \<Rightarrow> 'x node \<Rightarrow> bool" for E x where
  init: "node_reach E x (new_node (TaskManager x))"
| step: "node_reach E x s \<Longrightarrow> node_step E s s' \<Longrightarrow> node_reach E x s'"

end
