(* ===== verification/Process_Tree.thy ===== *)
theory Process_Tree
  imports Process_Calls
begin

text \<open>
  The tree of the processes of a node: parents and children know each other, and what the operations on
  the table of the processes keep of that.
\<close>

section \<open>The tree\<close>

definition parents :: "(uint16 \<rightharpoonup> proc) \<Rightarrow> (uint16 \<times> uint16) set" where
  "parents m = {(c, q). \<exists>p. m c = Some p \<and> p_ppid p = q \<and> q > 1}"

definition proc_ok :: "uint16 \<Rightarrow> proc \<Rightarrow> bool" where
  "proc_ok pid p \<longleftrightarrow> p_pid p = pid \<and> pid > 1 \<and> p_loader p = p_alloc p
     \<and> (\<not> p_alloc p \<longrightarrow> p_children p = {} \<and> p_ppid p > 1)"

definition tree_ok :: "(uint16 \<rightharpoonup> proc) \<Rightarrow> bool" where
  "tree_ok m \<longleftrightarrow> (\<forall>pid p. m pid = Some p \<longrightarrow> proc_ok pid p)
     \<and> (\<forall>pid p. m pid = Some p \<longrightarrow> p_ppid p > 1 \<longrightarrow> (\<exists>q. m (p_ppid p) = Some q \<and> pid \<in> p_children q))
     \<and> (\<forall>pid p c. m pid = Some p \<longrightarrow> c \<in> p_children p \<longrightarrow> (\<exists>q. m c = Some q \<and> p_ppid q = pid))
     \<and> acyclic (parents m)"

lemma tree_okI:
  assumes "\<And>pid p. m pid = Some p \<Longrightarrow> proc_ok pid p"
    and "\<And>pid p. m pid = Some p \<Longrightarrow> p_ppid p > 1 \<Longrightarrow> \<exists>q. m (p_ppid p) = Some q \<and> pid \<in> p_children q"
    and "\<And>pid p c. m pid = Some p \<Longrightarrow> c \<in> p_children p \<Longrightarrow> \<exists>q. m c = Some q \<and> p_ppid q = pid"
    and "acyclic (parents m)"
  shows "tree_ok m"
  using assms unfolding tree_ok_def by blast

lemma tree_okD:
  assumes "tree_ok m"
  shows "m pid = Some p \<Longrightarrow> proc_ok pid p"
    and "m pid = Some p \<Longrightarrow> p_ppid p > 1 \<Longrightarrow> \<exists>q. m (p_ppid p) = Some q \<and> pid \<in> p_children q"
    and "m pid = Some p \<Longrightarrow> c \<in> p_children p \<Longrightarrow> \<exists>q. m c = Some q \<and> p_ppid q = pid"
    and "acyclic (parents m)"
  using assms unfolding tree_ok_def by blast+

lemma pid_of_entry: "tree_ok m \<Longrightarrow> m pid = Some p \<Longrightarrow> p_pid p = pid"
  using tree_okD(1) by (auto simp: proc_ok_def)

lemma no_own_parent: "tree_ok m \<Longrightarrow> m pid = Some p \<Longrightarrow> p_ppid p \<noteq> pid \<or> p_ppid p \<le> 1"
proof (rule ccontr)
  assume a: "tree_ok m" "m pid = Some p" "\<not> (p_ppid p \<noteq> pid \<or> p_ppid p \<le> 1)"
  then have "(pid, pid) \<in> parents m" by (auto simp: parents_def)
  with tree_okD(4) [OF a(1)] show False by (auto simp: acyclic_def)
qed

text \<open>Two processes are not each other's parent.\<close>

lemma no_two_cycle:
  assumes "tree_ok m" and "m pid = Some p" and "m (p_ppid p) = Some q" and "p_ppid p > 1" and "p_ppid q = pid"
  shows False
proof -
  have "pid > 1" using tree_okD(1) [OF assms(1,2)] by (simp add: proc_ok_def)
  with assms(2-5) have "(pid, p_ppid p) \<in> parents m" "(p_ppid p, pid) \<in> parents m" by (auto simp: parents_def)
  then have "(pid, pid) \<in> (parents m)\<^sup>+" by (meson trancl.intros)
  with tree_okD(4) [OF assms(1)] show False by (auto simp: acyclic_def)
qed

text \<open>A change of a process that keeps its links.\<close>

definition same_links :: "proc \<Rightarrow> proc \<Rightarrow> bool" where
  "same_links p q \<longleftrightarrow> p_pid q = p_pid p \<and> p_ppid q = p_ppid p \<and> p_children q = p_children p
     \<and> p_loader q = p_loader p \<and> p_alloc q = p_alloc p"

lemma parents_links:
  assumes "m pid = Some p" and "p_ppid q = p_ppid p"
  shows "parents (m(pid \<mapsto> q)) = parents m"
  using assms by (auto simp: parents_def split: if_splits)

lemma tree_ok_links:
  assumes "tree_ok m" and "m pid = Some p" and "same_links p q"
  shows "tree_ok (m(pid \<mapsto> q))"
proof (rule tree_okI)
  show "acyclic (parents (m(pid \<mapsto> q)))"
    using parents_links [of m pid p q] assms(2,3) tree_okD(4) [OF assms(1)] by (simp add: same_links_def)
next
  fix i r assume "(m(pid \<mapsto> q)) i = Some r"
  then show "proc_ok i r" using tree_okD(1) [OF assms(1)] assms(2,3) by (auto simp: proc_ok_def same_links_def split: if_splits)
next
  fix i r assume a: "(m(pid \<mapsto> q)) i = Some r" "p_ppid r > 1"
  have r0: "\<exists>r0. m i = Some r0 \<and> p_ppid r0 = p_ppid r"
    using a(1) assms(2,3) by (cases "i = pid") (simp_all add: same_links_def)
  then obtain r0 where r0: "m i = Some r0" "p_ppid r0 = p_ppid r" by blast
  from tree_okD(2) [OF assms(1) r0(1), unfolded r0(2)] a(2) obtain z where "m (p_ppid r) = Some z" "i \<in> p_children z" by blast
  then show "\<exists>z. (m(pid \<mapsto> q)) (p_ppid r) = Some z \<and> i \<in> p_children z"
    using assms(2,3) by (cases "p_ppid r = pid") (simp_all add: same_links_def)
next
  fix i r c assume a: "(m(pid \<mapsto> q)) i = Some r" "c \<in> p_children r"
  have r0: "\<exists>r0. m i = Some r0 \<and> p_children r0 = p_children r"
    using a(1) assms(2,3) by (cases "i = pid") (simp_all add: same_links_def)
  then obtain r0 where r0: "m i = Some r0" "p_children r0 = p_children r" by blast
  from tree_okD(3) [OF assms(1) r0(1), unfolded r0(2)] a(2) obtain z where "m c = Some z" "p_ppid z = i" by blast
  then show "\<exists>z. (m(pid \<mapsto> q)) c = Some z \<and> p_ppid z = i"
    using assms(2,3) by (cases "c = pid") (simp_all add: same_links_def)
qed

text \<open>A new process without a parent.\<close>

lemma tree_ok_new:
  assumes "tree_ok m" and "m pid = None" and "pid > 1" and "q = (new_proc pid)\<lparr>p_cred := c\<rparr>"
  shows "tree_ok (m(pid \<mapsto> q))"
proof (rule tree_okI)
  have ppid: "p_ppid r \<noteq> pid" if "m i = Some r" for i r
    using tree_okD(2) [OF assms(1) that] assms(2,3) by auto
  have child: "pid \<notin> p_children r" if "m i = Some r" for i r
    using tree_okD(3) [OF assms(1) that, of pid] assms(2) by auto
  have "parents (m(pid \<mapsto> q)) = parents m"
    using assms(2,4) by (auto simp: parents_def new_proc_def split: if_splits)
  then show "acyclic (parents (m(pid \<mapsto> q)))" using tree_okD(4) [OF assms(1)] by simp
  fix i r assume a: "(m(pid \<mapsto> q)) i = Some r"
  show "proc_ok i r"
    using a tree_okD(1) [OF assms(1)] assms(3,4) by (auto simp: proc_ok_def new_proc_def split: if_splits)
  show "p_ppid r > 1 \<Longrightarrow> \<exists>z. (m(pid \<mapsto> q)) (p_ppid r) = Some z \<and> i \<in> p_children z"
    using a tree_okD(2) [OF assms(1)] ppid assms(4) by (auto simp: new_proc_def split: if_splits)
  show "c' \<in> p_children r \<Longrightarrow> \<exists>z. (m(pid \<mapsto> q)) c' = Some z \<and> p_ppid z = i" for c'
    using a tree_okD(3) [OF assms(1)] child assms(4) by (auto simp: new_proc_def split: if_splits)
qed

text \<open>Fork: a new child of a process that is alive.\<close>

lemma tree_ok_clone:
  assumes "tree_ok m" and "m pid = None" and "pid > 1" and "m par = Some p" and "p_alloc p"
  shows "tree_ok (m(par \<mapsto> p\<lparr>p_children := insert pid (p_children p)\<rparr>, pid \<mapsto> clone_proc pid p))"
proof (rule tree_okI)
  let ?m = "m(par \<mapsto> p\<lparr>p_children := insert pid (p_children p)\<rparr>, pid \<mapsto> clone_proc pid p)"
  have par: "par \<noteq> pid" "p_pid p = par" "par > 1"
    using assms(2,4) tree_okD(1) [OF assms(1,4)] by (auto simp: proc_ok_def)
  have ppid: "p_ppid r \<noteq> pid" if "m i = Some r" for i r
    using tree_okD(2) [OF assms(1) that] assms(2,3) by auto
  have child: "pid \<notin> p_children r" if "m i = Some r" for i r
    using tree_okD(3) [OF assms(1) that, of pid] assms(2) by auto
  have "parents ?m = insert (pid, par) (parents m)"
    using assms(2,4) par by (auto simp: parents_def clone_proc_def new_proc_def split: if_splits)
  moreover have "(par, pid) \<notin> (parents m)\<^sup>*"
  proof
    assume "(par, pid) \<in> (parents m)\<^sup>*"
    then obtain i where "(i, pid) \<in> parents m" using par(1) by (auto elim: rtranclE)
    with ppid show False by (auto simp: parents_def)
  qed
  ultimately show "acyclic (parents ?m)" using tree_okD(4) [OF assms(1)] by (simp add: acyclic_insert)
  fix i r assume a: "?m i = Some r"
  show "proc_ok i r"
    using a tree_okD(1) [OF assms(1)] assms(3,4,5) par by (auto simp: proc_ok_def clone_proc_def new_proc_def split: if_splits)
  show "p_ppid r > 1 \<Longrightarrow> \<exists>z. ?m (p_ppid r) = Some z \<and> i \<in> p_children z"
  proof -
    assume g: "p_ppid r > 1"
    show ?thesis
    proof (cases "i = pid")
      case True
      with a par show ?thesis by (auto simp: clone_proc_def)
    next
      case False
      with a assms(4) obtain r0 where r0: "m i = Some r0" "p_ppid r0 = p_ppid r" by (auto split: if_splits)
      with tree_okD(2) [OF assms(1) r0(1)] g obtain z where "m (p_ppid r) = Some z" "i \<in> p_children z" by auto
      with ppid [OF r0(1)] r0(2) assms(4) show ?thesis by auto
    qed
  qed
  show "c \<in> p_children r \<Longrightarrow> \<exists>z. ?m c = Some z \<and> p_ppid z = i" for c
  proof -
    assume c: "c \<in> p_children r"
    show ?thesis
    proof (cases "c = pid")
      case True
      have "i = par"
      proof (rule ccontr)
        assume "i \<noteq> par"
        with a have "i = pid \<or> m i = Some r" by (auto split: if_splits)
        with a c True child show False by (auto simp: clone_proc_def new_proc_def)
      qed
      with True par show ?thesis by (auto simp: clone_proc_def)
    next
      case False
      with a c assms(4) obtain r0 where r0: "m i = Some r0" "c \<in> p_children r0"
        by (auto simp: clone_proc_def new_proc_def split: if_splits)
      with tree_okD(3) [OF assms(1) r0] obtain z where "m c = Some z" "p_ppid z = i" by auto
      with False assms(4) show ?thesis by auto
    qed
  qed
qed

text \<open>A parent has waited for a child that has ended.\<close>

lemma tree_ok_reap:
  assumes "tree_ok m" and "m par = Some p" and "m c = Some q" and "c \<in> p_children p" and "\<not> p_alloc q"
  shows "tree_ok ((m(par \<mapsto> p\<lparr>p_children := p_children p - {c}\<rparr>))(c := None))"
proof (rule tree_okI)
  let ?m = "(m(par \<mapsto> p\<lparr>p_children := p_children p - {c}\<rparr>))(c := None)"
  have ppid: "p_ppid q = par" using tree_okD(3) [OF assms(1,2,4)] assms(3) by auto
  have q: "p_children q = {}" "p_ppid q > 1" using tree_okD(1) [OF assms(1,3)] assms(5) by (simp_all add: proc_ok_def)
  have ne: "c \<noteq> par" using no_own_parent [OF assms(1,3)] ppid q(2) by auto
  have "parents ?m \<subseteq> parents m" using assms(2) by (auto simp: parents_def split: if_splits)
  then show "acyclic (parents ?m)" using tree_okD(4) [OF assms(1)] acyclic_subset by blast
  fix i r assume a: "?m i = Some r"
  then have i: "i \<noteq> c" by auto
  from a assms(2) obtain r0 where r0: "m i = Some r0" "p_ppid r0 = p_ppid r" "p_children r = p_children r0 - (if i = par then {c} else {})"
    by (auto split: if_splits)
  show "proc_ok i r"
    using a tree_okD(1) [OF assms(1)] assms(2) by (auto simp: proc_ok_def split: if_splits)
  show "p_ppid r > 1 \<Longrightarrow> \<exists>z. ?m (p_ppid r) = Some z \<and> i \<in> p_children z"
  proof -
    assume g: "p_ppid r > 1"
    with tree_okD(2) [OF assms(1) r0(1)] r0(2) obtain z where z: "m (p_ppid r) = Some z" "i \<in> p_children z" by auto
    have "p_ppid r \<noteq> c" using z assms(3) q(1) by auto
    with z i assms(2) show ?thesis by auto
  qed
  show "c' \<in> p_children r \<Longrightarrow> \<exists>z. ?m c' = Some z \<and> p_ppid z = i" for c'
  proof -
    assume "c' \<in> p_children r"
    then have c': "c' \<in> p_children r0" "i = par \<longrightarrow> c' \<noteq> c" using r0(3) by auto
    then obtain z where z: "m c' = Some z" "p_ppid z = i" using tree_okD(3) [OF assms(1) r0(1)] by blast
    have "c' \<noteq> c" using z c'(2) assms(3) ppid by auto
    with z assms(2) show ?thesis by auto
  qed
qed

text \<open>The processes after a process has given its children away.\<close>

definition without_children :: "uint16 \<Rightarrow> proc \<Rightarrow> (uint16 \<rightharpoonup> proc) \<Rightarrow> (uint16 \<rightharpoonup> proc)" where
  "without_children pid p m = (\<lambda>c.
     if c = pid then Some (p\<lparr>p_children := {}\<rparr>)
     else if c \<in> p_children p then
       (case m c of None \<Rightarrow> None | Some q \<Rightarrow> if p_alloc q then Some (q\<lparr>p_ppid := 1\<rparr>) else None)
     else m c)"

lemma fold_reparent:
  assumes "\<And>c q. m_processes s c = Some q \<Longrightarrow> p_pid q = c \<and> c > 1 \<and> p_loader q = p_alloc q"
  shows "fold reparent cs s = s\<lparr>m_processes := (\<lambda>c.
     if c \<in> set cs then (case m_processes s c of None \<Rightarrow> None | Some q \<Rightarrow> if p_alloc q then Some (q\<lparr>p_ppid := 1\<rparr>) else None)
     else m_processes s c)\<rparr>"
  using assms
proof (induction cs arbitrary: s)
  case Nil
  show ?case by simp
next
  case (Cons c cs)
  let ?s = "s\<lparr>m_processes := (m_processes s)(c := (case m_processes s c of None \<Rightarrow> None | Some q \<Rightarrow> if p_alloc q then Some (q\<lparr>p_ppid := 1\<rparr>) else None))\<rparr>"
  have one: "reparent c s = ?s"
  proof (cases "m_processes s c")
    case None
    then show ?thesis by (simp add: reparent_def SearchProcess_def fun_upd_idem)
  next
    case (Some q)
    with Cons.prems [OF Some] show ?thesis by (simp add: reparent_def SearchProcess_def put_proc_def erase_proc_def)
  qed
  have "fold reparent cs ?s = ?s\<lparr>m_processes := (\<lambda>d.
     if d \<in> set cs then (case m_processes ?s d of None \<Rightarrow> None | Some q \<Rightarrow> if p_alloc q then Some (q\<lparr>p_ppid := 1\<rparr>) else None)
     else m_processes ?s d)\<rparr>"
    by (rule Cons.IH) (use Cons.prems in \<open>fastforce split: if_splits option.split_asm\<close>)
  then show ?case by (simp add: one) (auto simp: fun_eq_iff split: option.split)
qed

lemma reparent_children_eq:
  assumes "tree_ok (m_processes s)" and "m_processes s pid = Some p"
  shows "reparent_children pid s = Some (s\<lparr>m_processes := without_children pid p (m_processes s)\<rparr>)"
proof -
  let ?s = "put_proc (p\<lparr>p_children := {}\<rparr>) s"
  have pid: "p_pid p = pid" by (rule pid_of_entry [OF assms])
  have self: "pid \<notin> p_children p"
    using tree_okD(3) [OF assms, of pid] no_own_parent [OF assms] tree_okD(1) [OF assms] assms(2) by (auto simp: proc_ok_def)
  have ok: "p_pid q = c \<and> c > 1 \<and> p_loader q = p_alloc q" if "m_processes ?s c = Some q" for c q
    using that tree_okD(1) [OF assms(1)] assms(2) by (auto simp: put_proc_def proc_ok_def split: if_splits)
  show ?thesis
    by (simp add: reparent_children_def assms(2) fold_reparent [OF ok])
      (use self pid in \<open>auto simp: without_children_def put_proc_def fun_eq_iff\<close>)
qed

text \<open>A process that ends: it leaves the table, or stays in it for its parent.\<close>

definition ended :: "uint16 \<Rightarrow> proc \<Rightarrow> (uint16 \<rightharpoonup> proc) \<Rightarrow> (uint16 \<rightharpoonup> proc)" where
  "ended pid p m =
     (if p_ppid p > 1
      then (without_children pid p m)(pid \<mapsto> p\<lparr>p_children := {}, p_loader := False, p_alloc := False\<rparr>)
      else (without_children pid p m)(pid := None))"

lemma tree_ok_ended:
  assumes "tree_ok m" and "m pid = Some p"
  shows "tree_ok (ended pid p m)"
proof (rule tree_okI)
  let ?m = "ended pid p m"
  have self: "pid \<notin> p_children p"
    using tree_okD(3) [OF assms, of pid] no_own_parent [OF assms] tree_okD(1) [OF assms] assms(2) by (auto simp: proc_ok_def)
  have old: "\<exists>r0. m i = Some r0 \<and> (p_ppid r = p_ppid r0 \<or> p_ppid r = 1) \<and> (i \<in> p_children p \<longrightarrow> p_ppid r = 1 \<and> p_alloc r)
      \<and> (i \<notin> p_children p \<longrightarrow> p_ppid r = p_ppid r0) \<and> (i \<noteq> pid \<longrightarrow> p_children r = p_children r0 \<and> p_alloc r = p_alloc r0)
      \<and> p_pid r = p_pid r0 \<and> (i \<noteq> pid \<longrightarrow> p_loader r = p_loader r0)
      \<and> (i = pid \<longrightarrow> p_children r = {} \<and> p_ppid p > 1 \<and> \<not> p_alloc r \<and> \<not> p_loader r)"
    if "?m i = Some r" for i r
    using that assms(2) self by (auto simp: ended_def without_children_def split: if_splits option.splits)
  have "parents ?m \<subseteq> parents m"
  proof
    fix e assume e: "e \<in> parents ?m"
    obtain i q where eq: "e = (i, q)" by (cases e)
    with e obtain r where r: "?m i = Some r" "p_ppid r = q" "q > 1" by (auto simp: parents_def)
    with old [OF r(1)] show "e \<in> parents m" by (auto simp: parents_def eq)
  qed
  then show "acyclic (parents ?m)" using tree_okD(4) [OF assms(1)] acyclic_subset by blast
  fix i r assume a: "?m i = Some r"
  from old [OF a] obtain r0 where r0: "m i = Some r0" "p_ppid r = p_ppid r0 \<or> p_ppid r = 1"
    "i \<in> p_children p \<longrightarrow> p_ppid r = 1 \<and> p_alloc r" "i \<notin> p_children p \<longrightarrow> p_ppid r = p_ppid r0" "i \<noteq> pid \<longrightarrow> p_children r = p_children r0 \<and> p_alloc r = p_alloc r0" "p_pid r = p_pid r0"
    "i \<noteq> pid \<longrightarrow> p_loader r = p_loader r0" "i = pid \<longrightarrow> p_children r = {} \<and> p_ppid p > 1 \<and> \<not> p_alloc r \<and> \<not> p_loader r" by blast
  show "proc_ok i r"
    using tree_okD(1) [OF assms(1) r0(1)] r0 assms(2) self by (cases "i = pid"; cases "i \<in> p_children p") (auto simp: proc_ok_def)
  show "p_ppid r > 1 \<Longrightarrow> \<exists>z. ?m (p_ppid r) = Some z \<and> i \<in> p_children z"
  proof -
    assume g: "p_ppid r > 1"
    then have i: "i \<notin> p_children p" "p_ppid r = p_ppid r0" using r0 by auto
    with g tree_okD(2) [OF assms(1) r0(1)] obtain z where z: "m (p_ppid r) = Some z" "i \<in> p_children z" by auto
    have ne: "p_ppid r \<noteq> pid" using z i(1) assms(2) by auto
    have alive: "p_alloc z" using tree_okD(1) [OF assms(1) z(1)] z(2) by (auto simp: proc_ok_def)
    show ?thesis
    proof (cases "p_ppid r \<in> p_children p")
      case True
      with z alive ne show ?thesis by (auto simp: ended_def without_children_def)
    next
      case False
      with z ne show ?thesis by (auto simp: ended_def without_children_def)
    qed
  qed
  show "c \<in> p_children r \<Longrightarrow> \<exists>z. ?m c = Some z \<and> p_ppid z = i" for c
  proof -
    assume c: "c \<in> p_children r"
    then have i: "i \<noteq> pid" "c \<in> p_children r0" using r0 by auto
    then obtain z where z: "m c = Some z" "p_ppid z = i" using tree_okD(3) [OF assms(1) r0(1)] by blast
    have cn: "c \<notin> p_children p" using z i(1) tree_okD(3) [OF assms, of c] by auto
    show ?thesis
    proof (cases "c = pid")
      case True
      with z assms(2) have "p_ppid p = i" by simp
      moreover have "i > 1" using tree_okD(1) [OF assms(1) r0(1)] by (simp add: proc_ok_def)
      ultimately show ?thesis using True by (auto simp: ended_def)
    next
      case False
      with z cn show ?thesis by (auto simp: ended_def without_children_def)
    qed
  qed
qed

end
