(* ===== verification/Task_Calm.thy ===== *)
theory Task_Calm
  imports Task_Runs
begin

text \<open>
  Only the running task can fall asleep: whatever an operation of the task manager does, a task that
  is blocked after it was blocked before, or was the running one.
\<close>

definition blocked :: "task \<Rightarrow> 'x task_manager \<Rightarrow> bool" where
  "blocked t m \<longleftrightarrow> (\<exists>k. tasks m t = Some k \<and> m_state k = BLOCKED)"

definition tm_calm :: "'x task_manager \<Rightarrow> 'x task_manager \<Rightarrow> bool" where
  "tm_calm m m' \<longleftrightarrow> new_task m \<le> new_task m' \<and> (m_current m' = m_current m \<or> m_current m' = None)
     \<and> (\<forall>t. m_current m \<noteq> Some t \<longrightarrow> blocked t m' \<longrightarrow> blocked t m)"

lemma tm_calm_refl [simp, intro]: "tm_calm m m"
  by (simp add: tm_calm_def)

lemma tm_calm_trans: "tm_calm m m1 \<Longrightarrow> tm_calm m1 m2 \<Longrightarrow> tm_calm m m2"
proof -
  assume a: "tm_calm m m1" "tm_calm m1 m2"
  have "blocked t m" if "m_current m \<noteq> Some t" "blocked t m2" for t
  proof -
    from a(1) that(1) have "m_current m1 \<noteq> Some t" by (auto simp: tm_calm_def)
    with a that show ?thesis by (simp add: tm_calm_def)
  qed
  with a show ?thesis by (auto simp: tm_calm_def)
qed

lemma tm_calm_sim [simp]: "tm_calm m (m'\<lparr>sim := x\<rparr>) = tm_calm m m'" "tm_calm (m\<lparr>sim := x\<rparr>) m' = tm_calm m m'"
  by (simp_all add: tm_calm_def blocked_def)

text \<open>The main fiber's part of a switch: tasks keep their states or are deleted.\<close>

definition keeps_states :: "'x task_manager \<Rightarrow> 'x task_manager \<Rightarrow> bool" where
  "keeps_states m m' \<longleftrightarrow> new_task m' = new_task m \<and> m_current m' = m_current m
     \<and> (\<forall>t k'. tasks m' t = Some k' \<longrightarrow> (\<exists>k. tasks m t = Some k \<and> m_state k' = m_state k))"

lemma keeps_refl: "keeps_states m m"
  by (simp add: keeps_states_def)

lemma keeps_trans: "keeps_states m m1 \<Longrightarrow> keeps_states m1 m2 \<Longrightarrow> keeps_states m m2"
  unfolding keeps_states_def by (metis (no_types))

lemma keepsD: "keeps_states m m' \<Longrightarrow> blocked t m' \<Longrightarrow> blocked t m"
  unfolding keeps_states_def blocked_def by metis

lemma keeps_calm: "keeps_states m m' \<Longrightarrow> tm_calm m m'"
  using keepsD by (auto simp: keeps_states_def tm_calm_def)

lemma collect_keeps: "GarbageCollectDeadTasks S ts m = Some m' \<Longrightarrow> keeps_states m m'"
proof (induction ts arbitrary: m)
  case Nil
  then show ?case by (auto simp: keeps_states_def)
next
  case (Cons t ts)
  then obtain k where "keeps_states (m\<lparr>sim := cancel_timer S k (sim m), tasks := (tasks m)(t := None)\<rparr>) m'"
    by (auto simp: bind_eq_Some_conv)
  then show ?case by (rule keeps_trans [rotated]) (auto simp: keeps_states_def)
qed

lemma start_timers_keeps: "start_timers S ws m = Some m' \<Longrightarrow> keeps_states m m'"
proof (induction ws arbitrary: m)
  case Nil
  then show ?case by (auto simp: keeps_states_def)
next
  case (Cons w ws)
  obtain t timeout where w: "w = (t, timeout)" by (cases w)
  obtain i x where ix: "Sched S timeout (Do_EndWait t) (sim m) = (i, x)" by fastforce
  from Cons.prems w ix obtain k where k: "tasks m t = Some k"
    "start_timers S ws (m\<lparr>sim := x, tasks := (tasks m)(t \<mapsto> k\<lparr>m_waitTimer := Some i\<rparr>)\<rparr>) = Some m'"
    by (auto simp: bind_eq_Some_conv)
  from Cons.IH [OF k(2)] show ?case by (rule keeps_trans [rotated]) (use k(1) in \<open>auto simp: keeps_states_def\<close>)
qed

lemma finish_keeps: "finish S m = Some m' \<Longrightarrow> keeps_states m m'"
  by (auto simp: finish_def bind_eq_Some_conv intro: keeps_trans start_timers_keeps collect_keeps)

lemma after_switch_keeps:
  assumes "after_switch S m = Some m'"
  shows "keeps_states m m'"
proof (cases "m_reSchedule m")
  case True
  let ?r = "Sched S (if m_reScheduleTime m > 0 then m_reScheduleTime m else 0) Do_Schedule (sim m)"
  have "finish S (m\<lparr>m_reSchedule := False, sim := snd ?r\<rparr>) = Some m'"
    using assms True by (cases ?r) (simp add: after_switch_def)
  from finish_keeps [OF this] show ?thesis by (auto simp: keeps_states_def)
next
  case False
  with assms show ?thesis by (simp add: after_switch_def finish_keeps)
qed

lemma leave_blocked:
  assumes "leave d m = Some m'"
  shows "new_task m' = new_task m" "m_current m' = None" "tasks m' = tasks m"
  using assms by (auto simp: leave_def bind_eq_Some_conv notify_def Let_def)

text \<open>The running task gives the processor back.\<close>

lemma switch_calm:
  assumes "leave d m1 = Some m2" and "after_switch S m2 = Some m'" and "m_current m = Some t"
    and "new_task m1 = new_task m" and "\<And>u. u \<noteq> t \<Longrightarrow> tasks m1 u = tasks m u"
  shows "tm_calm m m' \<and> m_current m' = None"
proof -
  have k: "keeps_states m2 m'" by (rule after_switch_keeps [OF assms(2)])
  then have "blocked u m1" if "blocked u m'" for u
    using keepsD [OF k that] leave_blocked(3) [OF assms(1)] by (simp add: blocked_def)
  moreover have "blocked u m1 \<Longrightarrow> u \<noteq> t \<Longrightarrow> blocked u m" for u using assms(5) by (simp add: blocked_def)
  ultimately show ?thesis using k leave_blocked [OF assms(1)] assms(3,4)
    by (auto simp: tm_calm_def keeps_states_def)
qed

lemma running_current: "running_task m = Some (t, k) \<Longrightarrow> m_current m = Some t"
  by (auto simp: running_task_def bind_eq_Some_conv split: if_splits)

lemma Sleep_calm: "Sleep S d m = Some m' \<Longrightarrow> tm_calm m m' \<and> m_current m' = None"
  by (clarsimp simp: Sleep_def bind_eq_Some_conv) (drule running_current, erule (1) switch_calm, auto)

lemma Sleep_timeout_calm: "Sleep_timeout S d timeout m = Some m' \<Longrightarrow> tm_calm m m' \<and> m_current m' = None"
  by (clarsimp simp: Sleep_timeout_def Let_def bind_eq_Some_conv) (drule running_current, erule (1) switch_calm, auto)

lemma Yield_calm: "Yield S d m = Some m' \<Longrightarrow> tm_calm m m' \<and> m_current m' = None"
  by (clarsimp simp: Yield_def bind_eq_Some_conv) (drule running_current, erule (1) switch_calm, auto)

lemma Exit_calm: "tm_Exit S d m = Some m' \<Longrightarrow> tm_calm m m' \<and> m_current m' = None"
  by (clarsimp simp: tm_Exit_def bind_eq_Some_conv) (drule running_current, erule (1) switch_calm, auto)

lemma Wakeup_calm:
  assumes "Wakeup S t m = Some m'"
  shows "tm_calm m m' \<and> m_current m' = m_current m \<and> new_task m' = new_task m \<and> \<not> blocked t m' \<and> dom (tasks m') = dom (tasks m)"
proof -
  obtain k where k: "tasks m t = Some k" using assms by (auto simp: Wakeup_def bind_eq_Some_conv)
  show ?thesis
  proof (cases "m_state k = ACTIVE \<or> m_state k = RUNNING")
    case True
    with assms k have "m' = m" by (auto simp: Wakeup_def)
    with True k show ?thesis by (auto simp: blocked_def)
  next
    case False
    have "\<exists>q n x. m' = m\<lparr>tasks := (tasks m)(t \<mapsto> k\<lparr>m_state := ACTIVE\<rparr>), m_scheduler := q, m_nextSchedule := n, sim := x\<rparr>"
    proof (cases "m_current m = None \<and> (case m_nextSchedule m of None \<Rightarrow> True | Some i \<Rightarrow> \<not> IsPending S i (sim m))")
      case post: True
      obtain i x where "Sched S 0 Do_Schedule (sim m) = (i, x)" by fastforce
      with assms k False post have "m' = m\<lparr>tasks := (tasks m)(t \<mapsto> k\<lparr>m_state := ACTIVE\<rparr>),
        m_scheduler := rr_Enqueue t (m_scheduler m), m_nextSchedule := Some i, sim := x\<rparr>"
        by (simp add: Wakeup_def Let_def)
      then show ?thesis by blast
    next
      case no: False
      with assms k False have "m' = m\<lparr>tasks := (tasks m)(t \<mapsto> k\<lparr>m_state := ACTIVE\<rparr>), m_scheduler := rr_Enqueue t (m_scheduler m)\<rparr>"
        by (auto simp: Wakeup_def Let_def)
      then have "m' = m\<lparr>tasks := (tasks m)(t \<mapsto> k\<lparr>m_state := ACTIVE\<rparr>), m_scheduler := rr_Enqueue t (m_scheduler m),
        m_nextSchedule := m_nextSchedule m, sim := sim m\<rparr>" by simp
      then show ?thesis by blast
    qed
    with k show ?thesis by (auto simp: tm_calm_def blocked_def split: if_splits)
  qed
qed

lemma new_task_calm:
  assumes "Wakeup S t (m\<lparr>tasks := (tasks m)(t \<mapsto> blocked_task At_start), new_task := t + 1\<rparr>) = Some m'" and "t = new_task m"
  shows "tm_calm m m' \<and> m_current m' = m_current m \<and> new_task m' = new_task m + 1 \<and> \<not> blocked (new_task m) m'"
proof -
  let ?m = "m\<lparr>tasks := (tasks m)(t \<mapsto> blocked_task At_start), new_task := t + 1\<rparr>"
  note w = Wakeup_calm [OF assms(1)]
  have "blocked u m" if "m_current m \<noteq> Some u" "blocked u m'" for u
  proof -
    from w that have "blocked u ?m" "u \<noteq> t" by (auto simp: tm_calm_def)
    then show ?thesis by (simp add: blocked_def)
  qed
  with w assms(2) show ?thesis by (auto simp: tm_calm_def)
qed

lemma Start_calm:
  assumes "tm_Start S m = Some (t, m')"
  shows "t = new_task m \<and> tm_calm m m' \<and> m_current m' = m_current m \<and> new_task m' = new_task m + 1 \<and> \<not> blocked (new_task m) m'"
proof -
  from assms obtain t: "t = new_task m"
    and "Wakeup S t (m\<lparr>tasks := (tasks m)(t \<mapsto> blocked_task At_start), new_task := t + 1\<rparr>) = Some m'"
    unfolding tm_Start_def Let_def bind_eq_Some_conv by blast
  from new_task_calm [OF this(2,1)] t show ?thesis by simp
qed

lemma Clone_calm:
  assumes "tm_Clone S u m = Some (t, m')"
  shows "t = new_task m \<and> tm_calm m m' \<and> m_current m' = m_current m \<and> new_task m' = new_task m + 1 \<and> \<not> blocked (new_task m) m'"
proof -
  from assms obtain k where "tasks m u = Some k" by (auto simp: tm_Clone_def bind_eq_Some_conv)
  from Start_calm [of S m t m'] tm_Clone_Start [OF this, of S] assms show ?thesis by simp
qed

lemma Stop_calm: "tm_Stop S t m = Some m' \<Longrightarrow> tm_calm m m' \<and> m_current m' = m_current m \<and> new_task m' = new_task m"
  by (auto simp: tm_Stop_def bind_eq_Some_conv tm_calm_def blocked_def split: if_splits)

lemma context_calm:
  "SetContext t c m = Some m' \<Longrightarrow> tm_calm m m' \<and> m_current m' = m_current m \<and> new_task m' = new_task m"
  "SetSwitchNotifier t fn c m = Some m' \<Longrightarrow> tm_calm m m' \<and> m_current m' = m_current m \<and> new_task m' = new_task m"
  by (auto simp: SetContext_def SetSwitchNotifier_def bind_eq_Some_conv tm_calm_def blocked_def split: if_splits)

lemma dispatch_keeps:
  assumes "dispatch S m = Some (next, m')"
  shows "new_task m' = new_task m \<and> (\<forall>t. blocked t m' \<longrightarrow> blocked t m)"
  using assms by (auto simp: dispatch_def notify_def bind_eq_Some_conv blocked_def split: option.splits if_splits)

lemma Schedule_main_states:
  assumes "Schedule_main S m = Some m'"
  shows "new_task m' = new_task m \<and> (\<forall>t. blocked t m' \<longrightarrow> blocked t m)"
proof -
  obtain nxt m1 where d: "dispatch S m = Some (nxt, m1)"
    and rest: "(case nxt of None \<Rightarrow> finish S m1 | Some t \<Rightarrow> resume S t m1) = Some m'"
    using assms by (auto simp: Schedule_main_def bind_eq_Some_conv)
  have "new_task m' = new_task m1 \<and> (\<forall>t. blocked t m' \<longrightarrow> blocked t m1)"
  proof (cases nxt)
    case None
    with rest finish_keeps [of S m1 m'] keepsD show ?thesis by (auto simp: keeps_states_def)
  next
    case (Some t)
    with rest obtain k where "tasks m1 t = Some k" "resume S t m1 = Some m'" by (auto simp: resume_def bind_eq_Some_conv)
    then show ?thesis
      by (cases "m_fiber k") (simp_all add: resume_def Let_def, auto simp: blocked_def)
  qed
  with dispatch_keeps [OF d] show ?thesis by auto
qed

text \<open>Whatever happens to the tasks of a node.\<close>

theorem tm_step_states:
  assumes "tm_step S m m'"
  shows "new_task m \<le> new_task m' \<and> (\<forall>t. m_current m \<noteq> Some t \<longrightarrow> blocked t m' \<longrightarrow> blocked t m)"
  using assms
proof cases
  case (wakeup t)
  from Wakeup_calm [OF this] show ?thesis by (simp add: tm_calm_def)
next
  case (start t)
  from Start_calm [OF this] show ?thesis by (auto simp: tm_calm_def)
next
  case (clone u t)
  from Clone_calm [OF this] show ?thesis by (auto simp: tm_calm_def)
next
  case (stop t)
  from Stop_calm [OF this] show ?thesis by (simp add: tm_calm_def)
next
  case (sleep delay)
  from Sleep_calm [OF this] show ?thesis by (simp add: tm_calm_def)
next
  case (sleep_timeout timeout delay)
  from Sleep_timeout_calm [OF this(2)] show ?thesis by (simp add: tm_calm_def)
next
  case (yield delay)
  from Yield_calm [OF this] show ?thesis by (simp add: tm_calm_def)
next
  case (exit delay)
  from Exit_calm [OF this] show ?thesis by (simp add: tm_calm_def)
next
  case (schedule x)
  from Schedule_main_states [OF this(3)] show ?thesis by (auto simp: blocked_def)
next
  case (end_wait t x)
  then show ?thesis
    using Wakeup_calm [of S t "m\<lparr>sim := x\<rparr>" m']
    by (auto simp: EndWait_def bind_eq_Some_conv tm_calm_def blocked_def split: if_splits)
next
  case (other n x)
  then show ?thesis by (simp add: blocked_def)
next
  case (post d n)
  then show ?thesis by (simp add: ScheduleMain_def ExecOnMain_def blocked_def)
next
  case (notifier t fn c)
  from context_calm(2) [OF this] show ?thesis by (simp add: tm_calm_def)
next
  case (hi_task t)
  then show ?thesis by (auto simp: EnterHiTask_def LeaveHiTask_def blocked_def split: if_splits)
qed

end
