(* ===== verification/Io_Calm.thy ===== *)
theory Io_Calm
  imports Io_Reach Task_Calm
begin

text \<open>
  The calls on descriptors leave the threads of the processes as they are, and put nobody but the
  running thread to sleep.
\<close>

section \<open>Calm steps\<close>

definition calm :: "'x io \<Rightarrow> 'x io \<Rightarrow> bool" where
  "calm s s' \<longleftrightarrow> threads s' = threads s \<and> pid_of s' = pid_of s \<and> tm_calm (io_tm s) (io_tm s')"

lemma calm_refl [simp, intro]: "calm s s"
  by (simp add: calm_def)

lemma calm_trans: "calm s s1 \<Longrightarrow> calm s1 s2 \<Longrightarrow> calm s s2"
  by (auto simp: calm_def intro: tm_calm_trans)

text \<open>Changes of the rest of the state do not matter, before or after.\<close>

definition same_core :: "'x io \<Rightarrow> 'x io \<Rightarrow> bool" where
  "same_core s s' \<longleftrightarrow> threads s' = threads s \<and> pid_of s' = pid_of s
     \<and> (\<exists>x. io_tm s' = (io_tm s)\<lparr>sim := x\<rparr>)"

lemma same_coreI: "threads s' = threads s \<Longrightarrow> pid_of s' = pid_of s \<Longrightarrow> io_tm s' = io_tm s \<Longrightarrow> same_core s s'"
  unfolding same_core_def by (intro conjI exI [of _ "sim (io_tm s)"]) simp_all

lemma same_core_calm: "same_core s s' \<Longrightarrow> calm s s'"
  by (auto simp: same_core_def calm_def)

lemma same_core_left: "same_core s s1 \<Longrightarrow> calm s1 s2 = calm s s2"
  by (auto simp: same_core_def calm_def)

lemma same_core_right: "same_core s1 s2 \<Longrightarrow> calm s s2 = calm s s1"
  by (auto simp: same_core_def calm_def)

named_theorems core_rules

lemma core_updates [core_rules]:
  "same_core s (set_err e t s)" "same_core s (put_entry w x s)" "same_core s (put_table p y s)" "same_core s (free_entry wq s)"
  "same_core s (on_sim g s)" "same_core s (store_bytes buf bs s)" "same_core s (deliver_thread t sig s)"
  "same_core s (deliver_process t sig s)" "same_core s (AdvanceTime_return E t s)" "same_core s (set_revents arr i r s)"
  "same_core s (FD_ZERO a s)" "same_core s (FD_SET fd b s)" "same_core s (timer_Cancel E tm s)"
  "same_core s (put_file f z s)" "same_core s (put_usage u v s)" "same_core s (note_moved n s)" "same_core s (set_fd pid fd c s)"
proof -
  show "same_core s (on_sim g s)" by (auto simp: same_core_def on_sim_def)
  show "same_core s (timer_Cancel E tm s)"
    by (cases "m_timer tm") (auto simp: timer_Cancel_def on_sim_def same_core_def intro: exI [of _ "sim (io_tm s)"])
qed (rule same_coreI; simp add: set_err_def put_entry_def put_table_def free_entry_def
      store_bytes_def deliver_thread_def deliver_process_def AdvanceTime_return_def set_revents_def FD_ZERO_def
      FD_SET_def put_file_def put_usage_def note_moved_def set_fd_def Let_def split: option.split)+

lemmas calm_updates [simp] = core_updates [THEN same_core_calm] core_updates [THEN same_core_left] core_updates [THEN same_core_right]

lemma calm_fields [simp]:
  "calm (s\<lparr>next_new := a1\<rparr>) s' = calm s s'" "calm s (s'\<lparr>next_new := a1\<rparr>) = calm s s'"
  "calm (s\<lparr>ioWait := a2\<rparr>) s' = calm s s'" "calm s (s'\<lparr>ioWait := a2\<rparr>) = calm s s'"
  "calm (s\<lparr>pollTable := a3\<rparr>) s' = calm s s'" "calm s (s'\<lparr>pollTable := a3\<rparr>) = calm s s'"
  "calm (s\<lparr>poll_array := a4\<rparr>) s' = calm s s'" "calm s (s'\<lparr>poll_array := a4\<rparr>) = calm s s'"
  "calm (s\<lparr>files := a5\<rparr>) s' = calm s s'" "calm s (s'\<lparr>files := a5\<rparr>) = calm s s'"
  "calm (s\<lparr>usages := a6\<rparr>) s' = calm s s'" "calm s (s'\<lparr>usages := a6\<rparr>) = calm s s'"
  "calm (s\<lparr>tables := a7\<rparr>) s' = calm s s'" "calm s (s'\<lparr>tables := a7\<rparr>) = calm s s'"
  "calm (s\<lparr>frames := a8\<rparr>) s' = calm s s'" "calm s (s'\<lparr>frames := a8\<rparr>) = calm s s'"
  "calm (s\<lparr>fd_pair := a9\<rparr>) s' = calm s s'" "calm s (s'\<lparr>fd_pair := a9\<rparr>) = calm s s'"
  "calm (s\<lparr>itimers := a10\<rparr>) s' = calm s s'" "calm s (s'\<lparr>itimers := a10\<rparr>) = calm s s'"
  "calm (s\<lparr>pendingSignals := a11\<rparr>) s' = calm s s'" "calm s (s'\<lparr>pendingSignals := a11\<rparr>) = calm s s'"
  "calm (s\<lparr>openFiles := a12\<rparr>) s' = calm s s'" "calm s (s'\<lparr>openFiles := a12\<rparr>) = calm s s'"
  by (simp_all add: calm_def)

lemma calm_fails [simp]: "io_fails e t s = Done v s' \<Longrightarrow> calm s s'"
  by (auto simp: io_fails_def)

lemma calm_new_entry: "new_entry x s = (w, s') \<Longrightarrow> calm s s'"
  by (auto simp: new_entry_def)

lemma calm_deliver: "calm s (deliver_signals t hs s)"
proof (induction hs arbitrary: s)
  case (Cons h hs)
  show ?case using Cons.IH [of "deliver_process t h (deliver_thread t h s)"] Cons.IH [of s] by simp
qed simp

lemma calm_DoSignal [simp]: "calm s (UtilsDoSignal t s)"
  by (simp add: UtilsDoSignal_def calm_deliver)

section \<open>Waking and waiting\<close>

lemma calm_tm: "tm_calm (io_tm s) m \<Longrightarrow> calm s (s\<lparr>io_tm := m\<rparr>)"
  by (simp add: calm_def)

lemma calm_Wakeup: "io_Wakeup E t s = Some s' \<Longrightarrow> calm s s'"
  by (auto simp: io_Wakeup_def bind_eq_Some_conv intro!: calm_tm dest: Wakeup_calm)

lemma calm_Wait: "io_Wait E s = Some s' \<Longrightarrow> calm s s'"
  by (auto simp: io_Wait_def bind_eq_Some_conv intro!: calm_tm dest: Sleep_calm)

lemma calm_Wait_timeout: "io_Wait_timeout E to s = Some s' \<Longrightarrow> calm s s'"
  by (auto simp: io_Wait_timeout_def bind_eq_Some_conv intro!: calm_tm dest: Sleep_timeout_calm)

lemma calm_signal_threads: "signal_threads E sig ts s = Some s' \<Longrightarrow> calm s s'"
proof (induction ts)
  case (Cons t ts)
  then show ?case by (auto simp: bind_eq_Some_conv calm_Wakeup split: if_splits)
qed simp

lemma calm_SendSignal: "UtilsSendSignal E p sig s = Some s' \<Longrightarrow> calm s s'"
  using calm_signal_threads unfolding UtilsSendSignal_def by fastforce

lemma calm_WakeUpCallback: "WakeUpCallback E w s = Some s' \<Longrightarrow> calm s s'"
  by (auto simp: WakeUpCallback_def bind_eq_Some_conv calm_Wakeup split: option.split_asm if_split_asm)

lemma calm_entry_WakeUp: "entry_WakeUp E key w s = Some s' \<Longrightarrow> calm s s'"
proof -
  assume "entry_WakeUp E key w s = Some s'"
  then obtain x where "(case x of
      Entry_timeout em waiter deadline \<Rightarrow> if key AND em \<noteq> 0 then WakeUpCallback E waiter s else Some s
    | Entry_poll p em \<Rightarrow> if key AND em \<noteq> 0 then do { y \<leftarrow> tables s p; WakeUpCallback E (m_waitTask y) s } else Some s)
      = Some s'" by (auto simp: entry_WakeUp_def bind_eq_Some_conv)
  then show ?thesis by (cases x) (auto simp: bind_eq_Some_conv calm_WakeUpCallback split: if_split_asm)
qed

lemma calm_wake_entries: "wake_entries E key ws s = Some s' \<Longrightarrow> calm s s'"
proof (induction ws arbitrary: s)
  case (Cons w ws)
  then show ?case using calm_entry_WakeUp calm_trans by (fastforce simp: bind_eq_Some_conv)
qed simp

lemma calm_WakeWaiters: "WakeWaiters E key f s = Some s' \<Longrightarrow> calm s s'"
  by (auto simp: WakeWaiters_def bind_eq_Some_conv calm_wake_entries)

lemma calm_AddWaitQueue: "AddWaitQueue f w reg t s = Some s' \<Longrightarrow> calm s s'"
  by (auto simp: AddWaitQueue_def Let_def bind_eq_Some_conv)

lemma calm_RemoveWaitQueue: "RemoveWaitQueue f w reg t s = Some s' \<Longrightarrow> calm s s'"
  by (auto simp: RemoveWaitQueue_def Let_def bind_eq_Some_conv)

lemma calm_entry_Wait: "entry_Wait E w t s = Some (r, s') \<Longrightarrow> calm s s'"
proof -
  assume a: "entry_Wait E w t s = Some (r, s')"
  then obtain x where x: "entries s w = Some x" by (auto simp: entry_Wait_def bind_eq_Some_conv)
  with a show ?thesis
    by (cases x) (auto simp: entry_Wait_def Let_def bind_eq_Some_conv split: if_split_asm dest: calm_Wait_timeout)
qed

lemma calm_entry_woken: "entry_woken w to t s = Some (r, s') \<Longrightarrow> calm s s'"
proof -
  assume a: "entry_woken w to t s = Some (r, s')"
  then obtain x where x: "entries s w = Some x" by (auto simp: entry_woken_def bind_eq_Some_conv)
  with a show ?thesis by (cases x) (auto simp: entry_woken_def)
qed

lemma calm_SetEventMask: "SetEventMask p e s = Some s' \<Longrightarrow> calm s s'"
  by (auto simp: SetEventMask_def bind_eq_Some_conv)

lemma calm_PollWait: "PollWait p f t s = Some s' \<Longrightarrow> calm s s'"
proof -
  assume "PollWait p f t s = Some s'"
  then obtain x where "(let (w, s1) = new_entry (Entry_poll p (m_eventMask x)) s in AddWaitQueue f w False t
      (put_table p (x\<lparr>m_pollEntryList := m_pollEntryList x @ [(f, w)]\<rparr>) s1)) = Some s'"
    by (auto simp: PollWait_def bind_eq_Some_conv)
  then obtain w s1 where n: "new_entry (Entry_poll p (m_eventMask x)) s = (w, s1)"
    "AddWaitQueue f w False t (put_table p (x\<lparr>m_pollEntryList := m_pollEntryList x @ [(f, w)]\<rparr>) s1) = Some s'"
    by (cases "new_entry (Entry_poll p (m_eventMask x)) s") simp
  from calm_AddWaitQueue [OF n(2)] have "calm s1 s'" by simp
  with calm_trans [OF calm_new_entry [OF n(1)]] show ?thesis by blast
qed

lemma calm_free_waits: "free_waits es t s = Some s' \<Longrightarrow> calm s s'"
proof (induction es arbitrary: s)
  case (Cons e es)
  then show ?case using calm_RemoveWaitQueue calm_trans by (cases e) (fastforce simp: bind_eq_Some_conv)
qed simp

lemma calm_FreeWait: "FreeWait p t s = Some s' \<Longrightarrow> calm s s'"
  by (auto simp: FreeWait_def bind_eq_Some_conv calm_free_waits)

lemma calm_free_entries: "calm s (fold (\<lambda>(f, w). free_entry (Some w)) es s)"
proof (induction es arbitrary: s)
  case (Cons e es)
  obtain f w where e: "e = (f, w)" by (cases e)
  show ?case using Cons.IH [of "free_entry (Some w) s"] by (simp add: e)
qed simp

lemma calm_delete_table: "delete_table p s = Some s' \<Longrightarrow> calm s s'"
  using calm_free_entries by (auto simp: delete_table_def Let_def bind_eq_Some_conv)

section \<open>Pipes and timers\<close>

lemma calm_put_body: "put_pipe f p s = Some s' \<Longrightarrow> calm s s'" "put_timer f y s = Some s' \<Longrightarrow> calm s s'"
  by (auto simp: put_pipe_def put_timer_def bind_eq_Some_conv)

lemma calm_pipe_Close: "pipe_Close E f t s = Some r \<Longrightarrow> calm s (snd r)"
proof (induction E f t s r rule: pipe_Close.raw_induct [rotated, consumes 1])
  case (1 close E f t s r)
  then obtain p where p: "pipe_at s f = Some p" by (auto simp: bind_eq_Some_conv)
  show ?case
  proof (cases "m_peer p")
    case None
    with 1(2) p have "r = (-1, set_err EBADF t s)" by simp
    then show ?thesis by simp
  next
    case (Some q)
    with 1(2) p obtain s1 r2 s2 s3 where s1: "put_pipe f (p\<lparr>m_peer := None\<rparr>) s = Some s1"
      "close E q t s1 = Some (r2, s2)" "WakeWaiters E POLLHUP f s2 = Some s3" "r = (0, s3)"
      by (auto simp: bind_eq_Some_conv)
    from calm_trans [OF calm_put_body(1) [OF s1(1)] 1(1) [OF s1(2)]] calm_WakeWaiters [OF s1(3)] s1(4)
    show ?thesis by (simp, blast intro: calm_trans)
  qed
qed

text \<open>The state that a call returns or is suspended in.\<close>

fun io_state :: "'x io io_result \<Rightarrow> 'x io" where
  "io_state (Done v s) = s"
| "io_state (Blocked fs s) = s"

lemma io_state_fails [simp]: "calm s (io_state (io_fails e t s')) = calm s s'"
  by (simp add: io_fails_def)

lemma calm_and_then:
  assumes "and_then fr k r = Some r'" and "calm s (io_state r)" and "\<And>v s1 r2. k v s1 = Some r2 \<Longrightarrow> calm s1 (io_state r2)"
  shows "calm s (io_state r')"
  using assms by (cases r) (auto intro: calm_trans)

lemma calm_wait_entry_for: "wait_entry_for E em wq s = (w, s') \<Longrightarrow> calm s s'"
  by (auto simp: wait_entry_for_def WaitQueueEntryTimeout_def split: option.split_asm dest: calm_new_entry)

lemma calm_wait_on:
  assumes "wait_entry_for E em wq s = (e, s2)" and "AddWaitQueue f e True t s2 = Some s3"
    and "entry_Wait E e t s3 = Some (to, s4)"
  shows "calm s s4"
  using calm_wait_entry_for [OF assms(1)] calm_AddWaitQueue [OF assms(2)] calm_entry_Wait [OF assms(3)] calm_trans by metis

lemma calm_recv_loop:
  assumes "recv_loop E q buf len wq t s = Some r"
  shows "calm s (io_state r)"
proof -
  from assms obtain p bs v b s1 where a: "pipe_at s q = Some p" "user_bytes buf len s = Some bs"
    "fifo_Write (io_malloc E) (m_buf p) bs len = Some (v, b)" "put_pipe q (p\<lparr>m_buf := b\<rparr>) s = Some s1"
    unfolding recv_loop_def bind_eq_Some_conv by (auto simp only: prod.case bind_eq_Some_conv)
  note c1 = calm_put_body(1) [OF a(4)]
  show ?thesis
  proof (cases "v > 0")
    case True
    with assms a obtain s2 where "WakeWaiters E POLLIN q (note_moved (Sent q (take (nat v) bs)) s1) = Some s2" "r = Done v (free_entry wq s2)"
      by (auto simp: recv_loop_def bind_eq_Some_conv)
    with calm_trans [OF c1] calm_WakeWaiters [OF this(1)] show ?thesis by simp
  next
    case False
    with assms a obtain w x where w: "m_peer p = Some w" "pipe_at s1 w = Some x"
      by (auto simp: recv_loop_def bind_eq_Some_conv)
    show ?thesis
    proof (cases "pipe_flags x AND O_NONBLOCK \<noteq> 0")
      case True
      with assms a False w have "r = io_fails EAGAIN t (free_entry wq s1)" by (simp add: recv_loop_def)
      with c1 show ?thesis by simp
    next
      case block: False
      obtain e s2 where e: "wait_entry_for E (POLLOUT OR POLLHUP) wq s1 = (e, s2)" by fastforce
      from assms a False w block e obtain s3 to s4 where s: "AddWaitQueue q e True t s2 = Some s3" "entry_Wait E e t s3 = Some (to, s4)"
        and r: "(case to of Some d \<Rightarrow> Some (Blocked [Recv_wait q buf len e d] s4)
          | None \<Rightarrow> do { s5 \<leftarrow> RemoveWaitQueue q e True t s4; Some (io_fails EAGAIN t (free_entry (Some e) s5)) }) = Some r"
        by (auto simp: recv_loop_def bind_eq_Some_conv)
      note c4 = calm_trans [OF c1 calm_wait_on [OF e s]]
      show ?thesis
      proof (cases to)
        case None
        with r obtain s5 where "RemoveWaitQueue q e True t s4 = Some s5" "r = io_fails EAGAIN t (free_entry (Some e) s5)"
          by (auto simp: bind_eq_Some_conv)
        with calm_trans [OF c4 calm_RemoveWaitQueue [OF this(1)]] show ?thesis by simp
      next
        case (Some d)
        with r c4 show ?thesis by auto
      qed
    qed
  qed
qed

lemma calm_woken:
  assumes "entry_woken w to t s = Some (res, s1)" and "RemoveWaitQueue q w True t s1 = Some s2"
  shows "calm s s2"
  by (rule calm_trans [OF calm_entry_woken [OF assms(1)] calm_RemoveWaitQueue [OF assms(2)]])

lemma calm_recv_woken: "recv_woken E q buf len w to t s = Some r \<Longrightarrow> calm s (io_state r)"
proof -
  assume a: "recv_woken E q buf len w to t s = Some r"
  then obtain res s1 s2 where s: "entry_woken w to t s = Some (res, s1)" "RemoveWaitQueue q w True t s1 = Some s2"
    unfolding recv_woken_def bind_eq_Some_conv by (auto simp only: prod.case bind_eq_Some_conv)
  note c = calm_woken [OF s]
  show ?thesis
  proof (cases res)
    case INTERRUPTED
    with a s c calm_trans [OF c calm_DoSignal] show ?thesis by (auto simp: recv_woken_def)
  next
    case TIMEOUT
    with a s c show ?thesis by (auto simp: recv_woken_def)
  next
    case OK
    with a s c show ?thesis by (auto simp: recv_woken_def dest: calm_recv_loop intro: calm_trans)
  qed
qed

lemma calm_write_return: "write_return E f v s = Some r \<Longrightarrow> calm s (io_state r)"
  by (auto simp: write_return_def Let_def bind_eq_Some_conv calm_WakeWaiters split: if_splits)

lemma calm_pipe_Write:
  assumes "pipe_Write E f buf count t s = Some r"
  shows "calm s (io_state r)"
proof -
  from assms obtain p where p: "pipe_at s f = Some p" by (auto simp: pipe_Write_def bind_eq_Some_conv)
  show ?thesis
  proof (cases "m_peer p")
    case None
    with assms p obtain s1 where "UtilsSendSignal E (pid_of s t) SIGPIPE s = Some s1" "r = io_fails EPIPE t (UtilsDoSignal t s1)"
      by (auto simp: pipe_Write_def bind_eq_Some_conv)
    with calm_trans [OF calm_SendSignal [OF this(1)] calm_DoSignal] show ?thesis by simp
  next
    case (Some q)
    with assms p show ?thesis
      by (auto simp: pipe_Write_def bind_eq_Some_conv split: if_splits intro: calm_and_then dest: calm_recv_loop calm_write_return)
  qed
qed

lemma calm_read_loop:
  assumes "read_loop E f buf count wq t s = Some r"
  shows "calm s (io_state r)"
proof -
  from assms obtain p v bs b s1 where a: "pipe_at s f = Some p" "fifo_Read (m_buf p) count = Some (v, bs, b)"
    "put_pipe f (p\<lparr>m_buf := b\<rparr>) (store_bytes buf bs s) = Some s1"
    unfolding read_loop_def bind_eq_Some_conv by (auto simp only: prod.case bind_eq_Some_conv)
  have c1: "calm s s1" using calm_put_body(1) [OF a(3)] by simp
  show ?thesis
  proof (cases "v > 0")
    case True
    let ?s = "note_moved (Received f bs) s1"
    from assms a True obtain s2 s3 where s: "(case m_peer p of None \<Rightarrow> Some ?s | Some q \<Rightarrow> WakeWaiters E POLLOUT q ?s) = Some s2"
      "WakeWaiters E POLLOUT f s2 = Some s3" "r = Done v (free_entry wq s3)"
      by (auto simp: read_loop_def Let_def bind_eq_Some_conv)
    have "calm s1 s2" using s(1) by (cases "m_peer p") (auto dest: calm_WakeWaiters)
    with c1 calm_WakeWaiters [OF s(2)] s(3) show ?thesis by (simp, blast intro: calm_trans)
  next
    case False
    show ?thesis
    proof (cases "m_peer p = None \<or> pipe_flags p AND O_NONBLOCK \<noteq> 0")
      case True
      with assms a False c1 show ?thesis by (auto simp: read_loop_def split: if_splits)
    next
      case block: False
      obtain e s2 where e: "wait_entry_for E (POLLIN OR POLLHUP) wq s1 = (e, s2)" by fastforce
      from assms a False block e obtain s3 to s4 where s: "AddWaitQueue f e True t s2 = Some s3" "entry_Wait E e t s3 = Some (to, s4)"
        and r: "(case to of Some d \<Rightarrow> Some (Blocked [Read_wait f buf count e d] s4)
          | None \<Rightarrow> do { s5 \<leftarrow> RemoveWaitQueue f e True t s4; Some (io_fails EAGAIN t (free_entry (Some e) s5)) }) = Some r"
        by (auto simp: read_loop_def bind_eq_Some_conv)
      note c4 = calm_trans [OF c1 calm_wait_on [OF e s]]
      show ?thesis
      proof (cases to)
        case None
        with r obtain s5 where "RemoveWaitQueue f e True t s4 = Some s5" "r = io_fails EAGAIN t (free_entry (Some e) s5)"
          by (auto simp: bind_eq_Some_conv)
        with calm_trans [OF c4 calm_RemoveWaitQueue [OF this(1)]] show ?thesis by simp
      next
        case (Some d)
        with r c4 show ?thesis by auto
      qed
    qed
  qed
qed

lemma calm_read_woken: "read_woken E q buf len w to t s = Some r \<Longrightarrow> calm s (io_state r)"
proof -
  assume a: "read_woken E q buf len w to t s = Some r"
  then obtain res s1 s2 where s: "entry_woken w to t s = Some (res, s1)" "RemoveWaitQueue q w True t s1 = Some s2"
    unfolding read_woken_def bind_eq_Some_conv by (auto simp only: prod.case bind_eq_Some_conv)
  note c = calm_woken [OF s]
  show ?thesis
  proof (cases res)
    case INTERRUPTED
    with a s c calm_trans [OF c calm_DoSignal] show ?thesis by (auto simp: read_woken_def)
  next
    case TIMEOUT
    with a s c show ?thesis by (auto simp: read_woken_def)
  next
    case OK
    with a s c show ?thesis by (auto simp: read_woken_def dest: calm_read_loop intro: calm_trans)
  qed
qed

lemma calm_pipe_Read: "pipe_Read E f buf count t s = Some r \<Longrightarrow> calm s (io_state r)"
  by (auto simp: pipe_Read_def bind_eq_Some_conv dest: calm_read_loop split: if_splits)

lemma calm_small_ops:
  "pipe_socket_op op t s = Some r \<Longrightarrow> calm s (io_state r)" "pipe_file_op op t s = Some r \<Longrightarrow> calm s (io_state r)"
  "pipe_timer_op op t s = Some r \<Longrightarrow> calm s (io_state r)" "timer_socket_op op t s = Some r \<Longrightarrow> calm s (io_state r)"
  "timer_file_op op t s = Some r \<Longrightarrow> calm s (io_state r)"
  by (cases op; auto)+

lemma calm_pipe_Fcntl: "pipe_Fcntl f cmd arg s = Some r \<Longrightarrow> calm s (io_state r)"
  by (auto simp: pipe_Fcntl_def bind_eq_Some_conv dest: calm_put_body(1) split: if_splits)

lemma calm_pipe_op: "pipe_op E op f t s = Some r \<Longrightarrow> calm s (io_state r)"
  by (cases op) (auto dest: calm_pipe_Write calm_pipe_Read calm_pipe_Fcntl)

lemma calm_wake_waiter: "wake_waiter E y s = Some s' \<Longrightarrow> calm s s'"
  by (auto simp: wake_waiter_def dest: calm_Wakeup split: option.splits)

lemma calm_timer_Close: "timer_Close E f s = Some (r, s') \<Longrightarrow> calm s s'"
  by (auto simp: timer_Close_def bind_eq_Some_conv dest: calm_wake_waiter)

lemma calm_timer_taken: "timer_taken f buf y s = Some r \<Longrightarrow> calm s (io_state r)"
  using calm_put_body(2) by (fastforce simp: timer_taken_def bind_eq_Some_conv)

lemma calm_timer_Read:
  assumes "timer_Read E f buf count t s = Some r"
  shows "calm s (io_state r)"
proof -
  from assms obtain y where y: "timer_at s f = Some y" by (auto simp: timer_Read_def bind_eq_Some_conv)
  show ?thesis
  proof (cases "count < 8 \<or> m_skipped y > 0")
    case True
    with assms y show ?thesis by (auto simp: timer_Read_def dest: calm_timer_taken split: if_splits)
  next
    case False
    with assms y obtain s1 s2 where "put_timer f (y\<lparr>m_waiter := Some t\<rparr>) s = Some s1" "io_Wait E s1 = Some s2" "r = Blocked [Timer_wait f buf] s2"
      by (auto simp: timer_Read_def bind_eq_Some_conv)
    with calm_trans [OF calm_put_body(2) [OF this(1)] calm_Wait [OF this(2)]] show ?thesis by simp
  qed
qed

lemma calm_timer_woken: "timer_woken f buf s = Some r \<Longrightarrow> calm s (io_state r)"
  by (auto simp: timer_woken_def bind_eq_Some_conv dest: calm_timer_taken)

lemma calm_schedule_timer: "schedule_timer E d f s = (i, s') \<Longrightarrow> calm s s'"
  by (auto simp: schedule_timer_def split: prod.splits)

lemma calm_TimerExpired:
  assumes "TimerExpired E f s = Some s'"
  shows "calm s s'"
proof -
  from assms obtain y where y: "timer_at s f = Some y" by (auto simp: TimerExpired_def bind_eq_Some_conv)
  obtain y1 s1 where p: "(if m_period y \<noteq> 0 then let (i, s') = schedule_timer E (m_period y) f s in (y\<lparr>m_timer := Some i\<rparr>, s') else (y, s)) = (y1, s1)"
    by fastforce
  with assms y obtain s2 where s2: "put_timer f (y1\<lparr>m_skipped := m_skipped y1 + 1\<rparr>) s1 = Some s2" "wake_waiter E y1 s2 = Some s'"
    by (auto simp: TimerExpired_def bind_eq_Some_conv)
  have "calm s s1" using p by (auto split: if_splits prod.splits dest: calm_schedule_timer)
  with calm_put_body(2) [OF s2(1)] calm_wake_waiter [OF s2(2)] show ?thesis by (blast intro: calm_trans)
qed

lemma calm_timer_Gettime: "timer_Gettime E f a s = Some (r, s') \<Longrightarrow> calm s s'"
  by (auto simp: timer_Gettime_def Let_def bind_eq_Some_conv)

lemma calm_ExecOnMain [simp]: "calm s1 (s\<lparr>io_tm := ExecOnMain (\<lambda>m. m) (io_tm s)\<rparr>) = calm s1 s"
  "calm (s\<lparr>io_tm := ExecOnMain (\<lambda>m. m) (io_tm s)\<rparr>) s1 = calm s s1"
  by (auto simp: calm_def ExecOnMain_def tm_calm_def blocked_def)

lemma calm_SettimeMain: "SettimeMain E d f s = Some s' \<Longrightarrow> calm s s'"
  by (cases "schedule_timer E d f s")
    (auto simp: SettimeMain_def bind_eq_Some_conv dest!: calm_schedule_timer calm_put_body(2) intro: calm_trans)

lemma calm_timer_Settime:
  assumes "timer_Settime E f flags new_value old_value s = Some r"
  shows "calm s (io_state r)"
proof -
  from assms have fl: "flags = 0" by (simp add: timer_Settime_def split: if_splits)
  from assms fl obtain s1 y where s1: "(case old_value of None \<Rightarrow> Some s | Some a \<Rightarrow> do { (r, s') \<leftarrow> timer_Gettime E f a s; Some s' }) = Some s1"
    and y: "timer_at s1 f = Some y" by (auto simp: timer_Settime_def bind_eq_Some_conv)
  let ?new = "itimers s1 new_value"
  from assms fl s1 y obtain s3 s4 where s: "put_timer f (y\<lparr>m_skipped := 0, m_period := UtilsTimespecToTime (it_interval ?new)\<rparr>) (timer_Cancel E y s1) = Some s3"
    "(if UtilsTimespecToTime (it_value ?new) \<noteq> 0
      then SettimeMain E (UtilsTimespecToTime (it_value ?new)) f (s3\<lparr>io_tm := ExecOnMain (\<lambda>m. m) (io_tm s3)\<rparr>) else Some s3) = Some s4" "r = Done 0 s4"
    by (auto simp: timer_Settime_def Let_def bind_eq_Some_conv)
  have "calm s s1" using s1 by (cases old_value) (auto simp: bind_eq_Some_conv dest: calm_timer_Gettime)
  moreover have "calm s1 s3" using calm_put_body(2) [OF s(1)] by simp
  moreover have "calm s3 s4" using s(2) calm_SettimeMain [of E _ f "s3\<lparr>io_tm := ExecOnMain (\<lambda>m. m) (io_tm s3)\<rparr>" s4] by (auto split: if_splits)
  ultimately show ?thesis using s(3) by (auto intro: calm_trans)
qed

lemma calm_timer_op: "timer_op E op f t s = Some r \<Longrightarrow> calm s (io_state r)"
  by (cases op) (auto simp: timer_Write_def timer_Ftruncate_def bind_eq_Some_conv
      dest: calm_timer_Read calm_timer_Settime calm_timer_Gettime)

lemma calm_file_op: "file_op E op f t s = Some r \<Longrightarrow> calm s (io_state r)"
  by (cases "map_option m_body (files s f)") (auto simp: file_op_def dest: calm_pipe_op calm_timer_op split: fd_body.split_asm)

lemma calm_file_Close: "file_Close E f t s = Some (r, s') \<Longrightarrow> calm s s'"
  using calm_pipe_Close [of E f t s "(r, s')"] calm_timer_Close [of E f s r s']
  by (cases "map_option m_body (files s f)") (auto simp: file_Close_def split: fd_body.split_asm)

lemma calm_enter: "(case p of None \<Rightarrow> Some s | Some p \<Rightarrow> PollWait p f t s) = Some s' \<Longrightarrow> calm s s'"
  by (cases p) (auto dest: calm_PollWait)

lemma calm_Poll: "pipe_Poll f p t s = Some (e, s') \<Longrightarrow> calm s s'" "timer_Poll f p t s = Some (e, s') \<Longrightarrow> calm s s'"
  by (auto simp: pipe_Poll_def timer_Poll_def bind_eq_Some_conv Let_def dest: calm_enter)

lemma calm_file_Poll: "file_Poll f p t s = Some (e, s') \<Longrightarrow> calm s s'"
  by (cases "map_option m_body (files s f)") (auto simp: file_Poll_def dest: calm_Poll split: fd_body.split_asm)

section \<open>The descriptor table\<close>

lemma calm_counts:
  "IncFdCount f s = Some s' \<Longrightarrow> calm s s'" "Ref f s = Some s' \<Longrightarrow> calm s s'" "Unref f s = Some s' \<Longrightarrow> calm s s'"
  "DecFdCount f s = Some s' \<Longrightarrow> calm s s'" "GetFileInc u s = Some (g, s') \<Longrightarrow> calm s s'"
  "DecUsage u s = Some (b, s') \<Longrightarrow> calm s s'" "CanForget u s = Some (b, s') \<Longrightarrow> calm s s'" "NullifyUsage u s = Some s' \<Longrightarrow> calm s s'"
  by (auto simp: IncFdCount_def Ref_def Unref_def DecFdCount_def GetFileInc_def DecUsage_def CanForget_def NullifyUsage_def
      bind_eq_Some_conv split: if_splits)

lemma calm_delete_usage: "delete_usage u s = Some s' \<Longrightarrow> calm s s'"
  by (auto simp: delete_usage_def bind_eq_Some_conv dest!: calm_counts intro: calm_trans)

lemma calm_FileUsage: "FileUsage fd f s = (u, s') \<Longrightarrow> calm s s'"
  by (auto simp: FileUsage_def)

lemma calm_forget: "(if b then delete_usage u (set_fd p fd None s) else Some s) = Some s' \<Longrightarrow> calm s s'"
  by (auto dest: calm_delete_usage split: if_splits)

lemma calm_method_return: "method_return fd u narrow t v s = Some r \<Longrightarrow> calm s (io_state r)"
proof -
  assume "method_return fd u narrow t v s = Some r"
  then obtain free s1 s2 where "DecUsage u s = Some (free, s1)"
    "(if free then delete_usage u (set_fd (pid_of s t) fd None s1) else Some s1) = Some s2" "r = Done (as_int narrow v) s2"
    unfolding method_return_def bind_eq_Some_conv by (auto simp only: prod.case bind_eq_Some_conv option.inject)
  with calm_trans [OF calm_counts(6) [OF this(1)] calm_forget [OF this(2)]] show ?thesis by simp
qed

lemma calm_method:
  assumes "opened_fd_method E errCode narrow fd op s = Some r"
  shows "calm s (io_state r)"
proof -
  from assms obtain t where t: "m_current (io_tm s) = Some t" by (auto simp: opened_fd_method_def bind_eq_Some_conv)
  show ?thesis
  proof (cases "openFiles s (pid_of s t) fd")
    case None
    with assms t show ?thesis by (auto simp: opened_fd_method_def)
  next
    case (Some u)
    with assms t obtain x where x: "usages s u = Some x" by (auto simp: opened_fd_method_def bind_eq_Some_conv)
    show ?thesis
    proof (cases "u_closing x")
      case True
      with assms t Some x show ?thesis by (auto simp: opened_fd_method_def)
    next
      case False
      with assms t Some x obtain f s1 r1 where s: "GetFileInc u s = Some (f, s1)" "file_op E op f t s1 = Some r1"
        "and_then (Method_return fd u narrow) (method_return fd u narrow t) r1 = Some r"
        by (auto simp: opened_fd_method_def bind_eq_Some_conv)
      have "calm s1 (io_state r)" by (rule calm_and_then [OF s(3) calm_file_op [OF s(2)] calm_method_return])
      with calm_counts(5) [OF s(1)] show ?thesis by (rule calm_trans)
    qed
  qed
qed

lemma calm_dce_close:
  assumes "dce_close E fd s = Some (r, s')"
  shows "calm s s'"
proof -
  from assms obtain t where t: "m_current (io_tm s) = Some t" by (auto simp: dce_close_def bind_eq_Some_conv)
  show ?thesis
  proof (cases "openFiles s (pid_of s t) fd")
    case None
    with assms t show ?thesis by (auto simp: dce_close_def)
  next
    case (Some u)
    with assms t obtain x :: file_usage and y :: unix_fd and s1 forget s2 where s: "(if m_fdCount y = 1 then file_Close E (u_file x) t s else Some (0, s)) = Some (r, s1)"
      "CanForget u s1 = Some (forget, s2)" "(if forget then delete_usage u (set_fd (pid_of s t) fd None s2) else Some s2) = Some s'"
      by (simp add: dce_close_def bind_eq_Some_conv) blast
    from s(1) have "calm s s1" by (auto split: if_splits dest: calm_file_Close)
    with calm_counts(7) [OF s(2)] calm_forget [OF s(3)] show ?thesis by (blast intro: calm_trans)
  qed
qed

lemma calm_share_fd:
  assumes "share_fd p oldfd fd s = Some s'"
  shows "calm s s'"
proof -
  from assms obtain u and x :: file_usage and s1 s2 where s: "IncFdCount (u_file x) s = Some s1" "Ref (u_file x) s1 = Some s2"
    and s': "(let (v, s3) = FileUsage fd (u_file x) s2 in Some (set_fd p fd (Some v) s3)) = Some s'"
    unfolding share_fd_def bind_eq_Some_conv by blast
  obtain v s3 where f: "FileUsage fd (u_file x) s2 = (v, s3)" by fastforce
  with s' have "s' = set_fd p fd (Some v) s3" by simp
  with calm_trans [OF calm_trans [OF calm_counts(1) [OF s(1)] calm_counts(2) [OF s(2)]] calm_FileUsage [OF f]] show ?thesis by simp
qed

lemma calm_dup: "dce_dup fd s = Some (r, s') \<Longrightarrow> calm s s'"
  by (auto simp: dce_dup_def bind_eq_Some_conv Let_def dest: calm_share_fd split: if_splits)

lemma calm_dup2:
  assumes "dce_dup2 E oldfd newfd s = Some (r, s')"
  shows "calm s s'"
proof -
  from assms obtain t ok where t: "m_current (io_tm s) = Some t" "CheckFdExists (pid_of s t) oldfd True s = Some ok"
    by (auto simp: dce_dup2_def bind_eq_Some_conv)
  show ?thesis
  proof (cases "(\<not> ok \<or> newfd > int MAX_FDS) \<or> oldfd = newfd")
    case True
    with assms t show ?thesis by (auto simp: dce_dup2_def split: if_splits)
  next
    case False
    with assms t obtain opened r1 s1 where s1: "(if opened then dce_close E newfd s else Some (0, s)) = Some (r1, s1)"
      and rest: "(if r1 \<noteq> 0 then Some (-1, set_err EBADF t s1) else do { busy \<leftarrow> CheckFdExists (pid_of s t) newfd False s1;
          if busy then Some (-1, set_err EBADF t s1)
          else do { s2 \<leftarrow> share_fd (pid_of s t) oldfd newfd s1; Some (newfd, s2) } }) = Some (r, s')"
      by (auto simp: dce_dup2_def bind_eq_Some_conv)
    have "calm s s1" using s1 by (auto split: if_splits dest: calm_dce_close)
    moreover have "calm s1 s'" using rest by (auto simp: bind_eq_Some_conv split: if_splits dest: calm_share_fd)
    ultimately show ?thesis by (rule calm_trans)
  qed
qed

lemma calm_new_file: "new_file b s = (f, s') \<Longrightarrow> calm s s'"
  by (auto simp: new_file_def)

lemma calm_PipeFd_writer: "PipeFd_writer peer s = Some (w, s') \<Longrightarrow> calm s s'"
  by (auto simp: PipeFd_writer_def bind_eq_Some_conv split: prod.split_asm dest!: calm_new_file calm_put_body(1) intro: calm_trans)

lemma calm_delete_file: "delete_file f s = Some s' \<Longrightarrow> calm s s'"
  by (auto simp: delete_file_def bind_eq_Some_conv)

lemma calm_pipe_made:
  assumes "PipeFd_reader s = (reader, s1)" and "FileUsage fd reader s1 = (u, s2)"
  shows "calm s (set_fd p fd (Some u) s2)"
  using calm_trans [OF calm_new_file calm_FileUsage [OF assms(2)]] assms(1) by (simp add: PipeFd_reader_def)

lemma calm_dce_pipe:
  assumes "dce_pipe a s = Some (r, s')"
  shows "calm s s'"
proof -
  from assms obtain t where t: "m_current (io_tm s) = Some t" by (auto simp: dce_pipe_def bind_eq_Some_conv)
  let ?p = "pid_of s t" let ?fd = "UtilsAllocateFd (pid_of s t) s"
  show ?thesis
  proof (cases "a = None \<or> ?fd = -1")
    case True
    with assms t show ?thesis by (auto simp: dce_pipe_def Let_def split: option.split_asm)
  next
    case False
    then obtain b where b: "a = Some b" and fd: "?fd \<noteq> -1" by auto
    obtain reader s1 where reader: "PipeFd_reader s = (reader, s1)" by fastforce
    obtain u s2 where u: "FileUsage ?fd reader s1 = (u, s2)" by fastforce
    let ?s3 = "set_fd ?p ?fd (Some u) s2"
    note c3 = calm_pipe_made [OF reader u, of ?p]
    show ?thesis
    proof (cases "UtilsAllocateFd ?p ?s3 = -1")
      case True
      with assms t b fd reader u obtain s4 s5 where "delete_usage u ?s3 = Some s4"
        "delete_file reader (set_fd ?p ?fd None s4) = Some s5" "s' = set_err EMFILE t s5"
        by (auto simp: dce_pipe_def Let_def bind_eq_Some_conv)
      with calm_trans [OF c3 calm_delete_usage [OF this(1)]] calm_delete_file [OF this(2)] show ?thesis
        by (auto intro: calm_trans)
    next
      case False
      let ?fdw = "UtilsAllocateFd ?p ?s3"
      from assms t b fd reader u False obtain writer s4 where w: "PipeFd_writer reader ?s3 = Some (writer, s4)"
        by (auto simp: dce_pipe_def Let_def bind_eq_Some_conv)
      obtain v s5 where v: "FileUsage ?fdw writer s4 = (v, s5)" by fastforce
      from assms t b fd reader u False w v obtain s7 s8 where s: "IncFdCount reader (set_fd ?p ?fdw (Some v) s5) = Some s7"
        "IncFdCount writer s7 = Some s8" "s' = s8\<lparr>fd_pair := (fd_pair s8)(b := (?fd, ?fdw))\<rparr>"
        by (auto simp: dce_pipe_def Let_def bind_eq_Some_conv)
      have "calm ?s3 s5" by (rule calm_trans [OF calm_PipeFd_writer [OF w] calm_FileUsage [OF v]])
      moreover have "calm s5 s8" using calm_trans [OF calm_counts(1) [OF s(1)] calm_counts(1) [OF s(2)]] by simp
      ultimately show ?thesis using c3 s(3) by (auto intro: calm_trans)
    qed
  qed
qed

lemma calm_timer_create:
  assumes "dce_timerfd_create s = Some (r, s')"
  shows "calm s s'"
proof -
  from assms obtain t where t: "m_current (io_tm s) = Some t" by (auto simp: dce_timerfd_create_def bind_eq_Some_conv)
  let ?p = "pid_of s t" let ?fd = "UtilsAllocateFd (pid_of s t) s"
  show ?thesis
  proof (cases "?fd = -1")
    case True
    with assms t show ?thesis by (auto simp: dce_timerfd_create_def Let_def)
  next
    case False
    obtain f s1 where f: "UnixTimerFd s = (f, s1)" by fastforce
    from assms t False f obtain s2 where s2: "IncFdCount f s1 = Some s2"
      by (auto simp: dce_timerfd_create_def Let_def bind_eq_Some_conv)
    obtain u s3 where u: "FileUsage ?fd f s2 = (u, s3)" by fastforce
    from assms t False f s2 u have "s' = set_fd ?p ?fd (Some u) s3"
      by (auto simp: dce_timerfd_create_def Let_def)
    with calm_trans [OF calm_new_file calm_counts(1) [OF s2]] f calm_FileUsage [OF u] show ?thesis
      by (auto simp: UnixTimerFd_def intro: calm_trans)
  qed
qed

lemma calm_close_fds: "close_fds E p fds s = Some s' \<Longrightarrow> calm s s'"
proof (induction fds arbitrary: s)
  case (Cons fd fds)
  then show ?case by (auto simp: bind_eq_Some_conv dest!: calm_counts(8) calm_dce_close intro: calm_trans)
qed simp

lemma calm_clone_fds: "clone_fds p c fds s = Some s' \<Longrightarrow> calm s s'"
proof (induction fds arbitrary: s)
  case (Cons fd fds)
  then obtain u and x :: file_usage and s1 s2 where s: "IncFdCount (u_file x) s = Some s1" "Ref (u_file x) s1 = Some s2"
    and s': "(let (v, s3) = FileUsage fd (u_file x) s2 in clone_fds p c fds (set_fd c fd (Some v) s3)) = Some s'"
    unfolding clone_fds.simps bind_eq_Some_conv by blast
  obtain v s3 where f: "FileUsage fd (u_file x) s2 = (v, s3)" by fastforce
  with s' have "clone_fds p c fds (set_fd c fd (Some v) s3) = Some s'" by simp
  from Cons.IH [OF this] have "calm s3 s'" by simp
  with calm_trans [OF calm_trans [OF calm_counts(1) [OF s(1)] calm_counts(2) [OF s(2)]] calm_FileUsage [OF f]]
  show ?case by (auto intro: calm_trans)
qed simp

section \<open>\<open>poll\<close> and \<open>select\<close>\<close>

lemma calm_AdvanceTime: "UtilsAdvanceTime E count t s = Some r \<Longrightarrow> calm s (io_state r)"
  by (auto simp: UtilsAdvanceTime_def bind_eq_Some_conv dest: calm_Wait_timeout split: if_splits)

lemma calm_poll_scan:
  "poll_scan arr js currentTable count toUnRef t s = Some (n, us, s') \<Longrightarrow> calm s s'"
proof (induction js arbitrary: currentTable count toUnRef s)
  case Nil
  then show ?case by simp
next
  case (Cons i js)
  let ?p = "poll_array s arr ! i"
  let ?fd = "poll_fd ?p" and ?want = "poll_events ?p OR POLLERR OR POLLHUP"
  from Cons.prems obtain ok where ok: "CheckFdExists (pid_of s t) ?fd True s = Some ok"
    by (auto simp: Let_def bind_eq_Some_conv)
  show ?case
  proof (cases ok)
    case False
    with Cons.prems ok have "poll_scan arr js currentTable count toUnRef t s = Some (n, us, s')" by (simp add: Let_def)
    then show ?thesis by (rule Cons.IH)
  next
    case True
    with Cons.prems ok obtain u f unref s1 e s2 where u: "openFiles s (pid_of s t) ?fd = Some u"
      and f: "(case currentTable of None \<Rightarrow> do { x \<leftarrow> usages s u; Some (u_file x, toUnRef, s) }
        | Some tb \<Rightarrow> do { (f, s1) \<leftarrow> GetFileInc u s; s2 \<leftarrow> SetEventMask tb ?want s1; Some (f, AList.update ?fd u toUnRef, s2) }) = Some (f, unref, s1)"
      and e: "file_Poll f currentTable t s1 = Some (e, s2)"
      and rest: "(if e AND ?want \<noteq> 0 then poll_scan arr js None (count + 1) unref t (set_revents arr i (e AND ?want) s2)
          else poll_scan arr js currentTable count unref t (set_revents arr i (e AND ?want) s2)) = Some (n, us, s')"
      by (auto simp: Let_def bind_eq_Some_conv)
    have "calm s s1" using f by (cases currentTable) (auto simp: bind_eq_Some_conv dest!: calm_counts(5) calm_SetEventMask intro: calm_trans)
    moreover have "calm s1 s2" by (rule calm_file_Poll [OF e])
    moreover have "calm (set_revents arr i (e AND ?want) s2) s'"
    proof (cases "e AND ?want \<noteq> 0")
      case True
      with rest have "poll_scan arr js None (count + 1) unref t (set_revents arr i (e AND ?want) s2) = Some (n, us, s')" by simp
      then show ?thesis by (rule Cons.IH)
    next
      case False
      with rest have "poll_scan arr js currentTable count unref t (set_revents arr i (e AND ?want) s2) = Some (n, us, s')" by simp
      then show ?thesis by (rule Cons.IH)
    qed
    ultimately show ?thesis by (simp, blast intro: calm_trans)
  qed
qed

lemma calm_unref_all: "unref_all us s = Some s' \<Longrightarrow> calm s s'"
proof (induction us arbitrary: s)
  case (Cons x us)
  obtain fd u where x: "x = (fd, u)" by (cases x)
  with Cons.prems obtain free s1 where s1: "DecUsage u s = Some (free, s1)" "unref_all us s1 = Some s'"
    by (auto simp: bind_eq_Some_conv)
  from calm_trans [OF calm_counts(6) [OF s1(1)] Cons.IH [OF s1(2)]] show ?case .
qed simp

lemma calm_poll_finish: "poll_finish E count timeout table toUnRef t s = Some r \<Longrightarrow> calm s (io_state r)"
proof -
  assume "poll_finish E count timeout table toUnRef t s = Some r"
  then obtain s1 s2 s3 where s: "FreeWait table t s = Some s1" "delete_table table s1 = Some s2" "unref_all toUnRef s2 = Some s3"
    and r: "(if count = 0 \<and> timeout = 0 then UtilsAdvanceTime E count t s3 else Some (Done count s3)) = Some r"
    unfolding poll_finish_def bind_eq_Some_conv by blast
  have "calm s3 (io_state r)" using r by (auto split: if_splits dest: calm_AdvanceTime)
  with calm_trans [OF calm_trans [OF calm_FreeWait [OF s(1)] calm_delete_table [OF s(2)]] calm_unref_all [OF s(3)]]
  show ?thesis by (rule calm_trans)
qed

lemma calm_table_Wait: "table_Wait E table to t s = Some s' \<Longrightarrow> calm s s'"
  using calm_Wait_timeout by (fastforce simp: table_Wait_def bind_eq_Some_conv)

lemma calm_poll_loop:
  assumes "poll_loop E arr nfds timeout endtime table currentTable toUnRef t s = Some r"
  shows "calm s (io_state r)"
proof -
  from assms obtain count unref s1 where scan: "poll_scan arr [0 ..< nfds] currentTable 0 toUnRef t s = Some (count, unref, s1)"
    by (auto simp: poll_loop_def bind_eq_Some_conv)
  have "calm s1 (io_state r)"
    using assms scan by (auto simp: poll_loop_def Let_def bind_eq_Some_conv split: if_splits dest: calm_poll_finish calm_table_Wait)
  with calm_poll_scan [OF scan] show ?thesis by (rule calm_trans)
qed

lemma calm_poll_woken:
  assumes "poll_woken E arr nfds timeout endtime table toUnRef t s = Some r"
  shows "calm s (io_state r)"
proof -
  from assms obtain x :: poll_table where "poll_loop E arr nfds timeout endtime table None toUnRef t
      (put_table table (x\<lparr>m_waitTask := None\<rparr>) (s\<lparr>pollTable := (pollTable s)(t := None)\<rparr>)) = Some r"
    unfolding poll_woken_def bind_eq_Some_conv by blast
  from calm_poll_loop [OF this] show ?thesis by simp
qed

lemma calm_PollTable: "PollTable s = (p, s') \<Longrightarrow> calm s s'"
  by (auto simp: PollTable_def)

lemma calm_dce_poll:
  assumes "dce_poll E arr nfds timeout s = Some r"
  shows "calm s (io_state r)"
proof -
  obtain table s1 where tb: "PollTable s = (table, s1)" by fastforce
  with assms obtain t c e where "poll_loop E arr nfds timeout e table c [] t
      (s1\<lparr>poll_array := (poll_array s1)(arr := map (\<lambda>p. p\<lparr>poll_revents := 0\<rparr>) (take nfds (poll_array s1 arr)) @ drop nfds (poll_array s1 arr))\<rparr>) = Some r"
    by (auto simp: dce_poll_def Let_def bind_eq_Some_conv split: if_split_asm)
  from calm_poll_loop [OF this] calm_PollTable [OF tb] show ?thesis by (auto intro: calm_trans)
qed

lemma calm_select_collect: "calm s (snd r) \<Longrightarrow> calm s (snd (select_collect ps rd wr ex r))"
proof (induction ps arbitrary: r)
  case (Cons p ps)
  have one: "calm s (snd r) \<Longrightarrow> calm s (snd (select_one fd a hit r))" for fd a hit and r :: "int \<times> 'a io"
    by (auto simp: select_one_def split: option.split)
  show ?case by (simp add: Let_def) (intro Cons.IH one Cons.prems)
qed simp

lemma calm_select_return: "select_return arr nfds rd wr ex v s = Some r \<Longrightarrow> calm s (io_state r)"
  using calm_select_collect [of s "(0, FD_ZERO ex (FD_ZERO wr (FD_ZERO rd s)))"]
  by (auto simp: select_return_def Let_def split: if_splits prod.split_asm) (metis snd_conv)

lemma calm_dce_select:
  assumes "dce_select E nfds rd wr ex timeout s = Some r"
  shows "calm s (io_state r)"
proof -
  from assms obtain t where t: "m_current (io_tm s) = Some t" by (auto simp: dce_select_def bind_eq_Some_conv)
  define neg where "neg = (case timeout of None \<Rightarrow> False | Some (sec, usec) \<Rightarrow> sec < 0 \<or> usec < 0)"
  show ?thesis
  proof (cases "nfds = -1 \<or> (rd = None \<and> wr = None \<and> ex = None) \<or> neg")
    case True
    with assms t have "r = io_fails EINVAL t s"
      by (cases timeout; cases "nfds = -1"; cases "rd = None \<and> wr = None \<and> ex = None") (auto simp: dce_select_def neg_def)
    then show ?thesis by simp
  next
    case False
    with assms t obtain found where found: "select_events (map int [0 ..< nat nfds]) rd wr ex [] t s = Some found"
      by (auto simp: dce_select_def neg_def [symmetric] bind_eq_Some_conv simp del: upt_conv_Cons)
    show ?thesis
    proof (cases found)
      case None
      with assms t False found have "r = io_fails EBADF t s" by (auto simp: dce_select_def neg_def [symmetric] simp del: upt_conv_Cons)
      then show ?thesis by simp
    next
      case (Some fds)
      let ?arr = "Stack (next_new s)"
      let ?s1 = "s\<lparr>next_new := next_new s + 1, poll_array := (poll_array s)(?arr := fds)\<rparr>"
      from assms t False found Some obtain to r1 where p: "dce_poll E ?arr (length fds) to ?s1 = Some r1"
        "and_then (Select_return ?arr (length fds) rd wr ex) (select_return ?arr (length fds) rd wr ex) r1 = Some r"
        by (auto simp: dce_select_def neg_def [symmetric] Let_def bind_eq_Some_conv simp del: upt_conv_Cons)
      have "calm ?s1 (io_state r)" by (rule calm_and_then [OF p(2) calm_dce_poll [OF p(1)] calm_select_return])
      then show ?thesis by simp
    qed
  qed
qed

section \<open>Calls and steps\<close>

lemma calm_returned: "returned r = Some r' \<Longrightarrow> (\<And>v s1. r = Some (v, s1) \<Longrightarrow> calm s s1) \<Longrightarrow> calm s (io_state r')"
  by (auto simp: returned_def bind_eq_Some_conv)

lemma calm_fcntl: "dce_fcntl E fd cmd arg s = Some r \<Longrightarrow> calm s (io_state r)"
  by (auto simp: dce_fcntl_def bind_eq_Some_conv split: if_splits dest: calm_dup calm_method)

lemma calm_exec: "exec_io E c s = Some r \<Longrightarrow> calm s (io_state r)"
proof (cases c)
  case (Close_call fd)
  then show "exec_io E c s = Some r \<Longrightarrow> ?thesis" by (auto elim!: calm_returned dest: calm_dce_close)
next
  case (Dup_call fd)
  then show "exec_io E c s = Some r \<Longrightarrow> ?thesis" by (auto elim!: calm_returned dest: calm_dup)
next
  case (Dup2_call fd newfd)
  then show "exec_io E c s = Some r \<Longrightarrow> ?thesis" by (auto elim!: calm_returned dest: calm_dup2)
next
  case (Pipe_call a)
  then show "exec_io E c s = Some r \<Longrightarrow> ?thesis" by (auto elim!: calm_returned dest: calm_dce_pipe)
next
  case Timer_call
  then show "exec_io E c s = Some r \<Longrightarrow> ?thesis" by (auto elim!: calm_returned dest: calm_timer_create)
qed (auto simp: dce_write_def dce_read_def dest: calm_method calm_fcntl calm_dce_poll calm_dce_select)

lemma calm_resume: "resume_io E fr v t s = Some r \<Longrightarrow> calm s (io_state r)"
  by (cases fr) (auto dest: calm_read_woken calm_recv_woken calm_write_return calm_timer_woken calm_method_return
      calm_poll_woken calm_select_return)

lemma calm_resume_frames: "resume_frames E fs v t s = Some r \<Longrightarrow> calm s (io_state r)"
proof (induction fs arbitrary: v s)
  case Nil
  then show ?case by auto
next
  case (Cons fr fs)
  then obtain r1 where r1: "resume_io E fr v t s = Some r1"
    and rest: "(case r1 of Done v' s' \<Rightarrow> resume_frames E fs v' t s' | Blocked gs s' \<Rightarrow> Some (Blocked (gs @ fs) s')) = Some r"
    by (auto simp: bind_eq_Some_conv)
  have "calm (io_state r1) (io_state r)" using rest Cons.IH by (cases r1) auto
  with calm_resume [OF r1] show ?case by (rule calm_trans)
qed

lemma calm_settle: "calm s (io_settle t r) = calm s (io_state r)"
  by (cases r) simp_all

text \<open>What a step of the processes does to the tasks, when it leaves the threads alone.\<close>

theorem io_step_calm:
  assumes "io_step E s s'"
  shows "new_task (io_tm s) \<le> new_task (io_tm s')
    \<and> (\<forall>t. m_current (io_tm s) \<noteq> Some t \<longrightarrow> blocked t (io_tm s') \<longrightarrow> blocked t (io_tm s))"
proof -
  have still: ?thesis if "calm s s'" using that by (simp add: calm_def tm_calm_def)
  show ?thesis
    using assms
  proof cases
    case (call t c r)
    with calm_exec [of E c s r] still show ?thesis by (simp add: calm_settle)
  next
    case (resume t r)
    with calm_resume_frames [of E _ 0 t s r] still show ?thesis by (simp add: calm_settle)
  next
    case (fork c p)
    show ?thesis by (rule still [OF calm_clone_fds [OF fork(2) [unfolded clone_files_def]]])
  next
    case (exit t)
    with still calm_close_fds show ?thesis by blast
  next
    case (signal p sig)
    with still calm_SendSignal show ?thesis by blast
  next
    case (expire f x)
    with calm_TimerExpired [OF expire(3)] still show ?thesis by simp
  next
    case (other m)
    with tm_step_states show ?thesis by auto
  qed simp_all
qed

end
