(* ===== verification/Process_Invariant.thy ===== *)
theory Process_Invariant
  imports Process_Tree Io_Calm
begin

text \<open>
  The threads of the processes, the calls that wait for a child, and what leaves them alone: the calls
  on descriptors, waking, signals, and changes of a process or a thread that are not about them.
\<close>

section \<open>Threads and waiting calls\<close>

definition threads_ok :: "'x node \<Rightarrow> bool" where
  "threads_ok s \<longleftrightarrow>
     (\<forall>t x. thread_at s t = Some x \<longrightarrow> t \<in> set (threads_of (process_of t s) s) \<and> t < new_task (io_tm (nio s)))
     \<and> (\<forall>pid t. t \<in> set (threads_of pid s) \<longrightarrow> thread_at s t \<noteq> None \<and> process_of t s = pid)
     \<and> (\<forall>pid. distinct (threads_of pid s))
     \<and> (\<forall>pid. threads_of pid s \<noteq> [] \<longrightarrow> (\<exists>p. m_processes s pid = Some p \<and> p_alloc p))"

text \<open>A child for which a call of \<open>waitpid\<close> with the argument \<open>w\<close> does not have to wait.\<close>

definition ended_child :: "int \<Rightarrow> proc \<Rightarrow> (uint16 \<rightharpoonup> proc) \<Rightarrow> bool" where
  "ended_child w p m \<longleftrightarrow>
     (\<exists>c \<in> p_children p. \<exists>q. m c = Some q \<and> \<not> p_alloc q \<and> (w = -1 \<or> w = uint c))"

definition waits :: "task \<Rightarrow> 'x node \<Rightarrow> bool" where
  "waits t s \<longleftrightarrow> (\<exists>pid st op w. node_frame s t = Some (Wait_child pid st op w))"

text \<open>A suspended \<open>waitpid\<close> has its \<open>Waiter\<close>, and its thread is awake when a child has ended.\<close>

definition wait_ok :: "task \<Rightarrow> 'x node \<Rightarrow> bool" where
  "wait_ok t s \<longleftrightarrow>
     (\<forall>x w. thread_at s t = Some x \<longrightarrow> childWaiter x = Some w \<longrightarrow> w < next_waiter s
        \<and> (\<exists>pid st op. node_frame s t = Some (Wait_child pid st op w)))
     \<and> (\<forall>pid st op w. node_frame s t = Some (Wait_child pid st op w) \<longrightarrow>
          (\<exists>x y. thread_at s t = Some x \<and> childWaiter x = Some w \<and> waiter_at s w = Some y \<and> w_waiting y = Some t)
          \<and> (\<forall>p. m_processes s (process_of t s) = Some p \<longrightarrow> ended_child pid p (m_processes s) \<longrightarrow>
               \<not> blocked t (io_tm (nio s))))"

definition waits_but :: "task set \<Rightarrow> 'x node \<Rightarrow> bool" where
  "waits_but U s \<longleftrightarrow> (\<forall>t. t \<notin> U \<longrightarrow> wait_ok t s)"

text \<open>
  The invariant between the parts of a call; the running thread is in none of the waiting calls that
  it speaks about. Between two steps of a node the running thread may have just been woken in one.
\<close>

definition inner_inv :: "task set \<Rightarrow> 'x node \<Rightarrow> bool" where
  "inner_inv U s \<longleftrightarrow> tree_ok (m_processes s) \<and> threads_ok s \<and> waits_but U s
     \<and> (\<forall>t. Current s = Some t \<longrightarrow> t \<in> U \<or> \<not> waits t s)"

definition node_inv :: "'x node \<Rightarrow> bool" where
  "node_inv s \<longleftrightarrow> tree_ok (m_processes s) \<and> threads_ok s \<and> waits_but {} s"

lemma threads_okD:
  assumes "threads_ok s"
  shows "thread_at s t = Some x \<Longrightarrow> t \<in> set (threads_of (process_of t s) s) \<and> t < new_task (io_tm (nio s))"
    and "t \<in> set (threads_of pid s) \<Longrightarrow> thread_at s t \<noteq> None \<and> process_of t s = pid"
    and "distinct (threads_of pid s)"
    and "threads_of pid s \<noteq> [] \<Longrightarrow> \<exists>p. m_processes s pid = Some p \<and> p_alloc p"
  using assms unfolding threads_ok_def by blast+

lemma threads_okI:
  assumes "\<And>t x. thread_at s t = Some x \<Longrightarrow> t \<in> set (threads_of (process_of t s) s) \<and> t < new_task (io_tm (nio s))"
    and "\<And>pid t. t \<in> set (threads_of pid s) \<Longrightarrow> thread_at s t \<noteq> None \<and> process_of t s = pid"
    and "\<And>pid. distinct (threads_of pid s)"
    and "\<And>pid. threads_of pid s \<noteq> [] \<Longrightarrow> \<exists>p. m_processes s pid = Some p \<and> p_alloc p"
  shows "threads_ok s"
  using assms unfolding threads_ok_def by blast

lemma wait_okD:
  assumes "wait_ok t s"
  shows "thread_at s t = Some x \<Longrightarrow> childWaiter x = Some w \<Longrightarrow> w < next_waiter s \<and> (\<exists>pid st op. node_frame s t = Some (Wait_child pid st op w))"
    and "node_frame s t = Some (Wait_child pid st op w) \<Longrightarrow> \<exists>x y. thread_at s t = Some x \<and> childWaiter x = Some w \<and> waiter_at s w = Some y \<and> w_waiting y = Some t"
    and "node_frame s t = Some (Wait_child pid st op w) \<Longrightarrow> m_processes s (process_of t s) = Some p \<Longrightarrow> ended_child pid p (m_processes s) \<Longrightarrow> \<not> blocked t (io_tm (nio s))"
  using assms unfolding wait_ok_def by blast+

lemma wait_okI:
  assumes "\<And>x w. thread_at s t = Some x \<Longrightarrow> childWaiter x = Some w \<Longrightarrow> w < next_waiter s \<and> (\<exists>pid st op. node_frame s t = Some (Wait_child pid st op w))"
    and "\<And>pid st op w. node_frame s t = Some (Wait_child pid st op w) \<Longrightarrow> \<exists>x y. thread_at s t = Some x \<and> childWaiter x = Some w \<and> waiter_at s w = Some y \<and> w_waiting y = Some t"
    and "\<And>pid st op w p. node_frame s t = Some (Wait_child pid st op w) \<Longrightarrow> m_processes s (process_of t s) = Some p \<Longrightarrow> ended_child pid p (m_processes s) \<Longrightarrow> \<not> blocked t (io_tm (nio s))"
  shows "wait_ok t s"
  using assms unfolding wait_ok_def by blast

lemma wait_ok_none: "node_frame s t = None \<Longrightarrow> (\<And>x. thread_at s t = Some x \<Longrightarrow> childWaiter x = None) \<Longrightarrow> wait_ok t s"
  by (auto simp: wait_ok_def)

text \<open>A thread that waits for no child has no \<open>Waiter\<close>.\<close>

lemma no_waiter: "wait_ok t s \<Longrightarrow> \<not> waits t s \<Longrightarrow> thread_at s t = Some x \<Longrightarrow> childWaiter x = None"
  using wait_okD(1) [of t s x] by (cases "childWaiter x") (auto simp: waits_def)

text \<open>Two threads do not share a \<open>Waiter\<close>.\<close>

lemma waiter_owner:
  "wait_ok t s \<Longrightarrow> thread_at s t = Some x \<Longrightarrow> childWaiter x = Some w \<Longrightarrow> \<exists>y. waiter_at s w = Some y \<and> w_waiting y = Some t"
  using wait_okD(1,2) by fastforce

lemma inner_invD:
  assumes "inner_inv U s"
  shows "tree_ok (m_processes s)" "threads_ok s" "waits_but U s" "t \<notin> U \<Longrightarrow> wait_ok t s"
    "Current s = Some t \<Longrightarrow> t \<in> U \<or> \<not> waits t s"
  using assms by (auto simp: inner_inv_def waits_but_def)

lemma inner_node: "inner_inv {} s \<Longrightarrow> node_inv s"
  by (simp add: inner_inv_def node_inv_def)

lemma node_inner: "node_inv s \<Longrightarrow> (\<And>t. Current s = Some t \<Longrightarrow> t \<in> U \<or> \<not> waits t s) \<Longrightarrow> inner_inv U s"
  by (simp add: inner_inv_def node_inv_def waits_but_def)

section \<open>What leaves them alone\<close>

lemma node_fields [simp]:
  "threads_of pid (s\<lparr>m_processes := a0\<rparr>) = threads_of pid s" "process_of t (s\<lparr>m_processes := a0\<rparr>) = process_of t s" "Current (s\<lparr>m_processes := a0\<rparr>) = Current s"
  "threads_of pid (s\<lparr>m_nextPid := a1\<rparr>) = threads_of pid s" "process_of t (s\<lparr>m_nextPid := a1\<rparr>) = process_of t s" "Current (s\<lparr>m_nextPid := a1\<rparr>) = Current s"
  "threads_of pid (s\<lparr>thread_at := a2\<rparr>) = threads_of pid s" "process_of t (s\<lparr>thread_at := a2\<rparr>) = process_of t s" "Current (s\<lparr>thread_at := a2\<rparr>) = Current s"
  "threads_of pid (s\<lparr>waiter_at := a3\<rparr>) = threads_of pid s" "process_of t (s\<lparr>waiter_at := a3\<rparr>) = process_of t s" "Current (s\<lparr>waiter_at := a3\<rparr>) = Current s"
  "threads_of pid (s\<lparr>next_waiter := a4\<rparr>) = threads_of pid s" "process_of t (s\<lparr>next_waiter := a4\<rparr>) = process_of t s" "Current (s\<lparr>next_waiter := a4\<rparr>) = Current s"
  "threads_of pid (s\<lparr>called := a5\<rparr>) = threads_of pid s" "process_of t (s\<lparr>called := a5\<rparr>) = process_of t s" "Current (s\<lparr>called := a5\<rparr>) = Current s"
  "threads_of pid (s\<lparr>ints := a6\<rparr>) = threads_of pid s" "process_of t (s\<lparr>ints := a6\<rparr>) = process_of t s" "Current (s\<lparr>ints := a6\<rparr>) = Current s"
  "threads_of pid (s\<lparr>pointers := a7\<rparr>) = threads_of pid s" "process_of t (s\<lparr>pointers := a7\<rparr>) = process_of t s" "Current (s\<lparr>pointers := a7\<rparr>) = Current s"
  "threads_of pid (s\<lparr>handles := a8\<rparr>) = threads_of pid s" "process_of t (s\<lparr>handles := a8\<rparr>) = process_of t s" "Current (s\<lparr>handles := a8\<rparr>) = Current s"
  "threads_of pid (s\<lparr>node_frame := a9\<rparr>) = threads_of pid s" "process_of t (s\<lparr>node_frame := a9\<rparr>) = process_of t s" "Current (s\<lparr>node_frame := a9\<rparr>) = Current s"
  by (simp_all add: threads_of_def process_of_def Current_def)

text \<open>The parts of the state that the invariant speaks about, up to the states of the tasks.\<close>

definition same_node :: "'x node \<Rightarrow> 'x node \<Rightarrow> bool" where
  "same_node s s' \<longleftrightarrow> m_processes s' = m_processes s \<and> thread_at s' = thread_at s \<and> waiter_at s' = waiter_at s
     \<and> next_waiter s' = next_waiter s \<and> node_frame s' = node_frame s"

definition node_calm :: "'x node \<Rightarrow> 'x node \<Rightarrow> bool" where
  "node_calm s s' \<longleftrightarrow> same_node s s' \<and> calm (nio s) (nio s')"

lemma node_calm_refl [simp, intro]: "node_calm s s"
  by (simp add: node_calm_def same_node_def)

lemma node_calm_trans: "node_calm s s1 \<Longrightarrow> node_calm s1 s2 \<Longrightarrow> node_calm s s2"
  by (auto simp: node_calm_def same_node_def intro: calm_trans)

lemma node_calmD:
  assumes "node_calm s s'"
  shows "m_processes s' = m_processes s" "thread_at s' = thread_at s" "threads_of pid s' = threads_of pid s"
    "process_of t s' = process_of t s" "node_frame s' = node_frame s" "waiter_at s' = waiter_at s" "next_waiter s' = next_waiter s"
    "calm (nio s) (nio s')"
  using assms by (simp_all add: node_calm_def same_node_def calm_def threads_of_def process_of_def)

lemma calm_tmD:
  assumes "calm i i'"
  shows "new_task (io_tm i) \<le> new_task (io_tm i')" "m_current (io_tm i') = m_current (io_tm i) \<or> m_current (io_tm i') = None"
    "m_current (io_tm i) \<noteq> Some t \<Longrightarrow> blocked t (io_tm i') \<Longrightarrow> blocked t (io_tm i)"
  using assms by (simp_all add: calm_def tm_calm_def)

text \<open>The general form: somebody may create tasks and be put to sleep, if he waits for no child.\<close>

lemma states_inv:
  assumes "tree_ok (m_processes s)" "threads_ok s" "waits_but U s"
    and "same_node s s'" "threads (nio s') = threads (nio s)" "pid_of (nio s') = pid_of (nio s)"
    and "new_task (io_tm (nio s)) \<le> new_task (io_tm (nio s'))"
    and "\<And>t. t \<notin> U \<Longrightarrow> waits t s \<Longrightarrow> blocked t (io_tm (nio s')) \<Longrightarrow> blocked t (io_tm (nio s))"
  shows "tree_ok (m_processes s') \<and> threads_ok s' \<and> waits_but U s'"
proof -
  note same = assms(4) [unfolded same_node_def]
  have t: "threads_of pid s' = threads_of pid s" "process_of u s' = process_of u s" for pid u
    by (simp_all add: threads_of_def process_of_def assms(5,6))
  have "threads_ok s'"
    by (rule threads_okI) (use same t threads_okD [OF assms(2)] assms(7) in \<open>fastforce+\<close>)
  moreover have "wait_ok t s'" if "t \<notin> U" for t
  proof -
    have w: "wait_ok t s" using assms(3) that by (simp add: waits_but_def)
    have "waits t s" if "node_frame s t = Some (Wait_child pid st op w)" for pid st op w
      using that by (auto simp: waits_def)
    with wait_okD [OF w] assms(8) [OF that] show ?thesis
      by (intro wait_okI) (simp_all add: same t, blast)
  qed
  ultimately show ?thesis using assms(1) same by (simp add: waits_but_def)
qed

lemma inner_calm:
  assumes "inner_inv U s" and "node_calm s s'"
  shows "inner_inv U s'"
proof -
  note d = node_calmD [OF assms(2)] and i = inner_invD [OF assms(1)]
  have "blocked t (io_tm (nio s))" if "t \<notin> U" "waits t s" "blocked t (io_tm (nio s'))" for t
    using calm_tmD(3) [OF d(8) _ that(3)] i(5) [of t] that(1,2) by (auto simp: Current_def)
  then have "tree_ok (m_processes s') \<and> threads_ok s' \<and> waits_but U s'"
    by (intro states_inv [OF i(1-3)]) (use assms(2) calm_tmD(1) [OF d(8)] in \<open>simp_all add: node_calm_def calm_def\<close>)
  moreover have "t \<in> U \<or> \<not> waits t s'" if "Current s' = Some t" for t
    using calm_tmD(2) [OF d(8)] that i(5) [of t] d(5) by (auto simp: Current_def waits_def)
  ultimately show ?thesis by (simp add: inner_inv_def)
qed

lemma calm_try_io: "try_io f s = Some s' \<Longrightarrow> (\<And>i. f (nio s) = Some i \<Longrightarrow> calm (nio s) i) \<Longrightarrow> node_calm s s'"
  by (auto simp: try_io_def bind_eq_Some_conv node_calm_def same_node_def)

lemma calm_on_io: "calm (nio s) (f (nio s)) \<Longrightarrow> node_calm s (on_io f s)"
  by (simp add: on_io_def node_calm_def same_node_def)

lemma calm_try_tm: "try_tm f s = Some s' \<Longrightarrow> (\<And>m. f (io_tm (nio s)) = Some m \<Longrightarrow> tm_calm (io_tm (nio s)) m) \<Longrightarrow> node_calm s s'"
  unfolding try_tm_def by (erule calm_try_io) (auto simp: bind_eq_Some_conv calm_tm)

lemma node_calm_fields [simp]:
  "node_calm s (s'\<lparr>called := a1\<rparr>) = node_calm s s'" "node_calm s (s'\<lparr>ints := a2\<rparr>) = node_calm s s'"
  "node_calm s (s'\<lparr>pointers := a3\<rparr>) = node_calm s s'" "node_calm s (s'\<lparr>handles := a4\<rparr>) = node_calm s s'"
  "node_calm s (s'\<lparr>m_nextPid := a5\<rparr>) = node_calm s s'" "node_calm s (call_user c s') = node_calm s s'"
  by (simp_all add: node_calm_def same_node_def call_user_def)

lemma calm_set_err [simp]: "node_calm s (on_io (set_err e t) s') = node_calm s s'"
  by (simp add: node_calm_def same_node_def on_io_def)

lemma calm_signal_fields [simp]:
  "calm s (s'\<lparr>signalMask := a1\<rparr>) = calm s s'" "calm s (s'\<lparr>signalHandlers := a2\<rparr>) = calm s s'"
  "calm s (s'\<lparr>threadSignals := a3\<rparr>) = calm s s'"
  by (simp_all add: calm_def)

lemma calm_node_Wakeup: "node_Wakeup E t s = Some s' \<Longrightarrow> node_calm s s'"
  by (auto simp: node_Wakeup_def bind_eq_Some_conv split: if_splits elim!: calm_try_io dest: calm_Wakeup)

lemma calm_node_Wait: "node_Wait E s = Some s' \<Longrightarrow> node_calm s s'"
  by (auto simp: node_Wait_def elim!: calm_try_io dest: calm_Wait)

lemma calm_node_Wait_timeout: "node_Wait_timeout E timeout s = Some s' \<Longrightarrow> node_calm s s'"
  by (auto simp: node_Wait_timeout_def elim!: calm_try_io dest: calm_Wait_timeout)

lemma calm_node_Yield: "node_Yield E s = Some s' \<Longrightarrow> node_calm s s'"
  by (auto simp: node_Yield_def elim!: calm_try_tm dest: Yield_calm)

lemma calm_node_Exit: "node_Exit E s = Some s' \<Longrightarrow> node_calm s s'"
  by (auto simp: node_Exit_def elim!: calm_try_tm dest: Exit_calm)

lemma calm_waiter_Wakeup: "waiter_Wakeup E w s = Some s' \<Longrightarrow> node_calm s s'"
  by (auto simp: waiter_Wakeup_def bind_eq_Some_conv split: option.split_asm if_split_asm dest: calm_node_Wakeup)

lemma calm_wake_child_waiters: "wake_child_waiters E ts s = Some s' \<Longrightarrow> node_calm s s'"
proof (induction ts arbitrary: s)
  case (Cons t ts)
  then obtain x :: thread and s1 where s1: "(case childWaiter x of None \<Rightarrow> Some s | Some w \<Rightarrow> waiter_Wakeup E w s) = Some s1"
    "wake_child_waiters E ts s1 = Some s'" by (auto simp: bind_eq_Some_conv)
  from s1(1) have "node_calm s s1" by (cases "childWaiter x") (auto dest: calm_waiter_Wakeup)
  with Cons.IH [OF s1(2)] show ?case by (rule node_calm_trans [rotated])
qed simp

lemma calm_cleanup_io: "cleanup_io t i = Some i' \<Longrightarrow> calm i i'"
proof -
  assume "cleanup_io t i = Some i'"
  then obtain i1 where i1: "(case ioWait i t of None \<Rightarrow> Some i | Some (f, w) \<Rightarrow> do { i2 \<leftarrow> RemoveWaitQueue f w False t i;
        Some ((free_entry (Some w) i2)\<lparr>ioWait := (ioWait i2)(t := None)\<rparr>) }) = Some i1"
    and rest: "(case pollTable i1 t of None \<Rightarrow> Some i1 | Some p \<Rightarrow> do { i3 \<leftarrow> FreeWait p t (i1\<lparr>pollTable := (pollTable i1)(t := None)\<rparr>); delete_table p i3 }) = Some i'"
    unfolding cleanup_io_def bind_eq_Some_conv by blast
  have "calm i i1" using i1 by (cases "ioWait i t") (auto simp: bind_eq_Some_conv dest!: calm_RemoveWaitQueue)
  moreover have "calm i1 i'"
  proof (cases "pollTable i1 t")
    case None
    with rest show ?thesis by simp
  next
    case (Some p)
    with rest obtain i3 where i3: "FreeWait p t (i1\<lparr>pollTable := (pollTable i1)(t := None)\<rparr>) = Some i3" "delete_table p i3 = Some i'"
      by (auto simp: bind_eq_Some_conv)
    from calm_FreeWait [OF i3(1)] have "calm i1 i3" by simp
    with calm_delete_table [OF i3(2)] show ?thesis by (rule calm_trans [rotated])
  qed
  ultimately show ?thesis by (rule calm_trans)
qed

lemma calm_cleanup_threads: "cleanup_threads ts s = Some s' \<Longrightarrow> node_calm s s'"
proof (induction ts arbitrary: s)
  case (Cons t ts)
  then obtain s1 where s1: "CleanupThread t s = Some s1" "cleanup_threads ts s1 = Some s'" by (auto simp: bind_eq_Some_conv)
  have "node_calm s s1" using s1(1)
    by (auto simp: CleanupThread_def bind_eq_Some_conv elim!: calm_try_io dest: calm_cleanup_io)
  with Cons.IH [OF s1(2)] show ?case by (rule node_calm_trans [rotated])
qed simp

lemma calm_drop_usages: "drop_usages us i = Some i' \<Longrightarrow> calm i i'"
proof (induction us arbitrary: i)
  case (Cons u us)
  then show ?case by (auto simp: bind_eq_Some_conv dest!: calm_delete_usage intro: calm_trans)
qed simp

lemma calm_drop_files: "drop_files pid i = Some i' \<Longrightarrow> calm i i'"
  unfolding drop_files_def by (drule calm_drop_usages) simp

lemma calm_cancel_itimer: "calm i (cancel_itimer E p i)"
  by (cases "p_itimer p") (simp_all add: cancel_itimer_def calm_def)

end
