(* ===== verification/Process_Steps.thy ===== *)
theory Process_Steps
  imports Process_Invariant
begin

text \<open>Every operation on threads and processes keeps the invariant of the processes of a node.\<close>

section \<open>Changes of one thread or process\<close>

lemma ended_child_links:
  assumes "m pid = Some p" and "same_links p q"
  shows "ended_child w r (m(pid \<mapsto> q)) = ended_child w r m"
proof -
  have "(\<exists>z. (m(pid \<mapsto> q)) c = Some z \<and> \<not> p_alloc z) = (\<exists>z. m c = Some z \<and> \<not> p_alloc z)" for c
    using assms by (cases "c = pid") (auto simp: same_links_def)
  then show ?thesis unfolding ended_child_def by blast
qed

lemma put_proc_inv:
  assumes "inner_inv U s" and "m_processes s pid = Some p" and "same_links p q"
  shows "inner_inv U (put_proc q s)"
proof -
  note i = inner_invD [OF assms(1)]
  have pid: "p_pid q = pid" using pid_of_entry [OF i(1) assms(2)] assms(3) by (simp add: same_links_def)
  let ?m = "(m_processes s)(pid \<mapsto> q)"
  have s': "put_proc q s = s\<lparr>m_processes := ?m\<rparr>" by (simp add: put_proc_def pid)
  have "threads_ok (put_proc q s)"
  proof (rule threads_okI)
    fix j assume "threads_of j (put_proc q s) \<noteq> []"
    then show "\<exists>p. m_processes (put_proc q s) j = Some p \<and> p_alloc p"
      using threads_okD(4) [OF i(2), of j] assms(2,3) by (cases "j = pid") (auto simp: s' same_links_def)
  qed (use threads_okD(1-3) [OF i(2)] in \<open>simp_all add: s'\<close>)
  moreover have links: "ended_child w r ?m = ended_child w r (m_processes s)" for w r
    by (rule ended_child_links) (rule assms(2,3))+
  moreover have "wait_ok t (put_proc q s)" if "t \<notin> U" for t
  proof -
    note w = wait_okD [OF i(4) [OF that]]
    have "\<not> blocked t (io_tm (nio s))" if a: "node_frame s t = Some (Wait_child n st op w')" "?m (process_of t s) = Some r"
      "ended_child n r (m_processes s)" for n st op w' r
    proof -
      obtain r0 where r0: "m_processes s (process_of t s) = Some r0" "p_children r = p_children r0"
        using a(2) assms(2,3) by (cases "process_of t s = pid") (auto simp: same_links_def)
      with a(3) have "ended_child n r0 (m_processes s)" by (simp add: ended_child_def)
      with w(3) [OF a(1) r0(1)] show ?thesis .
    qed
    note awake = this
    show ?thesis
    proof (rule wait_okI)
      show "\<not> blocked t (io_tm (nio (put_proc q s)))"
        if "node_frame (put_proc q s) t = Some (Wait_child n st op w')" "m_processes (put_proc q s) (process_of t (put_proc q s)) = Some r"
          "ended_child n r (m_processes (put_proc q s))" for n st op w' r
        using awake [of n st op w' r] that by (simp add: s' links)
    qed (use w(1,2) in \<open>simp_all add: s'\<close>)
  qed
  ultimately show ?thesis
    using tree_ok_links [OF i(1) assms(2,3)] i(5)
    by (auto simp: inner_inv_def waits_but_def waits_def s')
qed

lemma put_thread_inv:
  assumes "inner_inv U s" and "thread_at s t = Some x" and "childWaiter x' = childWaiter x"
  shows "inner_inv U (put_thread t x' s)"
proof -
  note i = inner_invD [OF assms(1)]
  have s': "put_thread t x' s = s\<lparr>thread_at := (thread_at s)(t \<mapsto> x')\<rparr>" by (simp add: put_thread_def)
  have "threads_ok (put_thread t x' s)"
    by (rule threads_okI) (use threads_okD [OF i(2)] assms(2) in \<open>auto simp: s' split: if_splits\<close>)
  moreover have "wait_ok u (put_thread t x' s)" if "u \<notin> U" for u
    using i(4) [OF that] assms(2,3) unfolding wait_ok_def by (cases "u = t") (simp_all add: s')
  ultimately show ?thesis
    using i(1,5) by (auto simp: inner_inv_def waits_but_def waits_def s')
qed

section \<open>New threads\<close>

lemma CreateThread_eq:
  assumes "CreateThread pid t s = Some s'"
  obtains x :: thread where "childWaiter x = None" "t_task x = False" "hasExitValue x = False"
    "s' = on_io (attach_thread pid t) (put_thread t x (s\<lparr>node_frame := (node_frame s)(t := None)\<rparr>))"
proof -
  from assms obtain i ks where "s' = on_io (attach_thread pid t) (put_thread t
    \<lparr>isDetached = False, hasExitValue = False, exitValue = 0, t_tid = i, t_task = False, joinWaiter = None,
      childWaiter = None, keyValues = ks\<rparr> (s\<lparr>node_frame := (node_frame s)(t := None)\<rparr>))"
    by (auto simp: CreateThread_def bind_eq_Some_conv Let_def)
  then show thesis by (intro that) simp_all
qed

lemma connect_task_eq:
  assumes "connect_task notifier pid t s = Some s'"
  obtains x :: thread and m where "thread_at s t = Some x" "s' = put_thread t (x\<lparr>t_task := True\<rparr>) (on_io (\<lambda>i. i\<lparr>io_tm := m\<rparr>) s)"
    "tm_calm (io_tm (nio s)) m" "m_current m = m_current (io_tm (nio s))" "new_task m = new_task (io_tm (nio s))"
proof -
  from assms obtain m1 m2 and x :: thread where m: "SetContext t t (io_tm (nio s)) = Some m1" "SetSwitchNotifier t notifier (unat pid) m1 = Some m2"
    "thread_at s t = Some x" "s' = put_thread t (x\<lparr>t_task := True\<rparr>) (on_io (\<lambda>i. i\<lparr>io_tm := m2\<rparr>) s)"
    by (auto simp: connect_task_def try_tm_def try_io_def on_io_def bind_eq_Some_conv)
  from context_calm(1) [OF m(1)] context_calm(2) [OF m(2)]
  show thesis by (intro that [OF m(3,4)]) (auto intro: tm_calm_trans)
qed

text \<open>A thread and its task come into being together.\<close>

lemma new_thread_inv:
  assumes "inner_inv U s" and "m_processes s pid = Some p" and "p_alloc p"
    and "CreateThread pid (new_task (io_tm (nio s))) s = Some s1"
    and "tm_calm (io_tm (nio s1)) m" "m_current m = m_current (io_tm (nio s1))" "new_task m = new_task (io_tm (nio s1)) + 1"
    and "connect_task notifier pid (new_task (io_tm (nio s))) (on_io (\<lambda>i. i\<lparr>io_tm := m\<rparr>) s1) = Some s'"
  shows "inner_inv U s'" and "m_processes s' = m_processes s"
    and "threads_of j s' = (if j = pid then threads_of j s @ [new_task (io_tm (nio s))] else threads_of j s)"
    and "Current s' = Current s" and "node_frame s' = (node_frame s)(new_task (io_tm (nio s)) := None)"
proof -
  note i = inner_invD [OF assms(1)]
  let ?t = "new_task (io_tm (nio s))"
  obtain x :: thread where x: "childWaiter x = None" "s1 = on_io (attach_thread pid ?t) (put_thread ?t x (s\<lparr>node_frame := (node_frame s)(?t := None)\<rparr>))"
    by (rule CreateThread_eq [OF assms(4)])
  obtain y :: thread and m' where y: "thread_at (on_io (\<lambda>i. i\<lparr>io_tm := m\<rparr>) s1) ?t = Some y"
    "s' = put_thread ?t (y\<lparr>t_task := True\<rparr>) (on_io (\<lambda>i. i\<lparr>io_tm := m'\<rparr>) (on_io (\<lambda>i. i\<lparr>io_tm := m\<rparr>) s1))"
    "tm_calm (io_tm (nio (on_io (\<lambda>i. i\<lparr>io_tm := m\<rparr>) s1))) m'" "m_current m' = m_current (io_tm (nio (on_io (\<lambda>i. i\<lparr>io_tm := m\<rparr>) s1)))"
    "new_task m' = new_task (io_tm (nio (on_io (\<lambda>i. i\<lparr>io_tm := m\<rparr>) s1)))"
    by (rule connect_task_eq [OF assms(8)])
  have tm1: "io_tm (nio s1) = io_tm (nio s)" by (simp add: x(2) on_io_def attach_thread_def put_thread_def)
  have m': "tm_calm (io_tm (nio s)) m'" "m_current m' = m_current (io_tm (nio s))" "new_task m' = ?t + 1"
    using y(3-5) assms(5-7) tm1 by (auto simp: on_io_def intro: tm_calm_trans)
  let ?x = "x\<lparr>t_task := True\<rparr>"
  have yx: "y = x" using y(1) by (simp add: x(2) on_io_def put_thread_def)
  have fields: "m_processes s' = m_processes s" "thread_at s' = (thread_at s)(?t \<mapsto> ?x)" "waiter_at s' = waiter_at s"
    "next_waiter s' = next_waiter s" "node_frame s' = (node_frame s)(?t := None)" "io_tm (nio s') = m'"
    "process_of u s' = (if u = ?t then pid else process_of u s)" for u
    by (simp_all add: y(2) yx x(2) on_io_def put_thread_def attach_thread_def process_of_def)
  show threads: "threads_of j s' = (if j = pid then threads_of j s @ [?t] else threads_of j s)" for j
    by (simp add: y(2) x(2) on_io_def put_thread_def attach_thread_def threads_of_def)
  show "m_processes s' = m_processes s" "node_frame s' = (node_frame s)(?t := None)" by (simp_all add: fields)
  show cur: "Current s' = Current s" by (simp add: Current_def fields m')
  have new: "thread_at s ?t = None" using threads_okD(1) [OF i(2), of ?t] by (cases "thread_at s ?t") auto
  have nowhere: "?t \<notin> set (threads_of j s)" for j using threads_okD(2) [OF i(2), of ?t j] new by auto
  have "threads_ok s'"
  proof (rule threads_okI)
    fix u z assume "thread_at s' u = Some z"
    then show "u \<in> set (threads_of (process_of u s') s') \<and> u < new_task (io_tm (nio s'))"
      using threads_okD(1) [OF i(2), of u] by (cases "u = ?t") (auto simp: fields threads m'(3))
  next
    fix j u assume "u \<in> set (threads_of j s')"
    then show "thread_at s' u \<noteq> None \<and> process_of u s' = j"
      using threads_okD(2) [OF i(2), of u j] nowhere [of j] by (auto simp: fields threads split: if_splits)
  next
    fix j show "distinct (threads_of j s')" using threads_okD(3) [OF i(2), of j] nowhere [of j] by (auto simp: threads)
  next
    fix j assume "threads_of j s' \<noteq> []"
    then show "\<exists>p. m_processes s' j = Some p \<and> p_alloc p"
      using threads_okD(4) [OF i(2), of j] assms(2,3) by (cases "j = pid") (auto simp: fields threads)
  qed
  moreover have "wait_ok u s'" if "u \<notin> U" for u
  proof (cases "u = ?t")
    case True
    then show ?thesis by (intro wait_ok_none) (auto simp: fields x(1))
  next
    case False
    have "blocked u (io_tm (nio s))" if "blocked u m'" "waits u s"
      using m'(1) that i(5) [of u] \<open>u \<notin> U\<close> by (auto simp: tm_calm_def Current_def)
    moreover have "node_frame s u = Some (Wait_child a b c d) \<Longrightarrow> waits u s" for a b c d by (auto simp: waits_def)
    ultimately show ?thesis
      using wait_okD [OF i(4) [OF that]] False by (intro wait_okI) (simp_all add: fields, blast)
  qed
  moreover have "t \<in> U \<or> \<not> waits t s'" if "Current s' = Some t" for t
    using that i(5) [of t] unfolding cur by (auto simp: waits_def fields)
  ultimately show "inner_inv U s'" using i(1) by (simp add: inner_inv_def waits_but_def fields)
qed

lemma start_task_inv:
  assumes "inner_inv U s" and "m_processes s pid = Some p" and "p_alloc p" and "start_task E notifier pid s = Some (t, s')"
  shows "inner_inv U s'" and "m_processes s' = m_processes s"
    and "threads_of j s' = (if j = pid then threads_of j s @ [t] else threads_of j s)"
    and "Current s' = Current s" and "node_frame s' = (node_frame s)(t := None)"
proof -
  from assms(4) obtain s1 m where s1: "CreateThread pid (new_task (io_tm (nio s))) s = Some s1"
    "tm_Start (io_sim E) (io_tm (nio s1)) = Some (t, m)" "connect_task notifier pid t (on_io (\<lambda>i. i\<lparr>io_tm := m\<rparr>) s1) = Some s'"
    by (auto simp: start_task_def bind_eq_Some_conv)
  have tm1: "io_tm (nio s1) = io_tm (nio s)"
    by (rule CreateThread_eq [OF s1(1)]) (simp add: on_io_def attach_thread_def put_thread_def)
  note st = Start_calm [OF s1(2)]
  have t: "t = new_task (io_tm (nio s))" using st tm1 by simp
  note new = new_thread_inv [OF assms(1-3) s1(1) _ _ _ s1(3) [unfolded t]]
  show "inner_inv U s'" "m_processes s' = m_processes s"
    "threads_of j s' = (if j = pid then threads_of j s @ [t] else threads_of j s)"
    "Current s' = Current s" "node_frame s' = (node_frame s)(t := None)"
    using new st by (simp_all add: t)
qed

end
