(* ===== verification/Process_Ends.thy ===== *)
theory Process_Ends
  imports Process_Steps
begin

text \<open>The ends of threads and processes keep the invariant, and wake the parents that wait.\<close>

section \<open>A thread ends\<close>

lemma waiter_other:
  assumes "wait_ok t s" and "wait_ok u s" and "thread_at s t = Some x" and "childWaiter x = Some w"
    and "thread_at s u = Some y" and "childWaiter y = Some w"
  shows "t = u"
  using waiter_owner [OF assms(1,3,4)] waiter_owner [OF assms(2,5,6)] by auto

lemma DeleteThread_eq:
  assumes "DeleteThread E t s = Some s'"
  obtains x :: thread and m where "thread_at s t = Some x" "tm_calm (io_tm (nio s)) m" "m_current m = m_current (io_tm (nio s))"
    "m_processes s' = m_processes s" "thread_at s' = (thread_at s)(t := None)" "node_frame s' = (node_frame s)(t := None)"
    "waiter_at s' = (case childWaiter x of None \<Rightarrow> waiter_at s | Some w \<Rightarrow> (waiter_at s)(w := None))" "next_waiter s' = next_waiter s"
    "io_tm (nio s') = m" "\<forall>u. process_of u s' = process_of u s"
    "\<forall>j. threads_of j s' = (if j = process_of t s then remove1 t (threads_of j s) else threads_of j s)"
proof -
  from assms obtain x :: thread and s1 where x: "thread_at s t = Some x"
    "(if t_task x then try_tm (tm_Stop (io_sim E) t) s else Some s) = Some s1"
    "s' = (let s2 = on_io (detach_thread t) s1; s3 = (case childWaiter x of None \<Rightarrow> s2 | Some w \<Rightarrow> delete_waiter w s2) in
          s3\<lparr>thread_at := (thread_at s3)(t := None), node_frame := (node_frame s3)(t := None)\<rparr>)"
    by (auto simp: DeleteThread_def bind_eq_Some_conv Let_def)
  obtain m where m: "s1 = s\<lparr>nio := (nio s)\<lparr>io_tm := m\<rparr>\<rparr>" "tm_calm (io_tm (nio s)) m" "m_current m = m_current (io_tm (nio s))"
  proof (cases "t_task x")
    case True
    with x(2) obtain m where "tm_Stop (io_sim E) t (io_tm (nio s)) = Some m" "s1 = s\<lparr>nio := (nio s)\<lparr>io_tm := m\<rparr>\<rparr>"
      by (auto simp: try_tm_def try_io_def bind_eq_Some_conv)
    with Stop_calm [OF this(1)] that show thesis by blast
  next
    case False
    with x(2) that [of "io_tm (nio s)"] show thesis by simp
  qed
  show thesis
    by (rule that [OF x(1) m(2,3)])
      (simp_all add: x(3) m(1) Let_def on_io_def detach_thread_def delete_waiter_def threads_of_def process_of_def split: option.split)
qed

lemma DeleteThread_inv:
  assumes "inner_inv {} s" and "DeleteThread E t s = Some s'"
  shows "inner_inv {} s'" and "m_processes s' = m_processes s"
    and "threads_of j s' = (if j = process_of t s then remove1 t (threads_of j s) else threads_of j s)"
    and "Current s' = Current s" and "thread_at s' = (thread_at s)(t := None)" and "node_frame s' = (node_frame s)(t := None)"
    and "process_of u s' = process_of u s"
proof -
  note i = inner_invD [OF assms(1)]
  obtain x :: thread and m where x: "thread_at s t = Some x" and m: "tm_calm (io_tm (nio s)) m" "m_current m = m_current (io_tm (nio s))"
    and f: "m_processes s' = m_processes s" "thread_at s' = (thread_at s)(t := None)" "node_frame s' = (node_frame s)(t := None)"
    "waiter_at s' = (case childWaiter x of None \<Rightarrow> waiter_at s | Some w \<Rightarrow> (waiter_at s)(w := None))" "next_waiter s' = next_waiter s"
    "io_tm (nio s') = m" "\<forall>u. process_of u s' = process_of u s"
    and th: "\<forall>j. threads_of j s' = (if j = process_of t s then remove1 t (threads_of j s) else threads_of j s)"
    by (rule DeleteThread_eq [OF assms(2)])
  show "m_processes s' = m_processes s" "thread_at s' = (thread_at s)(t := None)" "node_frame s' = (node_frame s)(t := None)"
    "process_of u s' = process_of u s" by (simp_all add: f)
  show "threads_of j s' = (if j = process_of t s then remove1 t (threads_of j s) else threads_of j s)" using th by blast
  show cur: "Current s' = Current s" by (simp add: Current_def f m)
  have grow: "new_task (io_tm (nio s)) \<le> new_task m" using m(1) by (simp add: tm_calm_def)
  have sets: "set (threads_of j s') = set (threads_of j s) - {t}" for j
    using threads_okD(2) [OF i(2), of t j] set_remove1_eq [OF threads_okD(3) [OF i(2), of j], of t] th by auto
  have "threads_ok s'"
  proof (rule threads_okI)
    fix u z assume "thread_at s' u = Some z"
    then have u: "u \<noteq> t" "thread_at s u = Some z" by (simp_all add: f(2) split: if_splits)
    then show "u \<in> set (threads_of (process_of u s') s') \<and> u < new_task (io_tm (nio s'))"
      using threads_okD(1) [OF i(2) u(2)] grow by (auto simp: sets f(6,7))
  next
    fix j u assume "u \<in> set (threads_of j s')"
    then show "thread_at s' u \<noteq> None \<and> process_of u s' = j"
      using threads_okD(2) [OF i(2), of u j] by (auto simp: sets f(2,7))
  next
    fix j show "distinct (threads_of j s')" using threads_okD(3) [OF i(2), of j] by (auto simp: th)
  next
    fix j assume "threads_of j s' \<noteq> []"
    then have "threads_of j s \<noteq> []" by (auto simp: th split: if_splits)
    then show "\<exists>p. m_processes s' j = Some p \<and> p_alloc p" using threads_okD(4) [OF i(2)] by (simp add: f(1))
  qed
  moreover have "wait_ok u s'" for u
  proof (cases "u = t")
    case True
    then show ?thesis by (intro wait_ok_none) (simp_all add: f)
  next
    case False
    have w: "wait_ok u s" "wait_ok t s" by (simp_all add: i(4))
    have keep: "waiter_at s' w = waiter_at s w" if "thread_at s u = Some y" "childWaiter y = Some w" for y w
      using waiter_other [OF w(2,1) x _ that] False by (cases "childWaiter x") (auto simp: f(4))
    have awake: "blocked u (io_tm (nio s))" if "blocked u m" "waits u s"
      using m(1) that i(5) [of u] by (auto simp: tm_calm_def Current_def)
    show ?thesis
    proof (rule wait_okI)
      fix y w assume "thread_at s' u = Some y" "childWaiter y = Some w"
      with wait_okD(1) [OF w(1), of y w] False
      show "w < next_waiter s' \<and> (\<exists>pid st op. node_frame s' u = Some (Wait_child pid st op w))" by (simp add: f)
    next
      fix n st op w assume "node_frame s' u = Some (Wait_child n st op w)"
      with wait_okD(2) [OF w(1), of n st op w] False
      obtain y z where y: "thread_at s u = Some y" "childWaiter y = Some w" "waiter_at s w = Some z" "w_waiting z = Some u"
        by (auto simp: f)
      with keep [OF y(1,2)] False
      show "\<exists>x y. thread_at s' u = Some x \<and> childWaiter x = Some w \<and> waiter_at s' w = Some y \<and> w_waiting y = Some u" by (simp add: f)
    next
      fix n st op w p assume a: "node_frame s' u = Some (Wait_child n st op w)" "m_processes s' (process_of u s') = Some p"
        "ended_child n p (m_processes s')"
      with False have fr: "node_frame s u = Some (Wait_child n st op w)" by (simp add: f)
      then have "waits u s" by (auto simp: waits_def)
      with wait_okD(3) [OF w(1) fr] a(2,3) awake show "\<not> blocked u (io_tm (nio s'))" by (auto simp: f)
    qed
  qed
  moreover have "\<not> waits u s'" if "Current s' = Some u" for u
    using i(5) [of u] that by (auto simp: cur waits_def f(3) split: if_splits)
  ultimately show "inner_inv {} s'" using i(1) by (simp add: inner_inv_def waits_but_def f(1))
qed

lemma delete_threads_inv:
  assumes "inner_inv {} s" and "delete_threads E ts s = Some s'" and "distinct ts" and "set ts \<subseteq> set (threads_of pid s)"
  shows "inner_inv {} s' \<and> m_processes s' = m_processes s \<and> Current s' = Current s
    \<and> (\<forall>j. set (threads_of j s') = set (threads_of j s) - (if j = pid then set ts else {}))
    \<and> (\<forall>t. t \<notin> set ts \<longrightarrow> thread_at s' t = thread_at s t \<and> node_frame s' t = node_frame s t)
    \<and> (\<forall>u. process_of u s' = process_of u s)"
  using assms
proof (induction ts arbitrary: s)
  case (Cons t ts)
  then obtain s1 where s1: "DeleteThread E t s = Some s1" "delete_threads E ts s1 = Some s'" by (auto simp: bind_eq_Some_conv)
  note d = DeleteThread_inv [OF Cons.prems(1) s1(1)] and i = inner_invD [OF Cons.prems(1)]
  from Cons.prems(4) have t: "t \<in> set (threads_of pid s)" by simp
  with threads_okD(2) [OF i(2)] have pid: "process_of t s = pid" by blast
  have dj: "distinct (threads_of j s)" for j using threads_okD(3) [OF i(2)] .
  have sets: "set (threads_of j s1) = set (threads_of j s) - (if j = pid then {t} else {})" for j
    using set_remove1_eq [OF dj [of j]] by (auto simp: d(3) pid)
  have "set ts \<subseteq> set (threads_of pid s1)" using Cons.prems(3,4) by (auto simp: sets)
  from Cons.IH [OF d(1) s1(2) _ this] Cons.prems(3) show ?case
    by (auto simp: d(2,4-7) sets)
qed simp


section \<open>The parent is woken\<close>

lemma tm_Wakeup_awake: "node_Wakeup E t s = Some s' \<Longrightarrow> \<not> blocked t (io_tm (nio s'))"
  by (auto simp: node_Wakeup_def try_io_def io_Wakeup_def bind_eq_Some_conv split: if_splits dest!: Wakeup_calm)

lemma waiter_Wakeup_awake:
  assumes "waiter_Wakeup E w s = Some s'" and "waiter_at s w = Some y" and "w_waiting y = Some t"
  shows "\<not> blocked t (io_tm (nio s'))"
proof -
  from assms obtain k where k: "tasks (io_tm (nio s)) t = Some k"
    "(if IsBlocked k then node_Wakeup E t s else if IsActive k then Some s else None) = Some s'"
    by (auto simp: waiter_Wakeup_def bind_eq_Some_conv)
  show ?thesis
  proof (cases "IsBlocked k")
    case True
    with k(2) tm_Wakeup_awake show ?thesis by auto
  next
    case False
    with k(2) have "s' = s" by (simp split: if_splits)
    with k(1) False show ?thesis by (simp add: blocked_def IsBlocked_def)
  qed
qed

lemma wake_child_waiters_awake:
  assumes "wake_child_waiters E ts s = Some s'" and "t \<in> set ts" and "thread_at s t = Some x" and "childWaiter x = Some w"
    and "waiter_at s w = Some y" and "w_waiting y = Some t" and "Current s \<noteq> Some t"
  shows "\<not> blocked t (io_tm (nio s'))"
  using assms
proof (induction ts arbitrary: s)
  case (Cons u ts)
  then obtain z :: thread and s1 where z: "thread_at s u = Some z"
    "(case childWaiter z of None \<Rightarrow> Some s | Some w \<Rightarrow> waiter_Wakeup E w s) = Some s1" "wake_child_waiters E ts s1 = Some s'"
    by (auto simp: bind_eq_Some_conv)
  have c: "node_calm s s1" using z(2) by (cases "childWaiter z") (auto dest: calm_waiter_Wakeup)
  note d = node_calmD [OF c]
  have cur: "Current s1 \<noteq> Some t" using calm_tmD(2) [OF d(8)] Cons.prems(7) by (auto simp: Current_def)
  show ?case
  proof (cases "u = t")
    case True
    with z Cons.prems have "waiter_Wakeup E w s = Some s1" by simp
    from waiter_Wakeup_awake [OF this Cons.prems(5,6)] have "\<not> blocked t (io_tm (nio s1))" .
    with calm_tmD(3) [OF node_calmD(8) [OF calm_wake_child_waiters [OF z(3)]], of t] cur show ?thesis by (auto simp: Current_def)
  next
    case False
    with Cons.prems(2) have t: "t \<in> set ts" by simp
    show ?thesis
      by (rule Cons.IH [OF z(3) t]) (use Cons.prems(3-6) cur d in simp_all)
  qed
qed simp

section \<open>A process ends\<close>

text \<open>The process leaves the tree; then its parent is told.\<close>

lemma ended_threads:
  assumes "inner_inv {} s" and "m_processes s pid = Some p" and "threads_of pid s = []"
  shows "threads_ok (s\<lparr>m_processes := ended pid p (m_processes s)\<rparr>)"
proof -
  note i = inner_invD [OF assms(1)]
  show ?thesis
  proof (rule threads_okI)
    fix j assume "threads_of j (s\<lparr>m_processes := ended pid p (m_processes s)\<rparr>) \<noteq> []"
    then have j: "threads_of j s \<noteq> []" by simp
    with assms(3) have "j \<noteq> pid" by auto
    with threads_okD(4) [OF i(2) j]
    show "\<exists>q. m_processes (s\<lparr>m_processes := ended pid p (m_processes s)\<rparr>) j = Some q \<and> p_alloc q"
      by (auto simp: ended_def without_children_def)
  qed (use threads_okD(1-3) [OF i(2)] in simp_all)
qed

text \<open>A child that has newly ended is one of the parent of the process.\<close>

lemma ended_child_ended:
  assumes "tree_ok m" and "m pid = Some p" and "j \<noteq> pid" and "ended pid p m j = Some r" and "ended_child w r (ended pid p m)"
  shows "(\<exists>r0. m j = Some r0 \<and> ended_child w r0 m) \<or> (j = p_ppid p \<and> p_ppid p > 1)"
proof -
  from assms(4) assms(3) obtain r0 where r0: "m j = Some r0" "p_children r = p_children r0"
    by (auto simp: ended_def without_children_def split: if_splits option.splits)
  from assms(5) obtain c q where c: "c \<in> p_children r" "ended pid p m c = Some q" "\<not> p_alloc q" "w = -1 \<or> w = uint c"
    by (auto simp: ended_child_def)
  show ?thesis
  proof (cases "c = pid")
    case True
    with tree_okD(3) [OF assms(1) r0(1), of pid] c(1) r0(2) assms(2) have "p_ppid p = j" by simp
    moreover have "p_ppid p > 1" using c(2) True by (auto simp: ended_def split: if_splits)
    ultimately show ?thesis by simp
  next
    case False
    with c(2,3) obtain q0 where "m c = Some q0" "\<not> p_alloc q0"
      by (auto simp: ended_def without_children_def split: if_splits option.splits)
    with c r0 show ?thesis by (auto simp: ended_child_def)
  qed
qed

lemma ended_inv:
  assumes "inner_inv {} s" and "m_processes s pid = Some p" and "threads_of pid s = []"
    and "s1 = s\<lparr>m_processes := ended pid p (m_processes s)\<rparr>"
    and "node_calm s1 s2"
    and "p_ppid p > 1 \<Longrightarrow> wake_child_waiters E (threads_of (p_ppid p) s1) s1 = Some s2"
  shows "inner_inv {} s2"
proof -
  note i = inner_invD [OF assms(1)]
  let ?m = "ended pid p (m_processes s)"
  note d = node_calmD [OF assms(5)]
  have f: "m_processes s1 = ?m" "thread_at s1 = thread_at s" "node_frame s1 = node_frame s" "waiter_at s1 = waiter_at s"
    "next_waiter s1 = next_waiter s" "nio s1 = nio s" by (simp_all add: assms(4))
  have t1: "threads_ok s1" using ended_threads [OF assms(1-3)] by (simp add: assms(4))
  have "threads_ok s2"
    by (rule threads_okI) (use threads_okD [OF t1] d calm_tmD(1) [OF d(8)] in \<open>fastforce+\<close>)
  moreover have "wait_ok t s2" for t
  proof -
    have w: "wait_ok t s" by (simp add: i(4))
    show ?thesis
    proof (rule wait_okI)
      fix n st op w' r
      assume a: "node_frame s2 t = Some (Wait_child n st op w')" "m_processes s2 (process_of t s2) = Some r" "ended_child n r (m_processes s2)"
      have fr: "node_frame s t = Some (Wait_child n st op w')" using a(1) d f by simp
      then have waits: "waits t s" by (auto simp: waits_def)
      with i(5) [of t] have cur: "Current s1 \<noteq> Some t" by (auto simp: assms(4))
      from wait_okD(2) [OF w fr] obtain x :: thread and y where x: "thread_at s t = Some x" "childWaiter x = Some w'"
        "waiter_at s w' = Some y" "w_waiting y = Some t" by blast
      let ?j = "process_of t s"
      have j: "t \<in> set (threads_of ?j s)" using threads_okD(1) [OF i(2) x(1)] by blast
      with assms(3) have ne: "?j \<noteq> pid" by auto
      have "process_of t s2 = ?j" using d(4) by (simp add: assms(4))
      with a(2,3) d(1) f(1) have r: "?m ?j = Some r" "ended_child n r ?m" by simp_all
      from ended_child_ended [OF i(1) assms(2) ne r]
      show "\<not> blocked t (io_tm (nio s2))"
      proof
        assume "\<exists>r0. m_processes s ?j = Some r0 \<and> ended_child n r0 (m_processes s)"
        with wait_okD(3) [OF w fr] have "\<not> blocked t (io_tm (nio s1))" by (auto simp: f)
        with calm_tmD(3) [OF d(8), of t] cur show ?thesis by (auto simp: Current_def)
      next
        assume par: "?j = p_ppid p \<and> p_ppid p > 1"
        with assms(6) have wake: "wake_child_waiters E (threads_of ?j s1) s1 = Some s2" by simp
        show ?thesis
          by (rule wake_child_waiters_awake [OF wake]) (use j x cur in \<open>simp_all add: assms(4)\<close>)
      qed
    qed (use wait_okD(1,2) [OF w] d f in simp_all)
  qed
  moreover have "\<not> waits t s2" if "Current s2 = Some t" for t
    using calm_tmD(2) [OF d(8)] that i(5) [of t] d(5) f by (auto simp: Current_def waits_def)
  ultimately show ?thesis
    using tree_ok_ended [OF i(1) assms(2)] by (simp add: inner_inv_def waits_but_def d(1) f(1))
qed


text \<open>What \<open>DeleteProcess\<close> does before: the process has no threads any more.\<close>

lemma release_process_inv:
  assumes "inner_inv {} s" and "release_process E pid cause s = Some s'"
  shows "inner_inv {} s' \<and> m_processes s' = m_processes s \<and> threads_of pid s' = []
    \<and> (\<forall>j. j \<noteq> pid \<longrightarrow> set (threads_of j s') = set (threads_of j s))
    \<and> (\<forall>t. t \<notin> set (threads_of pid s) \<longrightarrow> thread_at s' t = thread_at s t \<and> node_frame s' t = node_frame s t)
    \<and> (\<forall>t. process_of t s' = process_of t s)
    \<and> (Current s' = Current s \<or> Current s' = None)"
proof -
  from assms(2) obtain p s1 s2 s5 where p: "m_processes s pid = Some p"
    "cleanup_threads (rev (threads_of pid s)) s = Some s1"
    "(if cause = PEC_EXIT then try_io (\<lambda>i. close_fds E pid (open_fds pid i) i) s1 else Some s1) = Some s2"
    "try_io (drop_files pid) (on_io (cancel_itimer E p)
       (case p_finished p of None \<Rightarrow> s2 | Some cb \<Rightarrow> call_user (Call_finished cb pid (p_exitValue p)) s2)) = Some s5"
    "delete_threads E (rev (threads_of pid s5)) s5 = Some s'"
    by (auto simp: release_process_def bind_eq_Some_conv Let_def)
  let ?s3 = "case p_finished p of None \<Rightarrow> s2 | Some cb \<Rightarrow> call_user (Call_finished cb pid (p_exitValue p)) s2"
  have "node_calm s s1" by (rule calm_cleanup_threads [OF p(2)])
  moreover have "node_calm s1 s2"
    using p(3) by (auto split: if_splits elim!: calm_try_io dest: calm_close_fds)
  moreover have "node_calm s2 ?s3" by (simp split: option.split)
  moreover have "node_calm ?s3 (on_io (cancel_itimer E p) ?s3)" by (rule calm_on_io) (rule calm_cancel_itimer)
  moreover have "node_calm (on_io (cancel_itimer E p) ?s3) s5" using p(4) by (auto elim!: calm_try_io dest: calm_drop_files)
  ultimately have c: "node_calm s s5" by (meson node_calm_trans)
  note d = node_calmD [OF c] and i5 = inner_calm [OF assms(1) c]
  have cur: "Current s5 = Current s \<or> Current s5 = None" using calm_tmD(2) [OF d(8)] by (auto simp: Current_def)
  have dist: "distinct (rev (threads_of pid s5))" using threads_okD(3) [OF inner_invD(2) [OF i5], of pid] by simp
  note dt = delete_threads_inv [OF i5 p(5) dist, of pid]
  have "set (threads_of pid s') = {}" using dt by simp
  then have "threads_of pid s' = []" by simp
  with dt d cur show ?thesis by auto
qed

lemma put_procs [simp]:
  "m_processes (put_proc q s) = (m_processes s)(p_pid q \<mapsto> q)" "thread_at (put_proc q s) = thread_at s"
  "node_frame (put_proc q s) = node_frame s" "threads_of j (put_proc q s) = threads_of j s" "Current (put_proc q s) = Current s"
  "process_of t (put_proc q s) = process_of t s" "nio (put_proc q s) = nio s"
  by (simp_all add: put_proc_def)

text \<open>How a process leaves, by an exit or by the script.\<close>

lemma DeleteProcess_cases:
  assumes "tree_ok (m_processes s)" and "DeleteProcess E pid cause s = Some s'" and "cause \<noteq> PEC_NS3_END"
  obtains p s1 s2 where "m_processes s pid = Some p" "release_process E pid cause s = Some s1"
    "m_processes s1 = m_processes s \<Longrightarrow> s2 = s1\<lparr>m_processes := ended pid p (m_processes s), called := called s1 @ [Trace_exit pid (p_exitValue p)]\<rparr>"
    "m_processes s1 = m_processes s \<Longrightarrow> (if p_ppid p > 1 then WakeupChildWaiters E (p_ppid p) s2 = Some s' else s' = s2)"
proof -
  from assms(2,3) obtain p s1 sr q where p: "m_processes s pid = Some p" "release_process E pid cause s = Some s1"
    "reparent_children pid s1 = Some sr" "m_processes (call_user (Trace_exit pid (p_exitValue p)) sr) pid = Some q"
    "(let s4 = put_proc (q\<lparr>p_loader := False, p_alloc := False\<rparr>) (call_user (Trace_exit pid (p_exitValue p)) sr) in
      if p_ppid p > 1 then ChildFinished E pid s4 else Some (erase_proc pid s4)) = Some s'"
    by (auto simp: DeleteProcess_def bind_eq_Some_conv Let_def split: if_splits)
  have pid: "p_pid p = pid" by (rule pid_of_entry [OF assms(1) p(1)])
  let ?s2 = "s1\<lparr>m_processes := ended pid p (m_processes s), called := called s1 @ [Trace_exit pid (p_exitValue p)]\<rparr>"
  have fin: "if p_ppid p > 1 then WakeupChildWaiters E (p_ppid p) ?s2 = Some s' else s' = ?s2" if same: "m_processes s1 = m_processes s"
  proof -
    have sr: "sr = s1\<lparr>m_processes := without_children pid p (m_processes s)\<rparr>"
      using reparent_children_eq [of s1 pid p] p(1,3) assms(1) by (simp add: same)
    with p(4) have q: "q = p\<lparr>p_children := {}\<rparr>" by (simp add: call_user_def without_children_def)
    show ?thesis
    proof (cases "p_ppid p > 1")
      case True
      have "put_proc (q\<lparr>p_loader := False, p_alloc := False\<rparr>) (call_user (Trace_exit pid (p_exitValue p)) sr) = ?s2"
        using True by (simp add: sr q pid put_proc_def call_user_def ended_def)
      with p(5) True have "ChildFinished E pid ?s2 = Some s'" by (simp add: Let_def)
      moreover have "SearchProcess pid ?s2 = Some (p\<lparr>p_children := {}, p_loader := False, p_alloc := False\<rparr>)"
        using True by (simp add: SearchProcess_def ended_def)
      moreover have "p_pid z = p_ppid p" if "SearchProcess (p_ppid p) ?s2 = Some z" for z
        using that pid_of_entry [OF tree_ok_ended [OF assms(1) p(1)]] by (simp add: SearchProcess_def)
      ultimately show ?thesis using True by (auto simp: ChildFinished_def bind_eq_Some_conv)
    next
      case False
      with p(5) show ?thesis by (auto simp: Let_def sr q pid put_proc_def erase_proc_def call_user_def ended_def)
    qed
  qed
  show thesis by (rule that [OF p(1,2) refl]) (rule fin)
qed

lemma DeleteProcess_inv:
  assumes "inner_inv {} s" and "DeleteProcess E pid cause s = Some s'" and "cause \<noteq> PEC_NS3_END"
  shows "inner_inv {} s' \<and> (\<exists>p. m_processes s pid = Some p \<and> m_processes s' = ended pid p (m_processes s)) \<and> threads_of pid s' = []
    \<and> (\<forall>t. t \<notin> set (threads_of pid s) \<longrightarrow> thread_at s' t = thread_at s t \<and> node_frame s' t = node_frame s t)"
proof -
  from DeleteProcess_cases [OF inner_invD(1) [OF assms(1)] assms(2,3)]
  obtain p s1 s2 where p: "m_processes s pid = Some p" "release_process E pid cause s = Some s1"
    and s2: "m_processes s1 = m_processes s \<Longrightarrow> s2 = s1\<lparr>m_processes := ended pid p (m_processes s), called := called s1 @ [Trace_exit pid (p_exitValue p)]\<rparr>"
    and s': "m_processes s1 = m_processes s \<Longrightarrow> (if p_ppid p > 1 then WakeupChildWaiters E (p_ppid p) s2 = Some s' else s' = s2)" by blast
  note r = release_process_inv [OF assms(1) p(2)]
  let ?s1 = "s1\<lparr>called := called s1 @ [Trace_exit pid (p_exitValue p)]\<rparr>"
  have i1: "inner_inv {} ?s1" by (rule inner_calm [of _ s1]) (use r in simp_all)
  have s2': "s2 = ?s1\<lparr>m_processes := ended pid p (m_processes ?s1)\<rparr>" using s2 r by simp
  have wake: "p_ppid p > 1 \<Longrightarrow> wake_child_waiters E (threads_of (p_ppid p) s2) s2 = Some s'"
    using s' r by (simp add: WakeupChildWaiters_def)
  have c: "node_calm s2 s'" using s' r calm_wake_child_waiters by (cases "p_ppid p > 1") (auto simp: WakeupChildWaiters_def)
  have "inner_inv {} s'"
    by (rule ended_inv [OF i1 _ _ s2' c wake]) (use r p(1) in simp_all)
  moreover have "m_processes s' = ended pid p (m_processes s)" "threads_of pid s' = []"
    "\<forall>t. t \<notin> set (threads_of pid s) \<longrightarrow> thread_at s' t = thread_at s t \<and> node_frame s' t = node_frame s t"
    using node_calmD [OF c] r by (simp_all add: s2')
  ultimately show ?thesis using p(1) by blast
qed

end
