(* ===== verification/Process_Runs.thy ===== *)
theory Process_Runs
  imports Process_Ends
begin

text \<open>Every step of a node keeps the invariant of its processes, in particular every call of a program.\<close>

section \<open>The caller is not waiting\<close>

text \<open>The invariant in the middle of a call of the thread \<open>t\<close>, which waits for no child.\<close>

definition idle :: "task \<Rightarrow> 'x node \<Rightarrow> bool" where
  "idle t s \<longleftrightarrow> inner_inv {} s \<and> \<not> waits t s"

lemma idleD: "idle t s \<Longrightarrow> inner_inv {} s" "idle t s \<Longrightarrow> \<not> waits t s"
  by (simp_all add: idle_def)

lemma idle_calm: "idle t s \<Longrightarrow> node_calm s s' \<Longrightarrow> idle t s'"
  using inner_calm node_calmD(5) unfolding idle_def waits_def by metis

lemma idle_put_proc: "idle t s \<Longrightarrow> m_processes s pid = Some p \<Longrightarrow> same_links p q \<Longrightarrow> idle t (put_proc q s)"
  using put_proc_inv by (auto simp: idle_def waits_def)

lemma idle_put_thread:
  "idle t s \<Longrightarrow> thread_at s u = Some x \<Longrightarrow> childWaiter x' = childWaiter x \<Longrightarrow> idle t (put_thread u x' s)"
  using put_thread_inv by (auto simp: idle_def waits_def put_thread_def)

lemma idle_fields [simp]:
  "idle t (s\<lparr>called := a1\<rparr>) = idle t s" "idle t (s\<lparr>ints := a2\<rparr>) = idle t s" "idle t (s\<lparr>pointers := a3\<rparr>) = idle t s"
  "idle t (s\<lparr>handles := a4\<rparr>) = idle t s" "idle t (s\<lparr>m_nextPid := a5\<rparr>) = idle t s"
  by (simp_all add: idle_def inner_inv_def waits_but_def waits_def threads_ok_def wait_ok_def)

lemma idle_DeleteThread: "idle t s \<Longrightarrow> DeleteThread E u s = Some s' \<Longrightarrow> idle t s'"
  using DeleteThread_inv(1,6) [of s E u s'] by (auto simp: idle_def waits_def split: if_splits)

lemma idle_start_task:
  "idle t s \<Longrightarrow> m_processes s pid = Some p \<Longrightarrow> p_alloc p \<Longrightarrow> start_task E n pid s = Some (u, s') \<Longrightarrow> idle t s'"
  using start_task_inv(1,5) [of "{}" s pid p E n u s'] by (auto simp: idle_def waits_def split: if_splits)

lemma delete_threads_waits:
  "delete_threads E ts s = Some s' \<Longrightarrow> waits u s' \<Longrightarrow> waits u s"
proof (induction ts arbitrary: s)
  case (Cons t ts)
  then obtain s1 where s1: "DeleteThread E t s = Some s1" "delete_threads E ts s1 = Some s'" by (auto simp: bind_eq_Some_conv)
  have "waits u s1" by (rule Cons.IH [OF s1(2) Cons.prems(2)])
  moreover have "node_frame s1 = (node_frame s)(t := None)" by (rule DeleteThread_eq [OF s1(1)])
  ultimately show ?case by (auto simp: waits_def split: if_splits)
qed simp

text \<open>Putting the frame of a call back.\<close>

lemma settle_node_inv:
  assumes "inner_inv U s" and "U \<subseteq> {t}" and "\<And>x. thread_at s t = Some x \<Longrightarrow> childWaiter x = None"
    and "\<And>n st op w. fr \<noteq> Some (Wait_child n st op w)"
  shows "node_inv (set_frame t fr s)"
proof -
  note i = inner_invD [OF assms(1)]
  have "threads_ok (set_frame t fr s)" using i(2) by (simp add: threads_ok_def set_frame_def)
  moreover have "wait_ok u (set_frame t fr s)" for u
  proof (cases "u = t")
    case True
    then show ?thesis using assms(3,4) by (auto simp: wait_ok_def set_frame_def)
  next
    case False
    with assms(2) have "wait_ok u s" by (intro i(4)) auto
    with False show ?thesis by (simp add: wait_ok_def set_frame_def)
  qed
  ultimately show ?thesis using i(1) by (simp add: node_inv_def waits_but_def set_frame_def)
qed

lemma idle_settle:
  assumes "idle t s" and "\<And>n st op w. fr \<noteq> Some (Wait_child n st op w)"
  shows "node_inv (set_frame t fr s)"
proof (rule settle_node_inv [OF idleD(1) [OF assms(1)]])
  show "childWaiter x = None" if "thread_at s t = Some x" for x
    by (rule no_waiter [OF _ idleD(2) [OF assms(1)] that]) (simp add: inner_invD(4) [OF idleD(1) [OF assms(1)]])
qed (use assms(2) in auto)

text \<open>The result of a call that has kept the invariant.\<close>

fun result_idle :: "task \<Rightarrow> 'x node node_result \<Rightarrow> bool" where
  "result_idle t (Ret v s) = idle t s"
| "result_idle t (Susp fr s) = (idle t s \<and> (\<forall>n st op w. fr \<noteq> Wait_child n st op w))"
| "result_idle t (Gone s) = idle t s"

lemma result_idle_settle: "result_idle t r \<Longrightarrow> node_inv (node_settle t r)"
  by (cases r) (auto intro: idle_settle simp: inner_node idleD(1))

section \<open>Starting and stopping\<close>

lemma pick_pid_free: "pick_pid ps n i = Some pid \<Longrightarrow> pid > 1 \<and> ps pid = None"
proof (induction ps n i rule: pick_pid.induct)
  case (1 ps n i)
  show ?case
  proof (cases "n + word_of_int i > 1 \<and> ps (n + word_of_int i) = None")
    case True
    with 1(2) show ?thesis by (subst (asm) pick_pid.simps) (auto simp: Let_def split: if_splits)
  next
    case False
    with 1(2) have "\<not> i \<ge> 65535" "pick_pid ps n (i + 1) = Some pid"
      by (subst (asm) pick_pid.simps, auto simp: Let_def split: if_splits)+
    with 1(1) [OF _ refl False] show ?thesis by simp
  qed
qed

lemma no_threads: "threads_ok s \<Longrightarrow> m_processes s pid = None \<Longrightarrow> threads_of pid s = []"
  using threads_okD(4) by fastforce

text \<open>A process that comes into the table has no threads and no links to the waiting calls.\<close>

lemma new_process_inv:
  assumes "inner_inv U s" and "m_processes s pid = None" and "tree_ok m"
    and "\<And>j q. m_processes s j = Some q \<Longrightarrow> \<exists>q'. m j = Some q' \<and> p_alloc q' = p_alloc q
           \<and> p_children q' \<subseteq> insert pid (p_children q)"
    and "\<And>j q. m j = Some q \<Longrightarrow> j \<noteq> pid \<Longrightarrow> m_processes s j \<noteq> None" and "\<And>q. m pid = Some q \<Longrightarrow> p_alloc q"
  shows "inner_inv U (on_io (fresh_process_io pid) (s\<lparr>m_processes := m\<rparr>))"
proof -
  note i = inner_invD [OF assms(1)]
  let ?s = "on_io (fresh_process_io pid) (s\<lparr>m_processes := m\<rparr>)"
  have none: "threads_of pid s = []" by (rule no_threads [OF i(2) assms(2)])
  have f: "threads_of j ?s = threads_of j s" "process_of t ?s = process_of t s" "io_tm (nio ?s) = io_tm (nio s)"
    "m_processes ?s = m" "thread_at ?s = thread_at s" "node_frame ?s = node_frame s" "waiter_at ?s = waiter_at s"
    "next_waiter ?s = next_waiter s" "Current ?s = Current s" for j t
    using none by (auto simp: on_io_def fresh_process_io_def threads_of_def process_of_def Current_def)
  have "threads_ok ?s"
  proof (rule threads_okI)
    fix j assume "threads_of j ?s \<noteq> []"
    with threads_okD(4) [OF i(2), of j] assms(4) show "\<exists>p. m_processes ?s j = Some p \<and> p_alloc p" by (fastforce simp: f)
  qed (use threads_okD(1-3) [OF i(2)] in \<open>simp_all add: f\<close>)
  moreover have "wait_ok t ?s" if "t \<notin> U" for t
  proof -
    note w = wait_okD [OF i(4) [OF that]]
    show ?thesis
    proof (rule wait_okI)
      fix n st op w' r
      assume a: "node_frame ?s t = Some (Wait_child n st op w')" "m_processes ?s (process_of t ?s) = Some r" "ended_child n r (m_processes ?s)"
      from a(1) have fr: "node_frame s t = Some (Wait_child n st op w')" by (simp add: f)
      from w(2) [OF fr] obtain x :: thread where "thread_at s t = Some x" by blast
      with threads_okD(1) [OF i(2)] have "threads_of (process_of t s) s \<noteq> []" by fastforce
      from threads_okD(4) [OF i(2) this] obtain r0 where r0: "m_processes s (process_of t s) = Some r0" by blast
      from a(3) obtain c q where c: "c \<in> p_children r" "m c = Some q" "\<not> p_alloc q" "n = -1 \<or> n = uint c"
        by (auto simp: ended_child_def f)
      with assms(6) have ne: "c \<noteq> pid" by auto
      from assms(4) [OF r0] a(2) c(1) ne have c0: "c \<in> p_children r0" by (auto simp: f)
      from assms(5) [OF c(2) ne] obtain q0 where q0: "m_processes s c = Some q0" by blast
      with assms(4) [OF q0] c(2,3) have "\<not> p_alloc q0" by auto
      with c0 q0 c(4) have "ended_child n r0 (m_processes s)" by (auto simp: ended_child_def)
      with w(3) [OF fr r0] show "\<not> blocked t (io_tm (nio ?s))" by (simp add: f)
    qed (use w(1,2) in \<open>simp_all add: f\<close>)
  qed
  ultimately show ?thesis using assms(3) i(5) by (simp add: inner_inv_def waits_but_def waits_def f)
qed

lemma node_Start_inv:
  assumes "inner_inv {} s" and "node_Start E u eu g eg s = Some (pid, s')"
  shows "inner_inv {} s'" and "pid > 1" and "m_processes s pid = None"
    and "m_processes s' = (m_processes s)(pid \<mapsto> (new_proc pid)\<lparr>p_cred := start_credentials u eu g eg\<rparr>)"
proof -
  note i = inner_invD [OF assms(1)]
  from assms(2) obtain t where pid: "pick_pid (m_processes s) (m_nextPid s) 0 = Some pid"
    and st: "start_task E TASK_SWITCH pid (put_proc ((new_proc pid)\<lparr>p_cred := start_credentials u eu g eg\<rparr>)
        (on_io (fresh_process_io pid) (put_proc (new_proc pid) (s\<lparr>m_nextPid := pid + 1\<rparr>)))) = Some (t, s')"
    by (auto simp: node_Start_def CreateProcess_def AllocatePid_def bind_eq_Some_conv on_io_def put_proc_def new_proc_def Let_def)
  from pick_pid_free [OF pid] show free: "pid > 1" "m_processes s pid = None" by auto
  let ?p = "(new_proc pid)\<lparr>p_cred := start_credentials u eu g eg\<rparr>"
  let ?s = "on_io (fresh_process_io pid) ((s\<lparr>m_nextPid := pid + 1\<rparr>)\<lparr>m_processes := (m_processes s)(pid \<mapsto> ?p)\<rparr>)"
  have eq: "put_proc ?p (on_io (fresh_process_io pid) (put_proc (new_proc pid) (s\<lparr>m_nextPid := pid + 1\<rparr>))) = ?s"
    by (simp add: put_proc_def on_io_def new_proc_def)
  have "inner_inv {} (s\<lparr>m_nextPid := pid + 1\<rparr>)" by (rule inner_calm [OF assms(1)]) simp
  then have s: "inner_inv {} ?s"
    by (rule new_process_inv) (use free tree_ok_new [OF i(1) free(2,1) refl] in \<open>auto simp: new_proc_def\<close>)
  have p: "m_processes ?s pid = Some ?p" "p_alloc ?p" by (simp_all add: on_io_def new_proc_def)
  note t = start_task_inv [OF s p st [unfolded eq]]
  show "inner_inv {} s'" by (rule t(1))
  show "m_processes s' = (m_processes s)(pid \<mapsto> ?p)" using t(2) by (simp add: on_io_def)
qed

lemma node_Stop_inv: "inner_inv {} s \<Longrightarrow> node_Stop E pid s = Some s' \<Longrightarrow> inner_inv {} s'"
  using DeleteProcess_inv [of s E pid PEC_NS3_STOP s'] by (auto simp: node_Stop_def split: option.splits)

lemma SetFinishedCallback_inv: "inner_inv U s \<Longrightarrow> inner_inv U (SetFinishedCallback pid cb s)"
  by (auto simp: SetFinishedCallback_def SearchProcess_def same_links_def split: option.split intro!: put_proc_inv)


section \<open>Fork\<close>

lemma node_Clone_inv:
  assumes "inner_inv {} s" and "node_Clone E t s = Some (pid, s')"
  obtains x :: thread and p where "thread_at s t = Some x" "m_processes s (process_of t s) = Some p" "p_alloc p"
    "pid > 1" "m_processes s pid = None" "inner_inv {} s'"
    "m_processes s' = (m_processes s)(process_of t s \<mapsto> p\<lparr>p_children := insert pid (p_children p)\<rparr>, pid \<mapsto> clone_proc pid p)"
    "\<And>u. u < new_task (io_tm (nio s)) \<Longrightarrow> node_frame s' u = node_frame s u"
proof -
  note i = inner_invD [OF assms(1)]
  from assms(2) obtain x :: thread and p s3 s4 c m where x: "thread_at s t = Some x" "m_processes s (process_of t s) = Some p"
    and pid: "pick_pid (m_processes s) (m_nextPid s) 0 = Some pid"
    and s3: "try_io (clone_files (p_pid p) pid) (on_io (fresh_process_io pid)
      (put_proc (p\<lparr>p_children := insert pid (p_children p)\<rparr>) (s\<lparr>m_nextPid := pid + 1\<rparr>))) = Some s3"
    and s4: "CreateThread pid (new_task (io_tm (nio s3))) (put_proc (clone_proc pid p) s3) = Some s4"
    and ok: "p_loader p \<and> p_alloc p \<and> t_task x"
    and m: "tm_Clone (io_sim E) t (io_tm (nio s4)) = Some (c, m)"
    and s': "connect_task TASK_SWITCH pid c (on_io (\<lambda>i. i\<lparr>io_tm := m\<rparr>) s4) = Some s'"
    by (auto simp: node_Clone_def AllocatePid_def bind_eq_Some_conv Let_def split: if_splits)
  let ?par = "process_of t s" and ?t = "new_task (io_tm (nio s))"
  from pick_pid_free [OF pid] have free: "pid > 1" "m_processes s pid = None" by auto
  have par: "p_pid p = ?par" by (rule pid_of_entry [OF i(1) x(2)])
  have ne: "?par \<noteq> pid" using x(2) free by auto
  let ?p = "p\<lparr>p_children := insert pid (p_children p)\<rparr>"
  let ?m = "(m_processes s)(?par \<mapsto> ?p, pid \<mapsto> clone_proc pid p)"
  let ?s0 = "on_io (fresh_process_io pid) ((s\<lparr>m_nextPid := pid + 1\<rparr>)\<lparr>m_processes := ?m\<rparr>)"
  obtain f where f: "clone_files (p_pid p) pid (fresh_process_io pid (nio s)) = Some f"
    "put_proc (clone_proc pid p) s3 = ?s0\<lparr>nio := f\<rparr>"
    using s3 by (auto simp: try_io_def bind_eq_Some_conv on_io_def put_proc_def par clone_proc_def new_proc_def)
  have "inner_inv {} (s\<lparr>m_nextPid := pid + 1\<rparr>)" by (rule inner_calm [OF assms(1)]) simp
  then have s0: "inner_inv {} ?s0"
  proof (rule new_process_inv)
    show "tree_ok ?m" using tree_ok_clone [OF i(1) free(2,1) x(2)] ok by simp
    show "\<exists>q'. ?m j = Some q' \<and> p_alloc q' = p_alloc q \<and> p_children q' \<subseteq> insert pid (p_children q)"
      if "m_processes (s\<lparr>m_nextPid := pid + 1\<rparr>) j = Some q" for j q
      using that x(2) free(2) by (cases "j = ?par") auto
    show "m_processes (s\<lparr>m_nextPid := pid + 1\<rparr>) j \<noteq> None" if "?m j = Some q" "j \<noteq> pid" for j q
      using that x(2) by (auto split: if_splits)
    show "p_alloc q" if "?m pid = Some q" for q using that by (auto simp: clone_proc_def new_proc_def)
  qed (use free in simp)
  have c0: "node_calm ?s0 (?s0\<lparr>nio := f\<rparr>)"
    using calm_clone_fds [OF f(1) [unfolded clone_files_def]] by (simp add: node_calm_def same_node_def on_io_def)
  let ?s1 = "?s0\<lparr>nio := f\<rparr>"
  have s1: "inner_inv {} ?s1" by (rule inner_calm [OF s0 c0])
  have nt: "new_task (io_tm (nio s3)) = new_task (io_tm (nio ?s1))" using arg_cong [OF f(2), of nio] by simp
  have mp: "m_processes ?s1 pid = Some (clone_proc pid p)" "p_alloc (clone_proc pid p)"
    by (simp_all add: on_io_def clone_proc_def new_proc_def)
  note s4' = s4 [unfolded f(2) nt]
  have tm4: "io_tm (nio s4) = io_tm (nio ?s1)"
    by (rule CreateThread_eq [OF s4']) (simp add: on_io_def attach_thread_def put_thread_def)
  note cl = Clone_calm [OF m]
  have c: "c = new_task (io_tm (nio ?s1))" using cl tm4 by simp
  note new = new_thread_inv [OF s1 mp s4' _ _ _ s' [unfolded c]]
  have new': "inner_inv {} s'" "m_processes s' = m_processes ?s1"
    "node_frame s' = (node_frame ?s1)(new_task (io_tm (nio ?s1)) := None)" using new cl by blast+
  show thesis
  proof (rule that [OF x _ free new'(1)])
    show "p_alloc p" using ok by blast
    show "m_processes s' = ?m" using new'(2) by (simp add: on_io_def)
    have "new_task (io_tm (nio s)) \<le> new_task (io_tm (nio ?s1))"
      using calm_tmD(1) [OF node_calmD(8) [OF c0]] by (simp add: on_io_def fresh_process_io_def)
    then show "node_frame s' u = node_frame s u" if "u < new_task (io_tm (nio s))" for u
      using that new'(3) by (auto simp: on_io_def)
  qed
qed

section \<open>Exit\<close>

lemma idle_CleanupPthreadKeys: "idle t s \<Longrightarrow> CleanupPthreadKeys s = Some s' \<Longrightarrow> idle t s'"
  by (auto simp: CleanupPthreadKeys_def bind_eq_Some_conv intro: idle_put_thread)

lemma current_threadD:
  assumes "current_thread s = Some (t, x, p)"
  shows "Current s = Some t" "thread_at s t = Some x" "m_processes s (process_of t s) = Some p"
  using assms by (auto simp: current_thread_def bind_eq_Some_conv)

lemma idle_put_proc_fields:
  assumes "idle t s" and "m_processes s pid = Some p"
  shows "idle t (put_proc (p\<lparr>p_atexit := a\<rparr>) s)" "idle t (put_proc (p\<lparr>p_exitValue := e\<rparr>) s)" "idle t (put_proc (p\<lparr>p_cred := c\<rparr>) s)"
  by (rule idle_put_proc [OF assms], simp add: same_links_def)+

lemma idle_finalize: "idle t s \<Longrightarrow> dce_cxa_finalize d s = Some s' \<Longrightarrow> idle t s'"
  by (auto simp: dce_cxa_finalize_def bind_eq_Some_conv dest!: current_threadD intro: idle_put_proc_fields)

lemma release_waits:
  assumes "release_process E pid cause s = Some s'" and "waits t s'"
  shows "waits t s"
proof -
  from assms(1) obtain p s1 s2 s5 where p: "m_processes s pid = Some p"
    "cleanup_threads (rev (threads_of pid s)) s = Some s1"
    "(if cause = PEC_EXIT then try_io (\<lambda>i. close_fds E pid (open_fds pid i) i) s1 else Some s1) = Some s2"
    "try_io (drop_files pid) (on_io (cancel_itimer E p)
       (case p_finished p of None \<Rightarrow> s2 | Some cb \<Rightarrow> call_user (Call_finished cb pid (p_exitValue p)) s2)) = Some s5"
    "delete_threads E (rev (threads_of pid s5)) s5 = Some s'"
    by (auto simp: release_process_def bind_eq_Some_conv Let_def)
  have "node_frame s1 = node_frame s" by (rule node_calmD(5) [OF calm_cleanup_threads [OF p(2)]])
  moreover have "node_frame s2 = node_frame s1" using p(3) by (auto simp: try_io_def bind_eq_Some_conv split: if_splits)
  moreover have "node_frame s5 = node_frame s2"
    using p(4) by (auto simp: try_io_def bind_eq_Some_conv on_io_def call_user_def split: option.splits)
  ultimately show ?thesis using delete_threads_waits [OF p(5) assms(2)] by (simp add: waits_def)
qed

lemma idle_DeleteProcess:
  assumes "idle t s" and "DeleteProcess E pid cause s = Some s'" and "cause \<noteq> PEC_NS3_END"
  shows "idle t s'"
proof -
  note i = DeleteProcess_inv [OF idleD(1) [OF assms(1)] assms(2,3)]
  have "\<not> waits t s'"
  proof
    assume w: "waits t s'"
    from DeleteProcess_cases [OF inner_invD(1) [OF idleD(1) [OF assms(1)]] assms(2,3)]
    obtain p s1 s2 where p: "release_process E pid cause s = Some s1"
      and s2: "m_processes s1 = m_processes s \<Longrightarrow> s2 = s1\<lparr>m_processes := ended pid p (m_processes s), called := called s1 @ [Trace_exit pid (p_exitValue p)]\<rparr>"
      and s': "m_processes s1 = m_processes s \<Longrightarrow> (if p_ppid p > 1 then WakeupChildWaiters E (p_ppid p) s2 = Some s' else s' = s2)" by blast
    have same: "m_processes s1 = m_processes s" using release_process_inv [OF idleD(1) [OF assms(1)] p] by blast
    have "node_frame s' = node_frame s1"
    proof (cases "p_ppid p > 1")
      case True
      with s' [OF same] have "wake_child_waiters E (threads_of (p_ppid p) s2) s2 = Some s'" by (simp add: WakeupChildWaiters_def)
      from node_calmD(5) [OF calm_wake_child_waiters [OF this]] s2 [OF same] show ?thesis by simp
    next
      case False
      with s' [OF same] s2 [OF same] show ?thesis by simp
    qed
    with w have "waits t s1" by (simp add: waits_def)
    with release_waits [OF p] idleD(2) [OF assms(1)] show False by blast
  qed
  with i show ?thesis by (simp add: idle_def)
qed

lemma idle_dce_exit:
  assumes "idle t s" and "dce_exit E status s = Some r"
  shows "result_idle t r"
proof -
  from assms(2) obtain s1 s2 u x p s4 s5 s6 where s: "CleanupPthreadKeys s = Some s1" "dce_cxa_finalize 0 s1 = Some s2"
    "current_thread s2 = Some (u, x, p)"
    "try_tm (SetSwitchNotifier u 0 0) (put_proc (p\<lparr>p_exitValue := W_EXITCODE status (p_exitValue p)\<rparr>) s2) = Some s4"
    "DeleteProcess E (p_pid p) PEC_EXIT s4 = Some s5" "node_Exit E s5 = Some s6" "r = Gone s6"
    by (auto simp: dce_exit_def bind_eq_Some_conv Let_def split: if_splits)
  have "idle t s2" by (rule idle_finalize [OF idle_CleanupPthreadKeys [OF assms(1) s(1)] s(2)])
  from idle_put_proc_fields(2) [OF this current_threadD(3) [OF s(3)]]
  have "idle t (put_proc (p\<lparr>p_exitValue := W_EXITCODE status (p_exitValue p)\<rparr>) s2)" .
  moreover have "node_calm (put_proc (p\<lparr>p_exitValue := W_EXITCODE status (p_exitValue p)\<rparr>) s2) s4"
    by (rule calm_try_tm [OF s(4)]) (simp add: context_calm(2))
  ultimately have "idle t s4" by (rule idle_calm)
  from idle_DeleteProcess [OF this s(5)] have "idle t s5" by simp
  with calm_node_Exit [OF s(6)] have "idle t s6" by (blast intro: idle_calm)
  then show ?thesis by (simp add: s(7))
qed

end
