(* ===== verification/Process_Waits.thy ===== *)
theory Process_Waits
  imports Process_Runs
begin

text \<open>\<open>waitpid\<close> keeps the invariant: it suspends its thread only when no child has ended.\<close>

section \<open>The scan of the children\<close>

lemma wait_scan_none:
  assumes "wait_scan pid cs s n = Inl k" and "tree_ok (m_processes s)" and "c \<in> set cs" and "m_processes s c = Some q"
    and "pid = -1 \<or> pid = uint c"
  shows "p_alloc q"
  using assms
proof (induction cs arbitrary: n)
  case (Cons d cs)
  show ?case
  proof (cases "c = d")
    case True
    with tree_okD(1) [OF Cons.prems(2,4)] Cons.prems show ?thesis
      by (auto simp: SearchProcess_def proc_ok_def split: if_splits)
  next
    case False
    with Cons show ?thesis by (auto split: if_splits option.splits)
  qed
qed simp

lemma wait_scan_count:
  assumes "wait_scan pid cs s n = Inl k"
  shows "k \<ge> n \<and> (k = n \<longrightarrow> (\<forall>c \<in> set cs. \<forall>q. c > 1 \<longrightarrow> m_processes s c = Some q \<longrightarrow> pid \<noteq> -1 \<and> pid \<noteq> uint (p_pid q)))"
  using assms
proof (induction cs arbitrary: n)
  case (Cons d cs)
  from Cons.prems Cons.IH [of n] Cons.IH [of "n + 1"] show ?case
    by (auto simp: SearchProcess_def split: if_splits option.splits)
qed simp

lemma wait_scan_some:
  assumes "wait_scan pid cs s n = Inr q" and "tree_ok (m_processes s)"
  shows "p_pid q \<in> set cs \<and> m_processes s (p_pid q) = Some q \<and> \<not> p_alloc q \<and> (pid = -1 \<or> pid = uint (p_pid q))"
  using assms
proof (induction cs arbitrary: n)
  case (Cons d cs)
  show ?case
  proof (cases "d > 1 \<and> m_processes s d = Some q \<and> wait_scan pid [d] s n = Inr q")
    case True
    with pid_of_entry [OF Cons.prems(2)] Cons.prems show ?thesis by (auto simp: SearchProcess_def split: if_splits)
  next
    case False
    with Cons show ?thesis by (auto simp: SearchProcess_def split: if_splits option.splits)
  qed
qed simp

section \<open>One round\<close>

text \<open>The thread that calls has no \<open>Waiter\<close>; the frame of the call is still in place when it was woken.\<close>

lemma reap_inv:
  assumes "inner_inv U s" and "m_processes s par = Some p" and "c \<in> p_children p" and "m_processes s c = Some q" and "\<not> p_alloc q"
  shows "inner_inv U (FinishChild c (put_proc (p\<lparr>p_children := p_children p - {c}\<rparr>) s))"
proof -
  note i = inner_invD [OF assms(1)]
  have par: "p_pid p = par" by (rule pid_of_entry [OF i(1) assms(2)])
  let ?m = "((m_processes s)(par \<mapsto> p\<lparr>p_children := p_children p - {c}\<rparr>))(c := None)"
  have eq: "FinishChild c (put_proc (p\<lparr>p_children := p_children p - {c}\<rparr>) s) = s\<lparr>m_processes := ?m\<rparr>"
    by (simp add: FinishChild_def erase_proc_def put_proc_def par)
  have old: "\<exists>r0. m_processes s j = Some r0 \<and> p_alloc r0 = p_alloc r \<and> p_children r \<subseteq> p_children r0" if "?m j = Some r" for j r
    using that assms(2) by (auto split: if_splits)
  have none: "threads_of c s = []"
    using threads_okD(4) [OF i(2), of c] assms(4,5) by auto
  have "threads_ok (s\<lparr>m_processes := ?m\<rparr>)"
  proof (rule threads_okI)
    fix j assume "threads_of j (s\<lparr>m_processes := ?m\<rparr>) \<noteq> []"
    then have "threads_of j s \<noteq> []" "j \<noteq> c" using none by auto
    with threads_okD(4) [OF i(2), of j] assms(2)
    show "\<exists>r. m_processes (s\<lparr>m_processes := ?m\<rparr>) j = Some r \<and> p_alloc r" by auto
  qed (use threads_okD(1-3) [OF i(2)] in simp_all)
  moreover have "wait_ok t (s\<lparr>m_processes := ?m\<rparr>)" if "t \<notin> U" for t
  proof -
    note w = wait_okD [OF i(4) [OF that]]
    show ?thesis
    proof (rule wait_okI)
      fix n st op w' r
      assume a: "node_frame (s\<lparr>m_processes := ?m\<rparr>) t = Some (Wait_child n st op w')"
        "m_processes (s\<lparr>m_processes := ?m\<rparr>) (process_of t (s\<lparr>m_processes := ?m\<rparr>)) = Some r" "ended_child n r (m_processes (s\<lparr>m_processes := ?m\<rparr>))"
      from a(2) old obtain r0 where r0: "m_processes s (process_of t s) = Some r0" "p_children r \<subseteq> p_children r0" by fastforce
      from a(3) obtain d q' where d: "d \<in> p_children r" "?m d = Some q'" "\<not> p_alloc q'" "n = -1 \<or> n = uint d"
        by (auto simp: ended_child_def)
      from old [OF d(2)] d(1,3,4) r0(2) have "ended_child n r0 (m_processes s)" by (auto simp: ended_child_def)
      with w(3) [OF _ r0(1)] a(1) show "\<not> blocked t (io_tm (nio (s\<lparr>m_processes := ?m\<rparr>)))" by simp
    qed (use w(1,2) in simp_all)
  qed
  ultimately show ?thesis
    using tree_ok_reap [OF i(1) assms(2,4,3,5)] i(5) unfolding eq by (auto simp: inner_inv_def waits_but_def waits_def)
qed


text \<open>No child has ended and the thread is put to sleep.\<close>

lemma wait_suspend_inv:
  assumes "inner_inv U s" and "U \<subseteq> {t}" and "Current s = Some t" and "thread_at s t = Some x"
    and "m_processes s (process_of t s) = Some p" and "\<not> ended_child pid p (m_processes s)"
    and "waiter_Wait E (next_waiter s) (put_thread t (x\<lparr>childWaiter := Some (next_waiter s)\<rparr>) (snd (new_waiter s))) = Some s2"
  shows "node_inv (set_frame t (Some (Wait_child pid status options (next_waiter s))) s2)"
proof -
  note i = inner_invD [OF assms(1)]
  let ?w = "next_waiter s" and ?x = "x\<lparr>childWaiter := Some (next_waiter s)\<rparr>"
  let ?y = "\<lparr>w_waiting = Some t, w_timeout = 0\<rparr>"
  obtain s1 where s1: "node_Wait_timeout E 0 s1 = Some s2" "m_processes s1 = m_processes s" "thread_at s1 = (thread_at s)(t \<mapsto> ?x)"
    "waiter_at s1 = (waiter_at s)(?w \<mapsto> ?y)" "next_waiter s1 = ?w + 1" "node_frame s1 = node_frame s" "nio s1 = nio s"
    using assms(3,7) by (auto simp: waiter_Wait_def new_waiter_def put_thread_def put_waiter_def bind_eq_Some_conv)
  note d = node_calmD [OF calm_node_Wait_timeout [OF s1(1)]]
  let ?s = "set_frame t (Some (Wait_child pid status options ?w)) s2"
  have f: "threads_of j ?s = threads_of j s" "process_of u ?s = process_of u s" "m_processes ?s = m_processes s"
    "thread_at ?s = (thread_at s)(t \<mapsto> ?x)" "waiter_at ?s = (waiter_at s)(?w \<mapsto> ?y)" "next_waiter ?s = ?w + 1"
    "node_frame ?s = (node_frame s)(t \<mapsto> Wait_child pid status options ?w)" "nio ?s = nio s2" for j u
    using d s1 by (simp_all add: set_frame_def threads_of_def process_of_def)
  have grow: "new_task (io_tm (nio s)) \<le> new_task (io_tm (nio s2))" using calm_tmD(1) [OF d(8)] by (simp add: s1(7))
  have "threads_ok ?s"
  proof (rule threads_okI)
    fix u z assume "thread_at ?s u = Some z"
    then obtain z0 where "thread_at s u = Some z0" using assms(4) by (auto simp: f split: if_splits)
    from threads_okD(1) [OF i(2) this] grow
    show "u \<in> set (threads_of (process_of u ?s) ?s) \<and> u < new_task (io_tm (nio ?s))" by (simp add: f)
  next
    fix j u assume "u \<in> set (threads_of j ?s)"
    with threads_okD(2) [OF i(2), of u j] show "thread_at ?s u \<noteq> None \<and> process_of u ?s = j" by (simp add: f)
  qed (use threads_okD(3,4) [OF i(2)] in \<open>simp_all add: f\<close>)
  moreover have "wait_ok u ?s" for u
  proof (cases "u = t")
    case True
    then show ?thesis using assms(5,6) by (intro wait_okI) (auto simp: f)
  next
    case False
    with assms(2) have w: "wait_ok u s" by (intro i(4)) auto
    have awake: "blocked u (io_tm (nio s))" if "blocked u (io_tm (nio s2))"
      using calm_tmD(3) [OF d(8) _ that] False assms(3) by (simp add: s1(7) Current_def)
    show ?thesis
    proof (rule wait_okI)
      fix z w assume "thread_at ?s u = Some z" "childWaiter z = Some w"
      with wait_okD(1) [OF w, of z w] False
      show "w < next_waiter ?s \<and> (\<exists>pid st op. node_frame ?s u = Some (Wait_child pid st op w))" by (auto simp: f)
    next
      fix n st op w assume "node_frame ?s u = Some (Wait_child n st op w)"
      with wait_okD(2) [OF w, of n st op w] False
      obtain z y where z: "thread_at s u = Some z" "childWaiter z = Some w" "waiter_at s w = Some y" "w_waiting y = Some u"
        by (auto simp: f)
      with wait_okD(1) [OF w z(1,2)] False
      show "\<exists>x y. thread_at ?s u = Some x \<and> childWaiter x = Some w \<and> waiter_at ?s w = Some y \<and> w_waiting y = Some u" by (simp add: f)
    next
      fix n st op w q assume a: "node_frame ?s u = Some (Wait_child n st op w)" "m_processes ?s (process_of u ?s) = Some q"
        "ended_child n q (m_processes ?s)"
      with wait_okD(3) [OF w, of n st op w q] False awake show "\<not> blocked u (io_tm (nio ?s))" by (auto simp: f)
    qed
  qed
  ultimately show ?thesis using i(1) by (simp add: node_inv_def waits_but_def f(3))
qed

lemma wait_round_cases:
  assumes "wait_round E pid status options s = Some r" and "Current s = Some t"
  obtains x p where "thread_at s t = Some x" "m_processes s (process_of t s) = Some p"
    "(case wait_scan pid (sorted_list_of_set (p_children p)) s 0 of
        Inr q \<Rightarrow> r = Ret (uint (p_pid q)) ((FinishChild (p_pid q) (put_proc (p\<lparr>p_children := p_children p - {p_pid q}\<rparr>) s))
                   \<lparr>ints := (case status of None \<Rightarrow> ints s | Some a \<Rightarrow> (ints s)(a := p_exitValue q))\<rparr>)
      | Inl n \<Rightarrow> if n = 0 then r = Ret (-1) (on_io (set_err ECHILD t) s)
          else if options AND WNOHANG \<noteq> 0 then r = Ret 0 s
          else \<exists>s2. r = Susp (Wait_child pid status options (next_waiter s)) s2
            \<and> waiter_Wait E (next_waiter s) (put_thread t (x\<lparr>childWaiter := Some (next_waiter s)\<rparr>) (snd (new_waiter s))) = Some s2)"
proof -
  from assms obtain x p where c: "thread_at s t = Some x" "m_processes s (process_of t s) = Some p" "current_thread s = Some (t, x, p)"
    by (auto simp: wait_round_def current_thread_def bind_eq_Some_conv)
  show thesis
  proof (rule that [OF c(1,2)], goal_cases)
    case 1
    show ?case
    proof (cases "wait_scan pid (sorted_list_of_set (p_children p)) s 0")
      case (Inl n)
      with assms(1) c(3) show ?thesis by (auto simp: wait_round_def new_waiter_def bind_eq_Some_conv Let_def split: if_splits)
    next
      case (Inr q)
      with assms(1) c(3) show ?thesis
        by (cases status) (auto simp: wait_round_def Let_def FinishChild_def erase_proc_def put_proc_def)
    qed
  qed
qed

lemma wait_round_inv:
  assumes "inner_inv U s" and "U \<subseteq> {t}" and "Current s = Some t"
    and "\<And>x. thread_at s t = Some x \<Longrightarrow> childWaiter x = None" and "wait_round E pid status options s = Some r"
  shows "node_inv (node_settle t r)"
proof -
  note i = inner_invD [OF assms(1)]
  obtain x p where x: "thread_at s t = Some x" "m_processes s (process_of t s) = Some p" and
    r: "(case wait_scan pid (sorted_list_of_set (p_children p)) s 0 of
        Inr q \<Rightarrow> r = Ret (uint (p_pid q)) ((FinishChild (p_pid q) (put_proc (p\<lparr>p_children := p_children p - {p_pid q}\<rparr>) s))
                   \<lparr>ints := (case status of None \<Rightarrow> ints s | Some a \<Rightarrow> (ints s)(a := p_exitValue q))\<rparr>)
      | Inl n \<Rightarrow> if n = 0 then r = Ret (-1) (on_io (set_err ECHILD t) s)
          else if options AND WNOHANG \<noteq> 0 then r = Ret 0 s
          else \<exists>s2. r = Susp (Wait_child pid status options (next_waiter s)) s2
            \<and> waiter_Wait E (next_waiter s) (put_thread t (x\<lparr>childWaiter := Some (next_waiter s)\<rparr>) (snd (new_waiter s))) = Some s2)"
    by (rule wait_round_cases [OF assms(5,3)])
  have children: "set (sorted_list_of_set (p_children p)) = p_children p" by simp
  have settle: "node_inv (set_frame t None s')" if "inner_inv U s'" "thread_at s' = thread_at s" for s'
    by (rule settle_node_inv [OF that(1) assms(2)]) (use assms(4) that(2) in simp_all)
  show ?thesis
  proof (cases "wait_scan pid (sorted_list_of_set (p_children p)) s 0")
    case (Inr q)
    note q = wait_scan_some [OF Inr i(1), unfolded children]
    from reap_inv [OF assms(1) x(2), of "p_pid q" q] q
    have "inner_inv U (FinishChild (p_pid q) (put_proc (p\<lparr>p_children := p_children p - {p_pid q}\<rparr>) s))" by blast
    then have "inner_inv U ((FinishChild (p_pid q) (put_proc (p\<lparr>p_children := p_children p - {p_pid q}\<rparr>) s))\<lparr>ints := v\<rparr>)" for v
      by (rule inner_calm) simp
    with r Inr show ?thesis by (auto intro!: settle simp: FinishChild_def erase_proc_def)
  next
    case (Inl n)
    have none: "\<not> ended_child pid p (m_processes s)"
      using wait_scan_none [OF Inl i(1)] children by (auto simp: ended_child_def)
    have err: "inner_inv U (on_io (set_err ECHILD t) s)" by (rule inner_calm [OF assms(1)]) simp
    from r Inl consider "r = Ret (-1) (on_io (set_err ECHILD t) s)" | "r = Ret 0 s"
      | s2 where "r = Susp (Wait_child pid status options (next_waiter s)) s2"
        "waiter_Wait E (next_waiter s) (put_thread t (x\<lparr>childWaiter := Some (next_waiter s)\<rparr>) (snd (new_waiter s))) = Some s2"
      by (auto split: if_splits)
    then show ?thesis
    proof cases
      case 1
      then show ?thesis using settle [OF err] by (simp add: on_io_def)
    next
      case 2
      then show ?thesis using settle [OF assms(1)] by simp
    next
      case 3
      with wait_suspend_inv [OF assms(1-3) x none 3(2)] show ?thesis by simp
    qed
  qed
qed

section \<open>The whole call\<close>

lemma idle_no_waiter: "idle t s \<Longrightarrow> thread_at s t = Some x \<Longrightarrow> childWaiter x = None"
  using no_waiter [OF inner_invD(4), of "{}" s t x] by (simp add: idle_def)

lemma waitpid_inv:
  assumes "idle t s" and "Current s = Some t" and "dce_waitpid E pid status options s = Some r"
  shows "node_inv (node_settle t r)"
proof -
  have "idle t (on_io (set_err EINVAL t) s)" by (rule idle_calm [OF assms(1)]) simp
  then have err: "node_inv (node_settle t (Ret (-1) (on_io (set_err EINVAL t) s)))" by (simp add: idle_settle)
  have go: "node_inv (node_settle t r)" if "wait_round E pid status options s = Some r"
    by (rule wait_round_inv [OF idleD(1) [OF assms(1)] _ assms(2) _ that]) (use idle_no_waiter [OF assms(1)] in auto)
  have eq: "dce_waitpid E pid status options s =
      (if options AND WUNTRACED \<noteq> 0 \<or> options AND WCONTINUED \<noteq> 0 \<or> pid = 0 \<or> pid < -1
       then Some (Ret (-1) (on_io (set_err EINVAL t) s)) else wait_round E pid status options s)"
    by (simp add: dce_waitpid_def assms(2))
  show ?thesis
  proof (cases "options AND WUNTRACED \<noteq> 0 \<or> options AND WCONTINUED \<noteq> 0 \<or> pid = 0 \<or> pid < -1")
    case True
    with assms(3) have "r = Ret (-1) (on_io (set_err EINVAL t) s)" unfolding eq by simp
    with err show ?thesis by simp
  next
    case False
    with assms(3) show ?thesis unfolding eq by (intro go) (simp only: if_False)
  qed
qed

text \<open>The thread was woken: it gives its \<open>Waiter\<close> up and looks again.\<close>

lemma drop_waiter_inv:
  assumes "inner_inv {t} s" and "node_frame s t = Some (Wait_child pid st op w)" and "thread_at s t = Some x" and "childWaiter x = Some w"
    and "\<And>u y. u \<noteq> t \<Longrightarrow> thread_at s u = Some y \<Longrightarrow> childWaiter y \<noteq> Some w"
  shows "inner_inv {t} (put_thread t (x\<lparr>childWaiter := None\<rparr>) (delete_waiter w s))"
proof -
  note i = inner_invD [OF assms(1)]
  let ?s = "put_thread t (x\<lparr>childWaiter := None\<rparr>) (delete_waiter w s)"
  have f: "threads_of j ?s = threads_of j s" "process_of u ?s = process_of u s" "m_processes ?s = m_processes s"
    "thread_at ?s = (thread_at s)(t \<mapsto> x\<lparr>childWaiter := None\<rparr>)" "waiter_at ?s = (waiter_at s)(w := None)"
    "next_waiter ?s = next_waiter s" "node_frame ?s = node_frame s" "nio ?s = nio s" "Current ?s = Current s" for j u
    by (simp_all add: put_thread_def delete_waiter_def)
  have "threads_ok ?s"
    by (rule threads_okI) (use threads_okD [OF i(2)] assms(3) in \<open>auto simp: f split: if_splits\<close>)
  moreover have "wait_ok u ?s" if "u \<noteq> t" for u
  proof -
    have w: "wait_ok u s" using that by (intro i(4)) auto
    show ?thesis
    proof (rule wait_okI)
      fix n st op w' assume fr: "node_frame ?s u = Some (Wait_child n st op w')"
      with wait_okD(2) [OF w, of n st op w'] obtain z y where z: "thread_at s u = Some z" "childWaiter z = Some w'"
        "waiter_at s w' = Some y" "w_waiting y = Some u" by (auto simp: f)
      with assms(5) [OF that z(1)] that
      show "\<exists>x y. thread_at ?s u = Some x \<and> childWaiter x = Some w' \<and> waiter_at ?s w' = Some y \<and> w_waiting y = Some u" by (auto simp: f)
    qed (use wait_okD(1,3) [OF w] that in \<open>simp_all add: f\<close>)
  qed
  ultimately show ?thesis using i(1,5) by (simp add: inner_inv_def waits_but_def waits_def f)
qed

end
