(* ===== verification/Process_Reach.thy ===== *)
theory Process_Reach
  imports Process_Waits
begin

text \<open>Every call of a program and every step of a node keeps the invariant.\<close>

section \<open>A woken \<open>waitpid\<close>\<close>

lemma waiter_woken_put: "waiter_woken w t s = Some (r, s1) \<Longrightarrow> \<exists>y. s1 = put_waiter w y s"
  by (auto simp: waiter_woken_def bind_eq_Some_conv Let_def split: if_split_asm)

lemma WaitDoSignal_woken_eq:
  assumes "WaitDoSignal_woken w t s = Some (again, s1)"
  shows "node_calm (delete_waiter w s) (delete_waiter w s1)" and "again \<Longrightarrow> nio s1 = nio s"
    and "thread_at s1 = thread_at s"
proof -
  from assms obtain r s2 where r: "waiter_woken w t s = Some (r, s2)" and
    s1: "(again, s1) = (case r of INTERRUPTED \<Rightarrow> (False, on_io (\<lambda>i. set_err EINTR t (UtilsDoSignal t i)) s2)
                | TIMEOUT \<Rightarrow> (False, on_io (set_err EAGAIN t) s2) | OK \<Rightarrow> (True, s2))"
    unfolding WaitDoSignal_woken_def bind_eq_Some_conv by auto
  from waiter_woken_put [OF r] obtain y where s2: "s2 = put_waiter w y s" by blast
  show "node_calm (delete_waiter w s) (delete_waiter w s1)" "again \<Longrightarrow> nio s1 = nio s" "thread_at s1 = thread_at s"
    using s1 unfolding s2 by (cases r; simp add: node_calm_def same_node_def delete_waiter_def put_waiter_def on_io_def)+
qed

lemma wait_child_woken_inv:
  assumes "node_inv s" and "Current s = Some t" and "node_frame s t = Some (Wait_child n st op w)"
    and "wait_child_woken E pid status options w s = Some r"
  shows "node_inv (node_settle t r)"
proof -
  have ok: "wait_ok u s" for u using assms(1) by (simp add: node_inv_def waits_but_def)
  have i: "inner_inv {t} s" using assms(1,2) by (intro node_inner) auto
  from wait_okD(2) [OF ok assms(3)] obtain x :: thread where x: "thread_at s t = Some x" "childWaiter x = Some w" by blast
  let ?x = "x\<lparr>childWaiter := None\<rparr>"
  have other: "childWaiter y \<noteq> Some w" if "u \<noteq> t" "thread_at s u = Some y" for u y
    using waiter_other [OF ok ok that(2) _ x] that(1) by blast
  from assms(2,4) obtain again s1 where s1: "WaitDoSignal_woken w t s = Some (again, s1)"
    and r0: "do { x \<leftarrow> thread_at (delete_waiter w s1) t;
        let s3 = put_thread t (x\<lparr>childWaiter := None\<rparr>) (delete_waiter w s1) in
        if again then wait_round E pid status options s3 else Some (Ret (-1) s3) } = Some r"
    by (auto simp: wait_child_woken_def bind_eq_Some_conv Let_def)
  have "thread_at (delete_waiter w s1) t = Some x"
    using WaitDoSignal_woken_eq(3) [OF s1] x(1) by (simp add: delete_waiter_def)
  with r0 have r: "(if again then wait_round E pid status options (put_thread t ?x (delete_waiter w s1))
        else Some (Ret (-1) (put_thread t ?x (delete_waiter w s1)))) = Some r"
    by (simp add: Let_def)
  let ?s = "put_thread t ?x (delete_waiter w s1)"
  have "node_calm (put_thread t ?x (delete_waiter w s)) ?s"
    using WaitDoSignal_woken_eq(1) [OF s1] by (simp add: node_calm_def same_node_def put_thread_def)
  moreover have "inner_inv {t} (put_thread t ?x (delete_waiter w s))" by (rule drop_waiter_inv [OF i assms(3) x]) (rule other)
  ultimately have s: "inner_inv {t} ?s" by (rule inner_calm [rotated])
  have none: "childWaiter z = None" if "thread_at ?s t = Some z" for z using that by (auto simp: put_thread_def)
  show ?thesis
  proof (cases again)
    case True
    then have "Current ?s = Some t" using WaitDoSignal_woken_eq(2) [OF s1] assms(2)
      by (simp add: Current_def put_thread_def delete_waiter_def)
    from wait_round_inv [OF s _ this none] r True show ?thesis by simp
  next
    case False
    with r have "r = Ret (-1) ?s" by simp
    with settle_node_inv [OF s _ none, where fr = None] show ?thesis by simp
  qed
qed

section \<open>Calls on threads\<close>

lemma running_started: "inner_inv U s \<Longrightarrow> thread_at s t = Some x \<Longrightarrow> t < new_task (io_tm (nio s))"
  using threads_okD(1) inner_invD(2) by blast

lemma idle_Clone: "idle t s \<Longrightarrow> node_Clone E t s = Some (pid, s') \<Longrightarrow> idle t s'"
  by (rule node_Clone_inv [of s E t pid s']) (auto simp: idle_def waits_def dest: running_started)

lemma result_idle_value: "value_of v f = Some r \<Longrightarrow> (\<And>x s'. v = Some (x, s') \<Longrightarrow> idle t s') \<Longrightarrow> result_idle t r"
  by (auto simp: value_of_def bind_eq_Some_conv)

lemma create_idle:
  assumes "idle t s" and "dce_pthread_create E a s = Some r"
  shows "result_idle t r"
proof -
  from assms(2) obtain c x p u s1 z s2 where c: "current_thread s = Some (c, x, p)"
    "start_task E PTHREAD_TASK_SWITCH (p_pid p) s = Some (u, s1)" "thread_at s1 u = Some z"
    "node_Yield E (s1\<lparr>handles := (handles s1)(a := PidTidToPthread (p_pid p) (t_tid z))\<rparr>) = Some s2" "r = Susp Create_yield s2"
    by (auto simp: dce_pthread_create_def bind_eq_Some_conv split: if_splits)
  note i = inner_invD [OF idleD(1) [OF assms(1)]]
  note cur = current_threadD [OF c(1)]
  have pid: "p_pid p = process_of c s" by (rule pid_of_entry [OF i(1) cur(3)])
  have "threads_of (process_of c s) s \<noteq> []" using threads_okD(1) [OF i(2) cur(2)] by fastforce
  with threads_okD(4) [OF i(2)] cur(3) have "p_alloc p" by fastforce
  from idle_start_task [OF assms(1) _ this c(2)] cur(3) pid have "idle t s1" by simp
  then have "idle t (s1\<lparr>handles := (handles s1)(a := PidTidToPthread (p_pid p) (t_tid z))\<rparr>)" by simp
  from idle_calm [OF this calm_node_Yield [OF c(4)]] show ?thesis by (simp add: c(5))
qed

lemma exit_idle:
  assumes "idle t s" and "dce_pthread_exit E arg s = Some r"
  shows "result_idle t r"
proof -
  from assms(2) obtain c x p where c: "current_thread s = Some (c, x, p)" by (auto simp: dce_pthread_exit_def bind_eq_Some_conv)
  show ?thesis
  proof (cases "length (threads_of (p_pid p) s) = 1")
    case True
    with assms(2) c have "dce_exit E 0 s = Some r" by (simp add: dce_pthread_exit_def)
    from idle_dce_exit [OF assms(1) this] show ?thesis .
  next
    case False
    with assms(2) c obtain s1 y s2 s5 where s1: "CleanupPthreadKeys s = Some s1" "thread_at s1 c = Some y"
      and s2: "(if \<not> isDetached y
          then let s3 = put_thread c (y\<lparr>hasExitValue := True, exitValue := arg\<rparr>) s1 in
               do { s4 \<leftarrow> (case joinWaiter y of None \<Rightarrow> Some s3 | Some u \<Rightarrow> node_Wakeup E u s3);
                    z \<leftarrow> thread_at s4 c; Some (put_thread c (z\<lparr>t_task := False\<rparr>) s4) }
          else DeleteThread E c s1) = Some s2"
      and s5: "node_Exit E s2 = Some s5" "r = Gone s5"
      by (auto simp: dce_pthread_exit_def bind_eq_Some_conv)
    have i1: "idle t s1" by (rule idle_CleanupPthreadKeys [OF assms(1) s1(1)])
    have "idle t s2"
    proof (cases "isDetached y")
      case True
      with s2 have "DeleteThread E c s1 = Some s2" by simp
      with i1 show ?thesis by (rule idle_DeleteThread)
    next
      case False
      let ?s3 = "put_thread c (y\<lparr>hasExitValue := True, exitValue := arg\<rparr>) s1"
      from s2 False obtain s4 z where s4: "(case joinWaiter y of None \<Rightarrow> Some ?s3 | Some u \<Rightarrow> node_Wakeup E u ?s3) = Some s4"
        "thread_at s4 c = Some z" "s2 = put_thread c (z\<lparr>t_task := False\<rparr>) s4"
        by (auto simp: bind_eq_Some_conv Let_def)
      have "idle t ?s3" by (rule idle_put_thread [OF i1 s1(2)]) simp
      moreover have "node_calm ?s3 s4" using s4(1) by (cases "joinWaiter y") (auto dest: calm_node_Wakeup)
      ultimately have "idle t s4" by (rule idle_calm)
      then show ?thesis unfolding s4(3) by (rule idle_put_thread [OF _ s4(2)]) simp
    qed
    with s5 show ?thesis using idle_calm [OF _ calm_node_Exit [OF s5(1)]] by simp
  qed
qed

lemma idle_thread_fields:
  assumes "idle t s" and "thread_at s u = Some x"
  shows "idle t (put_thread u (x\<lparr>isDetached := d\<rparr>) s)" "idle t (put_thread u (x\<lparr>joinWaiter := j\<rparr>) s)"
    "idle t (put_thread u (x\<lparr>keyValues := k\<rparr>) s)"
  by (rule idle_put_thread [OF assms], simp)+

lemma join_round_idle:
  assumes "idle t s" and "join_round E u val c s = Some r"
  shows "result_idle t r"
proof -
  from assms(2) obtain y where y: "thread_at s u = Some y" by (auto simp: join_round_def bind_eq_Some_conv)
  show ?thesis
  proof (cases "hasExitValue y")
    case False
    with assms(2) y obtain s1 where s1: "node_Wait E (put_thread u (y\<lparr>joinWaiter := Some c\<rparr>) s) = Some s1" "r = Susp (Join_wait u val) s1"
      by (auto simp: join_round_def bind_eq_Some_conv)
    have "idle t (put_thread u (y\<lparr>joinWaiter := Some c\<rparr>) s)" by (rule idle_put_thread [OF assms(1) y]) simp
    from idle_calm [OF this calm_node_Wait [OF s1(1)]] show ?thesis by (simp add: s1(2))
  next
    case True
    let ?s1 = "case val of None \<Rightarrow> s | Some a \<Rightarrow> s\<lparr>pointers := (pointers s)(a := exitValue y)\<rparr>"
    from True assms(2) y obtain s2 where s2: "DeleteThread E u (put_thread u (y\<lparr>isDetached := True\<rparr>) ?s1) = Some s2" "r = Ret 0 s2"
      by (auto simp: join_round_def bind_eq_Some_conv Let_def split: if_splits)
    have "idle t ?s1" "thread_at ?s1 u = Some y" using assms(1) y by (simp_all split: option.split)
    then have "idle t (put_thread u (y\<lparr>isDetached := True\<rparr>) ?s1)" by (rule idle_put_thread) simp
    from idle_DeleteThread [OF this s2(1)] show ?thesis by (simp add: s2(2))
  qed
qed

lemma join_woken_idle: "idle t s \<Longrightarrow> join_woken E u val s = Some r \<Longrightarrow> result_idle t r"
  by (auto simp: join_woken_def bind_eq_Some_conv intro!: idle_thread_fields intro: join_round_idle)

lemma join_idle: "idle t s \<Longrightarrow> dce_pthread_join E h val s = Some r \<Longrightarrow> result_idle t r"
  by (auto simp: dce_pthread_join_def bind_eq_Some_conv split: if_splits option.splits intro: join_round_idle)

lemma detach_idle: "idle t s \<Longrightarrow> dce_pthread_detach h s = Some r \<Longrightarrow> result_idle t r"
  by (auto simp: dce_pthread_detach_def bind_eq_Some_conv split: option.splits intro!: idle_thread_fields)

lemma once_idle: "idle t s \<Longrightarrow> dce_pthread_once c i s = Some r \<Longrightarrow> result_idle t r"
  by (auto simp: dce_pthread_once_def call_user_def)

lemma thread_kill_idle:
  assumes "idle t s" and "dce_pthread_kill E h sig s = Some r"
  shows "result_idle t r"
proof -
  from assms(2) obtain v where v: "SearchThread (PthreadToPid h) (PthreadToTid h) s = Some v"
    by (auto simp: dce_pthread_kill_def bind_eq_Some_conv)
  show ?thesis
  proof (cases v)
    case None
    with v assms show ?thesis by (auto simp: dce_pthread_kill_def)
  next
    case (Some u)
    let ?s = "on_io (\<lambda>i. i\<lparr>threadSignals := (threadSignals i)(u := insert sig (threadSignals i u))\<rparr>) s"
    have i: "idle t ?s" by (rule idle_calm [OF assms(1)]) (rule calm_on_io, simp)
    from v Some assms(2) consider "r = Ret 0 ?s" | s2 where "node_Wakeup E u ?s = Some s2" "r = Ret 0 s2"
      by (auto simp: dce_pthread_kill_def bind_eq_Some_conv Let_def split: if_splits)
    then show ?thesis
    proof cases
      case 1
      with i show ?thesis by simp
    next
      case 2
      with idle_calm [OF i calm_node_Wakeup [OF 2(1)]] show ?thesis by simp
    qed
  qed
qed


section \<open>Keys, signals and the rest\<close>

lemma add_key_idle: "idle t s \<Longrightarrow> add_key key d ts s = Some s' \<Longrightarrow> idle t s'"
  by (induction ts arbitrary: s) (auto simp: bind_eq_Some_conv intro!: idle_thread_fields)

lemma delete_key_idle: "idle t s \<Longrightarrow> delete_key key ts s = Some s' \<Longrightarrow> idle t s'"
  by (induction ts arbitrary: s) (auto simp: bind_eq_Some_conv intro!: idle_thread_fields)

lemma key_create_idle: "idle t s \<Longrightarrow> dce_pthread_key_create a d s = Some r \<Longrightarrow> result_idle t r"
  by (auto simp: dce_pthread_key_create_def bind_eq_Some_conv split: option.splits) (erule (1) add_key_idle)

lemma key_delete_idle: "idle t s \<Longrightarrow> dce_pthread_key_delete key s = Some r \<Longrightarrow> result_idle t r"
  by (auto simp: dce_pthread_key_delete_def bind_eq_Some_conv split: if_splits intro: delete_key_idle [rotated])

lemma setspecific_idle: "idle t s \<Longrightarrow> dce_pthread_setspecific key v s = Some r \<Longrightarrow> result_idle t r"
  by (auto simp: dce_pthread_setspecific_def bind_eq_Some_conv dest: current_threadD(2) intro!: idle_thread_fields)

lemma idle_on_io: "idle t s \<Longrightarrow> (\<And>i. calm i (f i)) \<Longrightarrow> idle t (on_io f s)"
  by (rule idle_calm) (auto intro: calm_on_io)

lemma idle_errno [simp]: "idle t s \<Longrightarrow> idle t (on_io (set_err e u) s)"
  by (erule idle_calm) simp

lemma sigaction_idle: "idle t s \<Longrightarrow> dce_sigaction sig act s = Some (old, s') \<Longrightarrow> idle t s'"
  by (auto simp: dce_sigaction_def bind_eq_Some_conv case_prod_beta Let_def intro!: idle_on_io)

lemma sigprocmask_idle:
  assumes "idle t s" and "dce_sigprocmask how sigs s = Some (old, r)"
  shows "result_idle t r"
proof -
  have m: "idle t (on_io (\<lambda>i. i\<lparr>signalMask := (signalMask i)(c := m)\<rparr>) s)" for c m
    by (rule idle_on_io [OF assms(1)]) simp
  have e: "idle t (on_io (set_err EINVAL c) s)" for c using assms(1) by simp
  show ?thesis
    using assms m e by (cases sigs) (auto simp: dce_sigprocmask_def bind_eq_Some_conv Let_def)
qed

lemma idle_try_io: "idle t s \<Longrightarrow> try_io f s = Some s' \<Longrightarrow> (\<And>i j. f i = Some j \<Longrightarrow> calm i j) \<Longrightarrow> idle t s'"
  using idle_calm calm_try_io by blast

lemma kill_idle: "idle t s \<Longrightarrow> dce_kill E pid sig s = Some r \<Longrightarrow> result_idle t r"
  by (auto simp: dce_kill_def bind_eq_Some_conv split: option.splits) (erule (1) idle_try_io, rule calm_SendSignal)

lemma abort_idle:
  assumes "idle t s" and "dce_abort E s = Some r"
  shows "result_idle t r"
proof -
  from assms(2) obtain p s1 where s1: "try_io (UtilsSendSignal E p SIGABRT) s = Some s1" "dce_exit E (-2) s1 = Some r"
    by (auto simp: dce_abort_def bind_eq_Some_conv)
  have "idle t s1" by (rule idle_try_io [OF assms(1) s1(1)]) (rule calm_SendSignal)
  then show ?thesis using s1(2) by (rule idle_dce_exit)
qed

lemma idle_cred: "current_thread s = Some (c, x, p) \<Longrightarrow> idle t s \<Longrightarrow> idle t (put_proc (p\<lparr>p_cred := k\<rparr>) s)"
  using current_threadD(3) idle_put_proc_fields(3) by blast

lemma credentials_idle: "idle t s \<Longrightarrow> set_credentials k s = Some r \<Longrightarrow> result_idle t r"
  by (auto simp: set_credentials_def bind_eq_Some_conv case_prod_beta Let_def split: option.splits
      intro!: idle_cred idle_errno)

lemma atexit_idle: "idle t s \<Longrightarrow> dce_cxa_atexit fn arg d s = Some s' \<Longrightarrow> idle t s'"
  by (auto simp: dce_cxa_atexit_def bind_eq_Some_conv dest!: current_threadD intro!: idle_put_proc_fields)

lemmas call_idle = idle_dce_exit abort_idle create_idle exit_idle join_idle detach_idle once_idle thread_kill_idle
  key_create_idle key_delete_idle setspecific_idle kill_idle credentials_idle

lemma exec_node_inv:
  assumes "idle t s" and "Current s = Some t" and "exec_node E c s = Some r"
  shows "node_inv (node_settle t r)"
proof -
  have "result_idle t r" if "\<And>pid st op. c \<noteq> Wait_call pid st op"
  proof (cases c)
    case Fork_call
    with assms(3) have "value_of (dce_fork E s) uint = Some r" by simp
    moreover have "idle t s'" if "dce_fork E s = Some (pid, s')" for pid s'
      using idle_Clone [OF assms(1)] that assms(2) by (simp add: dce_fork_def)
    ultimately show ?thesis by (rule result_idle_value)
  next
    case (Sigaction_call sig act)
    with assms(3) have "value_of (dce_sigaction sig act s) (\<lambda>old. 0) = Some r" by simp
    then show ?thesis by (rule result_idle_value) (rule sigaction_idle [OF assms(1)])
  next
    case (Sigprocmask_call how sigs)
    with assms show ?thesis by (auto intro: sigprocmask_idle)
  next
    case (Atexit_call fn arg d)
    with assms show ?thesis by (auto intro: atexit_idle)
  next
    case (Finalize_call d)
    with assms show ?thesis by (auto intro: idle_finalize)
  next
    case (Wait_call pid st op)
    with that show ?thesis by blast
  qed (use assms in \<open>auto intro: call_idle\<close>)
  moreover have ?thesis if "c = Wait_call pid st op" for pid st op
    using waitpid_inv [OF assms(1,2)] assms(3) that by simp
  ultimately show ?thesis by (cases c) (auto intro: result_idle_settle)
qed


section \<open>Steps of a node\<close>

lemma resume_node_inv:
  assumes "node_inv s" and "Current s = Some t" and "node_frame s t = Some fr" and "resume_node E fr s = Some r"
  shows "node_inv (node_settle t r)"
proof (cases fr)
  case (Wait_child pid st op w)
  with wait_child_woken_inv [OF assms(1,2)] assms(3,4) show ?thesis by simp
next
  case (Join_wait u val)
  with assms(1-3) have "idle t s" by (auto simp: idle_def waits_def intro!: node_inner)
  from join_woken_idle [OF this] assms(4) Join_wait show ?thesis by (intro result_idle_settle) simp
next
  case Create_yield
  with assms(1-3) have "idle t s" by (auto simp: idle_def waits_def intro!: node_inner)
  with assms(4) Create_yield show ?thesis by (auto intro!: idle_settle)
qed

text \<open>The callback of a process is set whoever runs.\<close>

lemma node_inv_nobody:
  "node_inv s = inner_inv {} (on_io (\<lambda>i. i\<lparr>io_tm := (io_tm i)\<lparr>m_current := None\<rparr>\<rparr>) s)"
  by (simp add: node_inv_def inner_inv_def waits_but_def wait_ok_def threads_ok_def blocked_def on_io_def
      threads_of_def process_of_def Current_def)

lemma callback_inv: "node_inv s \<Longrightarrow> node_inv (SetFinishedCallback pid cb s)"
proof -
  assume "node_inv s"
  then have "inner_inv {} (SetFinishedCallback pid cb (on_io (\<lambda>i. i\<lparr>io_tm := (io_tm i)\<lparr>m_current := None\<rparr>\<rparr>) s))"
    unfolding node_inv_nobody by (rule SetFinishedCallback_inv)
  moreover have "SetFinishedCallback pid cb (on_io f s) = on_io f (SetFinishedCallback pid cb s)" for f
    by (simp add: SetFinishedCallback_def SearchProcess_def on_io_def put_proc_def split: option.split)
  ultimately show ?thesis unfolding node_inv_nobody by simp
qed

text \<open>What happens on descriptors, signals and tasks.\<close>

lemma io_inv:
  assumes "node_inv s" and "io_step E (nio s) i" and "\<And>t. Current s = Some t \<Longrightarrow> node_frame s t = None"
    and "threads i = threads (nio s)" and "pid_of i = pid_of (nio s)"
  shows "node_inv (s\<lparr>nio := i\<rparr>)"
proof -
  note calm = io_step_calm [OF assms(2)]
  have "blocked t (io_tm (nio s))" if "waits t s" "blocked t (io_tm i)" for t
  proof -
    have "m_current (io_tm (nio s)) \<noteq> Some t" using assms(3) [of t] that(1) by (auto simp: waits_def Current_def)
    with calm that(2) show ?thesis by blast
  qed
  then have "tree_ok (m_processes (s\<lparr>nio := i\<rparr>)) \<and> threads_ok (s\<lparr>nio := i\<rparr>) \<and> waits_but {} (s\<lparr>nio := i\<rparr>)"
    using assms(1,4,5) calm by (intro states_inv [of s]) (auto simp: node_inv_def same_node_def)
  then show ?thesis by (simp add: node_inv_def)
qed

theorem node_step_inv:
  assumes "node_step E s s'" and "node_inv s"
  shows "node_inv s'"
  using assms(1)
proof cases
  case (start u eu g eg pid)
  have "inner_inv {} s" using assms(2) start(1) by (intro node_inner) auto
  from node_Start_inv(1) [OF this start(2)] show ?thesis by (rule inner_node)
next
  case (stop pid)
  have "inner_inv {} s" using assms(2) stop(1) by (intro node_inner) auto
  from node_Stop_inv [OF this stop(2)] show ?thesis by (rule inner_node)
next
  case (callback pid cb)
  with callback_inv [OF assms(2)] show ?thesis by simp
next
  case (call t c r)
  with assms(2) have "idle t s" by (auto simp: idle_def waits_def intro!: node_inner)
  from exec_node_inv [OF this call(2,5)] call(1) show ?thesis by simp
next
  case (resume t fr r)
  with resume_node_inv [OF assms(2)] show ?thesis by simp
next
  case (io i)
  with io_inv [OF assms(2)] show ?thesis by simp
next
  case (program q)
  with assms(2) show ?thesis by (simp add: node_inv_def waits_but_def threads_ok_def wait_ok_def)
qed


theorem node_reach_inv:
  assumes "node_reach E x s"
  shows "node_inv s"
  using assms
proof induction
  case init
  show ?case
    by (simp add: node_inv_def new_node_def tree_ok_def parents_def acyclic_def threads_ok_def waits_but_def wait_ok_def
        threads_of_def new_io_def)
next
  case (step s s')
  from node_step_inv [OF step.hyps(2) step.IH] show ?case .
qed

end
