(* ===== verification/Process_Scripts.thy ===== *)
theory Process_Scripts
  imports Process_Reach Io_Scripts
begin

text \<open>Runs of the processes of a node given as lists of actions.\<close>

text \<open>
  The script starts or stops a process, the simulator fires its next event, or the running thread makes a
  call or goes on with one.
\<close>

datatype node_action =
    Node_start uid_t uid_t gid_t gid_t | Node_stop uint16 | Node_event | Node_call node_call | Node_resume

fun perform_node :: "'x io_env \<Rightarrow> node_action \<Rightarrow> 'x node \<Rightarrow> 'x node option" where
  "perform_node E (Node_start u eu g eg) s =
     (if Current s \<noteq> None then None else map_option snd (node_Start E u eu g eg s))"
| "perform_node E (Node_stop pid) s = (if Current s \<noteq> None then None else node_Stop E pid s)"
| "perform_node E Node_event s = try_tm (fire_event (io_sim E)) s"
| "perform_node E (Node_call c) s =
     do { t \<leftarrow> Current s;
          if node_frame s t \<noteq> None \<or> frames (nio s) t \<noteq> [] then None
          else map_option (node_settle t) (exec_node E c s) }"
| "perform_node E Node_resume s =
     do { t \<leftarrow> Current s;
          fr \<leftarrow> node_frame s t;
          if frames (nio s) t \<noteq> [] then None else map_option (node_settle t) (resume_node E fr s) }"

fun node_script :: "'x io_env \<Rightarrow> node_action list \<Rightarrow> 'x node \<Rightarrow> 'x node option" where
  "node_script E [] s = Some s"
| "node_script E (a # as) s = do { s' \<leftarrow> perform_node E a s; node_script E as s' }"

lemma perform_node_step:
  assumes "perform_node E a s = Some s'"
  shows "node_step E s s'"
proof (cases a)
  case (Node_start u eu g eg)
  with assms obtain pid where "Current s = None" "node_Start E u eu g eg s = Some (pid, s')" by (auto split: if_splits)
  then show ?thesis by (rule node_step.start)
next
  case (Node_stop pid)
  with assms have "Current s = None" "node_Stop E pid s = Some s'" by (simp_all split: if_splits)
  then show ?thesis by (rule node_step.stop)
next
  case Node_event
  with assms obtain m where m: "fire_event (io_sim E) (io_tm (nio s)) = Some m" "s' = s\<lparr>nio := (nio s)\<lparr>io_tm := m\<rparr>\<rparr>"
    by (auto simp: try_tm_def try_io_def bind_eq_Some_conv)
  have "io_step E (nio s) ((nio s)\<lparr>io_tm := m\<rparr>)"
    by (rule io_step.other) (use fire_event_step [OF m(1)] in auto)
  then show ?thesis unfolding m(2) using fire_event_step(2) [OF m(1)] by (intro node_step.io) (auto simp: Current_def)
next
  case (Node_call c)
  with assms obtain t r where "Current s = Some t" "node_frame s t = None" "frames (nio s) t = []" "exec_node E c s = Some r"
    "s' = node_settle t r" by (auto simp: bind_eq_Some_conv split: if_splits)
  then show ?thesis using node_step.call by blast
next
  case Node_resume
  with assms obtain t fr r where "Current s = Some t" "node_frame s t = Some fr" "frames (nio s) t = []"
    "resume_node E fr s = Some r" "s' = node_settle t r" by (auto simp: bind_eq_Some_conv split: if_splits)
  then show ?thesis using node_step.resume by blast
qed

lemma node_script_reach: "node_reach E x s \<Longrightarrow> node_script E as s = Some s' \<Longrightarrow> node_reach E x s'"
proof (induction as arbitrary: s)
  case (Cons a as)
  from Cons.prems(2) obtain s1 where s1: "perform_node E a s = Some s1" "node_script E as s1 = Some s'"
    by (auto simp: bind_eq_Some_conv)
  from Cons.IH [OF node_reach.step [OF Cons.prems(1) perform_node_step [OF s1(1)]] s1(2)] show ?case .
qed simp

definition fresh_node :: "event_list node" where "fresh_node = new_node (TaskManager ([], 0, []))"

definition run_node :: "node_action list \<Rightarrow> event_list node" where
  "run_node as = (case node_script list_io as fresh_node of Some s \<Rightarrow> s | None \<Rightarrow> fresh_node)"

lemma run_node_reach: "node_reach list_io ([], 0, []) (run_node as)"
proof (cases "node_script list_io as fresh_node")
  case (Some s)
  have "node_reach list_io ([], 0, []) s"
    by (rule node_script_reach [OF _ Some]) (simp add: fresh_node_def node_reach.init)
  with Some show ?thesis by (simp add: run_node_def del: node_script.simps)
qed (simp add: run_node_def fresh_node_def node_reach.init del: node_script.simps)

lemma run_node_view: "map_option g (node_script list_io as fresh_node) = Some v \<Longrightarrow> g (run_node as) = v"
  by (auto simp: run_node_def simp del: node_script.simps)

text \<open>A process starts and forks; the parent waits for its child, which exits with 7.\<close>

definition parent_waits :: "node_action list" where
  "parent_waits = [Node_start 0 0 0 0, Node_event, Node_call Fork_call, Node_call (Wait_call (-1) (Some 100) 0), Node_event]"

text \<open>The definitions a run of these actions is computed with.\<close>

lemmas node_eval = TASK_SWITCH_def PTHREAD_TASK_SWITCH_def new_node_def SearchProcess_def put_proc_def put_thread_def on_io_def try_io_def try_tm_def Current_def process_of_def
  threads_of_def current_thread_def ThreadExists_def node_Wakeup_def node_Wait_def node_Wait_timeout_def node_Yield_def node_Exit_def
  pick_pid.simps pick_tid.simps AllocatePid_def AllocateTid_def attach_thread_def CreateThread_def connect_task_def start_task_def
  SetDefaultSigHandler_def fresh_process_io_def new_proc_def CreateProcess_def node_Start_def clone_proc_def node_Clone_def dce_fork_def
  new_waiter_def put_waiter_def delete_waiter_def waiter_Wait_def waiter_woken_def WaitDoSignal_woken_def waiter_Wakeup_def cleanup_io_def
  CleanupThread_def detach_thread_def DeleteThread_def call_user_def drop_files_def WakeupChildWaiters_def ChildFinished_def erase_proc_def
  FinishChild_def reparent_def reparent_children_def cancel_itimer_def release_process_def DeleteProcess_def dce_cxa_finalize_def
  key_destructors_def CleanupPthreadKeys_def dce_exit_def wait_round_def dce_waitpid_def wait_child_woken_def value_of_def set_frame_def
  W_EXITCODE_def WNOHANG_def WUNTRACED_def WCONTINUED_def start_credentials_def root_credentials_def clone_credentials_def
  io_Wakeup_def io_Wait_def io_Wait_timeout_def HasPendingSignal_def open_fds_def clone_files_def new_io_def set_err_def
  RrTaskScheduler_def rr_PeekNext_def rr_DequeueNext_def rr_Enqueue_def rr_Dequeue_def TaskManager_def IsActive_def IsRunning_def
  IsBlocked_def IsDead_def SetContext_def SetSwitchNotifier_def Wakeup_def blocked_task_def tm_Start_def tm_Clone_def cancel_timer_def
  tm_Stop_def EndWait_def finish_def notify_def dispatch_def resume_def Schedule_main_def after_switch_def leave_def running_task_def
  Sleep_def Sleep_timeout_def Yield_def tm_Exit_def ScheduleMain_def events_def fresh_id_def list_io_def fresh_node_def

end
