(* ===== verification/Process_Properties.thy ===== *)
theory Process_Properties
  imports Process_Scripts
begin

text \<open>What the processes of a node guarantee in every run.\<close>

section \<open>The tree of the processes\<close>

text \<open>C3. In every state the processes of a node reach: a process has its own pid, which is above 1; a
  process with a parent other than init is one of the children of that parent, which is alive; the children
  of a process exist and have it as their parent; a process that has ended and waits for its parent has
  neither threads nor children; and no process is its own ancestor.\<close>

theorem process_tree:
  assumes "node_reach E x s" and "m_processes s pid = Some p"
  shows "p_pid p = pid \<and> pid > 1
    \<and> (p_ppid p > 1 \<longrightarrow> (\<exists>q. m_processes s (p_ppid p) = Some q \<and> pid \<in> p_children q \<and> p_alloc q))
    \<and> (\<forall>c \<in> p_children p. \<exists>q. m_processes s c = Some q \<and> p_ppid q = pid)
    \<and> (\<not> p_alloc p \<longrightarrow> p_children p = {} \<and> threads_of pid s = [] \<and> p_ppid p > 1)
    \<and> (pid, pid) \<notin> (parents (m_processes s))\<^sup>+"
proof -
  have tree: "tree_ok (m_processes s)" and th: "threads_ok s"
    using node_reach_inv [OF assms(1)] by (simp_all add: node_inv_def)
  note own = tree_okD(1) [OF tree assms(2), unfolded proc_ok_def]
  have "p_alloc q" if "m_processes s j = Some q" "pid \<in> p_children q" for j q
    using tree_okD(1) [OF tree that(1)] that(2) by (auto simp: proc_ok_def)
  moreover have "threads_of pid s = []" if "\<not> p_alloc p"
    using threads_okD(4) [OF th, of pid] assms(2) that by auto
  ultimately show ?thesis
    using own tree_okD(2,3) [OF tree assms(2)] tree_okD(4) [OF tree] by (auto simp: acyclic_def)
qed

lemma process_tree_witness:
  "\<exists>p q. m_processes (run_node parent_waits) 2 = Some p \<and> p_children p = {3}
     \<and> m_processes (run_node parent_waits) 3 = Some q \<and> p_ppid q = 2"
proof -
  have "map_option (\<lambda>s. map_option p_children (m_processes s 2)) (node_script list_io parent_waits fresh_node) = Some (Some {3})"
    by (simp add: node_eval parent_waits_def Let_def)
  from run_node_view [OF this] obtain p where p: "m_processes (run_node parent_waits) 2 = Some p" "p_children p = {3}" by auto
  from process_tree [OF run_node_reach p(1)] p show ?thesis by auto
qed

section \<open>Waiting for a child\<close>

text \<open>C10. No wakeup of a parent is lost: whenever a thread is suspended in a call of \<open>waitpid\<close> and a
  child that the call is about has ended, its thread is not blocked.\<close>

theorem waitpid_no_lost_wakeup:
  assumes "node_reach E x s" and "node_frame s t = Some (Wait_child n status options w)"
    and "m_processes s (process_of t s) = Some p" and "c \<in> p_children p" and "m_processes s c = Some q" and "\<not> p_alloc q"
    and "n = -1 \<or> n = uint c"
  shows "\<not> blocked t (io_tm (nio s))"
proof -
  have "wait_ok t s" using node_reach_inv [OF assms(1)] by (simp add: node_inv_def waits_but_def)
  moreover have "ended_child n p (m_processes s)" using assms(4-7) by (auto simp: ended_child_def)
  ultimately show ?thesis using wait_okD(3) assms(2,3) by blast
qed

definition child_exits :: "node_action list" where
  "child_exits = parent_waits @ [Node_call (Exit_call 7)]"

lemma waitpid_no_lost_wakeup_witness:
  "node_frame (run_node child_exits) 1 = Some (Wait_child (-1) (Some 100) 0 1)
   \<and> \<not> blocked 1 (io_tm (nio (run_node child_exits)))"
proof -
  have "map_option (\<lambda>s. (node_frame s 1, process_of 1 s, map_option p_children (m_processes s 2), map_option p_alloc (m_processes s 3)))
      (node_script list_io child_exits fresh_node) = Some (Some (Wait_child (-1) (Some 100) 0 1), 2, Some {3}, Some False)"
    by (simp add: node_eval child_exits_def parent_waits_def Let_def)
  from run_node_view [OF this] obtain p q where s: "node_frame (run_node child_exits) 1 = Some (Wait_child (-1) (Some 100) 0 1)"
    "process_of 1 (run_node child_exits) = 2" "m_processes (run_node child_exits) 2 = Some p" "p_children p = {3}"
    "m_processes (run_node child_exits) 3 = Some q" "\<not> p_alloc q" by auto
  from waitpid_no_lost_wakeup [OF run_node_reach s(1) _ _ s(5,6), of p] s show ?thesis by simp
qed


lemma wait_scan_nothing:
  "(\<And>d q. d \<in> set cs \<Longrightarrow> m_processes s d = Some q \<Longrightarrow> pid \<noteq> -1 \<and> pid \<noteq> uint (p_pid q)) \<Longrightarrow> wait_scan pid cs s n = Inl n"
  by (induction cs) (auto simp: SearchProcess_def split: option.split)

text \<open>C19. A call of \<open>waitpid\<close> when a child it is about has ended returns at once with the pid of such a child
  and its exit value; the child leaves the table of the processes and the children of its parent, and no
  other process changes. It is reaped exactly once: a second call for it returns -1 with \<open>ECHILD\<close>.\<close>

theorem waitpid_reaps:
  assumes "node_reach E x s" and "Current s = Some t" and "thread_at s t = Some y"
    and "m_processes s (process_of t s) = Some p" and "c \<in> p_children p" and "m_processes s c = Some q" and "\<not> p_alloc q"
    and "n = -1 \<or> n = uint c" and "options AND WUNTRACED = 0" and "options AND WCONTINUED = 0"
  shows "\<exists>d z s'. exec_node E (Wait_call n status options) s = Some (Ret (uint d) s')
    \<and> d \<in> p_children p \<and> m_processes s d = Some z \<and> \<not> p_alloc z \<and> (n = -1 \<or> n = uint d)
    \<and> m_processes s' = (m_processes s)(process_of t s \<mapsto> p\<lparr>p_children := p_children p - {d}\<rparr>, d := None)
    \<and> (\<forall>a. status = Some a \<longrightarrow> ints s' a = p_exitValue z)
    \<and> (\<exists>s''. exec_node E (Wait_call (uint d) status options) s' = Some (Ret (-1) s'') \<and> io_err (nio s'') t = Some ECHILD)"
proof -
  have tree: "tree_ok (m_processes s)" using node_reach_inv [OF assms(1)] by (simp add: node_inv_def)
  have own: "p_pid p = process_of t s" by (rule pid_of_entry [OF tree assms(4)])
  have fin: "set (sorted_list_of_set (p_children p)) = p_children p" by simp
  have "wait_scan n (sorted_list_of_set (p_children p)) s 0 \<noteq> Inl k" for k
    using wait_scan_none [of n "sorted_list_of_set (p_children p)" s 0 k c q] tree assms(5-8) fin by auto
  then obtain z where scan: "wait_scan n (sorted_list_of_set (p_children p)) s 0 = Inr z"
    by (cases "wait_scan n (sorted_list_of_set (p_children p)) s 0") auto
  note z = wait_scan_some [OF scan tree, unfolded fin]
  let ?d = "p_pid z"
  have above: "uint (k :: uint16) \<noteq> -1" for k using uint_ge_0 [of k] by linarith
  have "?d > 1" using tree_okD(1) [OF tree, of ?d z] z by (simp add: proc_ok_def)
  then have d1: "uint ?d > 1" by (simp add: word_less_def)
  have c1: "uint c > 1" using tree_okD(1) [OF tree assms(6)] by (simp add: proc_ok_def word_less_def)
  have args: "n \<noteq> 0 \<and> \<not> n < -1" using assms(8) c1 by auto
  let ?s1 = "FinishChild ?d (put_proc (p\<lparr>p_children := p_children p - {?d}\<rparr>) s)"
  let ?s = "?s1\<lparr>ints := (case status of None \<Rightarrow> ints s | Some a \<Rightarrow> (ints s)(a := p_exitValue z))\<rparr>"
  have ret: "exec_node E (Wait_call n status options) s = Some (Ret (uint ?d) ?s)"
    using args assms(2-4,9,10) scan
    by (cases status) (simp_all add: dce_waitpid_def wait_round_def current_thread_def Let_def FinishChild_def erase_proc_def put_proc_def)
  have m: "m_processes ?s = (m_processes s)(process_of t s \<mapsto> p\<lparr>p_children := p_children p - {?d}\<rparr>, ?d := None)"
    by (simp add: FinishChild_def erase_proc_def put_proc_def own)
  have ne: "process_of t s \<noteq> ?d"
  proof
    assume eq: "process_of t s = ?d"
    then have "z = p" using z assms(4) by simp
    moreover have "p_ppid z = ?d" using tree_okD(3) [OF tree assms(4), of ?d] z eq by simp
    ultimately show False using no_own_parent [OF tree assms(4)] eq \<open>?d > 1\<close> by auto
  qed
  have "wait_scan (uint ?d) (sorted_list_of_set (p_children p - {?d})) ?s 0 = Inl 0"
  proof (rule wait_scan_nothing)
    fix e r assume e: "e \<in> set (sorted_list_of_set (p_children p - {?d}))" "m_processes ?s e = Some r"
    then have "e \<noteq> ?d" by auto
    moreover have "p_pid r = e"
      using e(2) pid_of_entry [OF tree, of e] own unfolding m by (auto split: if_splits)
    ultimately show "uint ?d \<noteq> -1 \<and> uint ?d \<noteq> uint (p_pid r)" using above by (auto simp: word_uint_eq_iff)
  qed
  moreover have "current_thread ?s = Some (t, y, p\<lparr>p_children := p_children p - {?d}\<rparr>)"
    using assms(2,3) ne
    by (simp add: current_thread_def FinishChild_def erase_proc_def put_proc_def own Current_def process_of_def)
  moreover have "Current ?s = Some t" using assms(2) by (simp add: FinishChild_def erase_proc_def Current_def put_proc_def)
  ultimately have "exec_node E (Wait_call (uint ?d) status options) ?s = Some (Ret (-1) (on_io (set_err ECHILD t) ?s))"
    using assms(9,10) d1 above [of ?d] by (simp add: dce_waitpid_def wait_round_def)
  then have "\<exists>s''. exec_node E (Wait_call (uint ?d) status options) ?s = Some (Ret (-1) s'') \<and> io_err (nio s'') t = Some ECHILD"
    by (auto simp: on_io_def set_err_def)
  with ret m z show ?thesis by (intro exI [of _ ?d] exI [of _ z] exI [of _ ?s]) auto
qed


text \<open>A process with two children waits for the one that ends first; then the other has ended as well.\<close>

definition two_children :: "node_action list" where
  "two_children = [Node_start 0 0 0 0, Node_event, Node_call Fork_call, Node_call Fork_call,
     Node_call (Wait_call (-1) (Some 100) 0), Node_event, Node_call (Exit_call 7), Node_event, Node_call (Exit_call 9),
     Node_event, Node_resume]"

lemma waitpid_reaps_witness:
  "ints (run_node two_children) 100 = 1792
   \<and> (\<exists>s'. exec_node list_io (Wait_call (-1) (Some 104) 0) (run_node two_children) = Some (Ret 4 s') \<and> ints s' 104 = 2304)"
proof -
  have "map_option (\<lambda>s. ((Current s, thread_at s 1 \<noteq> None, process_of 1 s), ints s 100, map_option p_children (m_processes s 2),
        map_option p_alloc (m_processes s 4), map_option p_exitValue (m_processes s 4)))
      (node_script list_io two_children fresh_node) = Some ((Some 1, True, 2), 1792, Some {4}, Some False, Some 2304)"
    by (simp add: node_eval two_children_def Let_def insert_Diff_if)
  from run_node_view [OF this] obtain y p q where s: "Current (run_node two_children) = Some 1"
    "thread_at (run_node two_children) 1 = Some y" "process_of 1 (run_node two_children) = 2"
    "m_processes (run_node two_children) 2 = Some p" "p_children p = {4}"
    "m_processes (run_node two_children) 4 = Some q" "\<not> p_alloc q" "p_exitValue q = 2304" "ints (run_node two_children) 100 = 1792" by auto
  have "\<exists>s'. exec_node list_io (Wait_call (-1) (Some 104) 0) (run_node two_children) = Some (Ret 4 s') \<and> ints s' 104 = 2304"
    using waitpid_reaps [OF run_node_reach s(1,2) _ _ s(6,7), of p "-1" 0 "Some 104"] s
    by (auto simp: WUNTRACED_def WCONTINUED_def)
  with s(9) show ?thesis by simp
qed

section \<open>Exit\<close>

text \<open>C20. When a process exits, it has no threads any more; if its parent is not init, it stays in the table
  for it, marked as ended, with the status in the second byte of its exit value, and otherwise leaves the table;
  those of its children that are alive get init as their parent, and those that have ended leave the table.
  No other process changes.\<close>

theorem exit_status_kept:
  assumes "node_reach E x s" and "current_thread s = Some (t, y, p)" and "node_frame s t = None"
    and "exec_node E (Exit_call status) s = Some r"
  shows "\<exists>s'. r = Gone s' \<and> threads_of (p_pid p) s' = []
    \<and> (if p_ppid p > 1
       then \<exists>q. m_processes s' (p_pid p) = Some q \<and> \<not> p_alloc q \<and> p_ppid q = p_ppid p
              \<and> p_exitValue q = W_EXITCODE status (p_exitValue p)
       else m_processes s' (p_pid p) = None)
    \<and> (\<forall>c q. c \<noteq> p_pid p \<longrightarrow> m_processes s c = Some q \<longrightarrow> m_processes s' c =
         (if c \<notin> p_children p then Some q else if p_alloc q then Some (q\<lparr>p_ppid := 1\<rparr>) else None))
    \<and> (0 \<le> status \<and> status < 256 \<longrightarrow> W_EXITCODE status 0 = 256 * status)"
proof -
  note cur = current_threadD [OF assms(2)]
  have "inner_inv {} s" using node_reach_inv [OF assms(1)] cur(1) assms(3) by (intro node_inner) (auto simp: waits_def)
  then have idle: "idle t s" using assms(3) by (simp add: idle_def waits_def)
  from assms(4) obtain s1 s2 u x' p' s4 s5 s6 where s: "CleanupPthreadKeys s = Some s1" "dce_cxa_finalize 0 s1 = Some s2"
    "current_thread s2 = Some (u, x', p')"
    "try_tm (SetSwitchNotifier u 0 0) (put_proc (p'\<lparr>p_exitValue := W_EXITCODE status (p_exitValue p')\<rparr>) s2) = Some s4"
    "DeleteProcess E (p_pid p') PEC_EXIT s4 = Some s5" "node_Exit E s5 = Some s6" "r = Gone s6"
    by (auto simp: dce_exit_def bind_eq_Some_conv Let_def split: if_splits)
  let ?pid = "p_pid p" and ?p = "p\<lparr>p_atexit := [], p_exitValue := W_EXITCODE status (p_exitValue p)\<rparr>"
  have tree: "tree_ok (m_processes s)" using inner_invD(1) [OF idleD(1) [OF idle]] .
  have pid: "?pid = process_of t s" using pid_of_entry [OF tree cur(3)] .
  have s1: "m_processes s1 = m_processes s" "Current s1 = Some t" "\<And>v. process_of v s1 = process_of v s"
    using s(1) cur(1) by (auto simp: CleanupPthreadKeys_def bind_eq_Some_conv put_thread_def)
  have c1: "current_thread s1 = Some (v, z, o') \<Longrightarrow> v = t \<and> o' = p" for v z o'
    using s1 cur(3) by (auto simp: current_thread_def bind_eq_Some_conv)
  have s2: "m_processes s2 = (m_processes s)(?pid \<mapsto> p\<lparr>p_atexit := []\<rparr>)" "Current s2 = Some t" "\<And>v. process_of v s2 = process_of v s"
    using s(2) c1 s1 by (auto simp: dce_cxa_finalize_def bind_eq_Some_conv dest!: c1)
  have p': "u = t" "p' = p\<lparr>p_atexit := []\<rparr>" using s(3) s2 pid by (auto simp: current_thread_def bind_eq_Some_conv)
  have s4: "m_processes s4 = (m_processes s)(?pid \<mapsto> ?p)"
    using s(4) s2(1) by (auto simp: try_tm_def try_io_def bind_eq_Some_conv p')
  have "idle t s2" by (rule idle_finalize [OF idle_CleanupPthreadKeys [OF idle s(1)] s(2)])
  from idle_put_proc_fields(2) [OF this current_threadD(3) [OF s(3)]]
  have "idle t (put_proc (p'\<lparr>p_exitValue := W_EXITCODE status (p_exitValue p')\<rparr>) s2)" .
  moreover have "node_calm (put_proc (p'\<lparr>p_exitValue := W_EXITCODE status (p_exitValue p')\<rparr>) s2) s4"
    by (rule calm_try_tm [OF s(4)]) (simp add: context_calm(2))
  ultimately have "inner_inv {} s4" using idle_calm idleD(1) by blast
  from DeleteProcess_inv [OF this s(5)] have s5: "m_processes s5 = ended ?pid ?p (m_processes s4)" "threads_of ?pid s5 = []"
    by (auto simp: p' s4)
  note s6 = node_calmD(1,3) [OF calm_node_Exit [OF s(6)]]
  have gone: "m_processes s6 = ended ?pid ?p ((m_processes s)(?pid \<mapsto> ?p))" using s6(1) s5(1) s4 by simp
  have "\<forall>c q. c \<noteq> ?pid \<longrightarrow> m_processes s c = Some q \<longrightarrow> m_processes s6 c =
         (if c \<notin> p_children p then Some q else if p_alloc q then Some (q\<lparr>p_ppid := 1\<rparr>) else None)"
    by (auto simp: gone ended_def without_children_def)
  moreover have "if p_ppid p > 1 then \<exists>q. m_processes s6 ?pid = Some q \<and> \<not> p_alloc q \<and> p_ppid q = p_ppid p
              \<and> p_exitValue q = W_EXITCODE status (p_exitValue p) else m_processes s6 ?pid = None"
    by (simp add: gone ended_def)
  moreover have "W_EXITCODE status 0 = 256 * status" if "0 \<le> status" "status < 256"
  proof -
    have "uint (push_bit 8 (word_of_int status :: uint32)) = 256 * status"
      using that by (simp add: push_bit_eq_mult uint_word_ariths uint_word_of_int)
    then show ?thesis using that by (simp add: W_EXITCODE_def sint_uint signed_take_bit_int_eq_self)
  qed
  moreover have "threads_of ?pid s6 = []" using s6(2) s5(2) by simp
  ultimately show ?thesis using s(7) by (intro exI [of _ s6] conjI) auto
qed

lemma exit_status_kept_witness:
  "\<exists>s'. exec_node list_io (Exit_call 7) (run_node parent_waits) = Some (Gone s')
     \<and> (\<exists>q. m_processes s' 3 = Some q \<and> \<not> p_alloc q \<and> p_exitValue q = 1792)"
proof -
  have "map_option (\<lambda>s. (map_option (\<lambda>(t, y, p). (t, p_pid p, p_ppid p, p_exitValue p)) (current_thread s), node_frame s 2))
      (node_script list_io parent_waits fresh_node) = Some (Some (2, 3, 2, 0), None)"
    by (simp add: node_eval parent_waits_def Let_def)
  from run_node_view [OF this] obtain y p where s: "current_thread (run_node parent_waits) = Some (2, y, p)" "p_pid p = 3" "p_ppid p = 2"
    "p_exitValue p = 0" "node_frame (run_node parent_waits) 2 = None" by auto
  have "map_option (\<lambda>s. exec_node list_io (Exit_call 7) s \<noteq> None) (node_script list_io parent_waits fresh_node) = Some True"
    by (simp add: node_eval parent_waits_def Let_def)
  from run_node_view [OF this] obtain r where r: "exec_node list_io (Exit_call 7) (run_node parent_waits) = Some r" by auto
  from exit_status_kept [OF run_node_reach s(1,5) r] s r show ?thesis by auto
qed

end
