(* ===== verification/Spec2Isabelle.thy ===== *)
theory Spec2Isabelle
  imports Fifo_Buffer Dce_Alloc Sync_Runs Netlink_Properties Io_Properties Environment Process_Properties
begin

text \<open>
  Direct Code Execution (\<open>ns-3-dce\<close>) runs the binaries of real programs inside the ns-3 simulator. All
  processes of all simulated nodes live in one process of the host. The programs are linked with a C
  library whose functions are the \<open>dce_\<close> functions of \<open>src/model\<close>: each call of a program on memory,
  threads, descriptors, signals or processes ends in this code, which keeps for each node the state that
  the kernel of a real machine would keep. This library models that kernel and the netlink messages of
  \<open>src/netlink\<close>. Paths below are under \<open>src\<close>.

  \<^bold>\<open>The parts and how they interact.\<close>

  \<^item> The ns-3 event loop fires events. The task manager of a node (\<open>model/task-manager.cc\<close>) posts events
    to run its scheduler, picks a ready task from the queue of \<open>model/rr-task-scheduler.cc\<close> and switches to
    its fiber; the task runs until it sleeps, yields or exits, and the event loop goes on.
  \<^item> A thread of a simulated process is a task. Mutexes, semaphores, condition variables
    (\<open>model/dce-pthread-mutex.cc\<close>, \<open>model/dce-semaphore.cc\<close>, \<open>model/dce-pthread-cond.cc\<close>), the wait queues
    of the descriptors (\<open>model/wait-queue.cc\<close>), timers and \<open>waitpid\<close> (\<open>model/dce-wait.cc\<close>) put the running
    task to sleep and wake others up.
  \<^item> \<open>model/dce-manager.cc\<close> keeps the processes of the node: their tree, their threads, their descriptors
    (\<open>model/dce-fd.cc\<close>, \<open>model/file-usage.cc\<close>), heaps (\<open>model/kingsley-alloc.cc\<close>), signals and credentials;
    it starts, forks and ends them.
  \<^item> A descriptor stands for an object with a virtual interface (\<open>model/unix-fd.h\<close>). Pipes
    (\<open>model/pipe-fd.cc\<close>) and timers (\<open>model/unix-timer-fd.cc\<close>) are modelled; the bytes of a pipe are in a
    \<open>FifoBuffer\<close> (\<open>model/fifo-buffer.cc\<close>).

  \<^bold>\<open>How code becomes definitions.\<close>

  A class or struct is a record with the fields of the source, an enumeration or a hierarchy of classes a
  datatype, a method a function from the state to its result and the new state, under the name it has in
  the source (with the class in front or a suffix where the bare name is taken). Integers whose width
  matters are words of that width. A failed assertion, a fatal error, an access outside an array and an
  access to a deleted object are \<^term>\<open>None\<close>. An errno is a value of the result or a field of the thread.
  A call that has to wait is cut where its thread goes to sleep: its outcome is then that it is blocked,
  with the frames where it and its callers go on, and a later step of the same thread resumes them. The
  runs of a node are the states reached by a step relation in which any thread the task manager lets run
  makes any call, the simulator fires its next event, and other code of the node wakes tasks, so what
  holds in all reachable states holds for every program and every interleaving.

  \<^bold>\<open>The theories.\<close>

  \<^item> \<open>Prelude\<close>: names for the machine integers, the errno values, raw memory, and the collections of simp
    rules the component proofs share.
  \<^item> \<open>Byte_Queue\<close>, \<open>Fifo_Buffer\<close>: the byte buffer of \<open>model/fifo-buffer.cc\<close> over the block it allocates,
    with the pointers into it. The locale \<open>byte_queue\<close> says what a bounded queue promises (\<open>put\<close> and
    \<open>take_out\<close> on an abstract list) and its interpretation \<open>fifo_queue\<close> that the buffer keeps it. \<open>Write\<close>
    calls itself after it has moved or grown the buffer; it is a partial function, and proved to return
    for buffers up to \<open>2 ^ 62\<close> bytes, where the doubling of the size cannot overflow.
  \<^item> \<open>Kingsley_Alloc\<close>, \<open>Kingsley_Heap\<close>, \<open>Kingsley_Clone\<close>: the allocator of \<open>model/kingsley-alloc.cc\<close> over an
    explicit memory, in which the lists of free blocks are kept as in the code. The first holds the code,
    the second the invariant that no two blocks, in use or free, overlap, and its preservation by every
    operation, the third the copies of the heap that \<open>fork\<close> makes and the switch between them. \<open>Brk\<close>'s
    recursion is a partial function; what the host's \<open>mmap\<close> and \<open>malloc\<close> return is a parameter, of which
    it is assumed (\<open>host_ok\<close>) that fresh memory starts on a page and is apart from the memory in use.
  \<^item> \<open>Dce_Alloc\<close>: \<open>malloc\<close>, \<open>calloc\<close>, \<open>realloc\<close>, \<open>free\<close> and \<open>sbrk\<close> of \<open>model/dce-alloc.cc\<close>, and the locale
    \<open>allocator\<close>, interpreted on the Kingsley heap.
  \<^item> \<open>Rr_Scheduler\<close>: the locale \<open>task_scheduler\<close> (\<open>model/task-scheduler.h\<close>) and its interpretation on
    \<open>model/rr-task-scheduler.cc\<close>.
  \<^item> \<open>Task_Manager\<close>, \<open>Task_Invariant\<close>, \<open>Task_Steps\<close>, \<open>Task_Runs\<close>: the code of \<open>model/task-manager.cc\<close>, the
    invariant of its tasks, queue, events and timers, its preservation by every operation, and what holds in
    every run: one task runs at a time, no ready task is forgotten, no assertion fails. The simulator's
    event queue is a parameter with the laws \<open>simulator_ok\<close>: scheduling gives a fresh identifier,
    cancelling removes exactly one event, the next event is the earliest.
  \<^item> \<open>Thread_Manager\<close>: the locale \<open>thread_manager\<close>, what the synchronisation functions need of the task
    manager, interpreted on it.
  \<^item> \<open>Pthread_Sync\<close>, \<open>Pthread_Cond\<close>, \<open>Sync_Invariant\<close>, \<open>Sync_Steps\<close>, \<open>Sync_Runs\<close>: mutexes, semaphores and
    condition variables, the invariant that relates the suspended threads to the queues of the mutexes,
    exclusion and the absence of lost wakeups for mutexes; for semaphores and condition variables, runs in
    which a wakeup is lost.
  \<^item> \<open>Netlink_Buffer\<close>, \<open>Netlink_Attribute\<close>, \<open>Netlink_Route\<close>, \<open>Netlink_Message\<close>, \<open>Netlink_Codec\<close>,
    \<open>Netlink_Properties\<close>: the messages of \<open>netlink/netlink-attribute.cc\<close>, \<open>netlink/netlink-message-route.cc\<close>
    and \<open>netlink/netlink-message.cc\<close>, written to and read from a packet through the iterator of ns-3, a
    parameter whose laws are \<open>io_ok\<close>. Reading loops until the announced length is used up: a partial
    function, proved to return on what was written. The lemmas give the round trip for multi-part messages, the sizes, and the
    inputs on which sizes are wrong or reads leave their array.
  \<^item> \<open>Io_State\<close>, \<open>Pipe_Fd\<close>, \<open>Timer_Fd\<close>, \<open>File_Table\<close>, \<open>Poll_Select\<close>, \<open>Io_Calls\<close>: the descriptors of the
    processes of a node: errno, signals, wait queues and poll tables; pipes; timers and conversions of
    times; the tables of descriptors with the reference counts; \<open>poll\<close> and \<open>select\<close>; the calls of a
    program with their frames. Where the order of the bytes matters, \<open>env_ok\<close> assumes that the host's
    \<open>malloc\<close> gives blocks of the size asked for and does not fail up to the capacity of a pipe.
    \<open>MAX_FDS\<close> is 1024 as in the source.
  \<^item> \<open>Io_Quiet\<close>, \<open>Io_Pipes\<close>, \<open>Io_Tables\<close>, \<open>Io_Steps\<close>, \<open>Io_Runs\<close>, \<open>Io_Reach\<close>: which operations leave which part of the state alone;
    the bytes of the pipes; the invariant of the tables and counts; its preservation up to every reachable
    state. \<open>Io_Scripts\<close> evaluates runs given as lists of actions; \<open>Io_Properties\<close> states what follows.
    \<open>pipe_Close\<close>, in which the two ends close each other, is a partial function, proved to return always.
  \<^item> \<open>Environment\<close>: \<open>model/dce-env.cc\<close> over an explicit memory of strings and arrays. The loop of
    \<open>unsetenv\<close> is a partial function because it need not end.
  \<^item> \<open>Credentials\<close>: the identifiers of users and groups, \<open>model/dce.cc\<close> and \<open>model/dce-credentials.cc\<close>.
  \<^item> \<open>Process_Table\<close>, \<open>Process_Life\<close>, \<open>Process_Calls\<close>: the processes of a node and their threads: start,
    \<open>fork\<close>, \<open>exit\<close>, stop, \<open>waitpid\<close>, handlers at exit, signals and the functions on threads
    (\<open>model/dce-manager.cc\<close>, \<open>model/dce-pthread.cc\<close>, \<open>model/dce-wait.cc\<close>, \<open>model/waiter.cc\<close>,
    \<open>model/dce-cxa.cc\<close>, \<open>model/dce-signal.cc\<close>). \<open>node_step\<close> and \<open>node_reach\<close> are the runs of a whole node.
    Functions of the program that the code calls back (start routines, handlers, destructors) are recorded
    in the list \<open>called\<close>.
  \<^item> \<open>Task_Calm\<close>, \<open>Io_Calm\<close>: only the running task falls asleep, and the calls on descriptors leave the
    threads of the processes alone. \<open>Process_Tree\<close>: the tree of the processes. \<open>Process_Invariant\<close>,
    \<open>Process_Steps\<close>, \<open>Process_Ends\<close>, \<open>Process_Runs\<close>, \<open>Process_Waits\<close>, \<open>Process_Reach\<close>: the invariant of
    processes, threads and waiting calls, kept by changes of one thread or process, by the end of threads
    and processes, by every call, by \<open>waitpid\<close>, and so in every reachable state. \<open>Process_Scripts\<close>
    evaluates runs; \<open>Process_Properties\<close> states what follows.

  \<^bold>\<open>What is not modelled, and why.\<close>

  \<^item> Loading and \<open>exec\<close>: loaders, ELF files, the table of the C library's functions and its global
    variables. This is the linker's and the host's work; of a process's loader only whether it still has
    one is kept.
  \<^item> Fibers: stacks and machine contexts of the host. The task manager is modelled over their documented
    behaviour: a switch runs the other fiber until it switches back.
  \<^item> Files, directories and streams of the host, name resolution, calendar and string functions: the code
    passes the call on to the host, and its effect is the host's.
  \<^item> Sockets: those of ns-3, those of a Linux kernel, and netlink sockets only translate calls to code that is
    not in the repository. Local sockets (\<open>model/local-stream-socket-fd.cc\<close>,
    \<open>model/local-datagram-socket-fd.cc\<close>) use files of the host as their names and are left out with them.
  \<^item> The measurement of delays (\<open>model/process-delay-model.cc\<close>): the delay of a task is a parameter, not negative.
  \<^item> Temporary tasks and stacks for kernel code that runs in the simulator's context.
  \<^item> Attributes, helpers, examples, tests and tools: configuration of simulations, no kernel state.
\<close>

end
